(* ===== verification/Carrier_Prelude.thy ===== *)
theory Carrier_Prelude
  imports Main "HOL-Library.Word" "HOL-Library.Multiset"
begin

text \<open>
  Shared material of the development: the machine types of the C++ code, the list helpers of
  \<^verbatim>\<open>src/core/utils/list.h\<close>, the two \<^verbatim>\<open>std::list\<close> algorithms the code uses
  (stable \<^verbatim>\<open>sort\<close> and \<^verbatim>\<open>merge\<close>), the contract that a C++ comparator has to
  satisfy as the locale \<open>std_compare\<close>, and bit-level lemmas on naturals.
\<close>

unbundle bit_operations_syntax

section \<open>Machine types\<close>

type_synonym byte = "8 word"
type_synonym u16 = "16 word"
type_synonym u32 = "32 word"
type_synonym u64 = "64 word"

text \<open>Rewriting collections used by the component theories.\<close>

named_theorems id_simps \<open>ids and prefixes expressed through their numeric value\<close>
named_theorems bucket_simps \<open>characteristic equations of the bucket operations\<close>

text \<open>The value of a C++ \<^verbatim>\<open>int\<close> expression whose mathematical result is \<open>x\<close>, with
  the two's complement wrap-around written out.\<close>

definition int32 :: "int \<Rightarrow> int" where
  "int32 x = signed_take_bit 31 x"

lemma int32_id: "- (2 ^ 31) \<le> x \<Longrightarrow> x < 2 ^ 31 \<Longrightarrow> int32 x = x"
  unfolding int32_def by (simp add: signed_take_bit_int_eq_self)

section \<open>List helpers\<close>

text \<open>\<^verbatim>\<open>list_get\<close> advances an iterator and dereferences it; outside the list this is
  undefined behaviour, the value \<open>None\<close> here.\<close>

definition list_get :: "'a list \<Rightarrow> int \<Rightarrow> 'a option" where
  "list_get xs index = (if 0 \<le> index \<and> index < int (length xs) then Some (xs ! nat index) else None)"

fun erase_first :: "('a \<Rightarrow> bool) \<Rightarrow> 'a list \<Rightarrow> 'a list" where
  "erase_first p [] = []"
| "erase_first p (x # xs) = (if p x then xs else x # erase_first p xs)"

text \<open>\<open>eq\<close> is the equality of the element type: for \<^verbatim>\<open>Sp<T>\<close> elements it compares object
  identities.\<close>

definition list_removeAll :: "('a \<Rightarrow> 'a \<Rightarrow> bool) \<Rightarrow> 'a list \<Rightarrow> 'a list \<Rightarrow> 'a list" where
  "list_removeAll eq xs toRemove = foldl (\<lambda>l r. erase_first (\<lambda>x. eq x r) l) xs toRemove"

definition list_addAll :: "'a list \<Rightarrow> 'a list \<Rightarrow> 'a list" where
  "list_addAll xs toAdd = foldl (\<lambda>l a. l @ [a]) xs toAdd"

definition vector_contains :: "'a list \<Rightarrow> 'a \<Rightarrow> bool" where
  "vector_contains xs val = (find (\<lambda>x. x = val) xs \<noteq> None)"

lemma list_get_Some: "list_get xs i = Some x \<longleftrightarrow> 0 \<le> i \<and> i < int (length xs) \<and> xs ! nat i = x"
  by (auto simp: list_get_def)

lemma list_get_nth [simp]: "i < length xs \<Longrightarrow> list_get xs (int i) = Some (xs ! i)"
  by (simp add: list_get_def)

lemma findD: "find p xs = Some x \<Longrightarrow> x \<in> set xs \<and> p x"
  by (auto simp: find_Some_iff)

lemma list_addAll_append [simp]: "list_addAll xs ys = xs @ ys"
  by (induction ys arbitrary: xs rule: list.induct) (auto simp: list_addAll_def)

lemma vector_contains_iff [simp]: "vector_contains xs v \<longleftrightarrow> v \<in> set xs"
  by (auto simp: vector_contains_def find_None_iff)

lemma set_erase_first_subset: "set (erase_first p xs) \<subseteq> set xs"
  by (induction xs) auto

lemma erase_first_none: "\<forall>x\<in>set xs. \<not> p x \<Longrightarrow> erase_first p xs = xs"
  by (induction xs) auto

lemma erase_first_append:
  "\<forall>x\<in>set xs. \<not> p x \<Longrightarrow> p y \<Longrightarrow> erase_first p (xs @ y # ys) = xs @ ys"
  by (induction xs) auto

text \<open>With pairwise different keys erasing the first element with a key is filtering it out.\<close>

lemma erase_first_filter:
  "distinct (map f xs) \<Longrightarrow> erase_first (\<lambda>x. f x = k) xs = filter (\<lambda>x. f x \<noteq> k) xs"
proof (induction xs)
  case Nil
  then show ?case by simp
next
  case (Cons x xs)
  have "f x = k \<Longrightarrow> filter (\<lambda>y. f y \<noteq> k) xs = xs"
    using Cons.prems by (intro filter_True) (metis distinct.simps(2) imageI list.simps(9) set_map)
  with Cons show ?case by auto
qed

section \<open>Stable sort and merge of \<^verbatim>\<open>std::list\<close>\<close>

fun insort_lt :: "('a \<Rightarrow> 'a \<Rightarrow> bool) \<Rightarrow> 'a \<Rightarrow> 'a list \<Rightarrow> 'a list" where
  "insort_lt lt x [] = [x]"
| "insort_lt lt x (y # ys) = (if lt y x then y # insort_lt lt x ys else x # y # ys)"

definition list_sort :: "('a \<Rightarrow> 'a \<Rightarrow> bool) \<Rightarrow> 'a list \<Rightarrow> 'a list" where
  "list_sort lt xs = foldr (insort_lt lt) xs []"

text \<open>\<^verbatim>\<open>std::list::merge\<close> takes an element of the second list only when it is less than
  the head of the first.\<close>

fun list_merge :: "('a \<Rightarrow> 'a \<Rightarrow> bool) \<Rightarrow> 'a list \<Rightarrow> 'a list \<Rightarrow> 'a list" where
  "list_merge lt [] ys = ys"
| "list_merge lt xs [] = xs"
| "list_merge lt (x # xs) (y # ys) =
     (if lt y x then y # list_merge lt (x # xs) ys else x # list_merge lt xs (y # ys))"

lemma mset_insort_lt: "mset (insort_lt lt x xs) = add_mset x (mset xs)"
  by (induction xs) auto

lemma mset_list_sort [simp]: "mset (list_sort lt xs) = mset xs"
  by (induction xs) (auto simp: list_sort_def mset_insort_lt)

lemma mset_list_merge [simp]: "mset (list_merge lt xs ys) = mset xs + mset ys"
  by (induction lt xs ys rule: list_merge.induct) auto

lemma set_list_sort [simp]: "set (list_sort lt xs) = set xs"
  by (metis mset_list_sort set_mset_mset)

lemma length_list_sort [simp]: "length (list_sort lt xs) = length xs"
  by (metis mset_list_sort size_mset)

lemma set_list_merge [simp]: "set (list_merge lt xs ys) = set xs \<union> set ys"
  by (metis mset_list_merge set_mset_mset set_mset_union)

lemma length_list_merge [simp]: "length (list_merge lt xs ys) = length xs + length ys"
  by (metis mset_list_merge size_mset size_union)

lemma distinct_map_mset: "mset xs = mset ys \<Longrightarrow> distinct (map f xs) = distinct (map f ys)"
  by (metis mset_eq_imp_distinct_iff mset_map)

text \<open>
  The contract of a comparator: on the valid elements it is the strict order of a numeric key,
  which gives the strict weak order that the C++ library requires. The algorithms then agree
  with the key-based ones of the HOL library.
\<close>

locale std_compare =
  fixes lt :: "'a \<Rightarrow> 'a \<Rightarrow> bool"
    and key :: "'a \<Rightarrow> nat"
    and valid :: "'a \<Rightarrow> bool"
  assumes lt_key: "valid x \<Longrightarrow> valid y \<Longrightarrow> lt x y \<longleftrightarrow> key x < key y"
begin

lemma insort_lt_key: "valid x \<Longrightarrow> \<forall>y\<in>set xs. valid y \<Longrightarrow> insort_lt lt x xs = insort_key key x xs"
  by (induction xs) (auto simp: lt_key)

lemma list_sort_key: "\<forall>x\<in>set xs. valid x \<Longrightarrow> list_sort lt xs = sort_key key xs"
proof (induction xs)
  case Nil
  then show ?case by (simp add: list_sort_def)
next
  case (Cons x xs)
  then have "list_sort lt (x # xs) = insort_lt lt x (sort_key key xs)"
    by (simp add: list_sort_def)
  also have "\<dots> = insort_key key x (sort_key key xs)"
    using Cons.prems by (intro insort_lt_key) auto
  finally show ?case by simp
qed

lemma sorted_list_sort: "\<forall>x\<in>set xs. valid x \<Longrightarrow> sorted (map key (list_sort lt xs))"
  by (simp add: list_sort_key)

lemma sorted_list_merge:
  assumes "\<forall>x\<in>set xs. valid x" "\<forall>y\<in>set ys. valid y"
    and "sorted (map key xs)" "sorted (map key ys)"
  shows "sorted (map key (list_merge lt xs ys))"
  using assms
proof (induction xs arbitrary: ys)
  case Nil
  then show ?case by simp
next
  case (Cons x xs)
  note outer_IH = Cons.IH and outer = Cons.prems
  from Cons.prems(2,4) show ?case
  proof (induction ys)
    case Nil
    then show ?case using outer by simp
  next
    case (Cons y ys)
    show ?case
    proof (cases "lt y x")
      case True
      then have "key y \<le> key x" using lt_key Cons.prems outer by fastforce
      moreover have "sorted (map key (list_merge lt (x # xs) ys))"
        using Cons by auto
      ultimately show ?thesis using True Cons.prems outer by auto
    next
      case False
      then have "key x \<le> key y" using lt_key Cons.prems outer by fastforce
      moreover have "sorted (map key (list_merge lt xs (y # ys)))"
        using Cons.prems outer by (intro outer_IH) auto
      ultimately show ?thesis using False Cons.prems outer by auto
    qed
  qed
qed

lemma list_sort_hd_least:
  assumes "\<forall>x\<in>set xs. valid x" "list_sort lt xs = m # ms" "x \<in> set xs"
  shows "m \<in> set xs \<and> key m \<le> key x"
proof -
  have s: "set (m # ms) = set xs"
    using assms(2) set_list_sort by metis
  have "sorted (map key (m # ms))"
    using sorted_list_sort [OF assms(1)] assms(2) by simp
  with s assms(3) show ?thesis by auto
qed

end

text \<open>A sorted list with pairwise different keys is determined by its elements.\<close>

lemma sorted_key_unique:
  assumes "sorted (map f xs)" "sorted (map f ys)" "distinct (map f xs)" "mset xs = mset ys"
  shows "xs = ys"
proof -
  have m: "mset (map f xs) = mset (map f ys)"
    using assms(4) by simp
  have "map f xs = map f ys"
    using properties_for_sort [OF m [symmetric] assms(2)] properties_for_sort [OF refl assms(1)] assms(1)
    by (metis m properties_for_sort)
  moreover have "inj_on f (set xs \<union> set ys)"
    using assms(3) mset_eq_setD [OF assms(4)] by (simp add: distinct_map)
  ultimately show ?thesis by (rule map_inj_on)
qed

section \<open>Bits of naturals\<close>

lemma bit_cat:
  fixes a c :: nat
  assumes "c < 2 ^ n"
  shows "bit (a * 2 ^ n + c) k = (if k < n then bit c k else bit a (k - n))"
proof -
  have c: "take_bit n c = c"
    using assms by (simp add: take_bit_nat_eq_self)
  have "push_bit n a OR take_bit n c = push_bit n a + take_bit n c"
    by (rule disjunctive_add_eq_or [symmetric]) (auto intro!: bit_eqI simp: bit_simps)
  then have e: "a * 2 ^ n + c = push_bit n a OR take_bit n c"
    by (simp add: c push_bit_eq_mult)
  show ?thesis
    unfolding e using c by (auto simp: bit_simps) (metis bit_take_bit_iff)+
qed

lemma div_eq_bits:
  fixes a b :: nat
  shows "a div 2 ^ m = b div 2 ^ m \<longleftrightarrow> (\<forall>k\<ge>m. bit a k = bit b k)"
proof -
  have "a div 2 ^ m = b div 2 ^ m \<longleftrightarrow> drop_bit m a = drop_bit m b"
    by (simp add: drop_bit_eq_div)
  also have "\<dots> \<longleftrightarrow> (\<forall>k. bit a (m + k) = bit b (m + k))"
    by (auto simp: bit_eq_iff bit_drop_bit_eq)
  also have "\<dots> \<longleftrightarrow> (\<forall>k\<ge>m. bit a k = bit b k)"
    by (metis le_add1 le_Suc_ex)
  finally show ?thesis .
qed

lemma div_eq_interval:
  fixes x q s :: nat
  assumes "0 < s"
  shows "x div s = q \<longleftrightarrow> q * s \<le> x \<and> x < q * s + s"
proof
  assume "x div s = q"
  then show "q * s \<le> x \<and> x < q * s + s"
    using dividend_less_div_times [OF assms, of x] by (auto simp: add.commute)
next
  assume "q * s \<le> x \<and> x < q * s + s"
  then show "x div s = q" by (intro div_nat_eqI) (simp_all add: mult.commute)
qed

lemma not_bit_ge: "(n::nat) < 2 ^ m \<Longrightarrow> m \<le> k \<Longrightarrow> \<not> bit n k"
  by (metis bit_take_bit_iff linorder_not_less take_bit_nat_eq_self)

end
