(* ===== verification/Ids.thy ===== *)
theory Ids
  imports Carrier_Prelude
begin

text \<open>
  The 256-bit identifiers of \<^verbatim>\<open>src/core/id.cc\<close> and \<^verbatim>\<open>include/carrier/id.h\<close>:
  a \<^verbatim>\<open>std::array<uint8_t, 32>\<close> as a byte list of length 32 (\<open>wf_id\<close>), with the XOR
  distance, the three-way comparison relative to a target, the bit-prefix comparison and copy,
  and the leading-zero count. \<open>id_val\<close> reads an id as a big-endian natural number; the lemmas
  express every operation through it, and the other theories reason about that number only.
\<close>

section \<open>Definitions\<close>

type_synonym Id = "byte list"

definition wf_id :: "Id \<Rightarrow> bool" where
  "wf_id x \<longleftrightarrow> length x = 32"

definition MIN_ID :: Id where
  "MIN_ID = replicate 32 0"

definition MAX_ID :: Id where
  "MAX_ID = replicate 32 255"

definition distance :: "Id \<Rightarrow> Id \<Rightarrow> Id" where
  "distance this to = map2 (\<lambda>a b. a XOR b) this to"

text \<open>The search loop shared by the two comparisons: the least index at which the bytes differ.\<close>

definition first_mismatch :: "Id \<Rightarrow> Id \<Rightarrow> nat option" where
  "first_mismatch id1 id2 = find (\<lambda>i. id1 ! i \<noteq> id2 ! i) [0..<32]"

definition threeWayCompare :: "Id \<Rightarrow> Id \<Rightarrow> Id \<Rightarrow> int" where
  "threeWayCompare this id1 id2 =
     (case first_mismatch id1 id2 of
        None \<Rightarrow> 0
      | Some mmi \<Rightarrow>
          (let a = id1 ! mmi XOR this ! mmi;
               b = id2 ! mmi XOR this ! mmi
           in if a < b then -1 else if b < a then 1 else 0))"

text \<open>\<^verbatim>\<open>0xff80 >> k\<close>, cut to the byte it is combined with.\<close>

definition prefix_mask :: "nat \<Rightarrow> byte" where
  "prefix_mask k = word_of_int (drop_bit k 0xff80)"

definition bitsEqual :: "Id \<Rightarrow> Id \<Rightarrow> int \<Rightarrow> bool" where
  "bitsEqual id1 id2 n =
     (if n < 0 then True
      else let indexToCheck = nat (n div 8);
               diff = id1 ! indexToCheck XOR id2 ! indexToCheck;
               bitsDiff = (diff AND prefix_mask (nat (n mod 8)) = 0)
           in case first_mismatch id1 id2 of
                None \<Rightarrow> True
              | Some mmi \<Rightarrow> if mmi = indexToCheck then bitsDiff else indexToCheck < mmi)"

definition bitsCopy :: "Id \<Rightarrow> Id \<Rightarrow> int \<Rightarrow> Id" where
  "bitsCopy src dest depth =
     (if depth < 0 then dest
      else let idx = nat (depth div 8);
               dest1 = (if 0 < idx then take idx src @ drop idx dest else dest);
               mask = prefix_mask (nat (depth mod 8));
               dest2 = dest1[idx := dest1 ! idx AND NOT mask]
           in dest2[idx := dest2 ! idx OR (src ! idx AND mask)])"

fun zero_bytes :: "Id \<Rightarrow> nat" where
  "zero_bytes [] = 0"
| "zero_bytes (b # bs) = (if b = 0 then Suc (zero_bytes bs) else 0)"

definition getLeadingZeros :: "Id \<Rightarrow> int" where
  "getLeadingZeros x =
     (let i = zero_bytes x;
          msb = int (i * 8)
      in if i < 32
         then let b0 = x ! i;
                  n0 = (7::int);
                  (n1, b1) = (if 16 \<le> b0 then (n0 - 4, drop_bit 4 b0) else (n0, b0));
                  (n2, b2) = (if 4 \<le> b1 then (n1 - 2, drop_bit 2 b1) else (n1, b1))
              in msb + (n2 - uint (drop_bit 1 b2))
         else msb)"

text \<open>\<^verbatim>\<open>std::memcmp\<close>: only the sign of its result is specified and used.\<close>

fun memcmp :: "byte list \<Rightarrow> byte list \<Rightarrow> int" where
  "memcmp (a # as) (b # bs) = (if a < b then -1 else if b < a then 1 else memcmp as bs)"
| "memcmp _ _ = 0"

definition compareTo :: "Id \<Rightarrow> Id \<Rightarrow> int" where
  "compareTo this other = memcmp this other"

definition id_eq :: "Id \<Rightarrow> Id \<Rightarrow> bool" where
  "id_eq this other \<longleftrightarrow> compareTo this other = 0"

text \<open>\<^verbatim>\<open>operator<\<close> is \<^verbatim>\<open>std::lexicographical_compare\<close> on the bytes.\<close>

fun lexicographical_compare :: "byte list \<Rightarrow> byte list \<Rightarrow> bool" where
  "lexicographical_compare (a # as) (b # bs) =
     (if a < b then True else if b < a then False else lexicographical_compare as bs)"
| "lexicographical_compare [] (b # bs) = True"
| "lexicographical_compare _ [] = False"

definition id_less :: "Id \<Rightarrow> Id \<Rightarrow> bool" where
  "id_less this other = lexicographical_compare this other"

text \<open>\<^verbatim>\<open>toBinaryString\<close> indexes the byte array with \<^verbatim>\<open>i / 3\<close>; a read outside the array
  is the value \<open>None\<close>.\<close>

fun binary_chars :: "Id \<Rightarrow> nat list \<Rightarrow> string option" where
  "binary_chars x [] = Some []"
| "binary_chars x (i # is) =
     (if i div 3 < length x
      then (case binary_chars x is of
              None \<Rightarrow> None
            | Some s \<Rightarrow>
                Some ((if x ! (i div 3) AND drop_bit (i mod 8) 0x80 \<noteq> 0 then CHR ''1'' else CHR ''0'')
                  # (if i mod 4 = 3 then [CHR '' ''] else []) @ s))
      else None)"

definition toBinaryString :: "Id \<Rightarrow> string option" where
  "toBinaryString x = binary_chars x [0..<256]"

section \<open>The numeric value of an id\<close>

definition id_val :: "Id \<Rightarrow> nat" where
  "id_val bs = foldl (\<lambda>acc b. acc * 256 + unat b) 0 bs"

lemma id_val_Nil [simp]: "id_val [] = 0"
  by (simp add: id_val_def)

lemma id_val_snoc: "id_val (xs @ [b]) = id_val xs * 256 + unat b"
  by (simp add: id_val_def)

lemma unat_byte [simp]: "unat (b :: byte) < 256"
  using unsigned_less [of b, where 'a = nat] by simp

lemma id_val_less: "id_val xs < 256 ^ length xs"
proof (induction xs rule: rev_induct)
  case (snoc b xs)
  have "id_val xs * 256 + unat b < (id_val xs + 1) * 256" by simp
  also have "\<dots> \<le> 256 ^ length xs * 256" using snoc by (intro mult_right_mono) auto
  finally show ?case by (simp add: id_val_snoc mult.commute)
qed simp

lemma id_val_Cons: "id_val (b # bs) = unat b * 256 ^ length bs + id_val bs"
proof (induction bs rule: rev_induct)
  case Nil
  then show ?case by (simp add: id_val_def)
next
  case (snoc c bs)
  have "id_val (b # (bs @ [c])) = id_val (b # bs) * 256 + unat c"
    by (metis append_Cons id_val_snoc)
  with snoc show ?case by (simp add: id_val_snoc algebra_simps)
qed

lemma id_val_wf: "wf_id x \<Longrightarrow> id_val x < 2 ^ 256"
  using id_val_less [of x] by (simp add: wf_id_def)

lemma wf_idD: "wf_id x \<Longrightarrow> length x = 32"
  by (simp add: wf_id_def)

lemma unat_bit: "bit (unat (b :: byte)) k = bit b k"
  by (simp add: bit_unsigned_iff)

lemma bit_id_val:
  "bit (id_val xs) k \<longleftrightarrow> k < 8 * length xs \<and> bit (xs ! (length xs - 1 - k div 8)) (k mod 8)"
proof (induction xs arbitrary: k rule: rev_induct)
  case Nil
  then show ?case by simp
next
  case (snoc b xs)
  have e: "bit (id_val (xs @ [b])) k = (if k < 8 then bit b k else bit (id_val xs) (k - 8))"
    using bit_cat [of "unat b" 8 "id_val xs" k] by (simp add: id_val_snoc unat_bit)
  show ?case
  proof (cases "k < 8")
    case True
    then show ?thesis by (simp add: e nth_append)
  next
    case False
    then have d: "k div 8 = Suc ((k - 8) div 8)" "k mod 8 = (k - 8) mod 8"
      by (simp_all add: le_div_geq le_mod_geq)
    show ?thesis
    proof (cases "k < 8 * length (xs @ [b])")
      case True
      with False have "(k - 8) div 8 < length xs" by auto
      with False True show ?thesis
        by (simp add: e snoc d nth_append) (auto simp: diff_diff_left)
    next
      case False
      then show ?thesis using \<open>\<not> k < 8\<close> by (simp add: e snoc) linarith
    qed
  qed
qed

lemma byte_index_split: "k < 256 \<Longrightarrow> 255 - k = (31 - k div 8) * 8 + (7 - k mod 8)" for k :: nat
proof -
  assume "k < 256"
  then have "k div 8 \<le> 31" by simp
  moreover have "k = k div 8 * 8 + k mod 8" "k mod 8 < 8" by simp_all
  ultimately show ?thesis
    by linarith
qed

text \<open>Bit \<open>i\<close> of an id, counted from the most significant one.\<close>

definition id_bit :: "Id \<Rightarrow> nat \<Rightarrow> bool" where
  "id_bit x i = bit (x ! (i div 8)) (7 - i mod 8)"

lemma bit_id_val_wf: "wf_id x \<Longrightarrow> bit (id_val x) k \<longleftrightarrow> k < 256 \<and> id_bit x (255 - k)"
proof -
  assume w: "wf_id x"
  have "(255 - k) div 8 = 31 - k div 8 \<and> 7 - (255 - k) mod 8 = k mod 8" if "k < 256"
  proof -
    have "255 - k = (31 - k div 8) * 8 + (7 - k mod 8)"
      using that by (metis (no_types) byte_index_split)
    moreover have "7 - k mod 8 < 8" by simp
    ultimately have "(255 - k) div 8 = 31 - k div 8" "(255 - k) mod 8 = 7 - k mod 8"
      by (simp_all only: div_mult_self3 mod_mult_self3) simp_all
    then show ?thesis by simp
  qed
  with w show ?thesis by (auto simp: bit_id_val wf_id_def id_bit_def)
qed

lemma id_val_inj: "length x = length y \<Longrightarrow> id_val x = id_val y \<Longrightarrow> x = y"
proof (induction x y rule: rev_induct2)
  case (4 x xs y ys)
  then have e: "id_val xs * 256 + unat x = id_val ys * 256 + unat y" by (simp add: id_val_snoc)
  have "unat x = unat y"
    using arg_cong [OF e, of "\<lambda>n. n mod 256"] by simp
  moreover have "id_val xs = id_val ys"
    using arg_cong [OF e, of "\<lambda>n. n div 256"] by simp
  ultimately show ?case using 4 by (auto intro: word_unat_eq_iff [THEN iffD2])
qed auto

lemma id_val_inject: "wf_id x \<Longrightarrow> wf_id y \<Longrightarrow> id_val x = id_val y \<longleftrightarrow> x = y"
  using id_val_inj by (auto simp: wf_id_def)

lemma memcmp_val:
  "length a = length b \<Longrightarrow> memcmp a b = sgn (int (id_val a) - int (id_val b))"
proof (induction a b rule: list_induct2)
  case Nil
  then show ?case by simp
next
  case (Cons a as b bs)
  let ?p = "256 ^ length as :: nat"
  have la: "id_val as < ?p" and lb: "id_val bs < ?p"
    using id_val_less [of as] id_val_less [of bs] Cons.hyps by simp_all
  have step: "unat u < unat v \<Longrightarrow> id_val us < ?p \<Longrightarrow> unat u * ?p + id_val us < unat v * ?p + id_val vs"
    for u v :: byte and us vs
  proof -
    assume "unat u < unat v" "id_val us < ?p"
    then have "unat u * ?p + id_val us < (unat u + 1) * ?p" by simp
    also have "\<dots> \<le> unat v * ?p" using \<open>unat u < unat v\<close> by (intro mult_right_mono) auto
    finally show ?thesis by simp
  qed
  have v: "id_val (a # as) = unat a * ?p + id_val as" "id_val (b # bs) = unat b * ?p + id_val bs"
    using Cons.hyps by (simp_all add: id_val_Cons)
  consider "a < b" | "b < a" | "a = b" by force
  then show ?case
  proof cases
    case 1
    then have "id_val (a # as) < id_val (b # bs)"
      unfolding v using la by (intro step) (simp_all add: word_less_nat_alt)
    with 1 show ?thesis by simp
  next
    case 2
    then have "id_val (b # bs) < id_val (a # as)"
      unfolding v using lb by (intro step) (simp_all add: word_less_nat_alt)
    with 2 show ?thesis by auto
  next
    case 3
    then show ?thesis unfolding v using Cons.IH by simp
  qed
qed

lemma lexicographical_compare_memcmp:
  "length a = length b \<Longrightarrow> lexicographical_compare a b \<longleftrightarrow> memcmp a b < 0"
  by (induction a b rule: list_induct2) auto

lemma compareTo_val [id_simps]:
  assumes "wf_id x" "wf_id y"
  shows "compareTo x y < 0 \<longleftrightarrow> id_val x < id_val y"
    and "0 < compareTo x y \<longleftrightarrow> id_val y < id_val x"
    and "compareTo x y = 0 \<longleftrightarrow> x = y"
  using assms memcmp_val [of x y] id_val_inject [of x y]
  by (auto simp: compareTo_def wf_id_def sgn_if split: if_splits)

lemma id_less_val [id_simps]: "wf_id x \<Longrightarrow> wf_id y \<Longrightarrow> id_less x y \<longleftrightarrow> id_val x < id_val y"
  using compareTo_val(1) [of x y]
  by (simp add: id_less_def lexicographical_compare_memcmp compareTo_def wf_id_def)

lemma id_eq_iff [simp]: "wf_id x \<Longrightarrow> wf_id y \<Longrightarrow> id_eq x y \<longleftrightarrow> x = y"
  by (simp add: id_eq_def compareTo_val)

section \<open>The operations through the numeric value\<close>

lemma length_distance: "length (distance x y) = min (length x) (length y)"
  by (simp add: distance_def)

lemma wf_distance [simp]: "wf_id x \<Longrightarrow> wf_id y \<Longrightarrow> wf_id (distance x y)"
  by (simp add: wf_id_def length_distance)

lemma wf_MIN_ID [simp]: "wf_id MIN_ID" and wf_MAX_ID [simp]: "wf_id MAX_ID"
  by (simp_all add: wf_id_def MIN_ID_def MAX_ID_def)

lemma distance_nth: "i < length x \<Longrightarrow> i < length y \<Longrightarrow> distance x y ! i = x ! i XOR y ! i"
  by (simp add: distance_def)

lemma id_bit_distance:
  "wf_id x \<Longrightarrow> wf_id y \<Longrightarrow> i < 256 \<Longrightarrow> id_bit (distance x y) i = (id_bit x i \<noteq> id_bit y i)"
  by (simp add: id_bit_def distance_nth wf_id_def bit_xor_iff)

lemma distance_val [id_simps]:
  assumes "wf_id x" "wf_id y"
  shows "id_val (distance x y) = id_val x XOR id_val y"
proof (rule bit_eqI)
  fix k :: nat
  show "bit (id_val (distance x y)) k = bit (id_val x XOR id_val y) k"
    using assms by (auto simp: bit_id_val_wf bit_xor_iff id_bit_distance)
qed

lemma distance_commute: "distance x y = distance y x"
  unfolding distance_def by (rule nth_equalityI) (auto simp: xor.commute)

lemma id_val_MIN_ID [simp]: "id_val MIN_ID = 0"
  by (rule bit_eqI) (simp add: bit_id_val MIN_ID_def)

lemma bit_MAX_ID: "bit (id_val MAX_ID) k \<longleftrightarrow> k < 256"
proof -
  have "(255 :: byte) = mask 8" by (simp add: mask_eq_exp_minus_1)
  then have "bit (255 :: byte) (k mod 8)" by (simp only: bit_mask_iff) simp
  then show ?thesis by (auto simp: bit_id_val MAX_ID_def)
qed

lemma id_val_MAX_ID [simp]: "id_val MAX_ID = 2 ^ 256 - 1"
proof -
  have "id_val MAX_ID = mask 256"
    by (rule bit_eqI) (simp add: bit_MAX_ID bit_mask_iff)
  then show ?thesis by (simp add: mask_eq_exp_minus_1)
qed

lemma first_mismatch_Some:
  "first_mismatch x y = Some m \<longleftrightarrow> m < 32 \<and> x ! m \<noteq> y ! m \<and> (\<forall>i<m. x ! i = y ! i)"
  unfolding first_mismatch_def find_Some_iff by (auto simp: less_imp_le_nat)

lemma first_mismatch_None: "first_mismatch x y = None \<longleftrightarrow> (\<forall>i<32. x ! i = y ! i)"
  unfolding first_mismatch_def find_None_iff by auto

lemma first_mismatch_None_wf: "wf_id x \<Longrightarrow> wf_id y \<Longrightarrow> first_mismatch x y = None \<longleftrightarrow> x = y"
  unfolding first_mismatch_None wf_id_def by (auto intro: nth_equalityI)

lemma memcmp_at:
  "length a = length b \<Longrightarrow> m < length a \<Longrightarrow> \<forall>i<m. a ! i = b ! i \<Longrightarrow> a ! m \<noteq> b ! m \<Longrightarrow>
     memcmp a b = (if a ! m < b ! m then -1 else 1)"
proof (induction a b arbitrary: m rule: list_induct2)
  case (Cons a as b bs)
  show ?case
  proof (cases m)
    case 0
    with Cons.prems show ?thesis by auto
  next
    case (Suc k)
    have "a = b" using Cons.prems(2) Suc by force
    moreover have "memcmp as bs = (if as ! k < bs ! k then -1 else 1)"
      using Cons.prems Suc by (intro Cons.IH) auto
    ultimately show ?thesis using Suc by simp
  qed
qed simp

lemma xor_cancel_right: "(a :: byte) XOR c = b XOR c \<longleftrightarrow> a = b"
proof
  assume "a XOR c = b XOR c"
  then have "(a XOR c) XOR c = (b XOR c) XOR c" by simp
  then show "a = b" by (simp add: xor.assoc)
qed simp

text \<open>The comparison at the first differing byte is the comparison of the two distances.\<close>

lemma threeWayCompare_memcmp:
  assumes "wf_id t" "wf_id x" "wf_id y"
  shows "threeWayCompare t x y = compareTo (distance x t) (distance y t)"
proof (cases "first_mismatch x y")
  case None
  then show ?thesis
    using assms first_mismatch_None_wf [of x y] by (simp add: threeWayCompare_def compareTo_val)
next
  case (Some m)
  then have m: "m < 32" "x ! m \<noteq> y ! m" "\<forall>i<m. x ! i = y ! i"
    by (auto simp: first_mismatch_Some)
  have ne: "x ! m XOR t ! m \<noteq> y ! m XOR t ! m"
    using m(2) by (simp add: xor_cancel_right)
  have "memcmp (distance x t) (distance y t) =
      (if x ! m XOR t ! m < y ! m XOR t ! m then -1 else 1)"
    using assms m ne memcmp_at [of "distance x t" "distance y t" m]
    by (simp add: length_distance wf_id_def distance_nth)
  with Some ne show ?thesis
    by (auto simp: threeWayCompare_def compareTo_def Let_def)
qed

lemma threeWayCompare_val [id_simps]:
  assumes "wf_id t" "wf_id x" "wf_id y"
  shows "threeWayCompare t x y < 0 \<longleftrightarrow> id_val (distance t x) < id_val (distance t y)"
    and "0 < threeWayCompare t x y \<longleftrightarrow> id_val (distance t y) < id_val (distance t x)"
    and "threeWayCompare t x y = 0 \<longleftrightarrow> distance t x = distance t y"
  using assms
  by (simp_all add: threeWayCompare_memcmp compareTo_val distance_commute [of t])

lemma bit_ff80: "bit (0xff80 :: int) n \<longleftrightarrow> 7 \<le> n \<and> n < 16"
proof -
  have "(0xff80 :: int) = push_bit 7 (mask 9)" by (simp add: push_bit_eq_mult mask_eq_exp_minus_1)
  then show ?thesis by (simp only: bit_push_bit_iff bit_mask_iff) auto
qed

lemma bit_prefix_mask: "k < 8 \<Longrightarrow> bit (prefix_mask k) j \<longleftrightarrow> 7 - k \<le> j \<and> j < 8"
  unfolding prefix_mask_def bit_word_of_int_iff bit_drop_bit_eq o_apply bit_ff80 by auto

lemma and_prefix_mask_eq_0:
  "k < 8 \<Longrightarrow> (d :: byte) AND prefix_mask k = 0 \<longleftrightarrow> (\<forall>j<8. 7 - k \<le> j \<longrightarrow> \<not> bit d j)"
  by (auto simp: bit_eq_iff bit_and_iff bit_prefix_mask)

lemma byte_eq_bits: "(a :: byte) = b \<longleftrightarrow> (\<forall>j<8. bit a (7 - j) = bit b (7 - j))"
proof
  assume r: "\<forall>j<8. bit a (7 - j) = bit b (7 - j)"
  have "bit a j = bit b j" if "j < 8" for j
    using r [rule_format, of "7 - j"] that by simp
  then show "a = b" by (intro bit_word_eqI) simp
qed simp

lemma index_split: "i \<le> n \<longleftrightarrow> i div 8 < n div 8 \<or> (i div 8 = n div 8 \<and> i mod 8 \<le> n mod 8)" for i n :: nat
proof -
  have "i = i div 8 * 8 + i mod 8" "n = n div 8 * 8 + n mod 8" "i mod 8 < 8" "n mod 8 < 8" by simp_all
  then show ?thesis by linarith
qed

lemma bitsEqual_id_bit:
  assumes "wf_id x" "wf_id y" "n < 256"
  shows "bitsEqual x y (int n) \<longleftrightarrow> (\<forall>i\<le>n. id_bit x i = id_bit y i)"
proof -
  let ?q = "n div 8" and ?r = "n mod 8"
  have bytes: "x ! p = y ! p \<longleftrightarrow> (\<forall>j<8. id_bit x (p * 8 + j) = id_bit y (p * 8 + j))" for p
    by (simp add: id_bit_def byte_eq_bits)
  have last: "(x ! ?q XOR y ! ?q) AND prefix_mask ?r = 0 \<longleftrightarrow>
      (\<forall>j\<le>?r. id_bit x (?q * 8 + j) = id_bit y (?q * 8 + j))" (is "?L \<longleftrightarrow> ?R")
  proof -
    have "?L \<longleftrightarrow> (\<forall>j<8. 7 - ?r \<le> j \<longrightarrow> bit (x ! ?q) j = bit (y ! ?q) j)"
      by (subst and_prefix_mask_eq_0) (auto simp: bit_xor_iff)
    also have "\<dots> \<longleftrightarrow> (\<forall>j\<le>?r. bit (x ! ?q) (7 - j) = bit (y ! ?q) (7 - j))"
      (is "?P \<longleftrightarrow> ?Q")
    proof
      assume ?P
      then show ?Q by simp
    next
      assume Q: ?Q
      have "bit (x ! ?q) j = bit (y ! ?q) j" if "j < 8" "7 - ?r \<le> j" for j
        using Q [rule_format, of "7 - j"] that by simp
      then show ?P by blast
    qed
    also have "\<dots> \<longleftrightarrow> ?R"
    proof -
      have "j \<le> ?r \<Longrightarrow> (?q * 8 + j) div 8 = ?q \<and> (?q * 8 + j) mod 8 = j" for j
        using mod_less_divisor [of 8 n] by simp
      then show ?thesis by (auto simp: id_bit_def)
    qed
    finally show ?thesis .
  qed
  have spec: "(\<forall>i\<le>n. id_bit x i = id_bit y i) \<longleftrightarrow>
      (\<forall>p<?q. x ! p = y ! p) \<and> (x ! ?q XOR y ! ?q) AND prefix_mask ?r = 0" (is "?A \<longleftrightarrow> ?B")
  proof
    assume A: ?A
    have "x ! p = y ! p" if "p < ?q" for p
    proof -
      have "p * 8 + j \<le> n" if "j < 8" for j using \<open>p < ?q\<close> that by linarith
      then show ?thesis using A by (simp add: bytes)
    qed
    moreover have "?q * 8 + j \<le> n" if "j \<le> ?r" for j
      using that div_mult_mod_eq [of n 8] by linarith
    ultimately show ?B using A by (simp add: last)
  next
    assume B: ?B
    show ?A
    proof (intro allI impI)
      fix i assume "i \<le> n"
      then consider "i div 8 < ?q" | "i div 8 = ?q" "i mod 8 \<le> ?r" by (auto simp: index_split [of i n])
      then show "id_bit x i = id_bit y i"
      proof cases
        case 1
        then show ?thesis using B by (simp add: id_bit_def)
      next
        case 2
        then have "i = ?q * 8 + i mod 8" by (metis div_mult_mod_eq)
        then show ?thesis using B 2(2) last by metis
      qed
    qed
  qed
  have idx: "nat (int n div 8) = ?q" "nat (int n mod 8) = ?r"
    by (simp_all add: nat_div_distrib nat_mod_distrib)
  have q: "?q < 32" using assms(3) by simp
  show ?thesis
  proof (cases "first_mismatch x y")
    case None
    then have "x = y" using assms by (simp add: first_mismatch_None_wf)
    with None show ?thesis by (simp add: bitsEqual_def)
  next
    case (Some m)
    then have m: "m < 32" "x ! m \<noteq> y ! m" "\<forall>i<m. x ! i = y ! i" by (auto simp: first_mismatch_Some)
    have "bitsEqual x y (int n) \<longleftrightarrow>
        (if m = ?q then (x ! ?q XOR y ! ?q) AND prefix_mask ?r = 0 else ?q < m)"
      using Some by (simp add: bitsEqual_def Let_def idx)
    then show ?thesis
      unfolding spec using m
      by (cases "m = ?q"; cases "?q < m") (auto dest: order_neq_le_trans simp: linorder_not_less)
  qed
qed

lemma bitsEqual_val [id_simps]:
  assumes "wf_id x" "wf_id y" "-1 \<le> n" "n < 256"
  shows "bitsEqual x y n \<longleftrightarrow> id_val x div 2 ^ nat (255 - n) = id_val y div 2 ^ nat (255 - n)"
proof (cases "n < 0")
  case True
  then have "n = -1" using assms by simp
  moreover have "id_val x div 2 ^ 256 = 0" "id_val y div 2 ^ 256 = 0"
    by (rule div_less [OF id_val_wf [OF assms(1)]], rule div_less [OF id_val_wf [OF assms(2)]])
  moreover have "nat (255 - (-1)) = 256" by simp
  moreover have "bitsEqual x y n" using True by (simp add: bitsEqual_def)
  ultimately show ?thesis by (metis (no_types))
next
  case False
  then obtain k where k: "n = int k" using zero_le_imp_eq_int [of n] by auto
  then have k: "n = int k" "k < 256" using assms(4) by simp_all
  have d: "nat (255 - n) = 255 - k" using k by simp
  have "(\<forall>i\<le>k. id_bit x i = id_bit y i) \<longleftrightarrow> (\<forall>j\<ge>255 - k. bit (id_val x) j = bit (id_val y) j)"
    (is "?P \<longleftrightarrow> ?Q")
  proof
    assume ?P
    then show ?Q using assms by (auto simp: bit_id_val_wf)
  next
    assume Q: ?Q
    have "id_bit x i = id_bit y i" if "i \<le> k" for i
    proof -
      have "255 - k \<le> 255 - i" "255 - i < 256" "255 - (255 - i) = i" using that k(2) by simp_all
      then show ?thesis using Q assms(1,2) by (metis bit_id_val_wf)
    qed
    then show ?P by blast
  qed
  then show ?thesis unfolding d unfolding k(1) div_eq_bits using assms k(2) by (simp add: bitsEqual_id_bit)
qed

lemma length_bitsCopy: "length s = length d \<Longrightarrow> length (bitsCopy s d n) = length d"
  by (simp add: bitsCopy_def Let_def min_def)

lemma wf_bitsCopy [simp]: "wf_id s \<Longrightarrow> wf_id d \<Longrightarrow> wf_id (bitsCopy s d n)"
  by (simp add: wf_id_def length_bitsCopy)

lemma bitsCopy_nth:
  assumes "wf_id s" "wf_id d" "n < 256" "p < 32"
  shows "bitsCopy s d (int n) ! p =
    (if p < n div 8 then s ! p
     else if p = n div 8
     then (d ! p AND NOT (prefix_mask (n mod 8))) OR (s ! p AND prefix_mask (n mod 8))
     else d ! p)"
proof -
  let ?q = "n div 8"
  have idx: "nat (int n div 8) = ?q" "nat (int n mod 8) = n mod 8"
    by (simp_all add: nat_div_distrib nat_mod_distrib)
  have q: "?q < 32" using assms(3) by simp
  let ?d1 = "if 0 < ?q then take ?q s @ drop ?q d else d"
  have l1: "length ?d1 = 32" using assms by (simp add: wf_id_def)
  have n1: "?d1 ! p = (if p < ?q then s ! p else d ! p)"
    using assms q by (auto simp: nth_append wf_id_def min_def)
  have "bitsCopy s d (int n) =
      (let d2 = ?d1[?q := ?d1 ! ?q AND NOT (prefix_mask (n mod 8))]
       in d2[?q := d2 ! ?q OR (s ! ?q AND prefix_mask (n mod 8))])"
    by (simp add: bitsCopy_def idx Let_def)
  with l1 n1 q assms(4) show ?thesis by (auto simp: Let_def nth_list_update)
qed

lemma id_bit_bitsCopy:
  assumes "wf_id s" "wf_id d" "n < 256" "i < 256"
  shows "id_bit (bitsCopy s d (int n)) i = (if i \<le> n then id_bit s i else id_bit d i)"
proof -
  have p: "i div 8 < 32" using assms(4) by simp
  have "bit (prefix_mask (n mod 8)) (7 - i mod 8) \<longleftrightarrow> i mod 8 \<le> n mod 8"
    by (auto simp: bit_prefix_mask)
  then show ?thesis
    using bitsCopy_nth [OF assms(1-3) p] index_split [of i n]
    by (auto simp: id_bit_def bit_or_iff bit_and_iff bit_not_iff)
qed

lemma bitsCopy_val [id_simps]:
  assumes "wf_id s" "wf_id d" "-1 \<le> n" "n < 256"
  shows "id_val (bitsCopy s d n) =
    id_val s div 2 ^ nat (255 - n) * 2 ^ nat (255 - n) + id_val d mod 2 ^ nat (255 - n)"
proof (cases "n < 0")
  case True
  then have n: "nat (255 - n) = 256" using assms by simp
  have "bitsCopy s d n = d" using True by (simp add: bitsCopy_def)
  moreover have "id_val s div 2 ^ 256 = 0" "id_val d mod 2 ^ 256 = id_val d"
    by (rule div_less [OF id_val_wf [OF assms(1)]], rule mod_less [OF id_val_wf [OF assms(2)]])
  ultimately show ?thesis by (metis (no_types) n mult_0 add_0)
next
  case False
  then obtain k where k: "n = int k" using zero_le_imp_eq_int [of n] by auto
  then have k: "n = int k" "k < 256" using assms(4) by simp_all
  let ?m = "255 - k"
  have m: "nat (255 - n) = ?m" using k by simp
  show ?thesis unfolding m
  proof (rule bit_eqI)
    fix j
    have "bit (id_val s div 2 ^ ?m * 2 ^ ?m + id_val d mod 2 ^ ?m) j =
        (if j < ?m then bit (id_val d mod 2 ^ ?m) j else bit (id_val s div 2 ^ ?m) (j - ?m))"
      by (rule bit_cat) simp
    also have "\<dots> = (if j < ?m then bit (id_val d) j else bit (id_val s) j)"
      by (auto simp flip: take_bit_eq_mod drop_bit_eq_div simp: bit_take_bit_iff bit_drop_bit_eq)
    also have "\<dots> = bit (id_val (bitsCopy s d n)) j"
      using assms(1,2) k by (auto simp: bit_id_val_wf id_bit_bitsCopy)
    finally show "bit (id_val (bitsCopy s d n)) j =
        bit (id_val s div 2 ^ ?m * 2 ^ ?m + id_val d mod 2 ^ ?m) j" by simp
  qed
qed

section \<open>Leading zeros\<close>

lemma zero_bytes_le: "zero_bytes x \<le> length x"
  by (induction x) auto

lemma id_val_zero_bytes:
  assumes "zero_bytes x < length x"
  shows "x ! zero_bytes x \<noteq> 0"
    and "id_val x = id_val (drop (zero_bytes x) x)"
  using assms by (induction x) (auto simp: id_val_Cons split: if_splits)

text \<open>The nibble-wise search finds the position of the highest set bit of a byte.\<close>

lemma byte_top_bit:
  fixes b :: byte
  assumes "b \<noteq> 0"
  shows "\<exists>k \<le> 7. (let (n1, b1) = (if 16 \<le> b then (7 - 4, drop_bit 4 b) else (7::int, b));
                     (n2, b2) = (if 4 \<le> b1 then (n1 - 2, drop_bit 2 b1) else (n1, b1))
                 in n2 - uint (drop_bit 1 b2)) = int k
           \<and> 2 ^ (7 - k) \<le> unat b \<and> unat b < 2 ^ (8 - k)"
proof -
  define n where "n = unat b"
  have n: "0 < n" "n < 256" using assms unat_byte [of b] by (auto simp: n_def unat_gt_0)
  have ge: "16 \<le> b \<longleftrightarrow> 16 \<le> n" "4 \<le> b \<longleftrightarrow> 4 \<le> n" "4 \<le> drop_bit 4 b \<longleftrightarrow> 4 \<le> n div 16"
    by (simp_all add: n_def word_le_nat_alt unat_div_distrib drop_bit_eq_div)
  have ud: "uint (drop_bit k b) = int (n div 2 ^ k)" for k
    by (simp only: uint_nat unat_drop_bit_eq n_def) (simp only: drop_bit_eq_div)
  have u: "uint (drop_bit 1 b) = int (n div 2)" "uint (drop_bit 1 (drop_bit 2 b)) = int (n div 4 div 2)"
    "uint (drop_bit 1 (drop_bit 4 b)) = int (n div 16 div 2)"
    "uint (drop_bit 1 (drop_bit 2 (drop_bit 4 b))) = int (n div 16 div 4 div 2)"
    by (simp_all only: drop_bit_drop_bit ud) (simp_all flip: div_mult2_eq)
  have e: "(let (n1, b1) = (if 16 \<le> b then (7 - 4, drop_bit 4 b) else (7::int, b));
               (n2, b2) = (if 4 \<le> b1 then (n1 - 2, drop_bit 2 b1) else (n1, b1))
           in n2 - uint (drop_bit 1 b2)) =
      (if 16 \<le> n then if 4 \<le> n div 16 then 1 - int (n div 16 div 4 div 2) else 3 - int (n div 16 div 2)
       else if 4 \<le> n then 5 - int (n div 4 div 2) else 7 - int (n div 2))" (is "_ = ?r")
    using u by (simp add: ge Let_def del: drop_bit_drop_bit)
  consider "n = 1" | "2 \<le> n" "n < 4" | "4 \<le> n" "n < 8" | "8 \<le> n" "n < 16" | "16 \<le> n" "n < 32"
    | "32 \<le> n" "n < 64" | "64 \<le> n" "n < 128" | "128 \<le> n" "n < 256"
    using n by linarith
  then have "\<exists>k\<le>7. ?r = int k \<and> 2 ^ (7 - k) \<le> n \<and> n < 2 ^ (8 - k)"
  proof cases
    case 1 then show ?thesis by (intro exI [of _ 7]) simp
  next
    case 2 then have "n div 2 = 1" by simp
    with 2 show ?thesis by (intro exI [of _ 6]) simp
  next
    case 3 then have "n div 4 div 2 = 0" by simp
    with 3 show ?thesis by (intro exI [of _ 5]) simp
  next
    case 4 then have "n div 4 div 2 = 1" by simp
    with 4 show ?thesis by (intro exI [of _ 4]) simp
  next
    case 5 then have "n div 16 = 1" by simp
    with 5 show ?thesis by (intro exI [of _ 3]) simp
  next
    case 6 then have "n div 16 div 2 = 1" "\<not> 4 \<le> n div 16" by simp_all
    with 6 show ?thesis by (intro exI [of _ 2]) simp
  next
    case 7 then have "n div 16 div 4 div 2 = 0" "4 \<le> n div 16" by simp_all
    with 7 show ?thesis by (intro exI [of _ 1]) simp
  next
    case 8 then have "n div 16 div 4 div 2 = 1" "4 \<le> n div 16" by simp_all
    with 8 show ?thesis by (intro exI [of _ 0]) simp
  qed
  then show ?thesis unfolding e n_def .
qed

lemma getLeadingZeros_val:
  assumes "wf_id x" "id_val x \<noteq> 0"
  shows "\<exists>z<256. getLeadingZeros x = int z \<and> 2 ^ (255 - z) \<le> id_val x \<and> id_val x < 2 ^ (256 - z)"
proof -
  let ?i = "zero_bytes x"
  have i: "?i < 32"
  proof (rule ccontr)
    assume "\<not> ?i < 32"
    then have "?i = length x" using zero_bytes_le [of x] assms by (simp add: wf_id_def)
    moreover have "zero_bytes y = length y \<Longrightarrow> id_val y = 0" for y
      by (induction y) (auto simp: id_val_Cons split: if_splits)
    ultimately show False using assms(2) by simp
  qed
  then have l: "?i < length x" using assms by (simp add: wf_id_def)
  obtain k where k: "k \<le> 7"
      "(let (n1, b1) = (if 16 \<le> x ! ?i then (7 - 4, drop_bit 4 (x ! ?i)) else (7::int, x ! ?i));
            (n2, b2) = (if 4 \<le> b1 then (n1 - 2, drop_bit 2 b1) else (n1, b1))
        in n2 - uint (drop_bit 1 b2)) = int k"
      "2 ^ (7 - k) \<le> unat (x ! ?i)" "unat (x ! ?i) < 2 ^ (8 - k)"
    using byte_top_bit [OF id_val_zero_bytes(1) [OF l]] by blast
  let ?r = "drop (Suc ?i) x"
  have v: "id_val x = unat (x ! ?i) * 2 ^ (8 * length ?r) + id_val ?r"
    using id_val_zero_bytes(2) [OF l] by (simp add: Cons_nth_drop_Suc [OF l, symmetric] id_val_Cons power_mult)
  have r: "id_val ?r < 2 ^ (8 * length ?r)" using id_val_less [of ?r] by (simp add: power_mult)
  have lr: "8 * length ?r = 248 - 8 * ?i" using assms by (simp add: wf_id_def)
  let ?z = "8 * ?i + k"
  have "getLeadingZeros x = int ?z"
    using i k(2) by (auto simp: getLeadingZeros_def Let_def split: prod.splits if_splits)
  moreover have "?z < 256" using i k(1) by simp
  moreover have "2 ^ (255 - ?z) \<le> id_val x"
  proof -
    have "2 ^ (255 - ?z) = 2 ^ (7 - k) * (2 ^ (8 * length ?r) :: nat)"
      using i k(1) unfolding lr power_add [symmetric] by simp
    also have "\<dots> \<le> unat (x ! ?i) * 2 ^ (8 * length ?r)" using k(3) by (rule mult_right_mono) simp
    finally show ?thesis unfolding v by simp
  qed
  moreover have "id_val x < 2 ^ (256 - ?z)"
  proof -
    have "id_val x < (unat (x ! ?i) + 1) * 2 ^ (8 * length ?r)" unfolding v using r by simp
    also have "\<dots> \<le> 2 ^ (8 - k) * 2 ^ (8 * length ?r)" using k(4) by (intro mult_right_mono) simp_all
    also have "\<dots> = 2 ^ (256 - ?z)" using i k(1) unfolding lr power_add [symmetric] by simp
    finally show ?thesis .
  qed
  ultimately show ?thesis by blast
qed

lemma binary_chars_None: "j \<in> set is \<Longrightarrow> length x \<le> j div 3 \<Longrightarrow> binary_chars x is = None"
  by (induction "is") (auto split: option.splits)

lemma xor_le_add: "(a :: nat) XOR b \<le> a + b"
proof (induction a arbitrary: b rule: less_induct)
  case (less a)
  show ?case
  proof (cases "a = 0")
    case False
    then have "a div 2 XOR b div 2 \<le> a div 2 + b div 2" by (intro less.IH) simp
    moreover have "a XOR b = of_bool (odd a \<noteq> odd b) + 2 * (a div 2 XOR b div 2)" by (rule xor_rec)
    moreover have "a = 2 * (a div 2) + of_bool (odd a)" "b = 2 * (b div 2) + of_bool (odd b)" by simp_all
    moreover have "of_bool (odd a \<noteq> odd b) \<le> of_bool (odd a) + (of_bool (odd b) :: nat)" by simp
    ultimately show ?thesis by linarith
  qed simp
qed

end
