(* ===== verification/Socket_Addresses.thy ===== *)
theory Socket_Addresses
  imports Ids
begin

text \<open>
  Socket addresses, \<^verbatim>\<open>src/core/utils/socket_address.cc\<close> and
  \<^verbatim>\<open>include/carrier/socket_address.h\<close>. The \<^verbatim>\<open>sockaddr_storage\<close> is modelled by its
  fields: no address, an IPv4 address or an IPv6 address, each with its bytes in network order;
  \<open>sockaddr_bytes\<close> is the memory image that the comparisons and \<open>isMappedIPv4\<close> read (Linux
  layout: a two-byte family in little-endian order, then the port in network order). A thrown
  \<^verbatim>\<open>std::domain_error\<close> or \<^verbatim>\<open>std::invalid_argument\<close> is \<open>None\<close>.
\<close>

section \<open>Definitions\<close>

datatype SocketAddress =
    Unspec
  | Inet4 "byte list" u16
  | Inet6 "byte list" u16 "byte list" "byte list"

fun wf_addr :: "SocketAddress \<Rightarrow> bool" where
  "wf_addr Unspec = True"
| "wf_addr (Inet4 ip port) \<longleftrightarrow> length ip = 4"
| "wf_addr (Inet6 ip port flowinfo scope_id) \<longleftrightarrow> length ip = 16 \<and> length flowinfo = 4 \<and> length scope_id = 4"

fun sa_family :: "SocketAddress \<Rightarrow> nat" where
  "sa_family Unspec = 0"
| "sa_family (Inet4 _ _) = 2"
| "sa_family (Inet6 _ _ _ _) = 10"

definition port_bytes :: "u16 \<Rightarrow> byte list" where
  "port_bytes p = [ucast (drop_bit 8 p), ucast p]"

fun sockaddr_bytes :: "SocketAddress \<Rightarrow> byte list" where
  "sockaddr_bytes Unspec = []"
| "sockaddr_bytes (Inet4 ip port) = [2, 0] @ port_bytes port @ ip @ replicate 8 0"
| "sockaddr_bytes (Inet6 ip port flowinfo scope_id) =
     [10, 0] @ port_bytes port @ flowinfo @ ip @ scope_id"

definition mkSocketAddress :: "byte list \<Rightarrow> u16 \<Rightarrow> SocketAddress option" where
  "mkSocketAddress ip port =
     (if length ip = 4 then Some (Inet4 ip port)
      else if length ip = 16 then Some (Inet6 ip port [0, 0, 0, 0] [0, 0, 0, 0])
      else None)"

fun sslen :: "nat \<Rightarrow> nat" where
  "sslen f = (if f = 2 then 16 else if f = 10 then 28 else 0)"

fun sa_port :: "SocketAddress \<Rightarrow> u16" where
  "sa_port Unspec = 0"
| "sa_port (Inet4 _ port) = port"
| "sa_port (Inet6 _ port _ _) = port"

fun inaddr :: "SocketAddress \<Rightarrow> byte list" where
  "inaddr Unspec = []"
| "inaddr (Inet4 ip _) = ip"
| "inaddr (Inet6 ip _ _ _) = ip"

fun inaddrLength :: "SocketAddress \<Rightarrow> nat" where
  "inaddrLength Unspec = 0"
| "inaddrLength (Inet4 _ _) = 4"
| "inaddrLength (Inet6 _ _ _ _) = 16"

fun isAnyLocal :: "SocketAddress \<Rightarrow> bool option" where
  "isAnyLocal Unspec = None"
| "isAnyLocal (Inet4 ip _) = Some (ip = replicate 4 0)"
| "isAnyLocal (Inet6 ip _ _ _) = Some (ip = replicate 16 0)"

fun isLoopback :: "SocketAddress \<Rightarrow> bool option" where
  "isLoopback Unspec = None"
| "isLoopback (Inet4 ip _) = Some (ip ! 0 = 127)"
| "isLoopback (Inet6 ip _ _ _) = Some (ip = replicate 15 0 @ [1])"

fun isSiteLocal :: "SocketAddress \<Rightarrow> bool option" where
  "isSiteLocal Unspec = None"
| "isSiteLocal (Inet4 ip _) =
     (let b1 = ip ! 0; b2 = ip ! 1
      in if b1 = 10 then Some True
         else if b1 = 172 \<and> 16 \<le> b2 \<and> b2 \<le> 31 then Some True
         else if b1 = 192 \<and> b2 = 168 then Some True
         else Some False)"
| "isSiteLocal (Inet6 ip _ _ _) = Some (ip ! 0 = 0xfc \<or> ip ! 0 = 0xfd)"

fun isBroadcast :: "SocketAddress \<Rightarrow> bool" where
  "isBroadcast (Inet4 ip _) = (ip = replicate 4 0xff)"
| "isBroadcast _ = False"

fun isMulticast :: "SocketAddress \<Rightarrow> bool option" where
  "isMulticast Unspec = None"
| "isMulticast (Inet4 ip _) = Some (ip ! 0 = 0xe0)"
| "isMulticast (Inet6 ip _ _ _) = Some (ip ! 0 = 0xff)"

fun isLinkLocal :: "SocketAddress \<Rightarrow> bool option" where
  "isLinkLocal Unspec = None"
| "isLinkLocal (Inet4 ip _) = Some (ip ! 0 = 169 \<and> ip ! 1 = 254)"
| "isLinkLocal (Inet6 ip _ _ _) = Some (ip ! 0 = 0xfe \<and> ip ! 1 = 0x80)"

definition MAPPED_IPV4_PREFIX :: "byte list" where
  "MAPPED_IPV4_PREFIX = replicate 10 0 @ [0xff, 0xff]"

text \<open>The comparison reads the first twelve bytes of the \<^verbatim>\<open>sockaddr_in6\<close> structure, the result
  of \<^verbatim>\<open>addr6()\<close>.\<close>

definition isMappedIPv4 :: "SocketAddress \<Rightarrow> bool" where
  "isMappedIPv4 a = (if sa_family a \<noteq> 10 then False else take 12 (sockaddr_bytes a) = MAPPED_IPV4_PREFIX)"

text \<open>The short-circuit disjunction of tests that may throw.\<close>

fun or_else :: "bool option \<Rightarrow> bool option \<Rightarrow> bool option" where
  "or_else None b = None"
| "or_else (Some True) b = Some True"
| "or_else (Some False) b = b"

definition isGlobalUnicast :: "SocketAddress \<Rightarrow> bool option" where
  "isGlobalUnicast a =
     map_option Not
       (or_else (isAnyLocal a) (or_else (isLinkLocal a) (or_else (isLoopback a)
         (or_else (isMulticast a) (or_else (isSiteLocal a)
           (or_else (Some (isMappedIPv4 a)) (Some (isBroadcast a))))))))"

definition isAnyUnicast :: "SocketAddress \<Rightarrow> bool option" where
  "isAnyUnicast a = or_else (isGlobalUnicast a) (isSiteLocal a)"

definition isBogon :: "SocketAddress \<Rightarrow> bool option" where
  "isBogon a =
     (if 0 < sa_port a \<and> sa_port a \<le> 0xffff then map_option Not (isGlobalUnicast a) else Some True)"

definition getMappedIPv4 :: "SocketAddress \<Rightarrow> SocketAddress" where
  "getMappedIPv4 a =
     (if \<not> isMappedIPv4 a then a else Inet4 (take 4 (drop 12 (inaddr a))) (sa_port a))"

definition getMappedIPv6 :: "SocketAddress \<Rightarrow> SocketAddress" where
  "getMappedIPv6 a =
     (if sa_family a \<noteq> 2 then a
      else Inet6 (MAPPED_IPV4_PREFIX @ inaddr a) (sa_port a) [0, 0, 0, 0] [0, 0, 0, 0])"

definition sa_eq :: "SocketAddress \<Rightarrow> SocketAddress \<Rightarrow> bool" where
  "sa_eq a b \<longleftrightarrow> sa_family a = sa_family b
     \<and> memcmp (take (sslen (sa_family a)) (sockaddr_bytes a)) (take (sslen (sa_family a)) (sockaddr_bytes b)) = 0"

definition sa_less :: "SocketAddress \<Rightarrow> SocketAddress \<Rightarrow> bool" where
  "sa_less a b =
     (if sa_family a \<noteq> sa_family b then sa_family a < sa_family b
      else memcmp (take (sslen (sa_family a)) (sockaddr_bytes a))
                  (take (sslen (sa_family a)) (sockaddr_bytes b)) < 0)"

definition IpCompare :: "SocketAddress \<Rightarrow> SocketAddress \<Rightarrow> bool" where
  "IpCompare a b =
     (if a = Unspec \<and> b = Unspec then True
      else if sa_family a \<noteq> sa_family b then sa_family a < sa_family b
      else memcmp (inaddr a) (inaddr b) < 0)"

section \<open>Equality and order of addresses\<close>

lemma port_bytes_inj: "port_bytes p = port_bytes q \<longleftrightarrow> p = q"
proof
  assume e: "port_bytes p = port_bytes q"
  have "bit p n = bit q n" if "n < 16" for n
  proof (cases "n < 8")
    case True
    from e have "bit (ucast p :: byte) n = bit (ucast q :: byte) n" by (simp add: port_bytes_def)
    with True show ?thesis by (simp add: bit_ucast_iff)
  next
    case False
    from e have "bit (ucast (drop_bit 8 p) :: byte) (n - 8) = bit (ucast (drop_bit 8 q) :: byte) (n - 8)"
      by (simp add: port_bytes_def)
    moreover have "n - 8 < 8" "8 + (n - 8) = n" using False that by simp_all
    ultimately show ?thesis by (simp add: bit_ucast_iff bit_drop_bit_eq)
  qed
  then show "p = q" by (intro bit_word_eqI) simp
qed simp

lemma length_port_bytes [simp]: "length (port_bytes p) = 2"
  by (simp add: port_bytes_def)

lemma length_sockaddr_bytes: "wf_addr a \<Longrightarrow> length (sockaddr_bytes a) = sslen (sa_family a)"
  by (cases a) auto

lemma sockaddr_bytes_inj:
  "wf_addr a \<Longrightarrow> wf_addr b \<Longrightarrow> sa_family a = sa_family b \<Longrightarrow> sockaddr_bytes a = sockaddr_bytes b \<Longrightarrow> a = b"
  by (cases a; cases b) (auto simp: port_bytes_inj append_eq_append_conv)

lemma memcmp_eq_0: "length a = length b \<Longrightarrow> memcmp a b = 0 \<longleftrightarrow> a = b"
  by (induction a b rule: list_induct2) auto

lemma sa_eq_iff [simp]: "wf_addr a \<Longrightarrow> wf_addr b \<Longrightarrow> sa_eq a b \<longleftrightarrow> a = b"
  unfolding sa_eq_def using length_sockaddr_bytes [of a] length_sockaddr_bytes [of b]
  by (auto simp: memcmp_eq_0 simp del: sslen.simps intro: sockaddr_bytes_inj)

definition sa_key :: "SocketAddress \<Rightarrow> nat" where
  "sa_key a = sa_family a * 256 ^ 28 + id_val (sockaddr_bytes a)"

lemma sa_key_bound: "wf_addr a \<Longrightarrow> id_val (sockaddr_bytes a) < 256 ^ 28"
proof -
  assume "wf_addr a"
  then have "length (sockaddr_bytes a) \<le> 28" by (cases a) auto
  then have "(256 :: nat) ^ length (sockaddr_bytes a) \<le> 256 ^ 28" by (rule power_increasing) simp
  with id_val_less [of "sockaddr_bytes a"] show ?thesis by (rule less_le_trans)
qed

lemma mult_add_less: "(i :: nat) < j \<Longrightarrow> c < m \<Longrightarrow> i * m + c < j * m + d"
proof -
  assume "i < j" "c < m"
  then have "i * m + c < (i + 1) * m" "(i + 1) * m \<le> j * m" by (simp, intro mult_right_mono) auto
  then show ?thesis by linarith
qed

lemma sa_less_key:
  assumes "wf_addr a" "wf_addr b"
  shows "sa_less a b \<longleftrightarrow> sa_key a < sa_key b"
proof (cases "sa_family a = sa_family b")
  case True
  then have "length (sockaddr_bytes a) = length (sockaddr_bytes b)"
    using assms length_sockaddr_bytes by metis
  moreover from this have "take (sslen (sa_family a)) (sockaddr_bytes a) = sockaddr_bytes a"
    "take (sslen (sa_family a)) (sockaddr_bytes b) = sockaddr_bytes b"
    using assms length_sockaddr_bytes by (metis order_refl take_all)+
  ultimately show ?thesis
    using True by (auto simp: sa_less_def sa_key_def memcmp_val sgn_if)
next
  case False
  then show ?thesis
    using mult_add_less sa_key_bound [OF assms(1)] sa_key_bound [OF assms(2)]
    unfolding sa_less_def sa_key_def by (metis linorder_neqE_nat not_less_iff_gr_or_eq)
qed

lemma sa_key_inj: "wf_addr a \<Longrightarrow> wf_addr b \<Longrightarrow> sa_key a = sa_key b \<longleftrightarrow> a = b"
proof
  assume w: "wf_addr a" "wf_addr b" and k: "sa_key a = sa_key b"
  have f: "sa_family a = sa_family b"
  proof (rule ccontr)
    assume "sa_family a \<noteq> sa_family b"
    then show False
      using k mult_add_less sa_key_bound [OF w(1)] sa_key_bound [OF w(2)]
      unfolding sa_key_def by (metis linorder_neqE_nat not_less_iff_gr_or_eq)
  qed
  then have "sockaddr_bytes a = sockaddr_bytes b"
    using k w length_sockaddr_bytes [of a] length_sockaddr_bytes [of b]
    by (intro id_val_inj) (simp_all add: sa_key_def)
  with w f show "a = b" by (intro sockaddr_bytes_inj)
qed simp

interpretation sa_cmp: std_compare sa_less sa_key wf_addr
  by unfold_locales (rule sa_less_key)

section \<open>Classification\<close>

lemma or_else_Some [simp]: "or_else (Some p) (Some q) = Some (p \<or> q)"
  by (cases p) auto

lemma isMappedIPv4_False: "isMappedIPv4 a = False"
proof (cases a)
  case (Inet6 ip port flow scope)
  then have "hd (take 12 (sockaddr_bytes a)) = 10" by simp
  moreover have "hd MAPPED_IPV4_PREFIX = 0" by (simp add: MAPPED_IPV4_PREFIX_def hd_append)
  moreover have "(10 :: byte) \<noteq> 0" by simp
  ultimately have "take 12 (sockaddr_bytes a) \<noteq> MAPPED_IPV4_PREFIX" by metis
  then show ?thesis by (simp add: isMappedIPv4_def)
qed (simp_all add: isMappedIPv4_def)

lemma isBogon_defined: "isBogon a \<noteq> None"
  by (cases a) (auto simp: isBogon_def isGlobalUnicast_def Let_def)

text \<open>What the code takes for a global unicast IPv4 address.\<close>

lemma isGlobalUnicast_Inet4:
  "isGlobalUnicast (Inet4 ip port) = Some (ip \<noteq> replicate 4 0 \<and> ip \<noteq> replicate 4 0xff
     \<and> ip ! 0 \<notin> {10, 127, 0xe0} \<and> \<not> (ip ! 0 = 169 \<and> ip ! 1 = 254) \<and> \<not> (ip ! 0 = 192 \<and> ip ! 1 = 168)
     \<and> \<not> (ip ! 0 = 172 \<and> 16 \<le> ip ! 1 \<and> ip ! 1 \<le> 31))"
  by (auto simp: isGlobalUnicast_def Let_def isMappedIPv4_False)

end
