(* ===== verification/Bucket_Entries.thy ===== *)
theory Bucket_Entries
  imports Socket_Addresses
begin

text \<open>
  Nodes and bucket entries: \<^verbatim>\<open>include/carrier/node_info.h\<close>,
  \<^verbatim>\<open>src/core/kbucket_entry.cc\<close>, \<^verbatim>\<open>src/core/kbucket_entry.h\<close>, with the constants of
  \<^verbatim>\<open>src/core/constants.cc\<close> they use. \<open>now\<close> is the value of \<^verbatim>\<open>currentTimeMillis()\<close>
  during the operation. Times are unsigned 64-bit words, so differences wrap around as in the code.
  Entries are shared objects in the code; \<open>eref\<close> is the identity of the object, which
  \<^verbatim>\<open>std::list::remove\<close> and \<^verbatim>\<open>this == other.get()\<close> compare.
\<close>

section \<open>Constants\<close>

definition MAX_ENTRIES_PER_BUCKET :: nat where "MAX_ENTRIES_PER_BUCKET = 8"
definition BUCKET_REFRESH_INTERVAL :: u64 where "BUCKET_REFRESH_INTERVAL = 15 * 60 * 1000"
definition ROUTING_TABLE_MAINTENANCE_INTERVAL :: u64 where "ROUTING_TABLE_MAINTENANCE_INTERVAL = 4 * 60 * 1000"
definition KBUCKET_MAX_TIMEOUTS :: int where "KBUCKET_MAX_TIMEOUTS = 5"
definition KBUCKET_OLD_AND_STALE_TIMEOUTS :: int where "KBUCKET_OLD_AND_STALE_TIMEOUTS = 2"
definition KBUCKET_OLD_AND_STALE_TIME :: u64 where "KBUCKET_OLD_AND_STALE_TIME = 15 * 60 * 1000"
definition KBUCKET_PING_BACKOFF_BASE_INTERVAL :: int where "KBUCKET_PING_BACKOFF_BASE_INTERVAL = 60 * 1000"

section \<open>Definitions\<close>

record NodeInfo =
  nodeId :: Id
  sockaddr :: SocketAddress
  version :: int

definition matches :: "'a NodeInfo_scheme \<Rightarrow> 'b NodeInfo_scheme \<Rightarrow> bool" where
  "matches this other \<longleftrightarrow> id_eq (nodeId this) (nodeId other) \<or> sa_eq (sockaddr this) (sockaddr other)"

definition equals :: "'a NodeInfo_scheme \<Rightarrow> 'b NodeInfo_scheme \<Rightarrow> bool" where
  "equals this other \<longleftrightarrow> id_eq (nodeId this) (nodeId other) \<and> sa_eq (sockaddr this) (sockaddr other)"

text \<open>The copy constructor of \<^verbatim>\<open>NodeInfo\<close> copies the id and the address only.\<close>

definition NodeInfo_copy :: "'a NodeInfo_scheme \<Rightarrow> NodeInfo" where
  "NodeInfo_copy ni = \<lparr>nodeId = nodeId ni, sockaddr = sockaddr ni, version = 0\<rparr>"

record KBucketEntry = NodeInfo +
  eref :: nat
  created :: u64
  lastSeen :: u64
  lastSend :: u64
  reachable :: bool
  failedRequests :: int

definition mkKBucketEntry :: "nat \<Rightarrow> u64 \<Rightarrow> Id \<Rightarrow> SocketAddress \<Rightarrow> int \<Rightarrow> KBucketEntry" where
  "mkKBucketEntry r now nid addr ver =
     \<lparr>nodeId = nid, sockaddr = addr, version = ver, eref = r, created = now, lastSeen = now,
      lastSend = 0, reachable = False, failedRequests = 0\<rparr>"

definition isNeverContacted :: "KBucketEntry \<Rightarrow> bool" where
  "isNeverContacted e \<longleftrightarrow> lastSend e = 0"

definition isEligibleForNodesList :: "KBucketEntry \<Rightarrow> bool" where
  "isEligibleForNodesList e \<longleftrightarrow> reachable e \<and> failedRequests e < 3"

definition isEligibleForLocalLookup :: "KBucketEntry \<Rightarrow> bool" where
  "isEligibleForLocalLookup e \<longleftrightarrow> (reachable e \<and> failedRequests e \<le> 3) \<or> failedRequests e \<le> 0"

text \<open>The left shift of the \<^verbatim>\<open>int\<close> base interval, with the wrap-around of a 32-bit result.\<close>

definition backoff_shift :: "int \<Rightarrow> int" where
  "backoff_shift n = int32 (KBUCKET_PING_BACKOFF_BASE_INTERVAL * 2 ^ nat n)"

definition backoffWindowEnd :: "KBucketEntry \<Rightarrow> int" where
  "backoffWindowEnd e =
     (if failedRequests e = 0 \<or> lastSend e \<le> 0 then -1
      else let backoff = backoff_shift (min KBUCKET_MAX_TIMEOUTS (max 0 (failedRequests e - 1)))
           in sint (lastSend e + word_of_int backoff))"

definition withinBackoffWindow :: "u64 \<Rightarrow> KBucketEntry \<Rightarrow> bool" where
  "withinBackoffWindow now e =
     (let backoff = backoff_shift (max KBUCKET_MAX_TIMEOUTS (max 0 (failedRequests e - 1)))
      in failedRequests e \<noteq> 0 \<and> now - lastSend e < word_of_int backoff)"

definition needsPing :: "u64 \<Rightarrow> KBucketEntry \<Rightarrow> bool" where
  "needsPing now e =
     (if now - lastSeen e < 30 * 1000 \<or> withinBackoffWindow now e then False
      else failedRequests e \<noteq> 0 \<or> now - lastSeen e > KBUCKET_OLD_AND_STALE_TIME)"

definition oldAndStale :: "u64 \<Rightarrow> KBucketEntry \<Rightarrow> bool" where
  "oldAndStale now e \<longleftrightarrow>
     failedRequests e > KBUCKET_OLD_AND_STALE_TIMEOUTS \<and> now - lastSeen e > KBUCKET_OLD_AND_STALE_TIME"

definition removableWithoutReplacement :: "KBucketEntry \<Rightarrow> bool" where
  "removableWithoutReplacement e =
     (let seenSinceLastPing = lastSeen e > lastSend e
      in failedRequests e > KBUCKET_MAX_TIMEOUTS \<and> \<not> seenSinceLastPing)"

definition signalResponse :: "u64 \<Rightarrow> KBucketEntry \<Rightarrow> KBucketEntry" where
  "signalResponse now e = e\<lparr>lastSeen := now, failedRequests := 0, reachable := True\<rparr>"

definition signalRequest :: "u64 \<Rightarrow> KBucketEntry \<Rightarrow> KBucketEntry" where
  "signalRequest now e = e\<lparr>lastSend := now\<rparr>"

definition mergeRequestTime :: "u64 \<Rightarrow> KBucketEntry \<Rightarrow> KBucketEntry" where
  "mergeRequestTime requestSent e = e\<lparr>lastSend := max (lastSend e) requestSent\<rparr>"

definition signalRequestTimeout :: "KBucketEntry \<Rightarrow> KBucketEntry" where
  "signalRequestTimeout e =
     (if failedRequests e \<le> 0 then e\<lparr>failedRequests := 1\<rparr>
      else e\<lparr>failedRequests := int32 (failedRequests e + 1)\<rparr>)"

definition entry_needsReplacement :: "u64 \<Rightarrow> KBucketEntry \<Rightarrow> bool" where
  "entry_needsReplacement now e \<longleftrightarrow>
     (failedRequests e > 1 \<and> \<not> reachable e)
     \<or> (failedRequests e > KBUCKET_MAX_TIMEOUTS \<and> oldAndStale now e)"

definition entry_merge :: "KBucketEntry \<Rightarrow> KBucketEntry \<Rightarrow> KBucketEntry" where
  "entry_merge this other =
     (if \<not> equals this other \<or> eref this = eref other then this
      else let e1 = this\<lparr>created := min (created this) (created other),
                         lastSeen := max (lastSeen this) (lastSeen other),
                         lastSend := max (lastSend this) (lastSend other)\<rparr>;
               e2 = (if reachable other then e1\<lparr>reachable := True\<rparr> else e1)
           in if failedRequests other > 0
              then e2\<lparr>failedRequests := min (failedRequests e2) (failedRequests other)\<rparr>
              else e2)"

section \<open>Lemmas\<close>

lemmas KBucket_constants =
  MAX_ENTRIES_PER_BUCKET_def BUCKET_REFRESH_INTERVAL_def ROUTING_TABLE_MAINTENANCE_INTERVAL_def
  KBUCKET_MAX_TIMEOUTS_def KBUCKET_OLD_AND_STALE_TIMEOUTS_def KBUCKET_OLD_AND_STALE_TIME_def
  KBUCKET_PING_BACKOFF_BASE_INTERVAL_def

definition wf_node :: "'a NodeInfo_scheme \<Rightarrow> bool" where
  "wf_node n \<longleftrightarrow> wf_id (nodeId n) \<and> wf_addr (sockaddr n)"

lemma matches_iff [simp]:
  "wf_node a \<Longrightarrow> wf_node b \<Longrightarrow> matches a b \<longleftrightarrow> nodeId a = nodeId b \<or> sockaddr a = sockaddr b"
  by (simp add: matches_def wf_node_def)

lemma equals_iff [simp]:
  "wf_node a \<Longrightarrow> wf_node b \<Longrightarrow> equals a b \<longleftrightarrow> nodeId a = nodeId b \<and> sockaddr a = sockaddr b"
  by (simp add: equals_def wf_node_def)

text \<open>What every update of an entry leaves alone: its object, its id and its address.\<close>

definition same_node :: "KBucketEntry \<Rightarrow> KBucketEntry \<Rightarrow> bool" where
  "same_node a b \<longleftrightarrow> nodeId a = nodeId b \<and> sockaddr a = sockaddr b \<and> eref a = eref b"

lemma same_node_refl [simp]: "same_node e e"
  by (simp add: same_node_def)

lemma same_node_signals [simp]:
  "same_node (signalResponse now e) e" "same_node (signalRequest now e) e"
  "same_node (mergeRequestTime t e) e" "same_node (signalRequestTimeout e) e"
  "same_node (entry_merge e other) e"
  by (simp_all add: same_node_def signalResponse_def signalRequest_def mergeRequestTime_def
      signalRequestTimeout_def entry_merge_def Let_def)

lemma reachable_signals [simp]:
  "reachable (signalResponse now e)" "reachable (signalRequest now e) = reachable e"
  "reachable (mergeRequestTime t e) = reachable e" "reachable (signalRequestTimeout e) = reachable e"
  by (simp_all add: signalResponse_def signalRequest_def mergeRequestTime_def signalRequestTimeout_def)

lemma reachable_merge: "reachable e \<Longrightarrow> reachable (entry_merge e other)"
  by (simp add: entry_merge_def Let_def)

lemma wf_node_same: "same_node a b \<Longrightarrow> wf_node a = wf_node b"
  by (simp add: same_node_def wf_node_def)

end
