(* ===== verification/Prefixes.thy ===== *)
theory Prefixes
  imports Ids
begin

text \<open>
  Key-space prefixes, \<^verbatim>\<open>src/core/prefix.cc\<close> and \<^verbatim>\<open>include/carrier/prefix.h\<close>: an id
  together with the index of the last bit that has to match (\<open>-1\<close> for the whole key space). The
  lemmas show that a well-formed prefix denotes the interval of ids that starts at its own value
  and has \<open>2 ^ pspan\<close> elements, and how \<open>splitBranch\<close>, \<open>getParent\<close> and \<open>isSiblingOf\<close>
  act on intervals.
\<close>

section \<open>Definitions\<close>

record Prefix =
  pid :: Id
  depth :: int

definition prefix_all :: Prefix where
  "prefix_all = \<lparr>pid = MIN_ID, depth = -1\<rparr>"

text \<open>The constructor \<^verbatim>\<open>Prefix(id, depth)\<close>; the copy constructor goes through it.\<close>

definition mkPrefix :: "Id \<Rightarrow> int \<Rightarrow> Prefix" where
  "mkPrefix x d = \<lparr>pid = bitsCopy x MIN_ID d, depth = d\<rparr>"

definition prefix_copy :: "Prefix \<Rightarrow> Prefix" where
  "prefix_copy p = mkPrefix (pid p) (depth p)"

definition isPrefixOf :: "Prefix \<Rightarrow> Id \<Rightarrow> bool" where
  "isPrefixOf this x = bitsEqual (pid this) x (depth this)"

definition isSplittable :: "Prefix \<Rightarrow> bool" where
  "isSplittable this \<longleftrightarrow> depth this < 256 - 1"

definition prefix_first :: "Prefix \<Rightarrow> Id" where
  "prefix_first this = pid this"

definition prefix_last :: "Prefix \<Rightarrow> Id" where
  "prefix_last this =
     (let p = mkPrefix MAX_ID (depth this);
          trailingBits = distance (pid p) MAX_ID
      in distance (pid this) trailingBits)"

text \<open>\<^verbatim>\<open>0x80 >> k\<close> as a byte.\<close>

definition bit_mask :: "nat \<Rightarrow> byte" where
  "bit_mask k = drop_bit k 0x80"

definition setTail :: "Id \<Rightarrow> int \<Rightarrow> Id" where
  "setTail x b = (let q = nat (b div 8) in x[q := x ! q AND NOT (bit_mask (nat (b mod 8)))])"

definition getParent :: "Prefix \<Rightarrow> Prefix" where
  "getParent this =
     (let parent = prefix_copy this
      in if depth this = -1 then parent
         else parent\<lparr>pid := setTail (pid parent) (depth parent), depth := depth parent - 1\<rparr>)"

definition splitBranch :: "Prefix \<Rightarrow> bool \<Rightarrow> Prefix" where
  "splitBranch this highBranch =
     (let branch = prefix_copy this;
          d = depth branch + 1;
          q = nat (d div 8);
          m = bit_mask (nat (d mod 8));
          b = pid branch ! q
      in branch\<lparr>pid := (pid branch)[q := if highBranch then b OR m else b AND NOT m], depth := d\<rparr>)"

definition isSiblingOf :: "Prefix \<Rightarrow> Prefix \<Rightarrow> bool" where
  "isSiblingOf this other \<longleftrightarrow>
     depth this = depth other \<and> bitsEqual (pid this) (pid other) (depth this - 1)"

text \<open>\<open>rnd\<close> is the id drawn by \<^verbatim>\<open>Id::random()\<close>.\<close>

definition createRandomId :: "Id \<Rightarrow> Prefix \<Rightarrow> Id" where
  "createRandomId rnd this = bitsCopy (pid this) rnd (depth this)"

definition prefix_equals :: "Prefix \<Rightarrow> Prefix \<Rightarrow> bool" where
  "prefix_equals this p = (if depth this \<noteq> depth p then False else id_eq (pid this) (pid p))"

definition prefix_toBinaryString :: "Prefix \<Rightarrow> string" where
  "prefix_toBinaryString this =
     (if depth this = -1 then ''all''
      else concat (map (\<lambda>i. (if pid this ! (i div 8) AND bit_mask (i mod 8) \<noteq> 0 then CHR ''1'' else CHR ''0'')
                            # (if i mod 4 = 3 then '' '' else ''''))
                       [0..<nat (depth this + 1)])
           @ ''...'')"

section \<open>Well-formed prefixes and their intervals\<close>

abbreviation pval :: "Prefix \<Rightarrow> nat" where
  "pval p \<equiv> id_val (pid p)"

definition pspan :: "Prefix \<Rightarrow> nat" where
  "pspan p = nat (255 - depth p)"

definition wf_prefix :: "Prefix \<Rightarrow> bool" where
  "wf_prefix p \<longleftrightarrow> wf_id (pid p) \<and> -1 \<le> depth p \<and> depth p \<le> 255 \<and> pval p mod 2 ^ pspan p = 0"

lemma wf_prefixD:
  assumes "wf_prefix p"
  shows "wf_id (pid p)" "-1 \<le> depth p" "depth p < 256" "pval p mod 2 ^ pspan p = 0"
    "pval p div 2 ^ pspan p * 2 ^ pspan p = pval p"
  using assms by (auto simp: wf_prefix_def)

lemma prefix_all_val: "pval prefix_all = 0" "pspan prefix_all = 256" "depth prefix_all = -1"
  by (simp_all add: prefix_all_def pspan_def)

lemma wf_prefix_all [simp]: "wf_prefix prefix_all"
  by (simp add: wf_prefix_def prefix_all_def)

lemma depth_mkPrefix [simp]: "depth (mkPrefix x d) = d"
  by (simp add: mkPrefix_def)

lemma pval_mkPrefix:
  assumes "wf_id x" "-1 \<le> d" "d < 256"
  shows "pval (mkPrefix x d) = id_val x div 2 ^ nat (255 - d) * 2 ^ nat (255 - d)"
  using assms by (simp add: mkPrefix_def bitsCopy_val)

lemma wf_mkPrefix:
  assumes "wf_id x" "-1 \<le> d" "d < 256"
  shows "wf_prefix (mkPrefix x d)"
  using assms pval_mkPrefix [OF assms]
  by (simp add: wf_prefix_def pspan_def) (simp add: mkPrefix_def)

lemma prefix_eqI: "wf_id (pid p) \<Longrightarrow> wf_id (pid q) \<Longrightarrow> pval p = pval q \<Longrightarrow> depth p = depth q \<Longrightarrow> p = q"
  for p q :: Prefix by (simp add: id_val_inject)

lemma prefix_copy_wf [simp]: "wf_prefix p \<Longrightarrow> prefix_copy p = p"
  using wf_prefixD [of p] wf_mkPrefix [of "pid p" "depth p"] pval_mkPrefix [of "pid p" "depth p"]
  by (intro prefix_eqI) (auto simp: prefix_copy_def pspan_def dest: wf_prefixD(1))

lemma isPrefixOf_val [id_simps]:
  assumes "wf_prefix p" "wf_id x"
  shows "isPrefixOf p x \<longleftrightarrow> pval p \<le> id_val x \<and> id_val x < pval p + 2 ^ pspan p"
proof -
  let ?s = "2 ^ pspan p :: nat"
  have "isPrefixOf p x \<longleftrightarrow> pval p div ?s = id_val x div ?s"
    using assms wf_prefixD [OF assms(1)] by (simp add: isPrefixOf_def bitsEqual_val pspan_def)
  also have "\<dots> \<longleftrightarrow> pval p \<le> id_val x \<and> id_val x < pval p + ?s"
    using div_eq_interval [of ?s "id_val x" "pval p div ?s"] wf_prefixD(5) [OF assms(1)] by auto
  finally show ?thesis .
qed

lemma isPrefixOf_self: "wf_prefix p \<Longrightarrow> isPrefixOf p (pid p)"
  by (simp add: isPrefixOf_val wf_prefixD(1))

lemma prefix_fits: "wf_prefix p \<Longrightarrow> pval p + 2 ^ pspan p \<le> 2 ^ 256"
proof -
  assume w: "wf_prefix p"
  have s: "pspan p \<le> 256" using wf_prefixD(2) [OF w] by (simp add: pspan_def)
  have e: "(2 :: nat) ^ 256 = 2 ^ (256 - pspan p) * 2 ^ pspan p"
    using s by (simp flip: power_add)
  have "pval p div 2 ^ pspan p < 2 ^ (256 - pspan p)"
    using id_val_wf [OF wf_prefixD(1) [OF w]] unfolding e by (simp add: less_mult_imp_div_less)
  then have "(pval p div 2 ^ pspan p + 1) * 2 ^ pspan p \<le> 2 ^ (256 - pspan p) * 2 ^ pspan p"
    by (intro mult_right_mono) auto
  then show ?thesis unfolding e using wf_prefixD(5) [OF w] by (simp add: algebra_simps)
qed

section \<open>Single bits\<close>

lemma bit_80: "bit (0x80 :: byte) n \<longleftrightarrow> n = 7"
proof -
  have e: "(0x80 :: byte) = push_bit 7 1" by (simp add: push_bit_eq_mult)
  show ?thesis unfolding e bit_push_bit_iff bit_1_iff by auto
qed

lemma bit_bit_mask: "k < 8 \<Longrightarrow> bit (bit_mask k) j \<longleftrightarrow> j = 7 - k"
  unfolding bit_mask_def bit_drop_bit_eq o_apply bit_80 by auto

lemma id_bit_update:
  assumes "wf_id x" "b < 256" "i < 256"
  shows "id_bit (x[b div 8 := x ! (b div 8) OR bit_mask (b mod 8)]) i \<longleftrightarrow> id_bit x i \<or> i = b"
    and "id_bit (x[b div 8 := x ! (b div 8) AND NOT (bit_mask (b mod 8))]) i \<longleftrightarrow> id_bit x i \<and> i \<noteq> b"
proof -
  have e: "i = b \<longleftrightarrow> i div 8 = b div 8 \<and> 7 - i mod 8 = 7 - b mod 8"
  proof
    assume "i div 8 = b div 8 \<and> 7 - i mod 8 = 7 - b mod 8"
    moreover have "i mod 8 \<le> 7" "b mod 8 \<le> 7" using mod_less_divisor [of 8] by (auto simp: less_Suc_eq_le)
    ultimately have "i div 8 = b div 8" "i mod 8 = b mod 8" by linarith+
    then show "i = b" by (metis div_mult_mod_eq)
  qed simp
  have q: "b div 8 < length x" using assms by (simp add: wf_id_def)
  show "id_bit (x[b div 8 := x ! (b div 8) OR bit_mask (b mod 8)]) i \<longleftrightarrow> id_bit x i \<or> i = b"
    using q e by (auto simp: id_bit_def nth_list_update bit_or_iff bit_bit_mask)
  show "id_bit (x[b div 8 := x ! (b div 8) AND NOT (bit_mask (b mod 8))]) i \<longleftrightarrow> id_bit x i \<and> i \<noteq> b"
    using q e by (auto simp: id_bit_def nth_list_update bit_and_iff bit_not_iff bit_bit_mask)
qed

lemma wf_id_update [simp]: "wf_id x \<Longrightarrow> wf_id (x[q := v])"
  by (simp add: wf_id_def)

lemma id_val_set_bit:
  assumes "wf_id x" "b < 256" "\<not> bit (id_val x) (255 - b)"
  shows "id_val (x[b div 8 := x ! (b div 8) OR bit_mask (b mod 8)]) = id_val x + 2 ^ (255 - b)"
proof -
  have "id_val x + 2 ^ (255 - b) = id_val x OR 2 ^ (255 - b)"
    using assms(3) by (intro disjunctive_add_eq_or) (auto intro!: bit_eqI simp: bit_and_iff bit_exp_iff)
  also have "\<dots> = id_val (x[b div 8 := x ! (b div 8) OR bit_mask (b mod 8)])"
  proof (rule bit_eqI)
    fix n
    have "n < 256 \<Longrightarrow> 255 - n = b \<longleftrightarrow> n = 255 - b" using assms(2) by auto
    then show "bit (id_val x OR 2 ^ (255 - b)) n =
        bit (id_val (x[b div 8 := x ! (b div 8) OR bit_mask (b mod 8)])) n"
      using assms(1,2) by (auto simp: bit_or_iff bit_exp_iff bit_id_val_wf id_bit_update)
  qed
  finally show ?thesis by simp
qed

lemma bit_id_val_clear_bit:
  assumes "wf_id x" "b < 256"
  shows "bit (id_val (x[b div 8 := x ! (b div 8) AND NOT (bit_mask (b mod 8))])) n
    \<longleftrightarrow> bit (id_val x) n \<and> n \<noteq> 255 - b"
proof -
  have "n < 256 \<Longrightarrow> 255 - n = b \<longleftrightarrow> n = 255 - b" using assms(2) by auto
  then show ?thesis using assms by (auto simp: bit_id_val_wf id_bit_update)
qed

section \<open>Branches, parents and siblings as intervals\<close>

lemma pspan_Suc: "wf_prefix p \<Longrightarrow> isSplittable p \<Longrightarrow> pspan p = Suc (nat (254 - depth p))"
  by (simp add: pspan_def isSplittable_def)

lemma splitBranch_index:
  assumes "wf_prefix p" "isSplittable p"
  obtains b where "b < 256" "depth p + 1 = int b" "nat (254 - depth p) = 255 - b"
    "nat ((depth p + 1) div 8) = b div 8" "nat ((depth p + 1) mod 8) = b mod 8"
proof -
  have "0 \<le> depth p + 1" using wf_prefixD(2) [OF assms(1)] by simp
  then obtain b where b: "depth p + 1 = int b" using zero_le_imp_eq_int by blast
  with assms(2) have "b < 256" "nat (254 - depth p) = 255 - b" by (auto simp: isSplittable_def)
  with b that show ?thesis by (simp add: nat_div_distrib nat_mod_distrib)
qed

lemma wf_prefix_low_bits: "wf_prefix p \<Longrightarrow> n < pspan p \<Longrightarrow> \<not> bit (pval p) n"
  using wf_prefixD(4) [of p] bit_take_bit_iff [of "pspan p" "pval p" n] by (simp add: take_bit_eq_mod)

lemma splitBranch_val [id_simps]:
  assumes "wf_prefix p" "isSplittable p"
  shows "pval (splitBranch p h) = pval p + (if h then 2 ^ nat (254 - depth p) else 0)"
    and "depth (splitBranch p h) = depth p + 1"
    and "pspan (splitBranch p h) = nat (254 - depth p)"
    and "wf_id (pid (splitBranch p h))"
proof -
  obtain b where b: "b < 256" "depth p + 1 = int b" "nat (254 - depth p) = 255 - b"
    "nat ((depth p + 1) div 8) = b div 8" "nat ((depth p + 1) mod 8) = b mod 8"
    using splitBranch_index [OF assms] by metis
  let ?x = "pid p"
  let ?l = "?x[b div 8 := ?x ! (b div 8) AND NOT (bit_mask (b mod 8))]"
  have w: "wf_id ?x" using wf_prefixD(1) [OF assms(1)] .
  have nb: "\<not> bit (pval p) (255 - b)"
    using wf_prefix_low_bits [OF assms(1)] pspan_Suc [OF assms] b(3) by simp
  have low: "id_val ?l = pval p"
    using nb by (intro bit_eqI) (auto simp: bit_id_val_clear_bit [OF w b(1)])
  have sp: "splitBranch p h = \<lparr>pid = (if h then ?x[b div 8 := ?x ! (b div 8) OR bit_mask (b mod 8)] else ?l),
      depth = depth p + 1\<rparr>"
    using assms(1) b by (simp add: splitBranch_def Let_def)
  show "pval (splitBranch p h) = pval p + (if h then 2 ^ nat (254 - depth p) else 0)"
    using id_val_set_bit [OF w b(1) nb] low by (simp add: sp b(3))
  show "depth (splitBranch p h) = depth p + 1" "wf_id (pid (splitBranch p h))"
    using w by (simp_all add: sp)
  then show "pspan (splitBranch p h) = nat (254 - depth p)" by (simp add: pspan_def)
qed

lemma wf_splitBranch:
  assumes "wf_prefix p" "isSplittable p"
  shows "wf_prefix (splitBranch p h)"
proof -
  let ?s = "2 ^ nat (254 - depth p) :: nat"
  have "pval p mod (2 * ?s) = 0" using wf_prefixD(4) [OF assms(1)] pspan_Suc [OF assms] by simp
  then have "pval p mod ?s = 0" by (metis dvd_mult_right dvd_eq_mod_eq_0)
  then show ?thesis
    using assms wf_prefixD(2) [OF assms(1)] splitBranch_val [OF assms, of h]
    by (auto simp: wf_prefix_def isSplittable_def)
qed

text \<open>The two branches cover the prefix and are disjoint.\<close>

lemma splitBranch_covers:
  assumes "wf_prefix p" "isSplittable p" "wf_id x"
  shows "isPrefixOf p x \<longleftrightarrow> isPrefixOf (splitBranch p False) x \<or> isPrefixOf (splitBranch p True) x"
    and "\<not> (isPrefixOf (splitBranch p False) x \<and> isPrefixOf (splitBranch p True) x)"
proof -
  have e: "2 ^ pspan p = 2 * (2 ^ nat (254 - depth p) :: nat)" using pspan_Suc [OF assms(1,2)] by simp
  note v = isPrefixOf_val [OF wf_splitBranch [OF assms(1,2)] assms(3)] splitBranch_val [OF assms(1,2)]
  show "isPrefixOf p x \<longleftrightarrow> isPrefixOf (splitBranch p False) x \<or> isPrefixOf (splitBranch p True) x"
    unfolding isPrefixOf_val [OF assms(1,3)] e v by auto
  show "\<not> (isPrefixOf (splitBranch p False) x \<and> isPrefixOf (splitBranch p True) x)"
    unfolding v by auto
qed

lemma getParent_val [id_simps]:
  assumes "wf_prefix p" "0 \<le> depth p"
  shows "pval (getParent p) = pval p div 2 ^ Suc (pspan p) * 2 ^ Suc (pspan p)"
    and "depth (getParent p) = depth p - 1"
    and "pspan (getParent p) = Suc (pspan p)"
    and "wf_prefix (getParent p)"
proof -
  obtain b where b: "depth p = int b" using assms(2) zero_le_imp_eq_int by blast
  then have b': "b < 256" "pspan p = 255 - b" using wf_prefixD(3) [OF assms(1)] by (auto simp: pspan_def)
  let ?m = "pspan p" and ?x = "pid p"
  have w: "wf_id ?x" using wf_prefixD(1) [OF assms(1)] .
  have g: "getParent p = \<lparr>pid = ?x[b div 8 := ?x ! (b div 8) AND NOT (bit_mask (b mod 8))], depth = depth p - 1\<rparr>"
    using assms b by (simp add: getParent_def setTail_def Let_def nat_div_distrib nat_mod_distrib)
  show v: "pval (getParent p) = pval p div 2 ^ Suc ?m * 2 ^ Suc ?m"
  proof (rule bit_eqI)
    fix n
    have "bit (pval p div 2 ^ Suc ?m * 2 ^ Suc ?m) n \<longleftrightarrow> Suc ?m \<le> n \<and> bit (pval p) n"
      by (simp only: push_bit_eq_mult [symmetric] drop_bit_eq_div [symmetric] bit_push_bit_iff
          bit_drop_bit_eq o_apply possible_bit_def) auto
    also have "\<dots> \<longleftrightarrow> bit (pval p) n \<and> n \<noteq> ?m"
      using wf_prefix_low_bits [OF assms(1), of n] by (cases "n < ?m") auto
    also have "\<dots> \<longleftrightarrow> bit (pval (getParent p)) n"
      unfolding g using bit_id_val_clear_bit [OF w b'(1)] b'(2) by simp
    finally show "bit (pval (getParent p)) n = bit (pval p div 2 ^ Suc ?m * 2 ^ Suc ?m) n" by simp
  qed
  show d: "depth (getParent p) = depth p - 1" by (simp add: g)
  then show s: "pspan (getParent p) = Suc ?m"
    using wf_prefixD(3) [OF assms(1)] by (simp add: pspan_def)
  have "wf_id (pid (getParent p))" using w by (simp add: g)
  then show "wf_prefix (getParent p)"
    unfolding wf_prefix_def s v using assms(2) wf_prefixD(3) [OF assms(1)] by (simp add: d)
qed

lemma isSiblingOf_val [id_simps]:
  assumes "wf_prefix p" "wf_prefix q" "0 \<le> depth p"
  shows "isSiblingOf p q \<longleftrightarrow>
    depth p = depth q \<and> pval p div 2 ^ Suc (pspan p) = pval q div 2 ^ Suc (pspan p)"
proof -
  have "nat (255 - (depth p - 1)) = Suc (pspan p)"
    using wf_prefixD(3) [OF assms(1)] by (simp add: pspan_def)
  then show ?thesis
    using assms wf_prefixD [OF assms(1)] wf_prefixD(1) [OF assms(2)]
    by (simp add: isSiblingOf_def bitsEqual_val)
qed

text \<open>The lower of two different siblings is the low half of their parent, the other the high half.\<close>

lemma sibling_halves:
  assumes "wf_prefix p" "wf_prefix q" "isSiblingOf p q" "pval p < pval q"
  shows "0 \<le> depth p" "pval (getParent p) = pval p" "pval q = pval p + 2 ^ pspan p" "pspan q = pspan p"
proof -
  have d: "depth p = depth q" using assms(3) by (simp add: isSiblingOf_def)
  then show s: "pspan q = pspan p" by (simp add: pspan_def)
  show p0: "0 \<le> depth p"
  proof (rule ccontr)
    assume "\<not> 0 \<le> depth p"
    then have "pspan p = 256" using wf_prefixD(2) [OF assms(1)] by (simp add: pspan_def)
    then show False using prefix_fits [OF assms(2)] s assms(4) by simp
  qed
  let ?s = "2 ^ pspan p :: nat"
  define c where "c = pval p div 2 ^ Suc (pspan p)"
  obtain i j where ij: "pval p = i * ?s" "pval q = j * ?s"
    using wf_prefixD(5) [OF assms(1)] wf_prefixD(5) [OF assms(2)] s by metis
  have "i div 2 = c" "j div 2 = c"
    using isSiblingOf_val [OF assms(1,2) p0] assms(3)
    by (simp_all add: ij c_def mult.commute [of _ ?s])
  moreover have "i < j" using assms(4) ij by simp
  ultimately have "i = 2 * c" "j = 2 * c + 1" by linarith+
  then show "pval (getParent p) = pval p" "pval q = pval p + ?s"
    using getParent_val(1) [OF assms(1) p0] by (simp_all add: ij c_def algebra_simps)
qed

lemma sibling_parent_covers:
  assumes "wf_prefix p" "wf_prefix q" "isSiblingOf p q" "pval p < pval q" "wf_id x"
  shows "isPrefixOf (getParent p) x \<longleftrightarrow> isPrefixOf p x \<or> isPrefixOf q x"
proof -
  note h = sibling_halves [OF assms(1-4)]
  note g = getParent_val [OF assms(1) h(1)]
  show ?thesis
    unfolding isPrefixOf_val [OF assms(1,5)] isPrefixOf_val [OF assms(2,5)] isPrefixOf_val [OF g(4) assms(5)]
      h(2,3,4) g(3) by auto
qed

lemma prefix_last_val [id_simps]:
  assumes "wf_prefix p"
  shows "id_val (prefix_last p) = pval p + 2 ^ pspan p - 1" "wf_id (prefix_last p)"
proof -
  let ?m = "pspan p" and ?q = "mkPrefix MAX_ID (depth p)"
  note wp = wf_prefixD [OF assms]
  have wq: "wf_id (pid ?q)" using wf_prefixD(1) [OF wf_mkPrefix [OF wf_MAX_ID wp(2,3)]] .
  have m: "?m \<le> 256" using wp(2) by (simp add: pspan_def)
  have q: "bit (pval ?q) n \<longleftrightarrow> ?m \<le> n \<and> n < 256" for n
  proof -
    have "pval ?q = id_val MAX_ID div 2 ^ ?m * 2 ^ ?m"
      using pval_mkPrefix [OF wf_MAX_ID wp(2,3)] by (simp only: pspan_def)
    then have "bit (pval ?q) n \<longleftrightarrow> ?m \<le> n \<and> bit (id_val MAX_ID) n"
      by (simp only: push_bit_eq_mult [symmetric] drop_bit_eq_div [symmetric] bit_push_bit_iff
          bit_drop_bit_eq o_apply possible_bit_def) auto
    then show ?thesis by (simp only: bit_MAX_ID)
  qed
  have t: "id_val (distance (pid ?q) MAX_ID) = mask ?m"
    unfolding distance_val [OF wq wf_MAX_ID]
    by (rule bit_eqI) (use m in \<open>auto simp: bit_xor_iff q bit_MAX_ID bit_mask_iff simp del: id_val_MAX_ID\<close>)
  have wl: "wf_id (distance (pid ?q) MAX_ID)" using wq by simp
  have "id_val (prefix_last p) = pval p XOR mask ?m"
    by (simp only: prefix_last_def Let_def distance_val [OF wp(1) wl] t)
  also have "\<dots> = pval p + mask ?m"
    by (rule disjunctive_add_eq_xor [symmetric])
      (auto intro!: bit_eqI simp: bit_and_iff bit_mask_iff wf_prefix_low_bits [OF assms])
  finally show "id_val (prefix_last p) = pval p + 2 ^ ?m - 1" by (simp add: mask_eq_exp_minus_1)
  show "wf_id (prefix_last p)" using wl wp(1) by (simp add: prefix_last_def)
qed

lemma createRandomId_covered:
  assumes "wf_prefix p" "wf_id rnd"
  shows "isPrefixOf p (createRandomId rnd p)" "wf_id (createRandomId rnd p)"
proof -
  note wp = wf_prefixD [OF assms(1)]
  show w: "wf_id (createRandomId rnd p)" using wp(1) assms(2) by (simp add: createRandomId_def)
  have "id_val (createRandomId rnd p) = pval p + id_val rnd mod 2 ^ pspan p"
    using bitsCopy_val [OF wp(1) assms(2) wp(2,3)] wp(5) by (simp add: createRandomId_def pspan_def)
  then show "isPrefixOf p (createRandomId rnd p)" unfolding isPrefixOf_val [OF assms(1) w] by simp
qed

lemma getParent_splitBranch_wf:
  assumes "wf_prefix p" "isSplittable p"
  shows "getParent (splitBranch p h) = p"
proof -
  note v = splitBranch_val [OF assms, of h]
  have d: "0 \<le> depth (splitBranch p h)" using v(2) wf_prefixD(2) [OF assms(1)] by simp
  note g = getParent_val [OF wf_splitBranch [OF assms] d]
  have s: "Suc (nat (254 - depth p)) = pspan p" using pspan_Suc [OF assms] by simp
  have "(pval p + (if h then 2 ^ nat (254 - depth p) else 0)) div 2 ^ pspan p * 2 ^ pspan p = pval p"
  proof -
    have "(if h then 2 ^ nat (254 - depth p) else 0 :: nat) < 2 ^ pspan p" by (simp flip: s)
    then have "(pval p + (if h then 2 ^ nat (254 - depth p) else 0)) div 2 ^ pspan p = pval p div 2 ^ pspan p"
      using wf_prefixD(5) [OF assms(1)] by (subst div_eq_interval) simp_all
    then show ?thesis using wf_prefixD(5) [OF assms(1)] by simp
  qed
  then show ?thesis
    using g v s wf_prefixD(1) [OF g(4)] wf_prefixD(1) [OF assms(1)] by (intro prefix_eqI) simp_all
qed

end
