(* ===== verification/Buckets.thy ===== *)
theory Buckets
  imports Bucket_Entries Prefixes
begin

text \<open>
  One k-bucket: \<^verbatim>\<open>src/core/kbucket.cc\<close> and \<^verbatim>\<open>src/core/kbucket.h\<close>. The bucket is a record
  with the prefix it covers and the list of its entries; \<open>bref\<close> is the identity of the shared
  bucket object. A null \<^verbatim>\<open>Sp<KBucketEntry>\<close> is \<open>None\<close>. The clock is read once per operation
  and passed as \<open>now\<close>. The lemmas give the bucket invariant (at most eight reachable entries,
  pairwise different ids, addresses and objects), its preservation by every operation, and the
  effect of \<open>bucket_put\<close> on each of its branches.
\<close>

section \<open>Definitions\<close>

record KBucket =
  bref :: nat
  bprefix :: Prefix
  homeBucket :: bool
  entries :: "KBucketEntry list"
  lastRefresh :: u64

definition mkKBucket :: "nat \<Rightarrow> Prefix \<Rightarrow> bool \<Rightarrow> KBucket" where
  "mkKBucket r p isHome = \<lparr>bref = r, bprefix = prefix_copy p, homeBucket = isHome, entries = [], lastRefresh = 0\<rparr>"

definition isFull :: "KBucket \<Rightarrow> bool" where
  "isFull b \<longleftrightarrow> length (entries b) \<ge> MAX_ENTRIES_PER_BUCKET"

text \<open>\<open>r\<close> is the number drawn by the random generator, between \<open>0\<close> and \<open>size - 1\<close>.\<close>

definition bucket_random :: "int \<Rightarrow> KBucket \<Rightarrow> KBucketEntry option" where
  "bucket_random r b = (if entries b = [] then None else list_get (entries b) r)"

definition findAny :: "KBucket \<Rightarrow> (KBucketEntry \<Rightarrow> bool) \<Rightarrow> KBucketEntry option" where
  "findAny b predicate = find predicate (entries b)"

definition anyMatch :: "KBucket \<Rightarrow> (KBucketEntry \<Rightarrow> bool) \<Rightarrow> bool" where
  "anyMatch b predicate \<longleftrightarrow> findAny b predicate \<noteq> None"

definition bucket_get :: "KBucket \<Rightarrow> Id \<Rightarrow> KBucketEntry option" where
  "bucket_get b i = findAny b (\<lambda>e. id_eq (nodeId e) i)"

definition bucket_find :: "KBucket \<Rightarrow> Id \<Rightarrow> SocketAddress \<Rightarrow> KBucketEntry option" where
  "bucket_find b i addr = findAny b (\<lambda>e. id_eq (nodeId e) i \<or> sa_eq (sockaddr e) addr)"

definition bucket_exists :: "KBucket \<Rightarrow> Id \<Rightarrow> bool" where
  "bucket_exists b i = anyMatch b (\<lambda>e. id_eq (nodeId e) i)"

definition needsToBeRefreshed :: "u64 \<Rightarrow> KBucket \<Rightarrow> bool" where
  "needsToBeRefreshed now b \<longleftrightarrow>
     now - lastRefresh b > BUCKET_REFRESH_INTERVAL \<and> anyMatch b (needsPing now)"

definition bucket_needsReplacement :: "u64 \<Rightarrow> KBucket \<Rightarrow> bool" where
  "bucket_needsReplacement now b = anyMatch b (entry_needsReplacement now)"

definition updateRefreshTimer :: "u64 \<Rightarrow> KBucket \<Rightarrow> KBucket" where
  "updateRefreshTimer now b = b\<lparr>lastRefresh := now\<rparr>"

definition bucket_compareTo :: "KBucket \<Rightarrow> KBucket \<Rightarrow> int" where
  "bucket_compareTo a b = compareTo (pid (bprefix a)) (pid (bprefix b))"

definition sortKBucketEntry :: "KBucketEntry \<Rightarrow> KBucketEntry \<Rightarrow> bool" where
  "sortKBucketEntry a b \<longleftrightarrow> created a < created b"

text \<open>\<^verbatim>\<open>_update(toRemove, toInsert)\<close>.\<close>

definition update_insert :: "KBucketEntry list \<Rightarrow> KBucketEntry \<Rightarrow> bool \<times> KBucketEntry list" where
  "update_insert newEntries toInsert =
     (let oldSize = length newEntries;
          wasFull = oldSize \<ge> MAX_ENTRIES_PER_BUCKET;
          youngest = (if oldSize > 0 then list_get newEntries (int oldSize - 1) else None);
          unorderedInsert = (case youngest of None \<Rightarrow> False | Some y \<Rightarrow> created toInsert < created y);
          added = (\<not> wasFull \<or> unorderedInsert);
          es = (if added then newEntries @ [toInsert] else newEntries)
      in (added, if unorderedInsert then list_sort sortKBucketEntry es else es))"

definition update_entries :: "KBucketEntry option \<Rightarrow> KBucketEntry option \<Rightarrow> KBucket \<Rightarrow> KBucket" where
  "update_entries toRemove toInsert b =
     (if (case toInsert of None \<Rightarrow> False | Some n \<Rightarrow> anyMatch b (\<lambda>e. matches n e)) then b
      else let (removed, es1) =
                 (case toRemove of None \<Rightarrow> (False, entries b)
                  | Some r \<Rightarrow> (True, filter (\<lambda>e. eref e \<noteq> eref r) (entries b)));
               (added, es2) = (case toInsert of None \<Rightarrow> (False, es1) | Some n \<Rightarrow> update_insert es1 n)
           in if added \<or> removed then b\<lparr>entries := es2\<rparr> else b)"

definition replaceBadEntry :: "u64 \<Rightarrow> KBucketEntry \<Rightarrow> KBucket \<Rightarrow> bool \<times> KBucket" where
  "replaceBadEntry now newEntry b =
     (case find (entry_needsReplacement now) (entries b) of
        Some e \<Rightarrow> (True, update_entries (Some e) (Some newEntry) b)
      | None \<Rightarrow> (False, b))"

text \<open>The loop of \<^verbatim>\<open>_put\<close> over the present entries: \<open>Some\<close> is an early return with the entries it
  leaves, \<open>None\<close> a loop that falls through.\<close>

fun put_existing :: "KBucketEntry \<Rightarrow> KBucketEntry list \<Rightarrow> KBucketEntry list option" where
  "put_existing newEntry [] = None"
| "put_existing newEntry (e # es) =
     (if equals e newEntry then Some (entry_merge e newEntry # es)
      else if matches e newEntry then Some (e # es)
      else map_option ((#) e) (put_existing newEntry es))"

definition put_new :: "u64 \<Rightarrow> KBucketEntry \<Rightarrow> KBucket \<Rightarrow> KBucket" where
  "put_new now newEntry b =
     (if reachable newEntry then
        (if length (entries b) < MAX_ENTRIES_PER_BUCKET then update_entries None (Some newEntry) b
         else let (replaced, b1) = replaceBadEntry now newEntry b
              in if replaced then b1
                 else case list_get (entries b) (int (length (entries b)) - 1) of
                        None \<Rightarrow> b
                      | Some youngest \<Rightarrow>
                          if created youngest > created newEntry
                          then update_entries (Some youngest) (Some newEntry) b else b)
      else b)"

definition bucket_put :: "u64 \<Rightarrow> KBucketEntry option \<Rightarrow> KBucket \<Rightarrow> KBucket" where
  "bucket_put now newEntry b =
     (case newEntry of
        None \<Rightarrow> b
      | Some n \<Rightarrow> (case put_existing n (entries b) of
                      Some es \<Rightarrow> b\<lparr>entries := es\<rparr>
                    | None \<Rightarrow> put_new now n b))"

definition removeIfBad :: "u64 \<Rightarrow> KBucketEntry \<Rightarrow> bool \<Rightarrow> KBucket \<Rightarrow> KBucket" where
  "removeIfBad now toRemove force b =
     (if (force \<or> entry_needsReplacement now toRemove) \<and> anyMatch b (\<lambda>e. id_eq (nodeId e) (nodeId toRemove))
      then update_entries (Some toRemove) None b else b)"

fun update_first :: "('a \<Rightarrow> bool) \<Rightarrow> ('a \<Rightarrow> 'a) \<Rightarrow> 'a list \<Rightarrow> 'a list" where
  "update_first p f [] = []"
| "update_first p f (x # xs) = (if p x then f x # xs else x # update_first p f xs)"

definition update_refresh :: "KBucketEntry \<Rightarrow> KBucket \<Rightarrow> KBucket" where
  "update_refresh toRefresh b =
     b\<lparr>entries := update_first (\<lambda>e. equals e toRefresh) (\<lambda>e. entry_merge e toRefresh) (entries b)\<rparr>"

definition notifyOfResponse :: "u64 \<Rightarrow> bool \<Rightarrow> bool \<Rightarrow> Id \<Rightarrow> KBucket \<Rightarrow> KBucket" where
  "notifyOfResponse now isResponse hasAssociatedCall msgId b =
     (if \<not> isResponse \<or> \<not> hasAssociatedCall then b
      else b\<lparr>entries := update_first (\<lambda>e. id_eq (nodeId e) msgId) (signalResponse now) (entries b)\<rparr>)"

definition bucket_onTimeout :: "u64 \<Rightarrow> Id \<Rightarrow> KBucket \<Rightarrow> KBucket" where
  "bucket_onTimeout now i b =
     (case bucket_get b i of
        None \<Rightarrow> b
      | Some e \<Rightarrow> let e' = signalRequestTimeout e;
                     b' = b\<lparr>entries := update_first (\<lambda>x. id_eq (nodeId x) i) (\<lambda>_. e') (entries b)\<rparr>
                 in removeIfBad now e' False b')"

definition bucket_onSend :: "u64 \<Rightarrow> Id \<Rightarrow> KBucket \<Rightarrow> KBucket" where
  "bucket_onSend now i b =
     b\<lparr>entries := update_first (\<lambda>e. id_eq (nodeId e) i) (signalRequest now) (entries b)\<rparr>"

section \<open>The bucket invariant\<close>

definition entries_ok :: "KBucketEntry list \<Rightarrow> bool" where
  "entries_ok es \<longleftrightarrow> (\<forall>e\<in>set es. wf_node e \<and> reachable e) \<and> distinct (map nodeId es)
     \<and> distinct (map sockaddr es) \<and> distinct (map eref es)"

definition bucket_inv :: "KBucket \<Rightarrow> bool" where
  "bucket_inv b \<longleftrightarrow> wf_prefix (bprefix b) \<and> length (entries b) \<le> MAX_ENTRIES_PER_BUCKET
     \<and> entries_ok (entries b) \<and> (\<forall>e\<in>set (entries b). isPrefixOf (bprefix b) (nodeId e))"

text \<open>An entry handed to the bucket is an object of its own, or already the bucket's entry.\<close>

definition fresh_for :: "KBucketEntry \<Rightarrow> KBucketEntry list \<Rightarrow> bool" where
  "fresh_for n es \<longleftrightarrow> (\<forall>e\<in>set es. eref e = eref n \<longrightarrow> nodeId e = nodeId n \<and> sockaddr e = sockaddr n)"

lemma bucket_invD:
  assumes "bucket_inv b"
  shows "wf_prefix (bprefix b)" "length (entries b) \<le> MAX_ENTRIES_PER_BUCKET" "entries_ok (entries b)"
    "\<And>e. e \<in> set (entries b) \<Longrightarrow> isPrefixOf (bprefix b) (nodeId e)"
    "\<And>e. e \<in> set (entries b) \<Longrightarrow> wf_node e" "\<And>e. e \<in> set (entries b) \<Longrightarrow> reachable e"
  using assms by (auto simp: bucket_inv_def entries_ok_def)

lemma anyMatch_iff [simp]: "anyMatch b p \<longleftrightarrow> (\<exists>e\<in>set (entries b). p e)"
  by (auto simp: anyMatch_def findAny_def find_None_iff)

lemma entries_ok_mset: "mset es = mset fs \<Longrightarrow> entries_ok es = entries_ok fs"
  unfolding entries_ok_def using distinct_map_mset mset_eq_setD by (metis (no_types, lifting))

lemma entries_ok_filter: "entries_ok es \<Longrightarrow> entries_ok (filter p es)"
  by (auto simp: entries_ok_def distinct_map_filter)

lemma entries_ok_Cons:
  "entries_ok (e # es) \<longleftrightarrow> entries_ok es \<and> wf_node e \<and> reachable e \<and> nodeId e \<notin> nodeId ` set es
     \<and> sockaddr e \<notin> sockaddr ` set es \<and> eref e \<notin> eref ` set es"
  by (auto simp: entries_ok_def)

lemma mkKBucket_inv: "wf_prefix p \<Longrightarrow> bucket_inv (mkKBucket r p h)"
  by (simp add: bucket_inv_def mkKBucket_def entries_ok_def)

text \<open>Updating one entry in place keeps the invariant of the list as long as the update is of the
  same node and keeps it reachable.\<close>

lemma update_first_maps:
  "(\<And>x. x \<in> set xs \<Longrightarrow> g (f x) = g x) \<Longrightarrow> map g (update_first p f xs) = map g xs"
  by (induction xs) auto

lemma set_update_first: "set (update_first p f xs) \<subseteq> set xs \<union> f ` {x \<in> set xs. p x}"
  by (induction xs) auto

lemma length_update_first [simp]: "length (update_first p f xs) = length xs"
  by (induction xs) auto

lemma entries_ok_update_first:
  assumes "entries_ok es" "\<And>e. e \<in> set es \<Longrightarrow> p e \<Longrightarrow> same_node (f e) e \<and> reachable (f e)"
  shows "entries_ok (update_first p f es)"
  using assms
proof (induction es)
  case Nil
  then show ?case by simp
next
  case (Cons x xs)
  have "map nodeId (update_first p f xs) = map nodeId xs"
    "map sockaddr (update_first p f xs) = map sockaddr xs"
    "map eref (update_first p f xs) = map eref xs" if "\<not> p x" using that Cons.prems(2)
    by (induction xs) (auto simp: same_node_def)
  then have "entries_ok (x # update_first p f xs)" if "\<not> p x"
    using Cons that by (auto simp: entries_ok_Cons simp flip: set_map)
  moreover have "entries_ok (f x # xs)" if "p x"
    using Cons.prems that wf_node_same [of "f x" x] by (auto simp: entries_ok_Cons same_node_def)
  ultimately show ?case by simp
qed

lemma bucket_inv_update_first:
  assumes "bucket_inv b" "\<And>e. e \<in> set (entries b) \<Longrightarrow> p e \<Longrightarrow> same_node (f e) e \<and> reachable (f e)"
  shows "bucket_inv (b\<lparr>entries := update_first p f (entries b)\<rparr>)"
  using assms set_update_first [of p f "entries b"]
  by (fastforce simp: bucket_inv_def entries_ok_update_first same_node_def)

lemma put_existing_update:
  "put_existing n es = (if \<exists>e\<in>set es. matches e n
     then Some (update_first (\<lambda>e. matches e n) (\<lambda>e. if equals e n then entry_merge e n else e) es) else None)"
  by (induction es) (auto simp: matches_def equals_def)

lemma bucket_inv_filter: "bucket_inv b \<Longrightarrow> bucket_inv (b\<lparr>entries := filter p (entries b)\<rparr>)"
  by (auto simp: bucket_inv_def entries_ok_filter intro: le_trans [OF length_filter_le])

lemma update_insert_mset:
  "length es < MAX_ENTRIES_PER_BUCKET \<Longrightarrow>
     fst (update_insert es n) \<and> mset (snd (update_insert es n)) = add_mset n (mset es)"
  by (simp add: update_insert_def Let_def)

lemma entries_ok_insert:
  assumes "entries_ok es" "wf_node n" "reachable n" "fresh_for n es" "\<forall>e\<in>set es. \<not> matches n e"
    and "mset fs = add_mset n (mset es)"
  shows "entries_ok fs"
proof -
  have d: "nodeId e \<noteq> nodeId n \<and> sockaddr e \<noteq> sockaddr n \<and> eref e \<noteq> eref n" if "e \<in> set es" for e
    using assms(1,2,4,5) that by (auto simp: entries_ok_def fresh_for_def)
  have "entries_ok (n # es)"
    unfolding entries_ok_Cons using assms(1-3) by (auto dest: d)
  then show ?thesis
    using entries_ok_mset [of fs "n # es"] assms(6) by simp
qed

text \<open>Removing one entry of the bucket by its object.\<close>

lemma filter_eref_mset:
  "entries_ok es \<Longrightarrow> e \<in> set es \<Longrightarrow> mset es = add_mset e (mset (filter (\<lambda>x. eref x \<noteq> eref e) es))"
proof (induction es)
  case Nil
  then show ?case by simp
next
  case (Cons x xs)
  have "mset (filter (\<lambda>y. eref y \<noteq> eref x) xs) = mset xs"
    using Cons.prems(1) by (intro arg_cong [of _ _ mset] filter_True) (metis entries_ok_Cons imageI)
  moreover have "eref x \<noteq> eref e" if "e \<in> set xs"
    using Cons.prems(1) that by (auto simp: entries_ok_Cons)
  ultimately show ?case using Cons by (auto simp: entries_ok_Cons)
qed

text \<open>The effect of inserting, with and without a victim, on an unmatched new entry.\<close>

lemma update_entries_insert:
  assumes "\<forall>e\<in>set (entries b). \<not> matches n e" "length (entries b) < MAX_ENTRIES_PER_BUCKET"
  obtains fs where "update_entries None (Some n) b = b\<lparr>entries := fs\<rparr>" "mset fs = add_mset n (mset (entries b))"
  using assms update_insert_mset [OF assms(2), of n]
  by (cases "update_insert (entries b) n") (auto simp: update_entries_def)

lemma update_entries_replace:
  assumes "bucket_inv b" "\<forall>e\<in>set (entries b). \<not> matches n e" "v \<in> set (entries b)"
  obtains fs where "update_entries (Some v) (Some n) b = b\<lparr>entries := fs\<rparr>"
    "mset (entries b) + {#n#} = mset fs + {#v#}"
proof -
  let ?es = "filter (\<lambda>e. eref e \<noteq> eref v) (entries b)"
  have m: "mset (entries b) = add_mset v (mset ?es)"
    using filter_eref_mset bucket_invD(3) assms(1,3) by blast
  then have "length (entries b) = Suc (length ?es)"
    using size_mset by (metis size_add_mset)
  then have "length ?es < MAX_ENTRIES_PER_BUCKET"
    using bucket_invD(2) [OF assms(1)] by simp
  from update_insert_mset [OF this, of n]
  obtain fs where fs: "update_insert ?es n = (True, fs)" "mset fs = add_mset n (mset ?es)"
    by (cases "update_insert ?es n") auto
  have "\<not> anyMatch b (\<lambda>e. matches n e)"
    using assms(2) by simp
  then have "update_entries (Some v) (Some n) b = b\<lparr>entries := fs\<rparr>"
    by (simp only: update_entries_def option.case fs(1) prod.case Let_def if_False if_True simp_thms)
  moreover have "mset (entries b) + {#n#} = mset fs + {#v#}"
    using m fs(2) by simp
  ultimately show ?thesis by (rule that)
qed

lemma matches_sym: "wf_node a \<Longrightarrow> wf_node b \<Longrightarrow> matches a b = matches b a"
  by (simp add: matches_def wf_node_def) metis

text \<open>What \<open>put_new\<close> does, as a choice of a victim: \<open>Some None\<close> inserts without a victim, \<open>None\<close>
  leaves the bucket alone.\<close>

definition put_victim :: "u64 \<Rightarrow> KBucketEntry \<Rightarrow> KBucketEntry list \<Rightarrow> KBucketEntry option option" where
  "put_victim now n es =
     (if \<not> reachable n then None
      else if length es < MAX_ENTRIES_PER_BUCKET then Some None
      else case find (entry_needsReplacement now) es of
             Some bad \<Rightarrow> Some (Some bad)
           | None \<Rightarrow> if created (last es) > created n then Some (Some (last es)) else None)"

definition put_spec :: "u64 \<Rightarrow> KBucketEntry \<Rightarrow> KBucketEntry list \<Rightarrow> KBucketEntry multiset" where
  "put_spec now n es =
     (case put_victim now n es of
        None \<Rightarrow> mset es
      | Some None \<Rightarrow> add_mset n (mset es)
      | Some (Some v) \<Rightarrow> add_mset n (mset es - {#v#}))"

lemma put_victim_in: "length es \<ge> MAX_ENTRIES_PER_BUCKET \<Longrightarrow> put_victim now n es = Some (Some v) \<Longrightarrow> v \<in> set es"
  by (cases es rule: rev_cases)
    (auto simp: put_victim_def KBucket_constants dest: findD split: if_splits option.splits)

lemma put_victim_full: "put_victim now n es = Some (Some v) \<Longrightarrow> length es \<ge> MAX_ENTRIES_PER_BUCKET"
  by (auto simp: put_victim_def split: if_splits)

lemma put_new_victim:
  "put_new now n b = (case put_victim now n (entries b) of None \<Rightarrow> b | Some v \<Rightarrow> update_entries v (Some n) b)"
proof -
  have "list_get (entries b) (int (length (entries b)) - 1) = Some (last (entries b))"
    if "\<not> length (entries b) < MAX_ENTRIES_PER_BUCKET"
    using that by (cases "entries b" rule: rev_cases) (auto simp: list_get_def nat_diff_distrib KBucket_constants)
  then show ?thesis
    by (auto simp: put_new_def put_victim_def replaceBadEntry_def Let_def split: option.splits)
qed

lemma put_new_effect:
  assumes "bucket_inv b" "\<forall>e\<in>set (entries b). \<not> matches n e"
  obtains fs where "put_new now n b = b\<lparr>entries := fs\<rparr>" "mset fs = put_spec now n (entries b)"
proof (cases "put_victim now n (entries b)")
  case None
  then show ?thesis using that [of "entries b"] by (simp add: put_new_victim put_spec_def)
next
  case (Some v)
  note v = this
  show ?thesis
  proof (cases v)
    case None
    then have "length (entries b) < MAX_ENTRIES_PER_BUCKET"
      using v by (auto simp: put_victim_def split: if_splits option.splits)
    with None v show ?thesis
      using update_entries_insert [OF assms(2)] that by (auto simp: put_new_victim put_spec_def)
  next
    case (Some u)
    then have "u \<in> set (entries b)"
      using v put_victim_full put_victim_in by blast
    from update_entries_replace [OF assms this] obtain fs
      where fs: "update_entries (Some u) (Some n) b = b\<lparr>entries := fs\<rparr>"
        "mset (entries b) + {#n#} = mset fs + {#u#}" .
    have "mset fs = (mset (entries b) + {#n#}) - {#u#}"
      unfolding fs(2) by simp
    also have "\<dots> = add_mset n (mset (entries b) - {#u#})"
      using \<open>u \<in> set (entries b)\<close> by (simp add: multiset_eq_iff)
    finally have "mset fs = add_mset n (mset (entries b) - {#u#})" .
    with fs(1) Some v show ?thesis
      by (intro that [of fs]) (simp_all add: put_new_victim put_spec_def)
  qed
qed


lemma put_spec_size:
  assumes "length es \<le> MAX_ENTRIES_PER_BUCKET"
  shows "length es \<le> size (put_spec now n es) \<and> size (put_spec now n es) \<le> MAX_ENTRIES_PER_BUCKET"
proof -
  have "size (mset es - {#v#}) = length es - 1 \<and> 0 < length es" if "put_victim now n es = Some (Some v)" for v
    using put_victim_in [OF put_victim_full [OF that] that]
    by (auto simp: size_Diff_singleton)
  moreover have "length es < MAX_ENTRIES_PER_BUCKET" if "put_victim now n es = Some None"
    using that by (auto simp: put_victim_def split: if_splits option.splits)
  ultimately show ?thesis
    using assms by (auto simp: put_spec_def split: option.split)
qed

lemma put_spec_subset: "set_mset (put_spec now n es) \<subseteq> insert n (set es)"
  by (auto simp: put_spec_def split: option.splits dest: in_diffD)

lemma put_spec_ok:
  assumes "entries_ok es" "wf_node n" "fresh_for n es" "\<forall>e\<in>set es. \<not> matches n e"
    and "mset fs = put_spec now n es"
  shows "entries_ok fs"
proof (cases "put_victim now n es")
  case None
  then show ?thesis
    using assms(1,5) entries_ok_mset [of fs es] by (simp add: put_spec_def)
next
  case (Some v)
  then have r: "reachable n" by (auto simp: put_victim_def split: if_splits)
  show ?thesis
  proof (cases v)
    case None
    then show ?thesis
      using assms Some r by (intro entries_ok_insert [of es n fs]) (auto simp: put_spec_def)
  next
    case v: (Some u)
    let ?es = "filter (\<lambda>e. eref e \<noteq> eref u) es"
    have "u \<in> set es" using put_victim_in put_victim_full Some v by blast
    then have "mset es - {#u#} = mset ?es"
      using filter_eref_mset [OF assms(1)] by (metis add_mset_remove_trivial)
    then have "mset fs = add_mset n (mset ?es)"
      using assms(5) Some v by (simp add: put_spec_def)
    then show ?thesis
      using assms r by (intro entries_ok_insert [of ?es n fs]) (auto simp: entries_ok_filter fresh_for_def)
  qed
qed

lemma matches_commute: "wf_node a \<Longrightarrow> entries_ok es \<Longrightarrow>
    (\<exists>e\<in>set es. matches e a) \<longleftrightarrow> (\<exists>e\<in>set es. matches a e)"
  by (metis entries_ok_def matches_sym)

section \<open>Preservation of the invariant\<close>

lemma put_merge_same:
  "entries_ok es \<Longrightarrow> e \<in> set es \<Longrightarrow>
    same_node (if equals e n then entry_merge e n else e) e \<and> reachable (if equals e n then entry_merge e n else e)"
  by (simp add: entries_ok_def reachable_merge)

lemma bucket_put_new:
  "\<forall>e\<in>set (entries b). \<not> matches e n \<Longrightarrow> bucket_put now (Some n) b = put_new now n b"
  by (simp add: bucket_put_def put_existing_update)

lemma bucket_put_known:
  "\<exists>e\<in>set (entries b). matches e n \<Longrightarrow> bucket_put now (Some n) b =
     b\<lparr>entries := update_first (\<lambda>e. matches e n) (\<lambda>e. if equals e n then entry_merge e n else e) (entries b)\<rparr>"
  by (simp add: bucket_put_def put_existing_update)

lemma bucket_put_prefix [simp]:
  "bprefix (bucket_put now n b) = bprefix b" "bref (bucket_put now n b) = bref b"
  "homeBucket (bucket_put now n b) = homeBucket b" "lastRefresh (bucket_put now n b) = lastRefresh b"
proof -
  have u: "\<exists>fs. update_entries r i b = b\<lparr>entries := fs\<rparr>" for r i
    by (auto simp: update_entries_def Let_def split: prod.splits option.splits)
      (metis KBucket.surjective KBucket.update_convs(4))+
  then have "\<exists>fs. put_new now m b = b\<lparr>entries := fs\<rparr>" for m
    by (auto simp: put_new_victim split: option.splits) (metis KBucket.surjective KBucket.update_convs(4))
  then have "\<exists>fs. bucket_put now n b = b\<lparr>entries := fs\<rparr>"
    by (auto simp: bucket_put_def split: option.splits) (metis KBucket.surjective KBucket.update_convs(4))
  then show "bprefix (bucket_put now n b) = bprefix b" "bref (bucket_put now n b) = bref b"
    "homeBucket (bucket_put now n b) = homeBucket b" "lastRefresh (bucket_put now n b) = lastRefresh b"
    by auto
qed

lemma bucket_put_inv:
  assumes "bucket_inv b" "wf_node n" "fresh_for n (entries b)" "isPrefixOf (bprefix b) (nodeId n)"
  shows "bucket_inv (bucket_put now (Some n) b)"
proof (cases "\<exists>e\<in>set (entries b). matches e n")
  case True
  then show ?thesis unfolding bucket_put_known [OF True]
    using assms(1) put_merge_same [OF bucket_invD(3)] by (intro bucket_inv_update_first) blast+
next
  case False
  then have nm: "\<forall>e\<in>set (entries b). \<not> matches n e"
    using matches_commute [OF assms(2) bucket_invD(3)] assms(1) by blast
  from put_new_effect [OF assms(1) nm] obtain fs
    where fs: "put_new now n b = b\<lparr>entries := fs\<rparr>" "mset fs = put_spec now n (entries b)" .
  have "entries_ok fs"
    using put_spec_ok [OF bucket_invD(3) assms(2,3) nm fs(2)] assms(1) .
  moreover have "length fs \<le> MAX_ENTRIES_PER_BUCKET"
    using put_spec_size bucket_invD(2) [OF assms(1)] fs(2) by (metis size_mset)
  moreover have "set fs \<subseteq> insert n (set (entries b))"
    using put_spec_subset fs(2) by (metis set_mset_mset)
  ultimately show ?thesis
    using assms(1,4) False fs(1) by (auto simp: bucket_put_new bucket_inv_def)
qed

lemma bucket_put_entries:
  assumes "bucket_inv b" "wf_node n" "e \<in> set (entries (bucket_put now (Some n) b))"
  shows "(\<exists>e'\<in>set (entries b). same_node e e') \<or> (e = n \<and> (\<forall>e'\<in>set (entries b). \<not> matches e' n))"
proof (cases "\<exists>e\<in>set (entries b). matches e n")
  case True
  then show ?thesis using assms(3) same_node_refl same_node_signals(5) unfolding bucket_put_known [OF True]
    using set_update_first by (fastforce split: if_splits)
next
  case False
  then have nm: "\<forall>e\<in>set (entries b). \<not> matches n e"
    using matches_commute [OF assms(2) bucket_invD(3)] assms(1) by blast
  from put_new_effect [OF assms(1) nm, of now] obtain fs
    where fs: "put_new now n b = b\<lparr>entries := fs\<rparr>" "mset fs = put_spec now n (entries b)" .
  have "set fs \<subseteq> insert n (set (entries b))"
    using put_spec_subset fs(2) by (metis set_mset_mset)
  then have "e = n \<or> e \<in> set (entries b)"
    using assms(3) fs(1) False by (auto simp: bucket_put_new)
  then show ?thesis using False same_node_refl by blast
qed

lemma bucket_put_length:
  assumes "bucket_inv b" "wf_node n"
  shows "length (entries b) \<le> length (entries (bucket_put now (Some n) b))"
proof (cases "\<exists>e\<in>set (entries b). matches e n")
  case True
  then show ?thesis by (simp add: bucket_put_known)
next
  case False
  then have nm: "\<forall>e\<in>set (entries b). \<not> matches n e"
    using matches_commute [OF assms(2) bucket_invD(3)] assms(1) by blast
  from put_new_effect [OF assms(1) nm] obtain fs
    where fs: "put_new now n b = b\<lparr>entries := fs\<rparr>" "mset fs = put_spec now n (entries b)" .
  then have "length fs = size (put_spec now n (entries b))" by (metis size_mset)
  with put_spec_size [OF bucket_invD(2) [OF assms(1)]] fs(1) False show ?thesis
    by (simp add: bucket_put_new)
qed

lemma update_remove: "update_entries (Some r) None b = b\<lparr>entries := filter (\<lambda>e. eref e \<noteq> eref r) (entries b)\<rparr>"
  by (simp add: update_entries_def)

lemma removeIfBad_inv: "bucket_inv b \<Longrightarrow> bucket_inv (removeIfBad now e force b)"
  by (simp add: removeIfBad_def update_remove bucket_inv_filter)

lemma update_refresh_inv: "bucket_inv b \<Longrightarrow> bucket_inv (update_refresh n b)"
  unfolding update_refresh_def
  by (intro bucket_inv_update_first) (auto intro: reachable_merge bucket_invD)

lemma notifyOfResponse_inv: "bucket_inv b \<Longrightarrow> bucket_inv (notifyOfResponse now t c i b)"
  by (simp add: notifyOfResponse_def bucket_inv_update_first)

lemma bucket_onSend_inv: "bucket_inv b \<Longrightarrow> bucket_inv (bucket_onSend now i b)"
  unfolding bucket_onSend_def by (intro bucket_inv_update_first) (auto intro: bucket_invD)

lemma update_first_find:
  "find p xs = Some x \<Longrightarrow> update_first p (\<lambda>_. f x) xs = update_first p f xs"
  by (induction xs) (auto split: if_splits)

lemma bucket_onTimeout_inv:
  assumes "bucket_inv b"
  shows "bucket_inv (bucket_onTimeout now i b)"
proof (cases "bucket_get b i")
  case None
  then show ?thesis using assms by (simp add: bucket_onTimeout_def)
next
  case (Some e)
  then have "update_first (\<lambda>x. id_eq (nodeId x) i) (\<lambda>_. signalRequestTimeout e) (entries b)
      = update_first (\<lambda>x. id_eq (nodeId x) i) signalRequestTimeout (entries b)"
    by (intro update_first_find) (simp add: bucket_get_def findAny_def)
  moreover have "bucket_inv (b\<lparr>entries := update_first (\<lambda>x. id_eq (nodeId x) i) signalRequestTimeout (entries b)\<rparr>)"
    using assms by (intro bucket_inv_update_first) (auto intro: bucket_invD)
  ultimately show ?thesis using Some by (simp add: bucket_onTimeout_def Let_def removeIfBad_inv)
qed

lemma updateRefreshTimer_inv: "bucket_inv b \<Longrightarrow> bucket_inv (updateRefreshTimer now b)"
  by (simp add: updateRefreshTimer_def bucket_inv_def)

end
