(* ===== verification/Routing_Invariants.thy ===== *)
theory Routing_Invariants
  imports Routing_Tables
begin

text \<open>
  Every operation of the routing table returns and keeps the invariant \<open>rt_inv\<close>: splitting a
  bucket, the splitting loop of \<^verbatim>\<open>put\<close>, the updates of one bucket, merging of siblings, the
  periodic maintenance and loading.
\<close>

section \<open>Putting entries into a bucket with room\<close>

lemma bucket_put_room:
  assumes "bucket_inv b" "entries_ok (n # entries b)" "length (entries b) < MAX_ENTRIES_PER_BUCKET"
    "isPrefixOf (bprefix b) (nodeId n)"
  shows "mset (entries (bucket_put now (Some n) b)) = add_mset n (mset (entries b))"
    "bucket_inv (bucket_put now (Some n) b)"
proof -
  have n: "wf_node n" "reachable n" "\<forall>e\<in>set (entries b). nodeId e \<noteq> nodeId n \<and> sockaddr e \<noteq> sockaddr n \<and> eref e \<noteq> eref n"
    using assms(2) by (auto simp: entries_ok_Cons image_iff)
  have w: "\<And>e. e \<in> set (entries b) \<Longrightarrow> wf_node e" using bucket_invD(5) [OF assms(1)] .
  have nm: "\<forall>e\<in>set (entries b). \<not> matches n e" "\<forall>e\<in>set (entries b). \<not> matches e n"
    using n w by (auto simp: matches_iff)
  from put_new_effect [OF assms(1) nm(1), of now] obtain fs
    where "put_new now n b = b\<lparr>entries := fs\<rparr>" "mset fs = put_spec now n (entries b)" .
  then show "mset (entries (bucket_put now (Some n) b)) = add_mset n (mset (entries b))"
    using n(2) assms(3) by (simp add: bucket_put_new [OF nm(2)] put_spec_def put_victim_def)
  show "bucket_inv (bucket_put now (Some n) b)"
    using assms(1,4) n by (intro bucket_put_inv) (auto simp: fresh_for_def)
qed

lemma split_entries_effect:
  assumes "entries_ok (es @ entries l @ entries h)" "bucket_inv l" "bucket_inv h"
    and "length (es @ entries l @ entries h) \<le> MAX_ENTRIES_PER_BUCKET"
    and "\<forall>e\<in>set es. isPrefixOf (bprefix l) (nodeId e) \<or> isPrefixOf (bprefix h) (nodeId e)"
    and "split_entries now es l h = (l', h')"
  shows "bucket_inv l' \<and> bucket_inv h' \<and> bprefix l' = bprefix l \<and> bprefix h' = bprefix h
    \<and> bref l' = bref l \<and> bref h' = bref h \<and> homeBucket l' = homeBucket l \<and> homeBucket h' = homeBucket h
    \<and> mset (entries l') + mset (entries h') = mset es + mset (entries l) + mset (entries h)"
  using assms
proof (induction es arbitrary: l h)
  case Nil
  then show ?case by simp
next
  case (Cons e es)
  have ok: "entries_ok (e # es @ entries l @ entries h)" using Cons.prems(1) by simp
  have sub: "entries_ok (e # entries b)" if "b = l \<or> b = h" for b
    using ok that by (auto simp: entries_ok_Cons) (auto simp: entries_ok_def)
  have len: "length (entries b) < MAX_ENTRIES_PER_BUCKET" if "b = l \<or> b = h" for b
    using Cons.prems(4) that by auto
  have perm: "entries_ok fs" "length fs = length (e # es @ entries l @ entries h)"
    if "mset fs = mset (e # es @ entries l @ entries h)" for fs
    using that ok entries_ok_mset [of fs "e # es @ entries l @ entries h"] mset_eq_length by blast+
  show ?case
  proof (cases "isPrefixOf (bprefix l) (nodeId e)")
    case True
    note p = bucket_put_room [OF Cons.prems(2) sub len True, of now, simplified]
    have "mset (es @ entries (bucket_put now (Some e) l) @ entries h) = mset (e # es @ entries l @ entries h)"
      using p(1) by simp
    from Cons.IH [OF perm(1) [OF this] p(2) Cons.prems(3)] perm(2) [OF this] True p(1) Cons.prems(4-6)
    show ?thesis by simp
  next
    case False
    with Cons.prems(5) have c: "isPrefixOf (bprefix h) (nodeId e)" by simp
    note p = bucket_put_room [OF Cons.prems(3) sub len c, of now, simplified]
    have "mset (es @ entries l @ entries (bucket_put now (Some e) h)) = mset (e # es @ entries l @ entries h)"
      using p(1) by simp
    from Cons.IH [OF perm(1) [OF this] Cons.prems(2) p(2)] perm(2) [OF this] False p(1) Cons.prems(4-6)
    show ?thesis by simp
  qed
qed

lemma mkKBucket_simps [simp]:
  "entries (mkKBucket r p h) = []" "bref (mkKBucket r p h) = r" "homeBucket (mkKBucket r p h) = h"
  "wf_prefix p \<Longrightarrow> bprefix (mkKBucket r p h) = p"
  by (simp_all add: mkKBucket_def)

section \<open>Splitting a bucket\<close>

lemma tiles_split:
  assumes "tiles a [p] c" "isSplittable p"
  shows "tiles a [splitBranch p False, splitBranch p True] c"
proof -
  have p: "wf_prefix p" "pval p = a" "a + 2 ^ pspan p = c" using assms(1) by auto
  show ?thesis
    using p splitBranch_val [OF p(1) assms(2)] pspan_Suc [OF p(1) assms(2)] wf_splitBranch [OF p(1) assms(2)]
    by (simp add: pspan_def)
qed

lemma split_bucket_effect:
  assumes inv: "rt_inv rt" and b: "b \<in> set (buckets rt)" "isSplittable (bprefix b)"
  obtains l h xs ys where "rt_inv (split_bucket now b rt)"
    "buckets rt = xs @ b # ys" "buckets (split_bucket now b rt) = xs @ l # h # ys"
    "bprefix l = splitBranch (bprefix b) False" "bprefix h = splitBranch (bprefix b) True"
    "mset (entries l) + mset (entries h) = mset (entries b)" "localId (split_bucket now b rt) = localId rt"
    "timeOfLastPingCheck (split_bucket now b rt) = timeOfLastPingCheck rt"
proof -
  note bi = rt_invD(6) [OF inv b(1)]
  note p = bucket_invD(1) [OF bi] b(2)
  let ?pl = "splitBranch (bprefix b) False" and ?ph = "splitBranch (bprefix b) True"
  let ?l = "mkKBucket (nextRef rt) ?pl (isHomeBucket rt ?pl)"
  let ?h = "mkKBucket (nextRef rt + 1) ?ph (isHomeBucket rt ?ph)"
  have wf: "wf_prefix ?pl" "wf_prefix ?ph" using wf_splitBranch [OF p] by auto
  obtain l h where lh: "split_entries now (entries b) ?l ?h = (l, h)" by fastforce
  have "\<forall>e\<in>set (entries b). isPrefixOf ?pl (nodeId e) \<or> isPrefixOf ?ph (nodeId e)"
    using splitBranch_covers(1) [OF p] bucket_invD(4,5) [OF bi] by (auto simp: wf_node_def)
  from split_entries_effect [OF _ mkKBucket_inv mkKBucket_inv _ _ lh] this wf bi
  have e: "bucket_inv l" "bucket_inv h" "bprefix l = ?pl" "bprefix h = ?ph" "bref l = nextRef rt"
    "bref h = nextRef rt + 1" "homeBucket l = isHomeBucket rt ?pl" "homeBucket h = isHomeBucket rt ?ph"
    "mset (entries l) + mset (entries h) = mset (entries b)"
    by (auto simp: bucket_inv_def)
  from b(1) obtain xs ys where s: "buckets rt = xs @ [b] @ ys" by (auto simp: in_set_conv_decomp)
  let ?rt = "rt\<lparr>buckets := xs @ [l, h] @ ys, nextRef := nextRef rt + 2\<rparr>"
  have set: "set (entries l) \<union> set (entries h) = set (entries b)"
    using e(9) by (metis set_mset_mset set_mset_union)
  have t: "tiles a (map bprefix [l, h]) c" if "tiles a (map bprefix [b]) c" for a c
    using tiles_split [of a "bprefix b" c] that b(2) e(3,4) by simp
  have i: "rt_inv ?rt"
  proof (rule rt_inv_replace [OF inv s _ t])
    fix x y assume "x \<in> set [l, h]" "y \<in> set (entries x)"
    with set have "y \<in> set (entries b)" by auto
    then show "\<exists>b'\<in>set [b]. \<exists>e'\<in>set (entries b'). same_node y e'"
      using same_node_refl [of y] by (intro bexI [of _ b] bexI [of _ y]) auto
  qed (use e in auto)
  have "split_bucket now b rt = modify [b] [l, h] (rt\<lparr>nextRef := nextRef rt + 2\<rparr>)"
    by (simp only: split_bucket_def Let_def lh prod.case)
  also have "\<dots> = ?rt"
    using modify_replace [of "rt\<lparr>nextRef := nextRef rt + 2\<rparr>" xs "[b]" ys "[l, h]"] s rt_invD(4) [OF inv] rt_invD(2) [OF i]
    by simp
  finally have "split_bucket now b rt = ?rt" .
  with that [of xs ys l h] i s e show ?thesis by simp
qed

lemma split_bucket_entries:
  assumes "rt_inv rt" "b \<in> set (buckets rt)" "isSplittable (bprefix b)"
  shows "mset (rt_entries (split_bucket now b rt)) = mset (rt_entries rt)"
proof -
  from split_bucket_effect [OF assms, of now] obtain l h xs ys where
    "buckets rt = xs @ b # ys" "buckets (split_bucket now b rt) = xs @ l # h # ys"
    "mset (entries l) + mset (entries h) = mset (entries b)" by metis
  then show ?thesis by (simp add: rt_entries_def)
qed

section \<open>The splitting loop of put\<close>

text \<open>The outcome of the loop: the entry is put into the bucket that covers it, in a table that holds
  the same entries as before.\<close>

definition put_outcome :: "u64 \<Rightarrow> KBucketEntry \<Rightarrow> RoutingTable \<Rightarrow> RoutingTable \<Rightarrow> bool" where
  "put_outcome now e rt rt' \<longleftrightarrow> (\<exists>rt1 b. rt_inv rt1 \<and> mset (rt_entries rt1) = mset (rt_entries rt)
     \<and> localId rt1 = localId rt \<and> b \<in> set (buckets rt1) \<and> isPrefixOf (bprefix b) (nodeId e)
     \<and> \<not> needsSplit now b e \<and> rt' = on_bucket (bref b) (bucket_put now (Some e)) rt1)"

lemma put_loop_total:
  assumes "rt_inv rt" "wf_id (nodeId e)" "getBucket rt (nodeId e) = Some b"
  shows "\<exists>rt'. put_loop now e rt = Some rt' \<and> put_outcome now e rt rt'"
  using assms
proof (induction "nat (255 - depth (bprefix b))" arbitrary: b rt rule: less_induct)
  case less
  from getBucket_covers [OF less.prems(1,2)] less.prems(3)
  have b: "b \<in> set (buckets rt)" "isPrefixOf (bprefix b) (nodeId e)" by auto
  show ?case
  proof (cases "needsSplit now b e")
    case False
    then have "put_loop now e rt = Some (on_bucket (bref b) (bucket_put now (Some e)) rt)"
      using less.prems(3) by (subst put_loop.simps) simp
    with False b less.prems(1) show ?thesis by (auto simp: put_outcome_def)
  next
    case True
    then have sp: "isSplittable (bprefix b)" "isPrefixOf (splitBranch (bprefix b) True) (nodeId e)"
      by (auto simp: needsSplit_def Let_def split: if_splits)
    from split_bucket_effect [OF less.prems(1) b(1) sp(1), of now] obtain l h xs ys where
      s: "rt_inv (split_bucket now b rt)" "buckets (split_bucket now b rt) = xs @ l # h # ys"
      "bprefix h = splitBranch (bprefix b) True" "localId (split_bucket now b rt) = localId rt" by metis
    then have h: "getBucket (split_bucket now b rt) (nodeId e) = Some h"
      using sp(2) less.prems(2) by (intro getBucket_eq) auto
    have "depth (bprefix h) = depth (bprefix b) + 1"
      using s(3) splitBranch_val(2) rt_invD(7) [OF less.prems(1) b(1)] sp(1) by metis
    then have "nat (255 - depth (bprefix h)) < nat (255 - depth (bprefix b))"
      using sp(1) by (auto simp: isSplittable_def)
    from less.hyps [OF this s(1) less.prems(2) h] obtain rt' where
      r: "put_loop now e (split_bucket now b rt) = Some rt'" "put_outcome now e (split_bucket now b rt) rt'" by blast
    have "put_loop now e rt = Some rt'"
      using True r(1) less.prems(3) by (subst put_loop.simps) simp
    moreover have "put_outcome now e rt rt'"
      using r(2) split_bucket_entries [OF less.prems(1) b(1) sp(1)] s(4) by (simp add: put_outcome_def)
    ultimately show ?thesis by blast
  qed
qed

lemma fresh_for_mset: "mset es = mset fs \<Longrightarrow> fresh_for n es = fresh_for n fs"
  unfolding fresh_for_def using mset_eq_setD by metis

lemma fresh_for_bucket: "fresh_for n (rt_entries rt) \<Longrightarrow> b \<in> set (buckets rt) \<Longrightarrow> fresh_for n (entries b)"
  unfolding fresh_for_def using set_rt_entries by metis

lemma on_bucket_put_inv:
  assumes "rt_inv rt" "b \<in> set (buckets rt)" "wf_node e" "isPrefixOf (bprefix b) (nodeId e)" "fresh_for e (rt_entries rt)"
  shows "rt_inv (on_bucket (bref b) (bucket_put now (Some e)) rt)"
proof (rule on_bucket_inv [OF assms(1,2), where n = e])
  show "bucket_inv (bucket_put now (Some e) b)"
    using bucket_put_inv rt_invD(6) [OF assms(1,2)] assms(3,4) fresh_for_bucket [OF assms(5,2)] by blast
  show "(\<exists>e'\<in>set (entries b). same_node x e') \<or> x = e" if "x \<in> set (entries (bucket_put now (Some e) b))" for x
    using bucket_put_entries [OF rt_invD(6) [OF assms(1,2)] assms(3) that] by blast
qed (use assms(5) in auto)

lemma put_outcome_inv:
  assumes "put_outcome now e rt rt'" "wf_node e" "fresh_for e (rt_entries rt)"
  shows "rt_inv rt'"
proof -
  from assms(1) obtain rt1 b where o: "rt_inv rt1" "mset (rt_entries rt1) = mset (rt_entries rt)"
    "b \<in> set (buckets rt1)" "isPrefixOf (bprefix b) (nodeId e)" "rt' = on_bucket (bref b) (bucket_put now (Some e)) rt1"
    unfolding put_outcome_def by blast
  have "fresh_for e (rt_entries rt1)" using fresh_for_mset [OF o(2)] assms(3) by simp
  from on_bucket_put_inv [OF o(1,3) assms(2) o(4) this] show ?thesis unfolding o(5) .
qed

lemma on_bucket_entries:
  "e \<in> set (rt_entries (on_bucket r f rt)) \<Longrightarrow>
     e \<in> set (rt_entries rt) \<or> (\<exists>b\<in>set (buckets rt). bref b = r \<and> e \<in> set (entries (f b)))"
  by (auto simp: set_rt_entries on_bucket_def split: if_splits)

lemma put_outcome_entries:
  assumes "put_outcome now e rt rt'" "wf_node e" "y \<in> set (rt_entries rt')"
  shows "\<exists>e'\<in>insert e (set (rt_entries rt)). same_node y e'"
proof -
  from assms(1) obtain rt1 b where o: "rt_inv rt1" "mset (rt_entries rt1) = mset (rt_entries rt)"
    "b \<in> set (buckets rt1)" "rt' = on_bucket (bref b) (bucket_put now (Some e)) rt1"
    unfolding put_outcome_def by blast
  from on_bucket_entries assms(3) o(4) consider "y \<in> set (rt_entries rt1)"
    | x where "x \<in> set (buckets rt1)" "y \<in> set (entries (bucket_put now (Some e) x))" by metis
  then show ?thesis
  proof cases
    case 1
    then show ?thesis using mset_eq_setD [OF o(2)] same_node_refl by blast
  next
    case 2
    from bucket_put_entries [OF rt_invD(6) [OF o(1) 2(1)] assms(2) 2(2)] show ?thesis
      using mset_eq_setD [OF o(2)] same_node_refl 2(1) set_rt_entries by (metis insertCI)
  qed
qed

lemma rt_put_total:
  assumes "rt_inv rt" "wf_node e" "fresh_for e (rt_entries rt)"
  shows "\<exists>rt'. rt_put now e rt = Some rt' \<and> put_outcome now e rt rt' \<and> rt_inv rt'"
proof -
  have w: "wf_id (nodeId e)" using assms(2) by (simp add: wf_node_def)
  from getBucket_covers [OF assms(1) w] obtain b where "getBucket rt (nodeId e) = Some b" by metis
  from put_loop_total [OF assms(1) w this, of now] put_outcome_inv [OF _ assms(2,3)] show ?thesis
    by (auto simp: rt_put_def)
qed

section \<open>Updates of one bucket\<close>

lemma in_place_inv:
  assumes "rt_inv rt" "b \<in> set (buckets rt)" "bucket_inv (f b)"
    and "\<exists>es. f b = b\<lparr>entries := es\<rparr> \<and> (\<forall>x\<in>set es. \<exists>y\<in>set (entries b). same_node x y)"
  shows "rt_inv (on_bucket (bref b) f rt)"
proof -
  from assms(4) obtain es where es: "f b = b\<lparr>entries := es\<rparr>" "\<forall>x\<in>set es. \<exists>y\<in>set (entries b). same_node x y" by blast
  have "fresh_for x (rt_entries rt)" if "x \<in> set es" for x
  proof -
    from es(2) that obtain y where y: "y \<in> set (rt_entries rt)" "same_node x y"
      using assms(2) set_rt_entries by metis
    with rt_invD(5) [OF assms(1)] show ?thesis unfolding refs_ok_def fresh_for_def same_node_def by metis
  qed
  with es assms(1-3) show ?thesis
    by (intro on_bucket_inv [where n = "SOME x. x \<in> set es"]) auto
qed

lemma update_first_same:
  assumes "\<And>x. same_node (f x) x"
  shows "\<forall>x\<in>set (update_first p f xs). \<exists>y\<in>set xs. same_node x y"
  using assms by (induction xs) (auto simp: same_node_def)

lemma bucket_onTimeout_shape:
  "\<exists>es. bucket_onTimeout now i b = b\<lparr>entries := es\<rparr> \<and> (\<forall>x\<in>set es. \<exists>y\<in>set (entries b). same_node x y)"
proof (cases "bucket_get b i")
  case None
  then show ?thesis
    by (intro exI [of _ "entries b"]) (auto simp: bucket_onTimeout_def intro: same_node_refl)
next
  case (Some e)
  let ?es = "update_first (\<lambda>x. id_eq (nodeId x) i) signalRequestTimeout (entries b)"
  have u: "update_first (\<lambda>x. id_eq (nodeId x) i) (\<lambda>_. signalRequestTimeout e) (entries b) = ?es"
    using Some by (intro update_first_find) (simp add: bucket_get_def findAny_def)
  have s: "\<forall>x\<in>set ?es. \<exists>y\<in>set (entries b). same_node x y"
    by (rule update_first_same) simp
  show ?thesis
    unfolding bucket_onTimeout_def Some option.case Let_def u removeIfBad_def update_remove
    using s by (auto simp: image_iff)
qed

lemma removeIfBad_shape:
  "\<exists>es. removeIfBad now e force b = b\<lparr>entries := es\<rparr> \<and> (\<forall>x\<in>set es. \<exists>y\<in>set (entries b). same_node x y)"
proof -
  obtain es where "removeIfBad now e force b = b\<lparr>entries := es\<rparr>" "set es \<subseteq> set (entries b)"
    by (cases "removeIfBad now e force b = b")
      (force intro: that [of "entries b"], force simp: removeIfBad_def update_remove intro: that split: if_splits)
  then show ?thesis using same_node_refl by (intro exI [of _ es]) blast
qed

text \<open>The interface of the bucket towards the table: an operation that rewrites the entries of one bucket,
  keeps its invariant and brings in no node. The table finds the bucket that covers an id, applies the
  operation there, and stays well-formed.\<close>

locale bucket_update =
  fixes f :: "KBucket \<Rightarrow> KBucket"
  assumes keeps_inv: "bucket_inv b \<Longrightarrow> bucket_inv (f b)"
    and same_nodes: "\<exists>es. f b = b\<lparr>entries := es\<rparr> \<and> (\<forall>x\<in>set es. \<exists>y\<in>set (entries b). same_node x y)"
begin

lemma table_inv: "rt_inv rt \<Longrightarrow> b \<in> set (buckets rt) \<Longrightarrow> rt_inv (on_bucket (bref b) f rt)"
  by (rule in_place_inv) (auto intro: keeps_inv rt_invD(6) same_nodes)

lemma update_total:
  assumes "rt_inv rt" "wf_id i"
  shows "\<exists>b. getBucket rt i = Some b \<and> rt_inv (on_bucket (bref b) f rt)"
  using getBucket_covers [OF assms] table_inv [OF assms(1)] by metis

end

interpretation upd_remove: bucket_update "removeIfBad now e force" for now e force
  by unfold_locales (simp_all add: removeIfBad_inv removeIfBad_shape)

interpretation upd_timeout: bucket_update "bucket_onTimeout now i" for now i
  by unfold_locales (simp_all add: bucket_onTimeout_inv bucket_onTimeout_shape)

interpretation upd_send: bucket_update "bucket_onSend now i" for now i
proof
  show "\<exists>es. bucket_onSend now i b = b\<lparr>entries := es\<rparr> \<and> (\<forall>x\<in>set es. \<exists>y\<in>set (entries b). same_node x y)" for b
    by (auto simp: bucket_onSend_def intro!: update_first_same)
qed (rule bucket_onSend_inv)

interpretation upd_refresh: bucket_update "update_refresh e" for e
proof
  show "\<exists>es. update_refresh e b = b\<lparr>entries := es\<rparr> \<and> (\<forall>x\<in>set es. \<exists>y\<in>set (entries b). same_node x y)" for b
    by (auto simp: update_refresh_def intro!: update_first_same)
qed (rule update_refresh_inv)

interpretation upd_notify: bucket_update "notifyOfResponse now isResponse hasCall i" for now isResponse hasCall i
proof
  show "\<exists>es. notifyOfResponse now isResponse hasCall i b = b\<lparr>entries := es\<rparr> \<and> (\<forall>x\<in>set es. \<exists>y\<in>set (entries b). same_node x y)" for b
  proof (cases "\<not> isResponse \<or> \<not> hasCall")
    case True
    then show ?thesis by (intro exI [of _ "entries b"]) (auto simp: notifyOfResponse_def intro: same_node_refl)
  qed (auto simp: notifyOfResponse_def intro!: update_first_same)
qed (rule notifyOfResponse_inv)

lemma rt_update_total:
  assumes "rt_inv rt" "wf_id i"
  shows "\<exists>rt'. rt_remove now i rt = Some rt' \<and> rt_inv rt'"
    "\<exists>rt'. rt_onTimeout now i rt = Some rt' \<and> rt_inv rt'"
    "\<exists>rt'. rt_onSend now i rt = Some rt' \<and> rt_inv rt'"
proof -
  from getBucket_covers [OF assms] obtain b where b: "getBucket rt i = Some b" "b \<in> set (buckets rt)" by metis
  then show "\<exists>rt'. rt_remove now i rt = Some rt' \<and> rt_inv rt'"
    using assms(1) upd_remove.table_inv [OF assms(1)] by (auto simp: rt_remove_def split: option.split)
qed (use upd_timeout.update_total [OF assms, of now i] upd_send.update_total [OF assms, of now i]
      in \<open>auto simp: rt_onTimeout_def rt_onSend_def\<close>)

lemma refreshOnly_total:
  assumes "rt_inv rt" "wf_id (nodeId e)"
  shows "\<exists>rt'. refreshOnly e rt = Some rt' \<and> rt_inv rt'"
  using upd_refresh.update_total [OF assms, of e] by (auto simp: refreshOnly_def)

section \<open>Merging buckets\<close>

lemma same_node_in: "e \<in> S \<Longrightarrow> \<exists>x\<in>S. same_node e x"
  using same_node_refl by blast

lemma same_node_trans: "same_node a b \<Longrightarrow> same_node b c \<Longrightarrow> same_node a c"
  by (simp add: same_node_def)

lemma same_nodes_trans:
  assumes "\<forall>e\<in>A. \<exists>e'\<in>B. same_node e e'" "\<forall>e\<in>B. \<exists>e'\<in>C. same_node e e'"
  shows "\<forall>e\<in>A. \<exists>e'\<in>C. same_node e e'"
proof
  fix e assume "e \<in> A"
  with assms(1) obtain b where b: "b \<in> B" "same_node e b" by blast
  with assms(2) obtain c where "c \<in> C" "same_node b c" by blast
  with b(2) show "\<exists>e'\<in>C. same_node e e'" using same_node_trans by blast
qed

lemma refs_ok_Cons_fresh: "refs_ok (e # es @ fs) \<Longrightarrow> fresh_for e fs"
  unfolding refs_ok_def fresh_for_def by auto

lemma put_all_inv:
  assumes "bucket_inv b" "\<forall>e\<in>set es. wf_node e \<and> isPrefixOf (bprefix b) (nodeId e)" "refs_ok (es @ entries b)"
  shows "bucket_inv (put_all now es b) \<and> bprefix (put_all now es b) = bprefix b \<and> bref (put_all now es b) = bref b
    \<and> homeBucket (put_all now es b) = homeBucket b
    \<and> (\<forall>e\<in>set (entries (put_all now es b)). \<exists>e'\<in>set es \<union> set (entries b). same_node e e')"
  using assms
proof (induction es arbitrary: b)
  case Nil
  then show ?case using same_node_in by (simp add: put_all_def)
next
  case (Cons e es)
  let ?b = "bucket_put now (Some e) b"
  have f: "fresh_for e (entries b)" using refs_ok_Cons_fresh Cons.prems(3) by simp
  have i: "bucket_inv ?b" using Cons.prems(1,2) f by (intro bucket_put_inv) auto
  have s: "\<exists>e'\<in>insert e (set (entries b)). same_node x e'" if "x \<in> set (entries ?b)" for x
    using bucket_put_entries [OF Cons.prems(1) _ that] Cons.prems(2) same_node_refl by auto
  have "refs_ok (es @ entries ?b)"
  proof (rule refs_ok_same [OF Cons.prems(3)], intro ballI)
    fix x assume "x \<in> set (es @ entries ?b)"
    then consider "x \<in> set es" | "x \<in> set (entries ?b)" by auto
    then show "\<exists>e'\<in>set ((e # es) @ entries b). same_node x e'"
    proof cases
      case 1
      then show ?thesis using same_node_in [of x "set ((e # es) @ entries b)"] by simp
    next
      case 2
      then show ?thesis using s [OF 2] by auto
    qed
  qed
  from Cons.IH [OF i _ this] Cons.prems(2)
  have r: "bucket_inv (put_all now es ?b)" "bprefix (put_all now es ?b) = bprefix b" "bref (put_all now es ?b) = bref b"
    "homeBucket (put_all now es ?b) = homeBucket b"
    "\<And>x. x \<in> set (entries (put_all now es ?b)) \<Longrightarrow> \<exists>e'\<in>set es \<union> set (entries ?b). same_node x e'" by auto
  have "\<exists>e'\<in>set (e # es) \<union> set (entries b). same_node x e'" if x: "x \<in> set (entries (put_all now es ?b))" for x
  proof -
    from r(5) [OF x] obtain y where y: "y \<in> set es \<union> set (entries ?b)" "same_node x y" by blast
    then show ?thesis
    proof (cases "y \<in> set es")
      case False
      with y s obtain z where "z \<in> insert e (set (entries b))" "same_node y z" by blast
      with y(2) show ?thesis by (auto simp: same_node_def)
    qed auto
  qed
  with r(1-4) show ?case by (simp add: put_all_def)
qed

lemma put_all_room:
  assumes "bucket_inv b" "entries_ok (es @ entries b)" "length (es @ entries b) \<le> MAX_ENTRIES_PER_BUCKET"
    "\<forall>e\<in>set es. isPrefixOf (bprefix b) (nodeId e)"
  shows "mset (entries (put_all now es b)) = mset es + mset (entries b)"
  using assms
proof (induction es arbitrary: b)
  case Nil
  then show ?case by (simp add: put_all_def)
next
  case (Cons e es)
  have "entries_ok (e # entries b)"
    using Cons.prems(2) by (auto simp: entries_ok_Cons) (auto simp: entries_ok_def)
  note p = bucket_put_room [OF Cons.prems(1) this, of now]
  have m: "mset (entries (bucket_put now (Some e) b)) = add_mset e (mset (entries b))"
    "bucket_inv (bucket_put now (Some e) b)" using p Cons.prems(3,4) by simp_all
  then have "mset (es @ entries (bucket_put now (Some e) b)) = mset ((e # es) @ entries b)" by simp
  from entries_ok_mset [OF this] mset_eq_length [OF this] Cons.IH [OF m(2)] Cons.prems m(1) show ?case
    by (simp add: put_all_def)
qed

lemma tiles_merge:
  assumes "tiles a [p, q] c" "isSiblingOf p q"
  shows "tiles a [getParent p] c" "wf_prefix (getParent p)"
    "\<And>x. wf_id x \<Longrightarrow> isPrefixOf p x \<or> isPrefixOf q x \<Longrightarrow> isPrefixOf (getParent p) x"
proof -
  have p: "wf_prefix p" "wf_prefix q" "pval p = a" "pval q = a + 2 ^ pspan p" "pval q + 2 ^ pspan q = c"
    using assms(1) by auto
  then have lt: "pval p < pval q" by simp
  note h = sibling_halves [OF p(1,2) assms(2) lt]
  note g = getParent_val [OF p(1) h(1)]
  show "wf_prefix (getParent p)" by (rule g(4))
  then show "tiles a [getParent p] c" using p h g(3) by simp
  show "\<And>x. wf_id x \<Longrightarrow> isPrefixOf p x \<or> isPrefixOf q x \<Longrightarrow> isPrefixOf (getParent p) x"
    using sibling_parent_covers [OF p(1,2) assms(2) lt] by blast
qed

lemma merge_pair_effect:
  assumes inv: "rt_inv rt" and s: "buckets rt = xs @ [b1, b2] @ ys" and sib: "isSiblingOf (bprefix b1) (bprefix b2)"
  obtains nb where "merge_pair now b1 b2 rt = rt\<lparr>buckets := xs @ [nb] @ ys, nextRef := nextRef rt + 1\<rparr>"
    "rt_inv (merge_pair now b1 b2 rt)" "bprefix nb = getParent (bprefix b1)"
    "\<forall>e\<in>set (entries nb). \<exists>e'\<in>set (entries b1) \<union> set (entries b2). same_node e e'"
    "entries_ok (entries b1 @ entries b2) \<Longrightarrow> length (entries b1 @ entries b2) \<le> MAX_ENTRIES_PER_BUCKET
      \<Longrightarrow> mset (entries nb) = mset (entries b1) + mset (entries b2)"
proof -
  from rt_invD(2) [OF inv] obtain a c where t: "tiles a [bprefix b1, bprefix b2] c"
    unfolding s map_append tiles_append by auto
  note m = tiles_merge [OF t sib]
  have bi: "bucket_inv b1" "bucket_inv b2" using rt_invD(6) [OF inv] by (auto simp: s)
  let ?p = "getParent (bprefix b1)"
  let ?b0 = "mkKBucket (nextRef rt) ?p (isHomeBucket rt ?p)"
  let ?n1 = "put_all now (entries b1) ?b0"
  let ?nb = "put_all now (entries b2) ?n1"
  have cov: "\<forall>e\<in>set (entries b1) \<union> set (entries b2). wf_node e \<and> isPrefixOf ?p (nodeId e)"
    using bi m(3) by (auto simp: bucket_inv_def entries_ok_def wf_node_def)
  have r: "refs_ok (entries b2 @ entries b1)"
    by (rule refs_ok_same [OF rt_invD(5) [OF inv]]) (auto simp: set_rt_entries s intro: same_node_refl)
  have "refs_ok (entries b1 @ [])"
    by (rule refs_ok_same [OF r]) (auto intro: same_node_refl)
  with put_all_inv [of ?b0 "entries b1" now] cov m(2)
  have n1: "bucket_inv ?n1" "bprefix ?n1 = ?p" "bref ?n1 = nextRef rt" "homeBucket ?n1 = isHomeBucket rt ?p"
    "\<forall>e\<in>set (entries ?n1). \<exists>e'\<in>set (entries b1). same_node e e'"
    by (simp_all add: mkKBucket_inv)
  have "refs_ok (entries b2 @ entries ?n1)"
    by (rule refs_ok_same [OF r]) (use n1(5) in \<open>auto intro: same_node_refl\<close>)
  with put_all_inv [of ?n1 "entries b2" now] cov n1
  have nb: "bucket_inv ?nb" "bprefix ?nb = ?p" "bref ?nb = nextRef rt" "homeBucket ?nb = isHomeBucket rt ?p"
    and nb5: "\<forall>e\<in>set (entries ?nb). \<exists>e'\<in>set (entries b2) \<union> set (entries ?n1). same_node e e'"
    by simp_all
  have e: "\<forall>e\<in>set (entries ?nb). \<exists>e'\<in>set (entries b1) \<union> set (entries b2). same_node e e'"
    using nb5 n1(5) by (metis (no_types, lifting) UnCI UnE same_node_def)
  let ?rt = "rt\<lparr>buckets := xs @ [?nb] @ ys, nextRef := nextRef rt + 1\<rparr>"
  have i: "rt_inv ?rt"
  proof (rule rt_inv_replace [OF inv s])
    fix a c assume "tiles a (map bprefix [b1, b2]) c"
    then show "tiles a (map bprefix [?nb]) c" using tiles_merge(1) [OF _ sib, of a c] nb(2) by simp
  qed (use nb e in auto)
  have "merge_pair now b1 b2 rt = modify [b1, b2] [?nb] (rt\<lparr>nextRef := nextRef rt + 1\<rparr>)"
    by (simp only: merge_pair_def Let_def)
  also have "\<dots> = ?rt"
    using modify_replace [of "rt\<lparr>nextRef := nextRef rt + 1\<rparr>" xs "[b1, b2]" ys "[?nb]"] s rt_invD(4) [OF inv] rt_invD(2) [OF i]
    by simp
  finally have q: "merge_pair now b1 b2 rt = ?rt" .
  have "mset (entries ?nb) = mset (entries b1) + mset (entries b2)"
    if "entries_ok (entries b1 @ entries b2)" "length (entries b1 @ entries b2) \<le> MAX_ENTRIES_PER_BUCKET"
  proof -
    have "entries_ok (entries b1)" using that(1) by (auto simp: entries_ok_def)
    then have n: "mset (entries ?n1) = mset (entries b1)"
      using put_all_room [of ?b0 "entries b1" now] that(2) cov m(2) by (simp add: mkKBucket_inv)
    then have "mset (entries b2 @ entries ?n1) = mset (entries b1 @ entries b2)" by simp
    from entries_ok_mset [OF this] mset_eq_length [OF this] that cov n1(1,2) n show ?thesis
      by (subst put_all_room) auto
  qed
  with that [of ?nb] q i nb(2) e show ?thesis by simp
qed

definition not_mergeable_below :: "int \<Rightarrow> KBucket list \<Rightarrow> bool" where
  "not_mergeable_below i bs \<longleftrightarrow> (\<forall>k. int k < i \<longrightarrow> Suc k < length bs \<longrightarrow> \<not> mergeable (bs ! k) (bs ! Suc k))"

lemma merge_loop_effect:
  assumes "rt_inv rt" "not_mergeable_below i0 (buckets rt)"
  shows "\<exists>rt'. merge_loop now i0 rt = Some rt' \<and> rt_inv rt' \<and> localId rt' = localId rt
    \<and> timeOfLastPingCheck rt' = timeOfLastPingCheck rt \<and> maintenanceTasks rt' = maintenanceTasks rt
    \<and> not_mergeable_below (int (length (buckets rt'))) (buckets rt')
    \<and> (\<forall>e\<in>set (rt_entries rt'). \<exists>e'\<in>set (rt_entries rt). same_node e e')"
  using assms
proof (induction now i0 rt rule: merge_loop.induct)
  case (1 now i0 rt)
  let ?bs = "buckets rt"
  note [simp del] = merge_loop.simps
  consider (skip) "i0 + 1 < 1" | (fin) "i0 + 1 \<ge> 1" "i0 + 1 \<ge> int (length ?bs)"
    | (go) "i0 + 1 \<ge> 1" "i0 + 1 < int (length ?bs)" by linarith
  then show ?case
  proof cases
    case skip
    moreover from skip have "not_mergeable_below (i0 + 1) ?bs" by (auto simp: not_mergeable_below_def)
    ultimately show ?thesis
      using 1(1) [OF refl skip 1(4)] by (subst merge_loop.simps) simp
  next
    case fin
    then have "merge_loop now i0 rt = Some rt" by (subst merge_loop.simps) simp
    moreover have "not_mergeable_below (int (length ?bs)) ?bs"
      using 1(5) fin by (auto simp: not_mergeable_below_def)
    ultimately show ?thesis using 1(4) same_node_in by blast
  next
    case go
    define k where "k = nat i0"
    have k: "i0 = int k" "Suc k < length ?bs" using go by (auto simp: k_def)
    let ?b1 = "?bs ! k" and ?b2 = "?bs ! Suc k"
    have g: "list_get ?bs (i0 + 1 - 1) = Some ?b1" "list_get ?bs (i0 + 1) = Some ?b2"
      using k by (simp_all add: list_get_def nat_add_distrib)
    show ?thesis
    proof (cases "mergeable ?b1 ?b2")
      case False
      then have e: "merge_loop now i0 rt = merge_loop now (i0 + 1) rt"
        using go g by (subst merge_loop.simps) (simp add: Let_def)
      have "not_mergeable_below (i0 + 1) ?bs"
        using 1(5) False k by (auto simp: not_mergeable_below_def le_less)
      then show ?thesis
        unfolding e using go 1(4) by (intro 1(3) [OF refl _ _ _ g False]) simp_all
    next
      case True
      then have e: "merge_loop now i0 rt = merge_loop now (i0 + 1 - 2) (merge_pair now ?b1 ?b2 rt)"
        using go g by (subst merge_loop.simps) (simp add: Let_def)
      have s: "?bs = take k ?bs @ [?b1, ?b2] @ drop (Suc (Suc k)) ?bs"
        using k(2) by (simp add: Cons_nth_drop_Suc id_take_nth_drop [symmetric])
      have sib: "isSiblingOf (bprefix ?b1) (bprefix ?b2)" using True by (simp add: mergeable_def)
      from merge_pair_effect [OF 1(4) s sib, of now] obtain nb where
        m: "merge_pair now ?b1 ?b2 rt = rt\<lparr>buckets := take k ?bs @ [nb] @ drop (Suc (Suc k)) ?bs, nextRef := nextRef rt + 1\<rparr>"
          "rt_inv (merge_pair now ?b1 ?b2 rt)"
          "\<forall>e\<in>set (entries nb). \<exists>e'\<in>set (entries ?b1) \<union> set (entries ?b2). same_node e e'" by metis
      have "not_mergeable_below (i0 + 1 - 2) (buckets (merge_pair now ?b1 ?b2 rt))"
        using 1(5) k unfolding m(1) by (auto simp: not_mergeable_below_def nth_append)
      moreover have "\<exists>e'\<in>set (rt_entries rt). same_node e e'" if e: "e \<in> set (rt_entries (merge_pair now ?b1 ?b2 rt))" for e
      proof -
        have sub: "set (entries ?b1) \<union> set (entries ?b2) \<subseteq> set (rt_entries rt)"
          using set_rt_entries nth_mem [of k ?bs] nth_mem [of "Suc k" ?bs] Suc_lessD [OF k(2)] k(2) by blast
        from e m(1) have "e \<in> set (entries nb) \<or> e \<in> set (rt_entries rt)"
          by (auto simp: set_rt_entries dest: in_set_takeD in_set_dropD)
        then show ?thesis using m(3) sub same_node_in by blast
      qed
      ultimately have nm: "not_mergeable_below (i0 + 1 - 2) (buckets (merge_pair now ?b1 ?b2 rt))"
        and sub: "\<And>e. e \<in> set (rt_entries (merge_pair now ?b1 ?b2 rt)) \<Longrightarrow> \<exists>e'\<in>set (rt_entries rt). same_node e e'"
        by blast+
      have lt: "\<not> i0 + 1 < 1" "\<not> int (length ?bs) \<le> i0 + 1" using go by simp_all
      have keep: "localId (merge_pair now ?b1 ?b2 rt) = localId rt"
        "timeOfLastPingCheck (merge_pair now ?b1 ?b2 rt) = timeOfLastPingCheck rt"
        "maintenanceTasks (merge_pair now ?b1 ?b2 rt) = maintenanceTasks rt" by (simp_all add: m(1))
      from 1(2) [OF refl lt refl g True m(2) nm, unfolded keep] obtain rt' where
        r: "merge_loop now (i0 + 1 - 2) (merge_pair now ?b1 ?b2 rt) = Some rt'" "rt_inv rt'"
          "localId rt' = localId rt" "timeOfLastPingCheck rt' = timeOfLastPingCheck rt"
          "maintenanceTasks rt' = maintenanceTasks rt" "not_mergeable_below (int (length (buckets rt'))) (buckets rt')"
          "\<forall>e\<in>set (rt_entries rt'). \<exists>e'\<in>set (rt_entries (merge_pair now ?b1 ?b2 rt)). same_node e e'"
        by blast
      have "\<forall>e\<in>set (rt_entries rt'). \<exists>e'\<in>set (rt_entries rt). same_node e e'"
        by (rule same_nodes_trans [OF r(7)]) (use sub in blast)
      with r(1-6) show ?thesis unfolding e by blast
    qed
  qed
qed

lemma mergeBuckets_effect:
  assumes "rt_inv rt"
  obtains rt' where "mergeBuckets now rt = Some rt'" "rt_inv rt'" "localId rt' = localId rt"
    "timeOfLastPingCheck rt' = timeOfLastPingCheck rt" "maintenanceTasks rt' = maintenanceTasks rt"
    "not_mergeable_below (int (length (buckets rt'))) (buckets rt')"
    "\<forall>e\<in>set (rt_entries rt'). \<exists>e'\<in>set (rt_entries rt). same_node e e'"
  using merge_loop_effect [OF assms, of 0 now] by (auto simp: mergeBuckets_def not_mergeable_below_def)

section \<open>Maintenance\<close>

text \<open>In a table that satisfies the invariant the pass over the entries of a bucket filters them; the
  branch that moves an entry to another bucket is never taken.\<close>

definition drop_in_maintenance :: "Id \<Rightarrow> Id list \<Rightarrow> bool \<Rightarrow> KBucketEntry \<Rightarrow> bool" where
  "drop_in_maintenance local boot wasFull e \<longleftrightarrow> nodeId e = local \<or> (wasFull \<and> nodeId e \<in> set boot)"

definition keep_entries :: "(KBucketEntry \<Rightarrow> bool) \<Rightarrow> KBucket \<Rightarrow> KBucket" where
  "keep_entries p b = b\<lparr>entries := filter p (entries b)\<rparr>"

lemma keep_entries_simps [simp]:
  "bref (keep_entries p b) = bref b" "bprefix (keep_entries p b) = bprefix b"
  "homeBucket (keep_entries p b) = homeBucket b" "lastRefresh (keep_entries p b) = lastRefresh b"
  "entries (keep_entries p b) = filter p (entries b)"
  by (simp_all add: keep_entries_def)

lemma keep_entries_cong: "(\<And>x. x \<in> set (entries b) \<Longrightarrow> p x = q x) \<Longrightarrow> keep_entries p b = keep_entries q b"
  unfolding keep_entries_def by (metis (mono_tags, lifting) filter_cong)

lemma keep_entries_comp: "keep_entries p (keep_entries q b) = keep_entries (\<lambda>x. q x \<and> p x) b"
  by (simp add: keep_entries_def)

lemma on_bucket_comp:
  "(\<And>b. bref (f b) = bref b) \<Longrightarrow> on_bucket r g (on_bucket r f rt) = on_bucket r (\<lambda>b. g (f b)) rt"
  by (simp add: on_bucket_def comp_def)

lemma on_bucket_cong:
  "(\<And>b. b \<in> set (buckets rt) \<Longrightarrow> bref b = r \<Longrightarrow> f b = g b) \<Longrightarrow> on_bucket r f rt = on_bucket r g rt"
  by (auto simp: on_bucket_def)

lemma on_bucket_same: "(\<And>b. b \<in> set (buckets rt) \<Longrightarrow> bref b = r \<Longrightarrow> f b = b) \<Longrightarrow> on_bucket r f rt = rt"
  by (simp add: on_bucket_def map_idI)

lemma on_bucket_simps [simp]:
  "localId (on_bucket r f rt) = localId rt" "maintenanceTasks (on_bucket r f rt) = maintenanceTasks rt"
  "timeOfLastPingCheck (on_bucket r f rt) = timeOfLastPingCheck rt" "nextRef (on_bucket r f rt) = nextRef rt"
  by (simp_all add: on_bucket_def)

lemma removeIfBad_force:
  assumes "entries_ok es" "e \<in> set es" "set (entries b) \<subseteq> set es"
  shows "removeIfBad now e True b = keep_entries (\<lambda>x. x \<noteq> e) b"
proof -
  have r: "eref x = eref e \<longleftrightarrow> x = e" "nodeId x = nodeId e \<longleftrightarrow> x = e" "wf_node x" if "x \<in> set (entries b)" for x
    using assms that unfolding entries_ok_def by (auto dest!: distinct_map [THEN iffD1] simp: inj_on_def)
  have e: "wf_node e" using assms(1,2) by (simp add: entries_ok_def)
  have "filter (\<lambda>x. eref x \<noteq> eref e) (entries b) = filter (\<lambda>x. x \<noteq> e) (entries b)"
    using r(1) by (intro filter_cong) auto
  moreover have "filter (\<lambda>x. x \<noteq> e) (entries b) = entries b" if "e \<notin> set (entries b)"
    using that by (simp add: filter_id_conv) blast
  moreover have "(\<exists>x\<in>set (entries b). id_eq (nodeId x) (nodeId e)) \<longleftrightarrow> e \<in> set (entries b)"
    using r(2,3) e by (auto simp: wf_node_def)
  ultimately show ?thesis
    by (auto simp: removeIfBad_def update_remove keep_entries_def)
qed

lemma maintain_entries_filter:
  assumes "bucket_inv b" "wf_id (localId rt)" "set es \<subseteq> set (entries b)"
    and "\<And>x. x \<in> set (buckets rt) \<Longrightarrow> bref x = bref b \<Longrightarrow> set (entries x) \<subseteq> set (entries b)"
  shows "maintain_entries now boot b wasFull es rt =
    Some (on_bucket (bref b) (keep_entries (\<lambda>e. e \<in> set es \<longrightarrow> \<not> drop_in_maintenance (localId rt) boot wasFull e)) rt)"
  using assms
proof (induction es arbitrary: rt)
  case Nil
  have "keep_entries (\<lambda>e. True) x = x" for x by (simp add: keep_entries_def)
  then show ?case by (simp add: on_bucket_same)
next
  case (Cons e es)
  let ?bad = "drop_in_maintenance (localId rt) boot wasFull"
  note ok = bucket_invD(3) [OF Cons.prems(1)]
  have e: "e \<in> set (entries b)" "isPrefixOf (bprefix b) (nodeId e)" "wf_id (nodeId e)"
    using Cons.prems(1,3) bucket_invD(4,5) [OF Cons.prems(1)] by (auto simp: wf_node_def)
  have t: "id_eq (nodeId e) (localId rt) \<or> wasFull \<and> vector_contains boot (nodeId e) \<longleftrightarrow> ?bad e"
    using e(3) Cons.prems(2) by (simp add: drop_in_maintenance_def)
  show ?case
  proof (cases "?bad e")
    case False
    have "keep_entries (\<lambda>x. x \<in> set (e # es) \<longrightarrow> \<not> ?bad x) y = keep_entries (\<lambda>x. x \<in> set es \<longrightarrow> \<not> ?bad x) y" for y
      by (rule keep_entries_cong) (use False in auto)
    with False e(2) Cons.IH [OF Cons.prems(1,2) _ Cons.prems(4)] Cons.prems(3) show ?thesis
      unfolding maintain_entries.simps t by simp
  next
    case True
    let ?rt = "on_bucket (bref b) (removeIfBad now e True) rt"
    have r: "?rt = on_bucket (bref b) (keep_entries (\<lambda>x. x \<noteq> e)) rt"
      by (rule on_bucket_cong) (use removeIfBad_force [OF ok e(1)] Cons.prems(4) in blast)
    have "set (entries x) \<subseteq> set (entries b)" if "x \<in> set (buckets ?rt)" "bref x = bref b" for x
      using that Cons.prems(4) unfolding r by (force simp: on_bucket_def split: if_splits)
    from Cons.IH [OF Cons.prems(1) _ _ this] Cons.prems(2,3)
    have "maintain_entries now boot b wasFull es ?rt
        = Some (on_bucket (bref b) (keep_entries (\<lambda>x. x \<in> set es \<longrightarrow> \<not> ?bad x)) ?rt)" by simp
    also have "on_bucket (bref b) (keep_entries (\<lambda>x. x \<in> set es \<longrightarrow> \<not> ?bad x)) ?rt
        = on_bucket (bref b) (keep_entries (\<lambda>x. x \<in> set (e # es) \<longrightarrow> \<not> ?bad x)) rt"
      unfolding r using True
      by (subst on_bucket_comp) (auto simp: keep_entries_comp intro!: on_bucket_cong keep_entries_cong)
    finally show ?thesis using True unfolding maintain_entries.simps t by simp
  qed
qed

lemma find_bucket:
  assumes "distinct (map bref bs)" "b \<in> set bs"
  shows "find (\<lambda>x. bref x = bref b) bs = Some b"
  using assms by (induction bs) (auto simp: image_iff)

text \<open>A step of maintenance that shrinks buckets and keeps everything else the invariant speaks of.\<close>

definition shrinks :: "RoutingTable \<Rightarrow> RoutingTable \<Rightarrow> bool" where
  "shrinks rt rt' \<longleftrightarrow> localId rt' = localId rt \<and> map bref (buckets rt') = map bref (buckets rt)
     \<and> (\<forall>b'\<in>set (buckets rt'). \<exists>b\<in>set (buckets rt). bref b = bref b' \<and> set (entries b') \<subseteq> set (entries b))"

lemma shrinks_refl: "shrinks rt rt"
  by (auto simp: shrinks_def)

lemma shrinks_trans: "shrinks a b \<Longrightarrow> shrinks b c \<Longrightarrow> shrinks a c"
  unfolding shrinks_def by (metis (no_types, lifting) subset_trans)

lemma on_bucket_shrinks:
  assumes "\<And>b. bref (f b) = bref b \<and> set (entries (f b)) \<subseteq> set (entries b)"
  shows "shrinks rt (on_bucket r f rt)"
proof -
  have "\<exists>b\<in>set (buckets rt). bref b = bref b' \<and> set (entries b') \<subseteq> set (entries b)"
    if "b' \<in> set (buckets (on_bucket r f rt))" for b'
  proof -
    from that obtain x where "x \<in> set (buckets rt)" "b' = (if bref x = r then f x else x)"
      by (auto simp: on_bucket_def)
    then show ?thesis using assms [of x] by (intro bexI [of _ x]) auto
  qed
  then show ?thesis using assms by (simp add: shrinks_def) (auto simp: on_bucket_def)
qed

lemma bucket_by_ref: "rt_inv rt \<Longrightarrow> x \<in> set (buckets rt) \<Longrightarrow> y \<in> set (buckets rt) \<Longrightarrow> bref x = bref y \<Longrightarrow> x = y"
  using rt_invD(4) by (auto simp: distinct_map inj_on_def)

lemma on_bucket_shrink_inv:
  assumes inv: "rt_inv rt" and f: "\<And>b. bucket_inv b \<Longrightarrow> bucket_inv (f b)"
    "\<And>b. bref (f b) = bref b \<and> bprefix (f b) = bprefix b \<and> homeBucket (f b) = homeBucket b \<and> set (entries (f b)) \<subseteq> set (entries b)"
  shows "rt_inv (on_bucket r f rt)"
proof (cases "\<exists>b\<in>set (buckets rt). bref b = r")
  case False
  then have "on_bucket r f rt = rt" by (intro on_bucket_same) blast
  with inv show ?thesis by simp
next
  case True
  then obtain b where b: "b \<in> set (buckets rt)" "r = bref b" by blast
  have "fresh_for x (rt_entries rt)" if "x \<in> set (entries (f b))" for x
    using that f(2) b(1) rt_invD(5) [OF inv] set_rt_entries unfolding refs_ok_def by blast
  moreover have "\<exists>e'\<in>set (entries b). same_node e e'" if "e \<in> set (entries (f b))" for e
    using that f(2) same_node_in by blast
  ultimately show ?thesis unfolding b(2)
    using f rt_invD(6) [OF inv b(1)] by (intro on_bucket_inv [OF inv b(1), of f "SOME x. x \<in> set (entries (f b))"]) auto
qed

lemma keep_entries_inv: "bucket_inv b \<Longrightarrow> bucket_inv (keep_entries p b)"
  by (simp add: keep_entries_def bucket_inv_filter)

lemma maintain_bucket_effect:
  assumes inv: "rt_inv rt" and r: "r \<in> set (map bref (buckets rt))"
  shows "\<exists>rt' t. maintain_bucket now boot r rt = Some (rt', t) \<and> rt_inv rt' \<and> shrinks rt rt'
    \<and> (\<forall>b\<in>set (buckets rt'). bref b = r \<longrightarrow> (\<forall>e\<in>set (entries b). nodeId e \<noteq> localId rt))
    \<and> (\<forall>task. t = Some task \<longrightarrow> pr_bucket task = r)"
proof -
  from r obtain b where b: "b \<in> set (buckets rt)" "bref b = r" by auto
  let ?full = "length (entries b) \<ge> MAX_ENTRIES_PER_BUCKET"
  let ?keep = "\<lambda>e. e \<in> set (entries b) \<longrightarrow> \<not> drop_in_maintenance (localId rt) boot ?full e"
  let ?rt1 = "on_bucket r (keep_entries ?keep) rt"
  have f: "find (\<lambda>x. bref x = r) (buckets rt) = Some b"
    using find_bucket [OF rt_invD(4) [OF inv] b(1)] b(2) by simp
  have "set (entries x) \<subseteq> set (entries b)" if "x \<in> set (buckets rt)" "bref x = bref b" for x
    using that b rt_invD(4) [OF inv] by (auto simp: distinct_map inj_on_def)
  from maintain_entries_filter [OF rt_invD(6) [OF inv b(1)] rt_invD(1) [OF inv] subset_refl this]
  have m: "maintain_entries now boot b ?full (entries b) rt = Some ?rt1" unfolding b(2) .
  have i: "rt_inv ?rt1"
    by (rule on_bucket_shrink_inv [OF inv]) (auto simp: keep_entries_inv)
  have s: "shrinks rt ?rt1" by (rule on_bucket_shrinks) auto
  let ?b1 = "keep_entries ?keep b"
  have b1: "?b1 \<in> set (buckets ?rt1)" "bref ?b1 = r" using b by (auto simp: on_bucket_def)
  have f1: "find (\<lambda>x. bref x = r) (buckets ?rt1) = Some ?b1"
    using find_bucket [OF rt_invD(4) [OF i] b1(1)] b1(2) by simp
  let ?rt2 = "on_bucket r (updateRefreshTimer now) (?rt1\<lparr>maintenanceTasks := r # maintenanceTasks ?rt1\<rparr>)"
  have i2: "rt_inv ?rt2" if "rt_inv (?rt1\<lparr>maintenanceTasks := r # maintenanceTasks ?rt1\<rparr>)"
    by (rule on_bucket_shrink_inv [OF that]) (auto simp: updateRefreshTimer_inv, auto simp: updateRefreshTimer_def)
  have "rt_inv (?rt1\<lparr>maintenanceTasks := r # maintenanceTasks ?rt1\<rparr>)"
    using i by (simp add: rt_inv_def bucket_ok_def isHomeBucket_def rt_entries_def)
  note i2 = i2 [OF this]
  have s2: "shrinks rt ?rt2"
    using s by (auto simp: shrinks_def on_bucket_def updateRefreshTimer_def)
  have b2: "updateRefreshTimer now ?b1 \<in> set (buckets ?rt2)" "bref (updateRefreshTimer now ?b1) = r"
    using b1 by (auto simp: on_bucket_def updateRefreshTimer_def)
  have k: "nodeId e \<noteq> localId rt" if "e \<in> set (entries ?b1)" for e
    using that by (auto simp: drop_in_maintenance_def)
  have clean: "nodeId e \<noteq> localId rt" if "x \<in> set (buckets ?rt1)" "bref x = r" "e \<in> set (entries x)" for x e
    using bucket_by_ref [OF i that(1) b1(1)] that b1(2) k by simp
  have clean2: "nodeId e \<noteq> localId rt" if "x \<in> set (buckets ?rt2)" "bref x = r" "e \<in> set (entries x)" for x e
  proof -
    have "x = updateRefreshTimer now ?b1" using bucket_by_ref [OF i2 that(1) b2(1)] that(2) b2(2) by simp
    with that(3) show ?thesis by (intro k) (simp add: updateRefreshTimer_def)
  qed
  show ?thesis
  proof (cases "needsToBeRefreshed now ?b1 \<and> r \<notin> set (maintenanceTasks rt)")
    case True
    then have "maintain_bucket now boot r rt = Some (?rt2, Some (newPingRefreshTask now ?b1 [ProbeCache]))"
      by (simp add: maintain_bucket_def f m f1 tryPingMaintenance_def b1(2) b(2) del: keep_entries_simps)
    with i2 s2 clean2 show ?thesis by (simp add: newPingRefreshTask_def Let_def b(2))
  next
    case False
    then have "maintain_bucket now boot r rt = Some (?rt1, None)"
      by (auto simp: maintain_bucket_def f m f1 tryPingMaintenance_def b1(2) simp del: keep_entries_simps)
    with i s clean show ?thesis by simp
  qed
qed

definition clean_buckets :: "nat set \<Rightarrow> RoutingTable \<Rightarrow> bool" where
  "clean_buckets R rt \<longleftrightarrow> (\<forall>b\<in>set (buckets rt). bref b \<in> R \<longrightarrow> (\<forall>e\<in>set (entries b). nodeId e \<noteq> localId rt))"

lemma clean_buckets_shrinks: "clean_buckets R rt \<Longrightarrow> shrinks rt rt' \<Longrightarrow> clean_buckets R rt'"
  unfolding clean_buckets_def shrinks_def by (metis subsetD)

lemma maintain_buckets_effect:
  assumes "rt_inv rt" "set rs \<subseteq> set (map bref (buckets rt))" "clean_buckets R rt"
  shows "\<exists>rt' ts. maintain_buckets now boot rs rt = Some (rt', ts) \<and> rt_inv rt' \<and> shrinks rt rt'
    \<and> clean_buckets (R \<union> set rs) rt' \<and> set (map pr_bucket ts) \<subseteq> set rs"
  using assms
proof (induction rs arbitrary: rt R)
  case Nil
  then show ?case by (auto simp: shrinks_refl)
next
  case (Cons r rs)
  from maintain_bucket_effect [OF Cons.prems(1), of r now boot] Cons.prems(2) obtain rt1 t where
    m: "maintain_bucket now boot r rt = Some (rt1, t)" "rt_inv rt1" "shrinks rt rt1"
      "\<forall>b\<in>set (buckets rt1). bref b = r \<longrightarrow> (\<forall>e\<in>set (entries b). nodeId e \<noteq> localId rt)"
      "\<forall>task. t = Some task \<longrightarrow> pr_bucket task = r" by auto
  have refs: "map bref (buckets rt1) = map bref (buckets rt)" and l: "localId rt1 = localId rt"
    using m(3) by (auto simp: shrinks_def)
  have "clean_buckets (insert r R) rt1"
    using clean_buckets_shrinks [OF Cons.prems(3) m(3)] m(4) l by (auto simp: clean_buckets_def)
  from Cons.IH [OF m(2) _ this] refs Cons.prems(2) obtain rt2 ts where
    n: "maintain_buckets now boot rs rt1 = Some (rt2, ts)" "rt_inv rt2" "shrinks rt1 rt2"
      "clean_buckets (insert r R \<union> set rs) rt2" "set (map pr_bucket ts) \<subseteq> set rs" by auto
  show ?case
    using m(1,5) n shrinks_trans [OF m(3) n(3)] by (auto split: option.split)
qed

lemma set_time_inv: "rt_inv rt \<Longrightarrow> rt_inv (rt\<lparr>timeOfLastPingCheck := t\<rparr>)"
  by (simp add: rt_inv_def bucket_ok_def isHomeBucket_def rt_entries_def)

lemma shrinks_entries: "shrinks rt rt' \<Longrightarrow> set (rt_entries rt') \<subseteq> set (rt_entries rt)"
  unfolding shrinks_def using set_rt_entries by fastforce

lemma maintenance_effect:
  assumes "rt_inv rt" "\<not> now - timeOfLastPingCheck rt < ROUTING_TABLE_MAINTENANCE_INTERVAL"
  obtains rt' ts where "maintenance now boot rt = Some (rt', ts)" "rt_inv rt'" "localId rt' = localId rt"
    "\<forall>e\<in>set (rt_entries rt'). nodeId e \<noteq> localId rt"
    "\<forall>e\<in>set (rt_entries rt'). \<exists>e'\<in>set (rt_entries rt). same_node e e'"
    "set (map pr_bucket ts) \<subseteq> set (map bref (buckets rt'))"
proof -
  from mergeBuckets_effect [OF set_time_inv [OF assms(1)], of now now] obtain rt1 where
    m: "mergeBuckets now (rt\<lparr>timeOfLastPingCheck := now\<rparr>) = Some rt1" "rt_inv rt1" "localId rt1 = localId rt"
      "\<forall>e\<in>set (rt_entries rt1). \<exists>e'\<in>set (rt_entries rt). same_node e e'"
    by (metis (no_types, lifting) RoutingTable.ext_inject RoutingTable.surjective RoutingTable.update_convs(4) rt_entries_def)
  have "clean_buckets {} rt1" by (simp add: clean_buckets_def)
  from maintain_buckets_effect [OF m(2) subset_refl this, of now boot] obtain rt2 ts where
    n: "maintain_buckets now boot (map bref (buckets rt1)) rt1 = Some (rt2, ts)" "rt_inv rt2" "shrinks rt1 rt2"
      "clean_buckets (set (map bref (buckets rt1))) rt2" "set (map pr_bucket ts) \<subseteq> set (map bref (buckets rt1))" by auto
  have refs: "map bref (buckets rt2) = map bref (buckets rt1)" and l: "localId rt2 = localId rt"
    using n(3) m(3) by (auto simp: shrinks_def)
  have "\<forall>e\<in>set (rt_entries rt2). nodeId e \<noteq> localId rt"
    using n(4) l unfolding clean_buckets_def refs [symmetric] by (auto simp: set_rt_entries)
  moreover have "\<forall>e\<in>set (rt_entries rt2). \<exists>e'\<in>set (rt_entries rt). same_node e e'"
    using shrinks_entries [OF n(3)] m(4) by blast
  moreover have "maintenance now boot rt = Some (rt2, ts)"
    using assms(2) m(1) n(1) by (simp add: maintenance_def)
  moreover have "set (map pr_bucket ts) \<subseteq> set (map bref (buckets rt2))" using n(5) refs by metis
  ultimately show ?thesis using that n(2) l by blast
qed

lemma fillBuckets_inv: "rt_inv rt \<Longrightarrow> rt_inv (fst (fillBuckets now rnd rt))"
proof -
  let ?f = "\<lambda>b. if length (entries b) < MAX_ENTRIES_PER_BUCKET then updateRefreshTimer now b else b"
  have f: "bprefix (?f b) = bprefix b" "bref (?f b) = bref b" "entries (?f b) = entries b" "homeBucket (?f b) = homeBucket b" for b
    by (simp_all add: updateRefreshTimer_def)
  have m: "map bprefix (map ?f bs) = map bprefix bs" "map bref (map ?f bs) = map bref bs" "map entries (map ?f bs) = map entries bs" for bs
    by (simp_all add: f)
  assume "rt_inv rt"
  then show ?thesis
    unfolding rt_inv_def fillBuckets_def fst_conv rt_entries_def
    by (simp add: m del: map_map) (auto simp: bucket_ok_def isHomeBucket_def updateRefreshTimer_def bucket_inv_def)
qed

section \<open>Loading\<close>

lemma load_entries_total:
  assumes "rt_inv rt" "\<And>e. Some e \<in> set es \<Longrightarrow> wf_node e"
    and "refs_ok ([e. Some e \<leftarrow> es] @ rt_entries rt)"
  shows "\<exists>rt'. load_entries now es rt = Some rt' \<and> rt_inv rt'"
  using assms
proof (induction es arbitrary: rt)
  case Nil
  then show ?case by simp
next
  case (Cons x es)
  show ?case
  proof (cases x)
    case None
    with Cons.prems show ?thesis by simp
  next
    case (Some e)
    let ?es = "[e. Some e \<leftarrow> es]"
    have r: "refs_ok (e # ?es @ rt_entries rt)" using Cons.prems(3) Some by simp
    have w: "wf_node e" using Cons.prems(2) Some by simp
    from rt_put_total [OF Cons.prems(1) w refs_ok_Cons_fresh [OF r]] obtain rt' where
      p: "rt_put now e rt = Some rt'" "put_outcome now e rt rt'" "rt_inv rt'" by metis
    have "\<exists>e'\<in>insert e (set (rt_entries rt)). same_node y e'" if "y \<in> set (rt_entries rt')" for y
      using put_outcome_entries [OF p(2) w that] by blast
    then have "refs_ok (?es @ rt_entries rt')"
      by (intro refs_ok_same [OF r]) (auto intro: same_node_in)
    from Cons.IH [OF p(3) _ this] Cons.prems(2) p(1) Some show ?thesis by auto
  qed
qed

end
