(* ===== verification/Routing_Reachability.thy ===== *)
theory Routing_Reachability
  imports Routing_Invariants
begin

text \<open>
  The life of a routing table (\<^verbatim>\<open>src/core/routing_table.cc\<close>): one rule for each operation the DHT calls,
  in any order and at any times. The code holds its entries by shared pointers, so the entry given to
  \<^verbatim>\<open>put\<close> is a new object or one the table already knows under the same id and address; that is the only
  thing asked of the callers beside well-formed ids. The invariant of the table follows by rule induction.
\<close>

inductive rt_reachable :: "Id \<Rightarrow> RoutingTable \<Rightarrow> bool" for local where
  new: "wf_id local \<Longrightarrow> rt_reachable local (newRoutingTable local)"
| put: "rt_reachable local rt \<Longrightarrow> wf_node e \<Longrightarrow> fresh_for e (rt_entries rt) \<Longrightarrow> rt_put now e rt = Some rt' \<Longrightarrow>
    rt_reachable local rt'"
| remove: "rt_reachable local rt \<Longrightarrow> wf_id i \<Longrightarrow> rt_remove now i rt = Some rt' \<Longrightarrow> rt_reachable local rt'"
| onTimeout: "rt_reachable local rt \<Longrightarrow> wf_id i \<Longrightarrow> rt_onTimeout now i rt = Some rt' \<Longrightarrow> rt_reachable local rt'"
| onSend: "rt_reachable local rt \<Longrightarrow> wf_id i \<Longrightarrow> rt_onSend now i rt = Some rt' \<Longrightarrow> rt_reachable local rt'"
| refresh: "rt_reachable local rt \<Longrightarrow> wf_node e \<Longrightarrow> refreshOnly e rt = Some rt' \<Longrightarrow> rt_reachable local rt'"
| maintenance: "rt_reachable local rt \<Longrightarrow> maintenance now boot rt = Some (rt', tasks) \<Longrightarrow> rt_reachable local rt'"
| pinged: "rt_reachable local rt \<Longrightarrow> b \<in> set (buckets rt) \<Longrightarrow> tryPingMaintenance now b options rt = (rt', task) \<Longrightarrow>
    rt_reachable local rt'"
| taskDone: "rt_reachable local rt \<Longrightarrow> rt_reachable local (maintenanceTaskDone r rt)"
| fill: "rt_reachable local rt \<Longrightarrow> rt_reachable local (fst (fillBuckets now rnd rt))"

inductive_cases rt_reachableE: "rt_reachable local rt"

lemma tasks_inv: "rt_inv rt \<Longrightarrow> rt_inv (rt\<lparr>maintenanceTasks := ts\<rparr>)"
  by (simp add: rt_inv_def bucket_ok_def isHomeBucket_def rt_entries_def)

lemma tryPingMaintenance_inv:
  assumes "rt_inv rt"
  shows "rt_inv (fst (tryPingMaintenance now b options rt))"
proof -
  have "rt_inv (on_bucket (bref b) (updateRefreshTimer now) (rt\<lparr>maintenanceTasks := bref b # maintenanceTasks rt\<rparr>))"
    by (rule on_bucket_shrink_inv [OF tasks_inv [OF assms]]) (auto simp: updateRefreshTimer_inv, auto simp: updateRefreshTimer_def)
  with assms show ?thesis by (simp add: tryPingMaintenance_def)
qed

lemma maintenance_total:
  assumes "rt_inv rt"
  shows "\<exists>rt' tasks. maintenance now boot rt = Some (rt', tasks) \<and> rt_inv rt' \<and> localId rt' = localId rt"
proof (cases "now - timeOfLastPingCheck rt < ROUTING_TABLE_MAINTENANCE_INTERVAL")
  case True
  then show ?thesis using assms by (simp add: maintenance_def)
next
  case False
  from maintenance_effect [OF assms this, of boot] show ?thesis by metis
qed

lemma on_bucket_local [simp]: "localId (on_bucket r f rt) = localId rt"
  by (simp add: on_bucket_def)

lemma put_outcome_local: "put_outcome now e rt rt' \<Longrightarrow> localId rt' = localId rt"
  by (auto simp: put_outcome_def)

lemma rt_reachable_inv: "rt_reachable local rt \<Longrightarrow> rt_inv rt \<and> localId rt = local"
proof (induction rule: rt_reachable.induct)
  case new
  then show ?case using newRoutingTable_inv by (simp add: newRoutingTable_def)
next
  case (put rt e now rt')
  then show ?case using rt_put_total [of rt e now] put_outcome_local by fastforce
next
  case (remove rt i now rt')
  then show ?case using rt_update_total(1) [of rt i now]
    by (auto simp: rt_remove_def Option.bind_eq_Some_conv split: option.splits)
next
  case (onTimeout rt i now rt')
  then show ?case using rt_update_total(2) [of rt i now] by (auto simp: rt_onTimeout_def Option.bind_eq_Some_conv)
next
  case (onSend rt i now rt')
  then show ?case using rt_update_total(3) [of rt i now] by (auto simp: rt_onSend_def Option.bind_eq_Some_conv)
next
  case (refresh rt e rt')
  then show ?case using refreshOnly_total [of rt e]
    by (auto simp: refreshOnly_def Option.bind_eq_Some_conv wf_node_def)
next
  case (maintenance rt now boot rt' tasks)
  then show ?case using maintenance_total [of rt now boot] by auto
next
  case (pinged rt b now options rt' task)
  then show ?case using tryPingMaintenance_inv [of rt now b options] by (auto simp: tryPingMaintenance_def split: if_splits)
next
  case (taskDone rt r)
  then show ?case by (simp add: maintenanceTaskDone_def tasks_inv)
next
  case (fill rt now rnd)
  then show ?case using fillBuckets_inv by (simp add: fillBuckets_def)
qed

text \<open>Every operation returns from every reachable table: no null bucket, no endless split.\<close>

lemma rt_reachable_total:
  assumes "rt_reachable local rt"
  shows "\<lbrakk>wf_node e; fresh_for e (rt_entries rt)\<rbrakk> \<Longrightarrow> \<exists>rt'. rt_put now e rt = Some rt' \<and> rt_reachable local rt'"
    and "wf_id i \<Longrightarrow> \<exists>rt'. rt_remove now i rt = Some rt' \<and> rt_reachable local rt'"
    and "\<exists>rt' tasks. maintenance now boot rt = Some (rt', tasks) \<and> rt_reachable local rt'"
proof -
  have inv: "rt_inv rt" using rt_reachable_inv [OF assms] by simp
  show "\<exists>rt'. rt_put now e rt = Some rt' \<and> rt_reachable local rt'" if "wf_node e" "fresh_for e (rt_entries rt)"
    using rt_put_total [OF inv that, of now] rt_reachable.put [OF assms that] by metis
  show "\<exists>rt'. rt_remove now i rt = Some rt' \<and> rt_reachable local rt'" if "wf_id i"
    using rt_update_total(1) [OF inv that, of now] rt_reachable.remove [OF assms that] by metis
  show "\<exists>rt' tasks. maintenance now boot rt = Some (rt', tasks) \<and> rt_reachable local rt'"
    using maintenance_total [OF inv, of now boot] rt_reachable.maintenance [OF assms] by metis
qed

end
