(* ===== verification/Values.thy ===== *)
theory Values
  imports Socket_Addresses "HOL-Library.Monad_Syntax"
begin

text \<open>
  Stored data: \<^verbatim>\<open>src/core/value.cc\<close>, \<^verbatim>\<open>include/carrier/value.h\<close>, \<^verbatim>\<open>src/core/peer_info.cc\<close>,
  \<^verbatim>\<open>include/carrier/peer_info.h\<close>. The cryptographic library is a parameter: \<open>sha256\<close>, \<open>sign\<close> and
  \<open>verify\<close> of Ed25519, and \<open>box\<close>, the encryption to a recipient; \<open>nfc\<close> is the Unicode
  normalisation of utf8proc. Exceptions are the left values of a sum.
\<close>

section \<open>Errors\<close>

datatype error =
    InvalidArgument string
  | RuntimeError string
  | StateError string
  | MessageError string
  | JsonError string
  | OutOfRange
  | Undefined

type_synonym 'a result = "error + 'a"

text \<open>Sequencing of computations that may throw.\<close>

definition bind_result :: "'a result \<Rightarrow> ('a \<Rightarrow> 'b result) \<Rightarrow> 'b result" where
  "bind_result r f = (case r of Inl e \<Rightarrow> Inl e | Inr x \<Rightarrow> f x)"

definition throw_if :: "bool \<Rightarrow> error \<Rightarrow> unit result" where
  "throw_if c e = (if c then Inl e else Inr ())"

fun map_result :: "('a \<Rightarrow> 'b result) \<Rightarrow> 'a list \<Rightarrow> 'b list result" where
  "map_result f [] = Inr []"
| "map_result f (x # xs) = bind_result (f x) (\<lambda>y. bind_result (map_result f xs) (\<lambda>ys. Inr (y # ys)))"

lemma bind_result_simps [simp]:
  "bind_result (Inl e) f = Inl e" "bind_result (Inr x) f = f x"
  by (simp_all add: bind_result_def)

lemma throw_if_simps [simp]: "throw_if True e = Inl e" "throw_if False e = Inr ()"
  by (simp_all add: throw_if_def)

lemma bind_result_Inr [simp]: "bind_result r f = Inr y \<longleftrightarrow> (\<exists>x. r = Inr x \<and> f x = Inr y)"
  by (cases r) auto

lemma throw_if_Inr [simp]: "throw_if c e = Inr u \<longleftrightarrow> \<not> c"
  by (simp add: throw_if_def)

section \<open>Definitions\<close>

definition SIGNATURE_BYTES :: nat where "SIGNATURE_BYTES = 64"
definition PRIVATEKEY_BYTES :: nat where "PRIVATEKEY_BYTES = 64"
definition NONCE_BYTES :: nat where "NONCE_BYTES = 24"

text \<open>The constructors \<^verbatim>\<open>Id(const Blob&)\<close> and \<^verbatim>\<open>Nonce(const Blob&)\<close> check the length.\<close>

definition mkId :: "byte list \<Rightarrow> Id result" where
  "mkId b = (if b = [] \<or> length b \<noteq> 32 then Inl (InvalidArgument ''The binary id should be 32 bytes long.'') else Inr b)"

definition mkNonce :: "byte list \<Rightarrow> (byte list) result" where
  "mkNonce b = (if length b \<noteq> NONCE_BYTES then Inl (InvalidArgument ''Invaild raw nonce size.'') else Inr b)"

record Value =
  v_publicKey :: "Id option"
  v_recipient :: "Id option"
  v_privateKey :: "byte list option"
  v_nonce :: "byte list option"
  v_signature :: "byte list option"
  v_data :: "byte list"
  v_sequenceNumber :: int

definition Value_default :: Value where
  "Value_default = \<lparr>v_publicKey = None, v_recipient = None, v_privateKey = None, v_nonce = None,
     v_signature = None, v_data = [], v_sequenceNumber = 0\<rparr>"

definition mk_mutable :: "byte list \<Rightarrow> byte list \<Rightarrow> byte list \<Rightarrow> byte list \<Rightarrow> int \<Rightarrow> byte list \<Rightarrow> Value \<Rightarrow> Value result" where
  "mk_mutable publicKey privateKey recipient nonce sequenceNumber signature v =
     bind_result (throw_if (privateKey \<noteq> [] \<and> length privateKey \<noteq> PRIVATEKEY_BYTES) (InvalidArgument ''Invalid private key'')) (\<lambda>_.
     bind_result (throw_if (length nonce \<noteq> NONCE_BYTES) (InvalidArgument ''Invalid nonce'')) (\<lambda>_.
     bind_result (throw_if (sequenceNumber < 0) (InvalidArgument ''Invalid sequence number'')) (\<lambda>_.
     bind_result (throw_if (length signature \<noteq> SIGNATURE_BYTES) (InvalidArgument ''Invalid signature'')) (\<lambda>_.
     bind_result (mkId publicKey) (\<lambda>pk.
     bind_result (if recipient \<noteq> [] then (case mkId recipient of Inl e \<Rightarrow> Inl e | Inr r \<Rightarrow> Inr (Some r)) else Inr None) (\<lambda>rec.
     bind_result (mkNonce nonce) (\<lambda>n.
       Inr (v\<lparr>v_publicKey := Some pk, v_privateKey := (if privateKey \<noteq> [] then Some privateKey else v_privateKey v),
              v_recipient := rec, v_nonce := Some n, v_signature := Some signature,
              v_sequenceNumber := sequenceNumber\<rparr>))))))))"

definition Value_of ::
  "byte list \<Rightarrow> byte list \<Rightarrow> byte list \<Rightarrow> byte list \<Rightarrow> int \<Rightarrow> byte list \<Rightarrow> byte list \<Rightarrow> Value result" where
  "Value_of publicKey privateKey recipient nonce sequenceNumber signature data =
     bind_result (if publicKey \<noteq> [] then mk_mutable publicKey privateKey recipient nonce sequenceNumber signature Value_default
                  else Inr Value_default) (\<lambda>v.
     bind_result (throw_if (data = []) (InvalidArgument ''Invalid data'')) (\<lambda>_. Inr (v\<lparr>v_data := data\<rparr>)))"

definition createValue :: "byte list \<Rightarrow> Value result" where
  "createValue data = Value_of [] [] [] [] (-1) [] data"

definition isMutable :: "Value \<Rightarrow> bool" where "isMutable v \<longleftrightarrow> v_publicKey v \<noteq> None"
definition isEncrypted :: "Value \<Rightarrow> bool" where "isEncrypted v \<longleftrightarrow> v_recipient v \<noteq> None"
definition isSigned :: "Value \<Rightarrow> bool" where "isSigned v \<longleftrightarrow> v_signature v \<noteq> None"
definition hasPrivateKey :: "Value \<Rightarrow> bool" where "hasPrivateKey v \<longleftrightarrow> v_privateKey v \<noteq> None"

definition value_size :: "Value \<Rightarrow> nat" where
  "value_size v = length (v_data v) + (case v_signature v of Some s \<Rightarrow> length s | None \<Rightarrow> 0)"

text \<open>The four bytes of an \<^verbatim>\<open>int32_t\<close> in the memory of a little-endian machine.\<close>

definition int32_bytes :: "int \<Rightarrow> byte list" where
  "int32_bytes n = map (\<lambda>k. word_of_int (drop_bit (8 * k) n)) [0, 1, 2, 3]"

definition value_getSignData :: "Value \<Rightarrow> byte list" where
  "value_getSignData v =
     (case v_recipient v of Some r \<Rightarrow> r | None \<Rightarrow> []) @ (case v_nonce v of Some n \<Rightarrow> n | None \<Rightarrow> [])
     @ int32_bytes (v_sequenceNumber v) @ v_data v"

text \<open>\<open>pub\<close> gives the public key of a private key.\<close>

definition signed_value ::
  "(byte list \<Rightarrow> byte list \<Rightarrow> byte list) \<Rightarrow> (byte list \<Rightarrow> byte list) \<Rightarrow> (byte list \<Rightarrow> byte list \<Rightarrow> Id \<Rightarrow> byte list \<Rightarrow> byte list) \<Rightarrow>
   byte list \<Rightarrow> Id option \<Rightarrow> byte list \<Rightarrow> int \<Rightarrow> byte list \<Rightarrow> Value result" where
  "signed_value sign pub box sk recipient nonce sequenceNumber data =
     bind_result (throw_if (sequenceNumber < 0) (InvalidArgument ''Invalid sequence number'')) (\<lambda>_.
     bind_result (throw_if (data = []) (InvalidArgument ''Invalid data'')) (\<lambda>_.
       let v = Value_default\<lparr>v_publicKey := Some (pub sk), v_privateKey := Some sk, v_nonce := Some nonce,
                 v_sequenceNumber := sequenceNumber\<rparr>;
           v1 = (case recipient of
                   Some r \<Rightarrow> v\<lparr>v_recipient := Some r, v_data := box data nonce r sk\<rparr>
                 | None \<Rightarrow> v\<lparr>v_data := data\<rparr>)
       in Inr (v1\<lparr>v_signature := Some (sign (value_getSignData v1) sk)\<rparr>)))"

definition calculateId :: "(byte list \<Rightarrow> byte list) \<Rightarrow> Id option \<Rightarrow> byte list option \<Rightarrow> byte list \<Rightarrow> Id" where
  "calculateId sha256 publicKey nonce data =
     (case publicKey of
        Some pk \<Rightarrow> sha256 (pk @ (case nonce of Some n \<Rightarrow> n | None \<Rightarrow> []))
      | None \<Rightarrow> sha256 data)"

definition value_getId :: "(byte list \<Rightarrow> byte list) \<Rightarrow> Value \<Rightarrow> Id" where
  "value_getId sha256 v = calculateId sha256 (v_publicKey v) (v_nonce v) (v_data v)"

text \<open>A mutable value always has a nonce and a signature, which the code asserts before it verifies.\<close>

definition value_isValid :: "(byte list \<Rightarrow> byte list \<Rightarrow> Id \<Rightarrow> bool) \<Rightarrow> Value \<Rightarrow> bool" where
  "value_isValid verify v =
     (if v_data v = [] then False
      else case (v_publicKey v, v_signature v) of
             (Some pk, Some sig) \<Rightarrow> verify (value_getSignData v) sig pk
           | (Some pk, None) \<Rightarrow> False
           | (None, _) \<Rightarrow> True)"

definition value_update ::
  "(byte list \<Rightarrow> byte list \<Rightarrow> byte list) \<Rightarrow> (byte list \<Rightarrow> byte list) \<Rightarrow> (byte list \<Rightarrow> byte list \<Rightarrow> Id \<Rightarrow> byte list \<Rightarrow> byte list) \<Rightarrow>
   Value \<Rightarrow> byte list \<Rightarrow> Value result" where
  "value_update sign pub box v data =
     bind_result (throw_if (\<not> isMutable v) (StateError ''Immutable value'')) (\<lambda>_.
     case v_privateKey v of
       None \<Rightarrow> Inl (StateError ''Not the owner of the value'')
     | Some sk \<Rightarrow> (case v_nonce v of
                     None \<Rightarrow> Inl (RuntimeError ''bad optional access'')
                   | Some n \<Rightarrow> signed_value sign pub box sk (v_recipient v) n (int32 (v_sequenceNumber v + 1)) data))"

text \<open>\<^verbatim>\<open>operator==\<close> leaves the private key out.\<close>

definition value_eq :: "Value \<Rightarrow> Value \<Rightarrow> bool" where
  "value_eq a b \<longleftrightarrow> v_publicKey a = v_publicKey b \<and> v_recipient a = v_recipient b \<and> v_signature a = v_signature b
     \<and> v_nonce a = v_nonce b \<and> v_data a = v_data b \<and> v_sequenceNumber a = v_sequenceNumber b"

record PeerInfo =
  p_publicKey :: Id
  p_privateKey :: "byte list option"
  p_nodeId :: Id
  p_origin :: Id
  p_port :: u16
  p_alternativeURL :: "string option"
  p_signature :: "byte list"

text \<open>The characters of a string up to the first NUL, which is what its \<^verbatim>\<open>c_str\<close> shows to a C function.\<close>

definition c_str :: "string \<Rightarrow> string" where "c_str s = takeWhile (\<lambda>c. c \<noteq> CHR 0x00) s"

text \<open>\<open>nfc\<close> is \<^verbatim>\<open>utf8proc_NFC\<close>: it returns a null pointer for a string that is not in UTF-8, and the code makes a
  \<^verbatim>\<open>std::string\<close> of the pointer without looking.\<close>

definition normal_url :: "(string \<Rightarrow> string option) \<Rightarrow> string \<Rightarrow> string option result" where
  "normal_url nfc url =
     (if url = [] then Inr None else case nfc (c_str url) of None \<Rightarrow> Inl Undefined | Some u \<Rightarrow> Inr (Some u))"

definition PeerInfo_of ::
  "(string \<Rightarrow> string option) \<Rightarrow> byte list \<Rightarrow> byte list \<Rightarrow> byte list \<Rightarrow> byte list \<Rightarrow> u16 \<Rightarrow> string \<Rightarrow> byte list \<Rightarrow> PeerInfo result" where
  "PeerInfo_of nfc peerId privateKey nodeId origin port alternativeURL signature =
     bind_result (throw_if (length peerId \<noteq> 32) (InvalidArgument ''Invalid peer Id'')) (\<lambda>_.
     bind_result (throw_if (privateKey \<noteq> [] \<and> length privateKey \<noteq> PRIVATEKEY_BYTES) (InvalidArgument ''Invalid private key'')) (\<lambda>_.
     bind_result (throw_if (length nodeId \<noteq> 32) (InvalidArgument ''Invalid node id'')) (\<lambda>_.
     bind_result (throw_if (origin \<noteq> [] \<and> length origin \<noteq> 32) (InvalidArgument ''Invalid origin id'')) (\<lambda>_.
     bind_result (throw_if (port = 0) (InvalidArgument ''Invalid port'')) (\<lambda>_.
     bind_result (throw_if (length signature \<noteq> SIGNATURE_BYTES) (InvalidArgument ''Invalid signature'')) (\<lambda>_.
     bind_result (normal_url nfc alternativeURL) (\<lambda>url.
       Inr \<lparr>p_publicKey = peerId, p_privateKey = (if privateKey \<noteq> [] then Some privateKey else None),
            p_nodeId = nodeId, p_origin = (if origin = [] then nodeId else origin), p_port = port,
            p_alternativeURL = url, p_signature = signature\<rparr>)))))))"

definition isDelegated :: "PeerInfo \<Rightarrow> bool" where
  "isDelegated p \<longleftrightarrow> \<not> id_eq (p_nodeId p) (p_origin p)"

definition hasAlternativeURL :: "PeerInfo \<Rightarrow> bool" where
  "hasAlternativeURL p \<longleftrightarrow> p_alternativeURL p \<noteq> None"

definition string_bytes :: "string \<Rightarrow> byte list" where
  "string_bytes s = map (\<lambda>c. word_of_nat (of_char c)) s"

definition peer_getSignData :: "PeerInfo \<Rightarrow> byte list" where
  "peer_getSignData p = p_nodeId p @ p_origin p @ port_bytes (p_port p)
     @ (case p_alternativeURL p of Some u \<Rightarrow> string_bytes u | None \<Rightarrow> [])"

definition peer_create ::
  "(byte list \<Rightarrow> byte list \<Rightarrow> byte list) \<Rightarrow> (byte list \<Rightarrow> byte list) \<Rightarrow> (string \<Rightarrow> string option) \<Rightarrow>
   byte list \<Rightarrow> Id \<Rightarrow> Id \<Rightarrow> u16 \<Rightarrow> string \<Rightarrow> PeerInfo result" where
  "peer_create sign pub nfc sk nodeId origin port alternativeURL =
     bind_result (throw_if (port = 0) (InvalidArgument ''Invalid port'')) (\<lambda>_.
     bind_result (normal_url nfc alternativeURL) (\<lambda>url.
       let p = \<lparr>p_publicKey = pub sk, p_privateKey = Some sk, p_nodeId = nodeId,
                p_origin = (if id_eq origin MIN_ID then nodeId else origin), p_port = port,
                p_alternativeURL = url, p_signature = []\<rparr>
       in Inr (p\<lparr>p_signature := sign (peer_getSignData p) sk\<rparr>)))"

definition peer_isValid :: "(byte list \<Rightarrow> byte list \<Rightarrow> Id \<Rightarrow> bool) \<Rightarrow> PeerInfo \<Rightarrow> bool" where
  "peer_isValid verify p =
     (if length (p_signature p) \<noteq> SIGNATURE_BYTES then False
      else verify (peer_getSignData p) (p_signature p) (p_publicKey p))"

definition peer_eq :: "PeerInfo \<Rightarrow> PeerInfo \<Rightarrow> bool" where
  "peer_eq a b \<longleftrightarrow> id_eq (p_publicKey a) (p_publicKey b) \<and> p_signature a = p_signature b"

definition peer_less :: "PeerInfo \<Rightarrow> PeerInfo \<Rightarrow> bool" where
  "peer_less a b =
     (let rc = compareTo (p_publicKey a) (p_publicKey b)
      in if rc \<noteq> 0 then rc < 0
         else let rc = compareTo (p_nodeId a) (p_nodeId b)
              in if rc \<noteq> 0 then rc < 0 else compareTo (p_origin a) (p_origin b) < 0)"

section \<open>Well-formed values and peers\<close>

text \<open>A URL that normalisation leaves as it is.\<close>

definition normalised :: "(string \<Rightarrow> string option) \<Rightarrow> string \<Rightarrow> bool" where
  "normalised nfc u \<longleftrightarrow> u \<noteq> [] \<and> CHR 0x00 \<notin> set u \<and> nfc u = Some u"

lemma c_str_id: "CHR 0x00 \<notin> set u \<Longrightarrow> c_str u = u"
  unfolding c_str_def by (subst takeWhile_eq_all_conv) auto

lemma normal_url_same: "normalised nfc u \<Longrightarrow> normal_url nfc u = Inr (Some u)"
  by (simp add: normal_url_def normalised_def c_str_id)

lemma normal_url_empty [simp]: "normal_url nfc [] = Inr None"
  by (simp add: normal_url_def)

lemma normal_url_Some: "normal_url nfc u = Inr (Some v) \<longleftrightarrow> u \<noteq> [] \<and> nfc (c_str u) = Some v"
  by (auto simp: normal_url_def split: option.splits)

definition wf_value :: "Value \<Rightarrow> bool" where
  "wf_value v \<longleftrightarrow> v_data v \<noteq> []
     \<and> (case v_publicKey v of
          None \<Rightarrow> v_recipient v = None \<and> v_privateKey v = None \<and> v_nonce v = None \<and> v_signature v = None \<and> v_sequenceNumber v = 0
        | Some pk \<Rightarrow> wf_id pk \<and> (\<forall>r. v_recipient v = Some r \<longrightarrow> wf_id r)
            \<and> (\<forall>k. v_privateKey v = Some k \<longrightarrow> length k = PRIVATEKEY_BYTES)
            \<and> (\<exists>n. v_nonce v = Some n \<and> length n = NONCE_BYTES)
            \<and> (\<exists>s. v_signature v = Some s \<and> length s = SIGNATURE_BYTES) \<and> 0 \<le> v_sequenceNumber v)"

lemma mkId_Inr [simp]: "mkId b = Inr i \<longleftrightarrow> i = b \<and> wf_id b"
  by (auto simp: mkId_def wf_id_def)

lemma mkNonce_Inr [simp]: "mkNonce b = Inr n \<longleftrightarrow> n = b \<and> length b = NONCE_BYTES"
  by (auto simp: mkNonce_def)

lemma wf_id_nonempty [simp]: "wf_id i \<Longrightarrow> i \<noteq> []"
  by (auto simp: wf_id_def)

text \<open>The constructor accepts the fields of a well-formed value and gives the value back, and
  everything it accepts is well-formed.\<close>

definition opt_bytes :: "byte list option \<Rightarrow> byte list" where
  "opt_bytes b = (case b of Some x \<Rightarrow> x | None \<Rightarrow> [])"

lemma Value_of_fields:
  assumes "wf_value v"
  shows "Value_of (opt_bytes (v_publicKey v)) (opt_bytes (v_privateKey v)) (opt_bytes (v_recipient v))
    (opt_bytes (v_nonce v)) (v_sequenceNumber v) (opt_bytes (v_signature v)) (v_data v) = Inr v"
  using assms
  by (cases v; cases "v_publicKey v"; cases "v_recipient v"; cases "v_privateKey v")
    (auto simp: wf_value_def Value_of_def mk_mutable_def opt_bytes_def Value_default_def mkId_def mkNonce_def wf_id_def
      PRIVATEKEY_BYTES_def)

lemma Value_of_wf: "Value_of pk sk rec n seq sig data = Inr v \<Longrightarrow> wf_value v"
  by (auto simp: Value_of_def mk_mutable_def wf_value_def Value_default_def split: if_splits sum.splits)

lemma signed_value_valid:
  assumes "signed_value sign pub box sk rec nonce seq data = Inr v"
    and "\<And>m k. verify m (sign m k) (pub k)" and "\<And>d n r k. d \<noteq> [] \<Longrightarrow> box d n r k \<noteq> []"
  shows "value_isValid verify v"
  using assms by (auto simp: signed_value_def value_isValid_def Let_def value_getSignData_def Value_default_def split: option.splits)

lemma signed_value_fields:
  assumes "signed_value sign pub box sk rec nonce seq data = Inr v"
  shows "v_publicKey v = Some (pub sk)" "v_nonce v = Some nonce" "v_sequenceNumber v = seq" "0 \<le> seq"
    "v_privateKey v = Some sk" "v_recipient v = rec"
  using assms by (auto simp: signed_value_def Let_def Value_default_def split: option.splits)

end
