(* ===== verification/Storage.thy ===== *)
theory Storage
  imports Values
begin

text \<open>
  The persistent store: \<^verbatim>\<open>src/core/sqlite_storage.cc\<close> behind the interface
  \<^verbatim>\<open>src/core/data_storage.h\<close>. The two tables are lists of rows with the columns of the
  \<^verbatim>\<open>CREATE TABLE\<close> texts, and every SQL text of the file is the operation on rows that it denotes.
  What SQLite decides alone is a parameter of type \<open>Sqlite\<close>: whether a statement can be prepared,
  whether a step of it succeeds, and the order in which rows without \<^verbatim>\<open>ORDER BY\<close> (or with
  \<^verbatim>\<open>ORDER BY RANDOM()\<close>) are visited. The clock is read once per operation.
\<close>

section \<open>Definitions\<close>

definition MAX_PEER_AGE :: u64 where "MAX_PEER_AGE = 120 * 60 * 1000"
definition MAX_VALUE_AGE :: u64 where "MAX_VALUE_AGE = 120 * 60 * 1000"
definition STORAGE_EXPIRE_INTERVAL :: u64 where "STORAGE_EXPIRE_INTERVAL = 5 * 60 * 1000"
definition SCHEMA_VERSION :: int where "SCHEMA_VERSION = 4"

record ValueRow =
  vr_id :: Id
  vr_persistent :: bool
  vr_publicKey :: "byte list option"
  vr_privateKey :: "byte list option"
  vr_recipient :: "byte list option"
  vr_nonce :: "byte list option"
  vr_signature :: "byte list option"
  vr_sequenceNumber :: int
  vr_data :: "byte list"
  vr_timestamp :: int
  vr_announced :: int

record PeerRow =
  pr_id :: Id
  pr_nodeId :: Id
  pr_origin :: Id
  pr_persistent :: bool
  pr_privateKey :: "byte list option"
  pr_port :: int
  pr_alternativeURL :: "string option"
  pr_signature :: "byte list"
  pr_timestamp :: int
  pr_announced :: int

text \<open>The statements of the file; the dropping and creating of indexes has no effect on rows.\<close>

datatype Statement =
    SET_USER_VERSION | GET_USER_VERSION
  | CREATE_VALUES_TABLE | CREATE_VALUES_INDEX | CREATE_PEERS_TABLE | CREATE_PEERS_INDEX | CREATE_PEERS_ID_INDEX
  | DROP_VALUES_INDEX | DROP_VALUES_TABLE | DROP_PEERS_INDEX | DROP_PEERS_ID_INDEX | DROP_INDEX_PEERS
  | UPSERT_VALUE | SELECT_VALUE | UPDATE_VALUE_LAST_ANNOUNCE | GET_VALUES | GET_PERSISTENT_VALUES | REMOVE_VALUE
  | UPSERT_PEER | SELECT_PEER | SELECT_PEER_WITH_SRC | UPDATE_PEER_LAST_ANNOUNCE | GET_PEERS
  | GET_PERSISTENT_PEERS | REMOVE_PEER
  | EXPIRE_VALUES | EXPIRE_PEERS | BEGIN_TRANSACTION | COMMIT_TRANSACTION

record Storage =
  valores :: "ValueRow list"
  peersTable :: "PeerRow list"
  user_version :: int
  inTransaction :: bool

record Sqlite =
  prepares :: "Statement \<Rightarrow> bool"
  steps :: "Statement \<Rightarrow> nat \<Rightarrow> bool"
  value_order :: "ValueRow list \<Rightarrow> ValueRow list"
  peer_order :: "PeerRow list \<Rightarrow> PeerRow list"

definition prepare_failed :: error where "prepare_failed = RuntimeError ''Prepare sqlite failed.''"

text \<open>A \<^verbatim>\<open>uint64_t\<close> bound as a column of SQLite is a signed 64-bit integer.\<close>

definition bind_int64 :: "u64 \<Rightarrow> int" where "bind_int64 t = sint t"

text \<open>The rows a loop \<^verbatim>\<open>while (sqlite3_step(..) == SQLITE_ROW)\<close> sees, up to the first step that fails.\<close>

fun fetch :: "(nat \<Rightarrow> bool) \<Rightarrow> nat \<Rightarrow> 'a list \<Rightarrow> 'a list" where
  "fetch ok k [] = []"
| "fetch ok k (x # xs) = (if ok k then x # fetch ok (Suc k) xs else [])"

subsection \<open>Values\<close>

text \<open>The columns of a row become the arguments of \<^verbatim>\<open>Value::of\<close>; a nonce of another length is skipped.\<close>

definition value_of_row :: "ValueRow \<Rightarrow> Value result" where
  "value_of_row r =
     Value_of (opt_bytes (vr_publicKey r)) (opt_bytes (vr_privateKey r)) (opt_bytes (vr_recipient r))
       (let n = opt_bytes (vr_nonce r) in if length n = NONCE_BYTES then n else [])
       (int32 (vr_sequenceNumber r)) (opt_bytes (vr_signature r)) (vr_data r)"

definition db_getValue :: "Sqlite \<Rightarrow> u64 \<Rightarrow> Id \<Rightarrow> Storage \<Rightarrow> Value option result" where
  "db_getValue sql now valueId db =
     bind_result (throw_if (\<not> prepares sql SELECT_VALUE) prepare_failed) (\<lambda>_.
       let when = bind_int64 (now - MAX_VALUE_AGE)
       in case fetch (steps sql SELECT_VALUE) 0 (filter (\<lambda>r. vr_id r = valueId \<and> vr_timestamp r \<ge> when) (valores db)) of
            [] \<Rightarrow> Inr None
          | r # _ \<Rightarrow> bind_result (value_of_row r) (\<lambda>v. Inr (Some v)))"

text \<open>\<open>ON CONFLICT(id) DO UPDATE\<close> sets every column but \<open>persistent\<close> and \<open>announced\<close>.\<close>

definition upsert_value :: "ValueRow \<Rightarrow> ValueRow list \<Rightarrow> ValueRow list" where
  "upsert_value new rows =
     (if \<exists>r\<in>set rows. vr_id r = vr_id new
      then map (\<lambda>r. if vr_id r = vr_id new
                     then new\<lparr>vr_persistent := vr_persistent r, vr_announced := vr_announced r\<rparr> else r) rows
      else rows @ [new])"

definition mkValueRow :: "(byte list \<Rightarrow> byte list) \<Rightarrow> u64 \<Rightarrow> Value \<Rightarrow> bool \<Rightarrow> bool \<Rightarrow> ValueRow result" where
  "mkValueRow sha256 now v persistent updateLastAnnounce =
     (case (isMutable v, v_nonce v) of
        (True, None) \<Rightarrow> Inl (RuntimeError ''No nonce'')
      | _ \<Rightarrow> Inr \<lparr>vr_id = value_getId sha256 v, vr_persistent = persistent, vr_publicKey = v_publicKey v,
                  vr_privateKey = v_privateKey v, vr_recipient = v_recipient v,
                  vr_nonce = (if isMutable v then v_nonce v else None), vr_signature = v_signature v,
                  vr_sequenceNumber = v_sequenceNumber v, vr_data = v_data v,
                  vr_timestamp = bind_int64 now,
                  vr_announced = (if updateLastAnnounce then bind_int64 now else 0)\<rparr>)"

definition check_replacement :: "Value \<Rightarrow> Value \<Rightarrow> int \<Rightarrow> unit result" where
  "check_replacement old v expectedSeq =
     (if isMutable old
      then bind_result (throw_if (\<not> isMutable v)
             (InvalidArgument ''Can not replace mutable value with immutable is not supported'')) (\<lambda>_.
           bind_result (throw_if (hasPrivateKey old \<and> \<not> hasPrivateKey v) (InvalidArgument ''Not the owner of value'')) (\<lambda>_.
           bind_result (throw_if (v_sequenceNumber v < v_sequenceNumber old)
             (InvalidArgument ''Sequence number less than current'')) (\<lambda>_.
             throw_if (expectedSeq \<ge> 0 \<and> v_sequenceNumber old \<ge> 0 \<and> v_sequenceNumber old \<noteq> expectedSeq)
               (InvalidArgument ''CAS failure''))))
      else Inr ())"

definition db_putValue ::
  "(byte list \<Rightarrow> byte list) \<Rightarrow> (byte list \<Rightarrow> byte list \<Rightarrow> Id \<Rightarrow> bool) \<Rightarrow> Sqlite \<Rightarrow> u64 \<Rightarrow> Value \<Rightarrow> int \<Rightarrow> bool \<Rightarrow> bool \<Rightarrow>
   Storage \<Rightarrow> (Storage \<times> Value option) result" where
  "db_putValue sha256 verify sql now v expectedSeq persistent updateLastAnnounce db =
     bind_result (throw_if (isMutable v \<and> \<not> value_isValid verify v) (InvalidArgument ''Value signature validation failed'')) (\<lambda>_.
     bind_result (db_getValue sql now (value_getId sha256 v) db) (\<lambda>old.
     bind_result (case old of Some o' \<Rightarrow> check_replacement o' v expectedSeq | None \<Rightarrow> Inr ()) (\<lambda>_.
     bind_result (throw_if (\<not> prepares sql UPSERT_VALUE) prepare_failed) (\<lambda>_.
     bind_result (mkValueRow sha256 now v persistent updateLastAnnounce) (\<lambda>row.
       Inr (if steps sql UPSERT_VALUE 0 then db\<lparr>valores := upsert_value row (valores db)\<rparr> else db, old))))))"

text \<open>\<^verbatim>\<open>putValue(value, persistent)\<close> of the interface.\<close>

definition db_putOwnValue ::
  "(byte list \<Rightarrow> byte list) \<Rightarrow> (byte list \<Rightarrow> byte list \<Rightarrow> Id \<Rightarrow> bool) \<Rightarrow> Sqlite \<Rightarrow> u64 \<Rightarrow> Value \<Rightarrow> bool \<Rightarrow>
   Storage \<Rightarrow> (Storage \<times> Value option) result" where
  "db_putOwnValue sha256 verify sql now v persistent db = db_putValue sha256 verify sql now v (-1) persistent True db"

definition db_getAllValues :: "Sqlite \<Rightarrow> u64 \<Rightarrow> Storage \<Rightarrow> (Id list) result" where
  "db_getAllValues sql now db =
     bind_result (throw_if (\<not> prepares sql GET_VALUES) prepare_failed) (\<lambda>_.
       map_result mkId (fetch (steps sql GET_VALUES) 0
         (list_sort id_less (map vr_id (filter (\<lambda>r. vr_timestamp r \<ge> bind_int64 (now - MAX_VALUE_AGE)) (valores db))))))"

definition db_updateValueLastAnnounce :: "Sqlite \<Rightarrow> u64 \<Rightarrow> Id \<Rightarrow> Storage \<Rightarrow> Storage result" where
  "db_updateValueLastAnnounce sql now valueId db =
     bind_result (throw_if (\<not> prepares sql UPDATE_VALUE_LAST_ANNOUNCE) prepare_failed) (\<lambda>_.
       Inr (if steps sql UPDATE_VALUE_LAST_ANNOUNCE 0
            then db\<lparr>valores := map (\<lambda>r. if vr_id r = valueId
                    then r\<lparr>vr_timestamp := bind_int64 now, vr_announced := bind_int64 now\<rparr> else r) (valores db)\<rparr>
            else db))"

definition db_getPersistentValues :: "Sqlite \<Rightarrow> u64 \<Rightarrow> Storage \<Rightarrow> (Value list) result" where
  "db_getPersistentValues sql lastAnnounceBefore db =
     bind_result (throw_if (\<not> prepares sql GET_PERSISTENT_VALUES) prepare_failed) (\<lambda>_.
       map_result value_of_row (fetch (steps sql GET_PERSISTENT_VALUES) 0
         (value_order sql (filter (\<lambda>r. vr_persistent r \<and> vr_announced r \<le> bind_int64 lastAnnounceBefore) (valores db)))))"

definition db_removeValue :: "Sqlite \<Rightarrow> Id \<Rightarrow> Storage \<Rightarrow> (Storage \<times> bool) result" where
  "db_removeValue sql valueId db =
     bind_result (throw_if (\<not> prepares sql REMOVE_VALUE) prepare_failed) (\<lambda>_.
       Inr (if steps sql REMOVE_VALUE 0
            then (db\<lparr>valores := filter (\<lambda>r. vr_id r \<noteq> valueId) (valores db)\<rparr>, \<exists>r\<in>set (valores db). vr_id r = valueId)
            else (db, False)))"

subsection \<open>Peers\<close>

text \<open>The text column ends at the first NUL character of the URL (\<^verbatim>\<open>strlen\<close>); \<open>nfc\<close> is applied again
  by \<^verbatim>\<open>PeerInfo::of\<close>.\<close>

definition peer_of_row :: "(string \<Rightarrow> string option) \<Rightarrow> Id \<Rightarrow> Id \<Rightarrow> PeerRow \<Rightarrow> PeerInfo result" where
  "peer_of_row nfc peerId origin r =
     PeerInfo_of nfc peerId (opt_bytes (pr_privateKey r)) (pr_nodeId r) origin (word_of_int (pr_port r))
       (case pr_alternativeURL r of Some u \<Rightarrow> u | None \<Rightarrow> []) (pr_signature r)"

definition db_getPeers :: "(string \<Rightarrow> string option) \<Rightarrow> Sqlite \<Rightarrow> u64 \<Rightarrow> Id \<Rightarrow> int \<Rightarrow> Storage \<Rightarrow> (PeerInfo list) result" where
  "db_getPeers nfc sql now peerId maxPeers db =
     (let limit = (if maxPeers \<le> 0 then 0x7fffffff else maxPeers)
      in bind_result (throw_if (\<not> prepares sql SELECT_PEER) prepare_failed) (\<lambda>_.
           map_result (\<lambda>r. peer_of_row nfc peerId (pr_origin r) r) (fetch (steps sql SELECT_PEER) 0
             (take (nat limit) (peer_order sql
               (filter (\<lambda>r. pr_id r = peerId \<and> pr_timestamp r \<ge> bind_int64 (now - MAX_PEER_AGE)) (peersTable db)))))))"

definition db_getPeer :: "(string \<Rightarrow> string option) \<Rightarrow> Sqlite \<Rightarrow> u64 \<Rightarrow> Id \<Rightarrow> Id \<Rightarrow> Storage \<Rightarrow> PeerInfo option result" where
  "db_getPeer nfc sql now peerId origin db =
     bind_result (throw_if (\<not> prepares sql SELECT_PEER_WITH_SRC) prepare_failed) (\<lambda>_.
       case fetch (steps sql SELECT_PEER_WITH_SRC) 0 (peer_order sql
              (filter (\<lambda>r. pr_id r = peerId \<and> pr_origin r = origin \<and> pr_timestamp r \<ge> bind_int64 (now - MAX_PEER_AGE))
                (peersTable db))) of
         [] \<Rightarrow> Inr None
       | r # _ \<Rightarrow> bind_result (peer_of_row nfc peerId (pr_origin r) r) (\<lambda>p. Inr (Some p)))"

definition same_peer :: "PeerRow \<Rightarrow> PeerRow \<Rightarrow> bool" where
  "same_peer a b \<longleftrightarrow> pr_id a = pr_id b \<and> pr_nodeId a = pr_nodeId b \<and> pr_origin a = pr_origin b"

definition upsert_peer :: "PeerRow \<Rightarrow> PeerRow list \<Rightarrow> PeerRow list" where
  "upsert_peer new rows =
     (if \<exists>r\<in>set rows. same_peer r new then map (\<lambda>r. if same_peer r new then new else r) rows else rows @ [new])"

definition mkPeerRow :: "u64 \<Rightarrow> PeerInfo \<Rightarrow> bool \<Rightarrow> bool \<Rightarrow> PeerRow" where
  "mkPeerRow now p persistent updateLastAnnounce =
     \<lparr>pr_id = p_publicKey p, pr_nodeId = p_nodeId p, pr_origin = p_origin p, pr_persistent = persistent,
      pr_privateKey = p_privateKey p, pr_port = uint (p_port p), pr_alternativeURL = map_option c_str (p_alternativeURL p),
      pr_signature = p_signature p, pr_timestamp = bind_int64 now,
      pr_announced = (if updateLastAnnounce then bind_int64 now else 0)\<rparr>"

text \<open>The loop of \<^verbatim>\<open>putPeer\<close> on a list; the \<open>k\<close>-th step may fail and leaves the transaction open.\<close>

fun put_rows :: "(nat \<Rightarrow> bool) \<Rightarrow> nat \<Rightarrow> u64 \<Rightarrow> PeerInfo list \<Rightarrow> PeerRow list \<Rightarrow> PeerRow list \<times> error option" where
  "put_rows ok k now [] rows = (rows, None)"
| "put_rows ok k now (p # ps) rows =
     (if ok k then put_rows ok (Suc k) now ps (upsert_peer (mkPeerRow now p False False) rows)
      else (rows, Some (RuntimeError ''Step sqlite failed.'')))"

text \<open>A transaction cannot be opened inside another one.\<close>

definition db_putPeers :: "Sqlite \<Rightarrow> u64 \<Rightarrow> PeerInfo list \<Rightarrow> Storage \<Rightarrow> Storage \<times> error option" where
  "db_putPeers sql now ps db =
     (if \<not> steps sql BEGIN_TRANSACTION 0 \<or> inTransaction db then (db, Some (RuntimeError ''Open auto commit mode failed.''))
      else if \<not> prepares sql UPSERT_PEER then (db\<lparr>inTransaction := True\<rparr>, Some prepare_failed)
      else case put_rows (steps sql UPSERT_PEER) 0 now ps (peersTable db) of
             (rows, Some e) \<Rightarrow> (db\<lparr>peersTable := rows, inTransaction := True\<rparr>, Some e)
           | (rows, None) \<Rightarrow> (db\<lparr>peersTable := rows, inTransaction := \<not> steps sql COMMIT_TRANSACTION 0\<rparr>, None))"

definition db_putPeer :: "Sqlite \<Rightarrow> u64 \<Rightarrow> PeerInfo \<Rightarrow> bool \<Rightarrow> bool \<Rightarrow> Storage \<Rightarrow> Storage result" where
  "db_putPeer sql now p persistent updateLastAnnounce db =
     bind_result (throw_if (\<not> prepares sql UPSERT_PEER) prepare_failed) (\<lambda>_.
       Inr (if steps sql UPSERT_PEER 0
            then db\<lparr>peersTable := upsert_peer (mkPeerRow now p persistent updateLastAnnounce) (peersTable db)\<rparr> else db))"

definition db_getAllPeers :: "Sqlite \<Rightarrow> u64 \<Rightarrow> Storage \<Rightarrow> (Id list) result" where
  "db_getAllPeers sql now db =
     bind_result (throw_if (\<not> prepares sql GET_PEERS) prepare_failed) (\<lambda>_.
       map_result mkId (fetch (steps sql GET_PEERS) 0
         (list_sort id_less (remdups (map pr_id
           (filter (\<lambda>r. pr_timestamp r \<ge> bind_int64 (now - MAX_PEER_AGE)) (peersTable db)))))))"

definition db_updatePeerLastAnnounce :: "Sqlite \<Rightarrow> u64 \<Rightarrow> Id \<Rightarrow> Id \<Rightarrow> Storage \<Rightarrow> Storage result" where
  "db_updatePeerLastAnnounce sql now peerId origin db =
     bind_result (throw_if (\<not> prepares sql UPDATE_PEER_LAST_ANNOUNCE) prepare_failed) (\<lambda>_.
       Inr (if steps sql UPDATE_PEER_LAST_ANNOUNCE 0
            then db\<lparr>peersTable := map (\<lambda>r. if pr_id r = peerId \<and> pr_origin r = origin
                    then r\<lparr>pr_timestamp := bind_int64 now, pr_announced := bind_int64 now\<rparr> else r) (peersTable db)\<rparr>
            else db))"

text \<open>This loop has no branch for the column \<open>origin\<close>.\<close>

definition db_getPersistentPeers :: "(string \<Rightarrow> string option) \<Rightarrow> Sqlite \<Rightarrow> u64 \<Rightarrow> Storage \<Rightarrow> (PeerInfo list) result" where
  "db_getPersistentPeers nfc sql lastAnnounceBefore db =
     bind_result (throw_if (\<not> prepares sql GET_PERSISTENT_PEERS) prepare_failed) (\<lambda>_.
       map_result (\<lambda>r. peer_of_row nfc (pr_id r) [] r) (fetch (steps sql GET_PERSISTENT_PEERS) 0
         (peer_order sql (filter (\<lambda>r. pr_persistent r \<and> pr_announced r \<le> bind_int64 lastAnnounceBefore) (peersTable db)))))"

definition db_removePeer :: "Sqlite \<Rightarrow> Id \<Rightarrow> Id \<Rightarrow> Storage \<Rightarrow> (Storage \<times> bool) result" where
  "db_removePeer sql peerId origin db =
     bind_result (throw_if (\<not> prepares sql REMOVE_PEER) prepare_failed) (\<lambda>_.
       Inr (if steps sql REMOVE_PEER 0
            then (db\<lparr>peersTable := filter (\<lambda>r. \<not> (pr_id r = peerId \<and> pr_origin r = origin)) (peersTable db)\<rparr>,
                  \<exists>r\<in>set (peersTable db). pr_id r = peerId \<and> pr_origin r = origin)
            else (db, False)))"

subsection \<open>Opening and expiring\<close>

text \<open>The first statement that cannot be prepared ends the loop over the two deletions.\<close>

definition expire :: "Sqlite \<Rightarrow> u64 \<Rightarrow> Storage \<Rightarrow> Storage \<times> error option" where
  "expire sql now db =
     (if \<not> prepares sql EXPIRE_VALUES then (db, Some prepare_failed)
      else let db1 = (if steps sql EXPIRE_VALUES 0
                      then db\<lparr>valores := filter (\<lambda>r. \<not> (\<not> vr_persistent r \<and> vr_timestamp r < bind_int64 (now - MAX_VALUE_AGE)))
                              (valores db)\<rparr> else db)
           in if \<not> prepares sql EXPIRE_PEERS then (db1, Some prepare_failed)
              else (if steps sql EXPIRE_PEERS 0
                    then db1\<lparr>peersTable := filter (\<lambda>r. \<not> (\<not> pr_persistent r \<and> pr_timestamp r < bind_int64 (now - MAX_PEER_AGE)))
                             (peersTable db1)\<rparr> else db1, None))"

definition getUserVersion :: "Sqlite \<Rightarrow> Storage \<Rightarrow> int result" where
  "getUserVersion sql db =
     bind_result (throw_if (\<not> prepares sql GET_USER_VERSION) prepare_failed) (\<lambda>_.
       Inr (if steps sql GET_USER_VERSION 0 then user_version db else 0))"

text \<open>A chain of \<^verbatim>\<open>sqlite3_exec(..) != 0 || ..\<close> stops at the first statement that fails. There is no
  index called \<open>peers\<close>, so that \<^verbatim>\<open>DROP INDEX IF EXISTS peers\<close> does nothing.\<close>

definition effect_of :: "Statement \<Rightarrow> Storage \<Rightarrow> Storage" where
  "effect_of s db =
     (case s of
        DROP_VALUES_TABLE \<Rightarrow> db\<lparr>valores := []\<rparr>
      | SET_USER_VERSION \<Rightarrow> db\<lparr>user_version := SCHEMA_VERSION\<rparr>
      | _ \<Rightarrow> db)"

fun exec_chain :: "(Statement \<Rightarrow> bool) \<Rightarrow> Statement list \<Rightarrow> Storage \<Rightarrow> Storage \<times> bool" where
  "exec_chain ok [] db = (db, True)"
| "exec_chain ok (s # ss) db = (if ok s then exec_chain ok ss (effect_of s db) else (db, False))"

text \<open>The result is the new state and the period of the expiry job that was scheduled, or the exception.\<close>

definition init :: "Sqlite \<Rightarrow> bool \<Rightarrow> Storage \<Rightarrow> Storage \<times> u64 result" where
  "init sql opened db =
     (if \<not> opened then (db, Inl (RuntimeError ''Failed to open the SQLite storage.''))
      else case getUserVersion sql db of
        Inl e \<Rightarrow> (db, Inl e)
      | Inr userVersion \<Rightarrow>
          (case (if userVersion < 4
                 then exec_chain (\<lambda>s. steps sql s 0)
                   [DROP_VALUES_INDEX, DROP_VALUES_TABLE, DROP_PEERS_INDEX, DROP_PEERS_ID_INDEX, DROP_INDEX_PEERS] db
                 else (db, True)) of
             (db1, False) \<Rightarrow> (db1, Inl (RuntimeError ''Failed to update tables.''))
           | (db1, True) \<Rightarrow>
               (case exec_chain (\<lambda>s. steps sql s 0)
                       [SET_USER_VERSION, CREATE_VALUES_TABLE, CREATE_VALUES_INDEX, CREATE_PEERS_TABLE,
                        CREATE_PEERS_INDEX, CREATE_PEERS_ID_INDEX] db1 of
                  (db2, False) \<Rightarrow> (db2, Inl (RuntimeError ''Failed to update SQLite text.''))
                | (db2, True) \<Rightarrow> (db2, Inr STORAGE_EXPIRE_INTERVAL))))"

section \<open>Tables with a primary key\<close>

text \<open>What \<^verbatim>\<open>INSERT .. ON CONFLICT(key) DO UPDATE\<close> promises, for the two tables alike: \<open>merge\<close> is the
  row that replaces an old row of the same key.\<close>

locale keyed_table =
  fixes key :: "'r \<Rightarrow> 'k" and merge :: "'r \<Rightarrow> 'r \<Rightarrow> 'r" and upsert :: "'r \<Rightarrow> 'r list \<Rightarrow> 'r list"
  assumes upsert_eq: "upsert new rows =
      (if \<exists>r\<in>set rows. key r = key new then map (\<lambda>r. if key r = key new then merge r new else r) rows else rows @ [new])"
    and key_merge: "key (merge r new) = key new"
begin

definition row_of :: "'k \<Rightarrow> 'r list \<Rightarrow> 'r option" where
  "row_of k rows = find (\<lambda>r. key r = k) rows"

lemma key_in: "r \<in> set rows \<Longrightarrow> key r = k \<Longrightarrow> k \<in> key ` set rows"
  by blast

lemma has_key: "(\<exists>r\<in>set rows. key r = k) \<longleftrightarrow> k \<in> key ` set rows"
  by (auto intro: key_in)

lemma row_of_simps [simp]: "row_of k [] = None" "row_of k (r # rows) = (if key r = k then Some r else row_of k rows)"
  by (simp_all add: row_of_def)

lemma row_of_None: "row_of k rows = None \<longleftrightarrow> k \<notin> key ` set rows"
  by (induction rows) auto

lemma row_of_Some: "row_of k rows = Some r \<Longrightarrow> r \<in> set rows \<and> key r = k"
  by (induction rows) (auto split: if_splits)

lemma row_of_in: "row_of k rows = Some r \<Longrightarrow> k \<in> key ` set rows"
  by (auto dest: row_of_Some)

lemma row_of_member: "distinct (map key rows) \<Longrightarrow> r \<in> set rows \<Longrightarrow> row_of (key r) rows = Some r"
  by (induction rows) (auto simp: rev_image_eqI)

lemma row_of_append: "row_of k (xs @ ys) = (case row_of k xs of None \<Rightarrow> row_of k ys | Some r \<Rightarrow> Some r)"
  by (induction xs) auto

lemma row_of_map: "(\<And>r. key (f r) = key r) \<Longrightarrow> row_of k (map f rows) = map_option f (row_of k rows)"
  by (induction rows) auto

lemma row_of_filter:
  "distinct (map key rows) \<Longrightarrow> row_of k (filter P rows) = (case row_of k rows of None \<Rightarrow> None | Some r \<Rightarrow> if P r then Some r else None)"
  by (induction rows) (auto simp: row_of_None dest: row_of_in split: option.splits)

lemma filter_key:
  "distinct (map key rows) \<Longrightarrow> filter (\<lambda>r. key r = k \<and> P r) rows = (case row_of k rows of None \<Rightarrow> [] | Some r \<Rightarrow> if P r then [r] else [])"
proof (induction rows)
  case (Cons x rows)
  have "key x = k \<Longrightarrow> filter (\<lambda>r. key r = k \<and> P r) rows = []"
    using Cons.prems by (auto simp: filter_empty_conv dest: key_in)
  with Cons show ?case by auto
qed simp

lemma upsert_keys: "map key (upsert new rows) = (if key new \<in> key ` set rows then map key rows else map key rows @ [key new])"
  by (auto simp: upsert_eq key_merge has_key)

lemma upsert_distinct: "distinct (map key rows) \<Longrightarrow> distinct (map key (upsert new rows))"
  by (simp add: upsert_keys)

lemma upsert_row_of:
  "row_of k (upsert new rows) =
     (if k = key new then Some (case row_of k rows of None \<Rightarrow> new | Some r \<Rightarrow> merge r new) else row_of k rows)"
proof (cases "key new \<in> key ` set rows")
  case True
  have "row_of k (map (\<lambda>r. if key r = key new then merge r new else r) rows)
      = map_option (\<lambda>r. if key r = key new then merge r new else r) (row_of k rows)"
    by (rule row_of_map) (simp add: key_merge)
  moreover have "upsert new rows = map (\<lambda>r. if key r = key new then merge r new else r) rows"
    using True by (auto simp: upsert_eq)
  moreover have "k = key new \<Longrightarrow> row_of k rows \<noteq> None" using True by (simp add: row_of_None)
  ultimately show ?thesis by (cases "row_of k rows") (auto dest: row_of_Some)
next
  case False
  then have "upsert new rows = rows @ [new]" by (simp add: upsert_eq has_key)
  moreover have "k = key new \<Longrightarrow> row_of k rows = None" using False by (simp add: row_of_None)
  ultimately show ?thesis by (auto simp: row_of_append split: option.splits)
qed

lemma upsert_all: "\<forall>r\<in>set rows. P r \<Longrightarrow> P new \<Longrightarrow> (\<And>r. P r \<Longrightarrow> key r = key new \<Longrightarrow> P (merge r new)) \<Longrightarrow> \<forall>r\<in>set (upsert new rows). P r"
  by (auto simp: upsert_eq)

end

definition merge_value :: "ValueRow \<Rightarrow> ValueRow \<Rightarrow> ValueRow" where
  "merge_value r new = new\<lparr>vr_persistent := vr_persistent r, vr_announced := vr_announced r\<rparr>"

definition peer_key :: "PeerRow \<Rightarrow> Id \<times> Id \<times> Id" where
  "peer_key r = (pr_id r, pr_nodeId r, pr_origin r)"

lemma same_peer_key: "same_peer a b \<longleftrightarrow> peer_key a = peer_key b"
  by (simp add: same_peer_def peer_key_def)

interpretation vt: keyed_table vr_id merge_value upsert_value
  by unfold_locales (simp_all add: upsert_value_def merge_value_def)

interpretation pt: keyed_table peer_key "\<lambda>r new. new" upsert_peer
  by unfold_locales (simp_all add: upsert_peer_def same_peer_key)

end
