(* ===== verification/Tokens.thy ===== *)
theory Tokens
  imports Socket_Addresses
begin

text \<open>
  The tokens that authorise a store or an announce: \<^verbatim>\<open>src/core/token_manager.cc\<close>. A token is a
  truncated hash of the requester's id and address, the target, a time stamp and a session secret;
  the manager remembers the current and the previous time stamp. SHA-256 is the parameter \<open>sha256\<close>.
  The lemmas follow the manager through any sequence of requests at increasing times.
\<close>

section \<open>Definitions\<close>

definition TOKEN_TIMEOUT :: u64 where "TOKEN_TIMEOUT = 5 * 60 * 1000"

record TokenManager =
  timestamp :: u64
  previousTimestamp :: u64
  sessionSecret :: "byte list"

text \<open>The code leaves \<open>previousTimestamp\<close> uninitialised: \<open>garbage\<close>.\<close>

definition newTokenManager :: "u64 \<Rightarrow> byte list \<Rightarrow> TokenManager" where
  "newTokenManager garbage secret = \<lparr>timestamp = 0, previousTimestamp = garbage, sessionSecret = secret\<rparr>"

text \<open>The compare-and-exchange of one thread succeeds at once.\<close>

definition updateTokenTimestamps :: "u64 \<Rightarrow> TokenManager \<Rightarrow> TokenManager" where
  "updateTokenTimestamps now tm =
     (let current = timestamp tm
      in if now - current > TOKEN_TIMEOUT then tm\<lparr>timestamp := now, previousTimestamp := current\<rparr> else tm)"

definition u64_bytes :: "u64 \<Rightarrow> byte list" where
  "u64_bytes n = map (\<lambda>k. ucast (drop_bit (8 * k) n)) [7, 6, 5, 4, 3, 2, 1, 0]"

definition token_input :: "Id \<Rightarrow> SocketAddress \<Rightarrow> Id \<Rightarrow> u64 \<Rightarrow> byte list \<Rightarrow> byte list" where
  "token_input nodeId addr targetId stamp secret =
     nodeId @ inaddr addr @ port_bytes (sa_port addr) @ targetId @ u64_bytes stamp @ secret"

definition token_of_digest :: "byte list \<Rightarrow> u32" where
  "token_of_digest digest =
     (let pos = unat (digest ! 0 AND 0x1f);
          b = (\<lambda>k. ucast (digest ! ((pos + k) mod 32)) :: u32)
      in push_bit 24 (b 0) OR push_bit 16 (b 1) OR push_bit 8 (b 2) OR b 3)"

definition generateTokenAt :: "(byte list \<Rightarrow> byte list) \<Rightarrow> Id \<Rightarrow> SocketAddress \<Rightarrow> Id \<Rightarrow> u64 \<Rightarrow> byte list \<Rightarrow> int" where
  "generateTokenAt sha256 nodeId addr targetId stamp secret =
     sint (token_of_digest (sha256 (token_input nodeId addr targetId stamp secret)))"

definition generateToken ::
  "(byte list \<Rightarrow> byte list) \<Rightarrow> u64 \<Rightarrow> Id \<Rightarrow> SocketAddress \<Rightarrow> Id \<Rightarrow> TokenManager \<Rightarrow> int \<times> TokenManager" where
  "generateToken sha256 now nodeId addr targetId tm =
     (let tm' = updateTokenTimestamps now tm
      in (generateTokenAt sha256 nodeId addr targetId (timestamp tm') (sessionSecret tm'), tm'))"

definition verifyToken ::
  "(byte list \<Rightarrow> byte list) \<Rightarrow> u64 \<Rightarrow> int \<Rightarrow> Id \<Rightarrow> SocketAddress \<Rightarrow> Id \<Rightarrow> TokenManager \<Rightarrow> bool \<times> TokenManager" where
  "verifyToken sha256 now token nodeId addr targetId tm =
     (let tm' = updateTokenTimestamps now tm;
          currentToken = generateTokenAt sha256 nodeId addr targetId (timestamp tm') (sessionSecret tm');
          previousToken = generateTokenAt sha256 nodeId addr targetId (previousTimestamp tm') (sessionSecret tm')
      in (token = currentToken \<or> token = previousToken, tm'))"

section \<open>Runs of the manager\<close>

text \<open>The requests made after a token was handed out, as the sequence of the times at which the
  manager was used; each use only refreshes the time stamps.\<close>

definition token_run :: "u64 list \<Rightarrow> TokenManager \<Rightarrow> TokenManager" where
  "token_run uses tm = foldl (\<lambda>tm now. updateTokenTimestamps now tm) tm uses"

lemma updateTokenTimestamps_secret [simp]: "sessionSecret (updateTokenTimestamps now tm) = sessionSecret tm"
  by (simp add: updateTokenTimestamps_def Let_def)

lemma token_run_secret [simp]: "sessionSecret (token_run ts tm) = sessionSecret tm"
  by (induction ts arbitrary: tm) (auto simp: token_run_def)

lemma word_diff_unat: "(b :: u64) \<le> a \<Longrightarrow> unat (a - b) = unat a - unat b"
  by (rule unat_sub)

lemma unat_TOKEN_TIMEOUT [simp]: "unat TOKEN_TIMEOUT = 300000"
  by (simp add: TOKEN_TIMEOUT_def)

text \<open>After any run that ends within the time-out of the moment \<open>t\<close> the time stamp that was current
  at \<open>t\<close> is still the current or the previous one.\<close>

definition still_known :: "u64 \<Rightarrow> nat \<Rightarrow> u64 \<Rightarrow> TokenManager \<Rightarrow> bool" where
  "still_known s t now tm \<longleftrightarrow> timestamp tm \<le> now \<and>
     (timestamp tm = s \<or> (previousTimestamp tm = s \<and> unat s + 300000 < unat (timestamp tm)))"

lemma update_still_known:
  assumes k: "still_known s t before tm" and n: "before \<le> now" "unat now \<le> t + 300000" "t \<le> unat s + 300000"
  shows "still_known s t now (updateTokenTimestamps now tm)"
proof (cases "now - timestamp tm > TOKEN_TIMEOUT")
  case False
  then show ?thesis using k n(1) by (auto simp: still_known_def updateTokenTimestamps_def)
next
  case True
  have le: "timestamp tm \<le> now" using k n(1) by (auto simp: still_known_def)
  then have "unat (timestamp tm) + 300000 < unat now"
    using True word_diff_unat [OF le] by (simp add: word_less_nat_alt word_le_nat_alt)
  with k n show ?thesis by (auto simp: still_known_def updateTokenTimestamps_def Let_def)
qed

lemma token_run_still_known:
  assumes "still_known s t before tm" "sorted (before # uses)" "\<forall>x\<in>set uses. unat x \<le> t + 300000" "t \<le> unat s + 300000"
  shows "still_known s t (if uses = [] then before else last uses) (token_run uses tm)"
  using assms
proof (induction uses arbitrary: before tm)
  case Nil
  then show ?case by (simp add: token_run_def)
next
  case (Cons x uses)
  have "still_known s t x (updateTokenTimestamps x tm)"
    using Cons.prems by (intro update_still_known [of s t before]) auto
  from Cons.IH [OF this] Cons.prems show ?case by (auto simp: token_run_def)
qed

lemma update_known_now: "timestamp tm \<le> now \<Longrightarrow>
    still_known (timestamp (updateTokenTimestamps now tm)) (unat now) now (updateTokenTimestamps now tm)
    \<and> unat now \<le> unat (timestamp (updateTokenTimestamps now tm)) + 300000"
proof (cases "now - timestamp tm > TOKEN_TIMEOUT")
  case False
  moreover assume "timestamp tm \<le> now"
  ultimately show ?thesis
    using word_diff_unat [of "timestamp tm" now]
    by (auto simp: still_known_def updateTokenTimestamps_def word_less_nat_alt word_le_nat_alt)
qed (auto simp: still_known_def updateTokenTimestamps_def Let_def)

lemma token_accepted:
  assumes "timestamp tm \<le> now" "generateToken sha256 now nid addr tid tm = (tok, tm1)"
    and "sorted (now # uses @ [later])" "unat later \<le> unat now + 300000"
  shows "fst (verifyToken sha256 later tok nid addr tid (token_run uses tm1))"
proof -
  let ?s = "timestamp tm1"
  have tm1: "tm1 = updateTokenTimestamps now tm" "tok = generateTokenAt sha256 nid addr tid ?s (sessionSecret tm1)"
    using assms(2) by (auto simp: generateToken_def Let_def)
  have b: "\<forall>x\<in>set (uses @ [later]). unat x \<le> unat now + 300000"
    using assms(3,4) by (auto simp: sorted_append word_le_nat_alt intro: le_trans)
  have "still_known ?s (unat now) later (token_run (uses @ [later]) tm1)"
    using token_run_still_known [of ?s "unat now" now tm1 "uses @ [later]"] update_known_now [OF assms(1)] assms(3) b
    by (simp add: tm1(1))
  then have "timestamp (updateTokenTimestamps later (token_run uses tm1)) = ?s
      \<or> previousTimestamp (updateTokenTimestamps later (token_run uses tm1)) = ?s"
    by (auto simp: still_known_def token_run_def)
  then show ?thesis unfolding tm1(2) by (auto simp: verifyToken_def Let_def)
qed

end
