(* ===== verification/Messages.thy ===== *)
theory Messages
  imports Bucket_Entries Values
begin

text \<open>
  The messages of the protocol: \<^verbatim>\<open>src/core/messages/\<close> and \<^verbatim>\<open>src/core/serializers.cc\<close>. A message is
  turned into a JSON object, which the library nlohmann::json writes as CBOR; \<open>json\<close> is the part of
  that library's data model the protocol uses (an object is the list of its items in the order of
  the keys), and the codec itself is the pair of parameters \<open>to_cbor\<close> and \<open>from_cbor\<close>.
  \<open>Inl Undefined\<close> stands for undefined behaviour: \<^verbatim>\<open>operator[]\<close> of a constant array outside its bounds.
\<close>

section \<open>JSON values\<close>

datatype json =
    JNull
  | JBool bool
  | JInt int
  | JStr string
  | JBin "byte list"
  | JArr "json list"
  | JObj "(string \<times> json) list"

fun str_less :: "string \<Rightarrow> string \<Rightarrow> bool" where
  "str_less _ [] = False"
| "str_less [] (_ # _) = True"
| "str_less (a # as) (b # bs) =
     ((of_char a :: nat) < of_char b \<or> ((of_char a :: nat) = of_char b \<and> str_less as bs))"

text \<open>\<^verbatim>\<open>object[key] = value\<close>.\<close>

fun obj_put :: "string \<Rightarrow> json \<Rightarrow> (string \<times> json) list \<Rightarrow> (string \<times> json) list" where
  "obj_put k v [] = [(k, v)]"
| "obj_put k v ((k', v') # m) =
     (if k = k' then (k, v) # m else if str_less k k' then (k, v) # (k', v') # m else (k', v') # obj_put k v m)"

definition obj_of :: "(string \<times> json) list \<Rightarrow> (string \<times> json) list" where
  "obj_of items = foldl (\<lambda>m (k, v). obj_put k v m) [] items"

definition put_if :: "bool \<Rightarrow> string \<Rightarrow> json \<Rightarrow> (string \<times> json) list \<Rightarrow> (string \<times> json) list" where
  "put_if c k v m = (if c then obj_put k v m else m)"

text \<open>The conversions \<^verbatim>\<open>get<T>()\<close>; the arithmetic ones convert without a range check.\<close>

fun get_int :: "json \<Rightarrow> int result" where
  "get_int (JInt n) = Inr (int32 n)"
| "get_int (JBool b) = Inr (if b then 1 else 0)"
| "get_int _ = Inl (JsonError ''type must be number'')"

fun get_u16 :: "json \<Rightarrow> u16 result" where
  "get_u16 (JInt n) = Inr (word_of_int n)"
| "get_u16 (JBool b) = Inr (if b then 1 else 0)"
| "get_u16 _ = Inl (JsonError ''type must be number'')"

fun get_u8 :: "json \<Rightarrow> byte result" where
  "get_u8 (JInt n) = Inr (word_of_int n)"
| "get_u8 (JBool b) = Inr (if b then 1 else 0)"
| "get_u8 _ = Inl (JsonError ''type must be number'')"

fun get_binary :: "json \<Rightarrow> byte list result" where
  "get_binary (JBin b) = Inr b"
| "get_binary _ = Inl (JsonError ''type must be binary'')"

fun get_string :: "json \<Rightarrow> string result" where
  "get_string (JStr s) = Inr s"
| "get_string _ = Inl (JsonError ''type must be string'')"

fun json_at :: "json \<Rightarrow> nat \<Rightarrow> json result" where
  "json_at (JArr xs) i = (if i < length xs then Inr (xs ! i) else Inl OutOfRange)"
| "json_at _ i = Inl (JsonError ''cannot use at()'')"

fun json_index :: "json \<Rightarrow> nat \<Rightarrow> json result" where
  "json_index (JArr xs) i = (if i < length xs then Inr (xs ! i) else Inl Undefined)"
| "json_index _ i = Inl (JsonError ''cannot use operator[]'')"

fun fold_items :: "('a \<Rightarrow> string \<Rightarrow> json \<Rightarrow> 'a result) \<Rightarrow> 'a \<Rightarrow> (string \<times> json) list \<Rightarrow> 'a result" where
  "fold_items f a [] = Inr a"
| "fold_items f a ((k, v) # items) = bind_result (f a k v) (\<lambda>a'. fold_items f a' items)"

section \<open>Serializers of ids and nodes\<close>

definition id_to_json :: "Id \<Rightarrow> json" where
  "id_to_json i = JBin i"

definition id_from_json :: "json \<Rightarrow> Id result" where
  "id_from_json j = bind_result (get_binary j) mkId"

definition node_to_json :: "NodeInfo \<Rightarrow> json" where
  "node_to_json ni = JArr [id_to_json (nodeId ni), JBin (inaddr (sockaddr ni)), JInt (uint (sa_port (sockaddr ni)))]"

definition node_from_json :: "json \<Rightarrow> NodeInfo result" where
  "node_from_json j =
     bind_result (bind_result (json_index j 0) get_binary) (\<lambda>i.
     bind_result (bind_result (json_index j 1) get_binary) (\<lambda>ip.
     bind_result (bind_result (json_index j 2) get_int) (\<lambda>port.
     bind_result (mkId i) (\<lambda>nid.
       case mkSocketAddress ip (word_of_int port) of
         None \<Rightarrow> Inl (InvalidArgument ''invalid ip lenght'')
       | Some sa \<Rightarrow> Inr \<lparr>nodeId = nid, sockaddr = sa, version = 0\<rparr>))))"

section \<open>Message types\<close>

datatype Method = UNKNOWN | PING | FIND_NODE | ANNOUNCE_PEER | FIND_PEER | STORE_VALUE | FIND_VALUE

datatype Type = ERR | REQUEST | RESPONSE

fun method_code :: "Method \<Rightarrow> nat" where
  "method_code UNKNOWN = 0" | "method_code PING = 1" | "method_code FIND_NODE = 2" | "method_code ANNOUNCE_PEER = 3"
| "method_code FIND_PEER = 4" | "method_code STORE_VALUE = 5" | "method_code FIND_VALUE = 6"

fun type_code :: "Type \<Rightarrow> nat" where
  "type_code ERR = 0" | "type_code REQUEST = 0x20" | "type_code RESPONSE = 0x40"

text \<open>\<^verbatim>\<open>std::to_string\<close> of a small number.\<close>

fun to_string :: "nat \<Rightarrow> string" where
  "to_string n = (if n < 10 then [char_of (48 + n)] else to_string (n div 10) @ [char_of (48 + n mod 10)])"

declare to_string.simps [simp del]

fun getMethodString :: "Method \<Rightarrow> string" where
  "getMethodString UNKNOWN = ''unknown''" | "getMethodString PING = ''ping''" | "getMethodString FIND_NODE = ''find_node''"
| "getMethodString ANNOUNCE_PEER = ''announce_peer''" | "getMethodString FIND_PEER = ''find_peer''"
| "getMethodString STORE_VALUE = ''store_value''" | "getMethodString FIND_VALUE = ''find_value''"

definition ofType :: "byte \<Rightarrow> Type result" where
  "ofType messageType =
     (let type = unat (messageType AND 0xE0)
      in if type = 0x20 then Inr REQUEST else if type = 0x40 then Inr RESPONSE else if type = 0 then Inr ERR
         else Inl (InvalidArgument (''Invalid message type: '' @ to_string type)))"

definition ofMethod :: "byte \<Rightarrow> Method result" where
  "ofMethod messageType =
     (let m = unat (messageType AND 0x1F)
      in if m = 1 then Inr PING else if m = 2 then Inr FIND_NODE else if m = 3 then Inr ANNOUNCE_PEER
         else if m = 4 then Inr FIND_PEER else if m = 5 then Inr STORE_VALUE else if m = 6 then Inr FIND_VALUE
         else if m = 0 then Inr UNKNOWN else Inl (MessageError (''Invalid message method: '' @ to_string m)))"

definition message_type :: "Type \<Rightarrow> Method \<Rightarrow> byte" where
  "message_type t m = word_of_nat (type_code t) OR word_of_nat (method_code m)"

fun key_of_type :: "Type \<Rightarrow> string" where
  "key_of_type REQUEST = ''q''" | "key_of_type RESPONSE = ''r''" | "key_of_type ERR = ''e''"

section \<open>Message bodies\<close>

record LookupRequest =
  lq_target :: Id
  want4 :: bool
  want6 :: bool
  wantToken :: bool

record LookupResponse =
  nodes4 :: "NodeInfo list"
  nodes6 :: "NodeInfo list"
  ltoken :: int

record ValueFields =
  vf_publicKey :: "Id option"
  vf_recipient :: "Id option"
  vf_nonce :: "byte list option"
  vf_signature :: "byte list option"
  vf_sequenceNumber :: int
  vf_value :: "byte list"

record AnnouncePeerRequest =
  ap_token :: int
  ap_peerId :: Id
  ap_nodeId :: "Id option"
  ap_port :: u16
  ap_alternativeURL :: string
  ap_signature :: "byte list"

record StoreValueRequest = ValueFields +
  sv_token :: int
  expectedSequenceNumber :: int

datatype Body =
    PingRequest
  | FindNodeRequest LookupRequest
  | AnnounceRequest AnnouncePeerRequest
  | FindPeerRequest LookupRequest
  | StoreRequest StoreValueRequest
  | FindValueRequest LookupRequest int
  | PingResponse
  | FindNodeResponse LookupResponse
  | AnnouncePeerResponse
  | FindPeerResponse LookupResponse "PeerInfo list"
  | StoreValueResponse
  | FindValueResponse LookupResponse ValueFields
  | ErrorBody Method int string

fun body_type :: "Body \<Rightarrow> Type" where
  "body_type PingRequest = REQUEST" | "body_type (FindNodeRequest _) = REQUEST"
| "body_type (AnnounceRequest _) = REQUEST" | "body_type (FindPeerRequest _) = REQUEST"
| "body_type (StoreRequest _) = REQUEST" | "body_type (FindValueRequest _ _) = REQUEST"
| "body_type PingResponse = RESPONSE" | "body_type (FindNodeResponse _) = RESPONSE"
| "body_type AnnouncePeerResponse = RESPONSE" | "body_type (FindPeerResponse _ _) = RESPONSE"
| "body_type StoreValueResponse = RESPONSE" | "body_type (FindValueResponse _ _) = RESPONSE"
| "body_type (ErrorBody _ _ _) = ERR"

fun body_method :: "Body \<Rightarrow> Method" where
  "body_method PingRequest = PING" | "body_method (FindNodeRequest _) = FIND_NODE"
| "body_method (AnnounceRequest _) = ANNOUNCE_PEER" | "body_method (FindPeerRequest _) = FIND_PEER"
| "body_method (StoreRequest _) = STORE_VALUE" | "body_method (FindValueRequest _ _) = FIND_VALUE"
| "body_method PingResponse = PING" | "body_method (FindNodeResponse _) = FIND_NODE"
| "body_method AnnouncePeerResponse = ANNOUNCE_PEER" | "body_method (FindPeerResponse _ _) = FIND_PEER"
| "body_method StoreValueResponse = STORE_VALUE" | "body_method (FindValueResponse _ _) = FIND_VALUE"
| "body_method (ErrorBody m _ _) = m"

text \<open>The contents of the members that the factory's default constructors leave.\<close>

definition default_lookup :: LookupRequest where
  "default_lookup = \<lparr>lq_target = MIN_ID, want4 = False, want6 = False, wantToken = False\<rparr>"

definition default_response :: LookupResponse where
  "default_response = \<lparr>nodes4 = [], nodes6 = [], ltoken = 0\<rparr>"

definition default_fields :: ValueFields where
  "default_fields = \<lparr>vf_publicKey = None, vf_recipient = None, vf_nonce = None, vf_signature = None,
     vf_sequenceNumber = -1, vf_value = []\<rparr>"

definition default_store :: StoreValueRequest where
  "default_store = \<lparr>vf_publicKey = None, vf_recipient = None, vf_nonce = None, vf_signature = None,
     vf_sequenceNumber = -1, vf_value = [], sv_token = 0, expectedSequenceNumber = -1\<rparr>"

text \<open>\<^verbatim>\<open>token\<close> and \<^verbatim>\<open>port\<close> of an announce request are not initialised; zero stands for their contents.\<close>

definition default_announce :: AnnouncePeerRequest where
  "default_announce = \<lparr>ap_token = 0, ap_peerId = MIN_ID, ap_nodeId = None, ap_port = 0, ap_alternativeURL = '''', ap_signature = []\<rparr>"

definition createMessage :: "byte \<Rightarrow> Body result" where
  "createMessage messageType =
     bind_result (ofType messageType) (\<lambda>type. bind_result (ofMethod messageType) (\<lambda>method.
       case type of
         REQUEST \<Rightarrow> (case method of
             PING \<Rightarrow> Inr PingRequest | FIND_NODE \<Rightarrow> Inr (FindNodeRequest default_lookup)
           | ANNOUNCE_PEER \<Rightarrow> Inr (AnnounceRequest default_announce) | FIND_PEER \<Rightarrow> Inr (FindPeerRequest default_lookup)
           | STORE_VALUE \<Rightarrow> Inr (StoreRequest default_store) | FIND_VALUE \<Rightarrow> Inr (FindValueRequest default_lookup (-1))
           | UNKNOWN \<Rightarrow> Inl (MessageError ''Invalid request method: 0''))
       | RESPONSE \<Rightarrow> (case method of
             PING \<Rightarrow> Inr PingResponse | FIND_NODE \<Rightarrow> Inr (FindNodeResponse default_response)
           | ANNOUNCE_PEER \<Rightarrow> Inr AnnouncePeerResponse | FIND_PEER \<Rightarrow> Inr (FindPeerResponse default_response [])
           | STORE_VALUE \<Rightarrow> Inr StoreValueResponse | FIND_VALUE \<Rightarrow> Inr (FindValueResponse default_response default_fields)
           | UNKNOWN \<Rightarrow> Inl (MessageError ''Invalid response method: 0''))
       | ERR \<Rightarrow> Inr (ErrorBody method 0 '''')))"

section \<open>Serialization\<close>

definition getWant :: "LookupRequest \<Rightarrow> int" where
  "getWant q = (if want4 q then 0x01 else 0) OR (if want6 q then 0x02 else 0) OR (if wantToken q then 0x04 else 0)"

definition setWant :: "int \<Rightarrow> LookupRequest \<Rightarrow> LookupRequest" where
  "setWant w q = q\<lparr>want4 := (w AND 0x01 \<noteq> 0), want6 := (w AND 0x02 \<noteq> 0), wantToken := (w AND 0x04 \<noteq> 0)\<rparr>"

definition serialize_lookup :: "LookupRequest \<Rightarrow> (string \<times> json) list" where
  "serialize_lookup q = obj_of [(''t'', id_to_json (lq_target q)), (''w'', JInt (getWant q))]"

definition serialize_nodes :: "string \<Rightarrow> NodeInfo list \<Rightarrow> (string \<times> json) list \<Rightarrow> (string \<times> json) list" where
  "serialize_nodes field nodes object = put_if (nodes \<noteq> []) field (JArr (map node_to_json nodes)) object"

definition serialize_response :: "LookupResponse \<Rightarrow> (string \<times> json) list" where
  "serialize_response r =
     put_if (ltoken r \<noteq> 0) ''tok'' (JInt (ltoken r)) (serialize_nodes ''n6'' (nodes6 r) (serialize_nodes ''n4'' (nodes4 r) []))"

text \<open>\<^verbatim>\<open>value()\<close> of an empty \<^verbatim>\<open>std::optional\<close> throws.\<close>

definition opt_value :: "'a option \<Rightarrow> 'a result" where
  "opt_value x = (case x of Some v \<Rightarrow> Inr v | None \<Rightarrow> Inl (RuntimeError ''bad optional access''))"

definition serialize_value_fields :: "ValueFields \<Rightarrow> (string \<times> json) list \<Rightarrow> (string \<times> json) list result" where
  "serialize_value_fields f object =
     bind_result
       (case vf_publicKey f of
          None \<Rightarrow> Inr object
        | Some pk \<Rightarrow>
            (let o1 = obj_put ''k'' (id_to_json pk) object;
                 o2 = (case vf_recipient f of Some r \<Rightarrow> obj_put ''rec'' (id_to_json r) o1 | None \<Rightarrow> o1)
             in bind_result (opt_value (vf_nonce f)) (\<lambda>n.
                bind_result (opt_value (vf_signature f)) (\<lambda>sig.
                  Inr (obj_put ''sig'' (JBin sig)
                        (put_if (vf_sequenceNumber f \<ge> 0) ''seq'' (JInt (vf_sequenceNumber f)) (obj_put ''n'' (JBin n) o2)))))))
       (\<lambda>obj. Inr (put_if (vf_value f \<noteq> []) ''v'' (JBin (vf_value f)) obj))"

definition serialize_store :: "StoreValueRequest \<Rightarrow> (string \<times> json) list result" where
  "serialize_store q =
     bind_result
       (case vf_publicKey q of
          None \<Rightarrow> Inr (obj_put ''tok'' (JInt (sv_token q)) [])
        | Some pk \<Rightarrow>
            (let o1 = obj_put ''k'' (id_to_json pk) (obj_put ''tok'' (JInt (sv_token q)) []);
                 o2 = (case vf_recipient q of Some r \<Rightarrow> obj_put ''rec'' (id_to_json r) o1 | None \<Rightarrow> o1)
             in bind_result (opt_value (vf_nonce q)) (\<lambda>n.
                bind_result (opt_value (vf_signature q)) (\<lambda>sig.
                  Inr (put_if (expectedSequenceNumber q \<ge> 0) ''cas'' (JInt (expectedSequenceNumber q))
                        (put_if (vf_sequenceNumber q \<ge> 0) ''seq'' (JInt (vf_sequenceNumber q))
                          (obj_put ''sig'' (JBin sig) (obj_put ''n'' (JBin n) o2))))))))
       (\<lambda>obj. Inr (obj_put ''v'' (JBin (vf_value q)) obj))"

definition serialize_announce :: "AnnouncePeerRequest \<Rightarrow> (string \<times> json) list" where
  "serialize_announce q =
     (let object = obj_of [(''tok'', JInt (ap_token q)), (''t'', id_to_json (ap_peerId q)),
                           (''p'', JInt (uint (ap_port q))), (''sig'', JBin (ap_signature q))];
          o1 = (case ap_nodeId q of Some n \<Rightarrow> obj_put ''x'' (id_to_json n) object | None \<Rightarrow> object)
      in put_if (ap_alternativeURL q \<noteq> []) ''alt'' (JStr (ap_alternativeURL q)) o1)"

definition peer_to_json :: "PeerInfo \<Rightarrow> json" where
  "peer_to_json p =
     JArr [id_to_json (p_nodeId p), if isDelegated p then id_to_json (p_origin p) else JNull,
           JInt (uint (p_port p)), (case p_alternativeURL p of Some u \<Rightarrow> JStr u | None \<Rightarrow> JNull), JBin (p_signature p)]"

definition serialize_peers :: "PeerInfo list \<Rightarrow> (string \<times> json) list \<Rightarrow> (string \<times> json) list" where
  "serialize_peers peers object =
     (case peers of [] \<Rightarrow> object
      | p # _ \<Rightarrow> obj_put ''p'' (JArr (id_to_json (p_publicKey p) # map peer_to_json peers)) object)"

text \<open>\<open>Inr None\<close> for the messages without a body of their own.\<close>

fun serialize_body :: "Body \<Rightarrow> (string \<times> json) list option result" where
  "serialize_body PingRequest = Inr None"
| "serialize_body (FindNodeRequest q) = Inr (Some (serialize_lookup q))"
| "serialize_body (AnnounceRequest q) = Inr (Some (serialize_announce q))"
| "serialize_body (FindPeerRequest q) = Inr (Some (serialize_lookup q))"
| "serialize_body (StoreRequest q) = bind_result (serialize_store q) (\<lambda>obj. Inr (Some obj))"
| "serialize_body (FindValueRequest q seq) = Inr (Some (put_if (seq \<ge> 0) ''seq'' (JInt seq) (serialize_lookup q)))"
| "serialize_body PingResponse = Inr None"
| "serialize_body (FindNodeResponse r) = Inr (Some (serialize_response r))"
| "serialize_body AnnouncePeerResponse = Inr None"
| "serialize_body (FindPeerResponse r peers) = Inr (Some (serialize_peers peers (serialize_response r)))"
| "serialize_body StoreValueResponse = Inr None"
| "serialize_body (FindValueResponse r f) = bind_result (serialize_value_fields f (serialize_response r)) (\<lambda>obj. Inr (Some obj))"
| "serialize_body (ErrorBody m code msg) = Inr (Some (obj_of [(''c'', JInt code), (''m'', JStr msg)]))"

record Message =
  body :: Body
  txid :: int
  mversion :: int
  mid :: Id
  morigin :: SocketAddress
  remoteId :: Id
  remoteAddr :: SocketAddress
  associatedCall :: "nat option"

definition mkMessage :: "Body \<Rightarrow> int \<Rightarrow> Message" where
  "mkMessage b t = \<lparr>body = b, txid = t, mversion = 0, mid = MIN_ID, morigin = Unspec, remoteId = MIN_ID,
     remoteAddr = Unspec, associatedCall = None\<rparr>"

abbreviation getType :: "Message \<Rightarrow> Type" where "getType m \<equiv> body_type (body m)"
abbreviation getMethod :: "Message \<Rightarrow> Method" where "getMethod m \<equiv> body_method (body m)"

definition message_to_json :: "Message \<Rightarrow> json result" where
  "message_to_json m =
     bind_result (serialize_body (body m)) (\<lambda>b.
       let root = obj_of [(''y'', JInt (uint (message_type (getType m) (getMethod m)))), (''t'', JInt (txid m)), (''v'', JInt (mversion m))]
       in Inr (JObj (case b of None \<Rightarrow> root | Some obj \<Rightarrow> obj_put (key_of_type (getType m)) (JObj obj) root)))"

definition serialize :: "(json \<Rightarrow> byte list) \<Rightarrow> Message \<Rightarrow> byte list result" where
  "serialize to_cbor m = bind_result (message_to_json m) (\<lambda>j. Inr (to_cbor j))"

section \<open>Parsing\<close>

definition parse_lookup_item :: "LookupRequest \<Rightarrow> string \<Rightarrow> json \<Rightarrow> LookupRequest result" where
  "parse_lookup_item q key value =
     (if key = ''t'' then bind_result (id_from_json value) (\<lambda>i. Inr (q\<lparr>lq_target := i\<rparr>))
      else if key = ''w'' then bind_result (get_int value) (\<lambda>w. Inr (setWant w q))
      else Inr q)"

definition parse_find_value_item :: "LookupRequest \<times> int \<Rightarrow> string \<Rightarrow> json \<Rightarrow> (LookupRequest \<times> int) result" where
  "parse_find_value_item qs key value =
     (if key = ''t'' \<or> key = ''w'' then bind_result (parse_lookup_item (fst qs) key value) (\<lambda>q. Inr (q, snd qs))
      else if key \<noteq> ''seq'' then Inl (MessageError (''Unknown field: '' @ key))
      else bind_result (get_int value) (\<lambda>n. Inr (fst qs, n)))"

definition parse_nodes :: "json \<Rightarrow> NodeInfo list \<Rightarrow> NodeInfo list result" where
  "parse_nodes object nodes =
     (case object of
        JArr xs \<Rightarrow> bind_result (map_result node_from_json xs) (\<lambda>ns. Inr (nodes @ ns))
      | _ \<Rightarrow> Inl (MessageError ''Invalid response nodes message''))"

text \<open>\<open>extra\<close> is the \<^verbatim>\<open>_parse\<close> of the subclass.\<close>

definition parse_response_item ::
  "('a \<Rightarrow> string \<Rightarrow> json \<Rightarrow> 'a result) \<Rightarrow> LookupResponse \<times> 'a \<Rightarrow> string \<Rightarrow> json \<Rightarrow> (LookupResponse \<times> 'a) result" where
  "parse_response_item extra ra key value =
     (let r = fst ra
      in if key = ''n4'' then bind_result (parse_nodes value (nodes4 r)) (\<lambda>ns. Inr (r\<lparr>nodes4 := ns\<rparr>, snd ra))
         else if key = ''n6'' then bind_result (parse_nodes value (nodes6 r)) (\<lambda>ns. Inr (r\<lparr>nodes6 := ns\<rparr>, snd ra))
         else if key = ''tok'' then bind_result (get_int value) (\<lambda>t. Inr (r\<lparr>ltoken := t\<rparr>, snd ra))
         else bind_result (extra (snd ra) key value) (\<lambda>a. Inr (r, a)))"

definition parse_value_field :: "ValueFields \<Rightarrow> string \<Rightarrow> json \<Rightarrow> ValueFields result" where
  "parse_value_field f key value =
     (if key = ''k'' then bind_result (id_from_json value) (\<lambda>i. Inr (f\<lparr>vf_publicKey := Some i\<rparr>))
      else if key = ''rec'' then bind_result (id_from_json value) (\<lambda>i. Inr (f\<lparr>vf_recipient := Some i\<rparr>))
      else if key = ''n'' then bind_result (bind_result (get_binary value) mkNonce) (\<lambda>n. Inr (f\<lparr>vf_nonce := Some n\<rparr>))
      else if key = ''seq'' then bind_result (get_int value) (\<lambda>n. Inr (f\<lparr>vf_sequenceNumber := n\<rparr>))
      else if key = ''sig'' then bind_result (get_binary value) (\<lambda>b. Inr (f\<lparr>vf_signature := Some b\<rparr>))
      else if key = ''v'' then bind_result (get_binary value) (\<lambda>b. Inr (f\<lparr>vf_value := b\<rparr>))
      else Inl (MessageError (''Unknown field: '' @ key)))"

text \<open>The sequence number is read as a \<^verbatim>\<open>uint16_t\<close>.\<close>

definition parse_store_item :: "StoreValueRequest \<Rightarrow> string \<Rightarrow> json \<Rightarrow> StoreValueRequest result" where
  "parse_store_item q key value =
     (if key = ''k'' then bind_result (id_from_json value) (\<lambda>i. Inr (q\<lparr>vf_publicKey := Some i\<rparr>))
      else if key = ''rec'' then bind_result (id_from_json value) (\<lambda>i. Inr (q\<lparr>vf_recipient := Some i\<rparr>))
      else if key = ''n'' then bind_result (bind_result (get_binary value) mkNonce) (\<lambda>n. Inr (q\<lparr>vf_nonce := Some n\<rparr>))
      else if key = ''sig'' then bind_result (get_binary value) (\<lambda>b. Inr (q\<lparr>vf_signature := Some b\<rparr>))
      else if key = ''seq'' then bind_result (get_u16 value) (\<lambda>n. Inr (q\<lparr>vf_sequenceNumber := uint n\<rparr>))
      else if key = ''cas'' then bind_result (get_int value) (\<lambda>n. Inr (q\<lparr>expectedSequenceNumber := n\<rparr>))
      else if key = ''tok'' then bind_result (get_int value) (\<lambda>n. Inr (q\<lparr>sv_token := n\<rparr>))
      else if key = ''v'' then bind_result (get_binary value) (\<lambda>b. Inr (q\<lparr>vf_value := b\<rparr>))
      else Inl (MessageError (''Unknown field: '' @ key)))"

definition parse_announce_item :: "AnnouncePeerRequest \<Rightarrow> string \<Rightarrow> json \<Rightarrow> AnnouncePeerRequest result" where
  "parse_announce_item q key value =
     (if key = ''t'' then bind_result (id_from_json value) (\<lambda>i. Inr (q\<lparr>ap_peerId := i\<rparr>))
      else if key = ''x'' then bind_result (id_from_json value) (\<lambda>i. Inr (q\<lparr>ap_nodeId := Some i\<rparr>))
      else if key = ''p'' then bind_result (get_u16 value) (\<lambda>p. Inr (q\<lparr>ap_port := p\<rparr>))
      else if key = ''alt'' then bind_result (get_string value) (\<lambda>u. Inr (q\<lparr>ap_alternativeURL := u\<rparr>))
      else if key = ''sig'' then bind_result (get_binary value) (\<lambda>b. Inr (q\<lparr>ap_signature := b\<rparr>))
      else if key = ''tok'' then bind_result (get_int value) (\<lambda>t. Inr (q\<lparr>ap_token := t\<rparr>))
      else Inl (MessageError (''Invalid message with unkown key: '' @ key)))"

fun is_array :: "json \<Rightarrow> bool" where
  "is_array (JArr _) = True" | "is_array _ = False"

definition parse_peer :: "(string \<Rightarrow> string option) \<Rightarrow> byte list \<Rightarrow> json \<Rightarrow> PeerInfo result" where
  "parse_peer nfc peerId it =
     bind_result (bind_result (json_at it 0) get_binary) (\<lambda>i.
     bind_result (bind_result (json_at it 1) (\<lambda>j. if j = JNull then Inr [] else get_binary j)) (\<lambda>origin.
     bind_result (bind_result (json_at it 2) get_u16) (\<lambda>port.
     bind_result (bind_result (json_at it 3) (\<lambda>j. if j = JNull then Inr [] else get_string j)) (\<lambda>alt.
     bind_result (bind_result (json_at it 4) get_binary) (\<lambda>sig.
       PeerInfo_of nfc peerId [] i origin port alt sig)))))"

fun parse_peers_loop :: "(string \<Rightarrow> string option) \<Rightarrow> byte list \<Rightarrow> PeerInfo list \<Rightarrow> json list \<Rightarrow> PeerInfo list result" where
  "parse_peers_loop nfc peerId peers [] = Inr peers"
| "parse_peers_loop nfc peerId peers (it # its) =
     (if \<not> is_array it then bind_result (get_binary it) (\<lambda>p. parse_peers_loop nfc p peers its)
      else bind_result (parse_peer nfc peerId it) (\<lambda>pi. parse_peers_loop nfc peerId (peers @ [pi]) its))"

definition parse_peers :: "(string \<Rightarrow> string option) \<Rightarrow> PeerInfo list \<Rightarrow> string \<Rightarrow> json \<Rightarrow> PeerInfo list result" where
  "parse_peers nfc peers key object =
     (case object of
        JArr xs \<Rightarrow> if key \<noteq> ''p'' then Inl (MessageError ''invalid find peer response message'')
                    else parse_peers_loop nfc [] peers xs
      | _ \<Rightarrow> Inl (MessageError ''Invalid response peers message''))"

definition parse_error_item :: "Method \<Rightarrow> int \<times> string \<Rightarrow> string \<Rightarrow> json \<Rightarrow> (int \<times> string) result" where
  "parse_error_item method cm key value =
     (if key = ''c'' then bind_result (get_int value) (\<lambda>c. Inr (c, snd cm))
      else if key = ''m'' then bind_result (get_string value) (\<lambda>s. Inr (fst cm, s))
      else Inl (MessageError (''Invalid '' @ getMethodString method @ '' request message'')))"

definition parse_object :: "string \<Rightarrow> string \<Rightarrow> string \<Rightarrow> json \<Rightarrow> ('a \<Rightarrow> string \<Rightarrow> json \<Rightarrow> 'a result) \<Rightarrow> 'a \<Rightarrow> 'a result" where
  "parse_object text expected fieldName object f a =
     (case object of
        JObj items \<Rightarrow> if fieldName \<noteq> expected then Inl (MessageError text) else fold_items f a items
      | _ \<Rightarrow> Inl (MessageError text))"

fun parse_body :: "(string \<Rightarrow> string option) \<Rightarrow> string \<Rightarrow> json \<Rightarrow> Body \<Rightarrow> Body result" where
  "parse_body nfc k j (FindNodeRequest q) = bind_result (parse_object ''Invalid request message'' ''q'' k j parse_lookup_item q) (\<lambda>q. Inr (FindNodeRequest q))"
| "parse_body nfc k j (AnnounceRequest q) = bind_result (parse_object ''Invalid 3reqeust message'' ''q'' k j parse_announce_item q) (\<lambda>q. Inr (AnnounceRequest q))"
| "parse_body nfc k j (FindPeerRequest q) = bind_result (parse_object ''Invalid request message'' ''q'' k j parse_lookup_item q) (\<lambda>q. Inr (FindPeerRequest q))"
| "parse_body nfc k j (StoreRequest q) = bind_result (parse_object ''Invalid request message'' ''q'' k j parse_store_item q) (\<lambda>q. Inr (StoreRequest q))"
| "parse_body nfc k j (FindValueRequest q n) =
     bind_result (parse_object ''Invalid request message'' ''q'' k j parse_find_value_item (q, n)) (\<lambda>(q, n). Inr (FindValueRequest q n))"
| "parse_body nfc k j (FindNodeResponse r) =
     bind_result (parse_object ''Invalid lookup response message'' ''r'' k j (parse_response_item (\<lambda>u _ _. Inr u)) (r, ())) (\<lambda>(r, _). Inr (FindNodeResponse r))"
| "parse_body nfc k j (FindPeerResponse r ps) =
     bind_result (parse_object ''Invalid lookup response message'' ''r'' k j (parse_response_item (parse_peers nfc)) (r, ps)) (\<lambda>(r, ps). Inr (FindPeerResponse r ps))"
| "parse_body nfc k j (FindValueResponse r f) =
     bind_result (parse_object ''Invalid lookup response message'' ''r'' k j (parse_response_item parse_value_field) (r, f)) (\<lambda>(r, f). Inr (FindValueResponse r f))"
| "parse_body nfc k j (ErrorBody m c s) =
     bind_result (parse_object ''Invalid request message'' ''e'' k j (parse_error_item m) (c, s)) (\<lambda>(c, s). Inr (ErrorBody m c s))"
| "parse_body nfc k j b = Inr b"

definition parse_item :: "(string \<Rightarrow> string option) \<Rightarrow> Message \<Rightarrow> string \<Rightarrow> json \<Rightarrow> Message result" where
  "parse_item nfc m key value =
     (if key = ''t'' then bind_result (get_int value) (\<lambda>t. Inr (m\<lparr>txid := t\<rparr>))
      else if key = ''v'' then bind_result (get_int value) (\<lambda>v. Inr (m\<lparr>mversion := v\<rparr>))
      else if key = ''q'' \<or> key = ''r'' \<or> key = ''e'' then bind_result (parse_body nfc key value (body m)) (\<lambda>b. Inr (m\<lparr>body := b\<rparr>))
      else Inr m)"

definition message_parse :: "(string \<Rightarrow> string option) \<Rightarrow> (byte list \<Rightarrow> json result) \<Rightarrow> byte list \<Rightarrow> Message result" where
  "message_parse nfc from_cbor buf =
     bind_result (from_cbor buf) (\<lambda>root.
       case root of
         JObj items \<Rightarrow>
           (case map_of items ''y'' of
              None \<Rightarrow> Inl (MessageError ''Invalid message: missing type field'')
            | Some type \<Rightarrow>
                bind_result (get_u8 type) (\<lambda>t. bind_result (createMessage t) (\<lambda>b.
                  fold_items (parse_item nfc) (mkMessage b 0) items)))
       | _ \<Rightarrow> Inl (MessageError ''Invalid message: not a CBOR object''))"

end
