(* ===== verification/Rpc.thy ===== *)
theory Rpc
  imports Messages
begin

text \<open>
  Remote procedure calls: \<^verbatim>\<open>src/core/rpccall.cc\<close>, \<^verbatim>\<open>src/core/rpccall.h\<close> and the message handling of
  \<^verbatim>\<open>src/core/rpcserver.cc\<close>. A call is a record with its state and the time of its pending timer; the
  server keeps the pending calls in a map from transaction ids. What the code hands to other
  components (callbacks of the call, notifications of the DHT, datagrams) is the list of effects an
  operation returns, in order; an operation that throws returns the error beside the state it leaves.
  Encryption, decryption, the outcome of \<^verbatim>\<open>sendto\<close>, the version number and the printed form of an address
  are parameters.
\<close>

section \<open>Calls\<close>

datatype CallState = UNSENT | SENT | STALLED | TIMEOUT | CANCELED | CERR | RESPONDED

datatype CallEvent = StateChange CallState CallState | TimeoutHandler | StallHandler | ResponseHandler

record RPCCall =
  call_ref :: nat
  targetId :: Id
  targetAddr :: SocketAddress
  request :: Message
  response :: "Message option"
  sourceWasKnownReachable :: bool
  sentTime :: u64
  responseTime :: u64
  cstate :: CallState
  timeoutTimer :: "u64 option"

definition RPC_CALL_TIMEOUT_MAX :: int where "RPC_CALL_TIMEOUT_MAX = 10 * 1000"
definition RPC_SERVER_REACHABILITY_TIMEOUT :: u64 where "RPC_SERVER_REACHABILITY_TIMEOUT = 60 * 1000"

text \<open>\<open>r\<close> is the reachability of the target when it is a bucket entry or a candidate.\<close>

definition mkRPCCall :: "nat \<Rightarrow> NodeInfo \<Rightarrow> bool option \<Rightarrow> Message \<Rightarrow> RPCCall" where
  "mkRPCCall ref target r req =
     \<lparr>call_ref = ref, targetId = nodeId target, targetAddr = sockaddr target,
      request = req\<lparr>remoteId := nodeId target, remoteAddr := sockaddr target\<rparr>, response = None,
      sourceWasKnownReachable = (case r of Some b \<Rightarrow> b | None \<Rightarrow> False), sentTime = -1, responseTime = -1,
      cstate = UNSENT, timeoutTimer = None\<rparr>"

definition updateState :: "CallState \<Rightarrow> RPCCall \<Rightarrow> RPCCall \<times> CallEvent list" where
  "updateState currentState c =
     (c\<lparr>cstate := currentState\<rparr>,
      StateChange (cstate c) currentState #
        (case currentState of TIMEOUT \<Rightarrow> [TimeoutHandler] | STALLED \<Rightarrow> [StallHandler] | RESPONDED \<Rightarrow> [ResponseHandler] | _ \<Rightarrow> []))"

definition call_sent :: "u64 \<Rightarrow> RPCCall \<Rightarrow> RPCCall \<times> CallEvent list" where
  "call_sent now c =
     (let (c', ev) = updateState SENT (c\<lparr>sentTime := now\<rparr>) in (c'\<lparr>timeoutTimer := Some (now + 2000)\<rparr>, ev))"

definition responsed :: "u64 \<Rightarrow> Message \<Rightarrow> RPCCall \<Rightarrow> (RPCCall \<times> CallEvent list) result" where
  "responsed now msg c =
     (let c' = c\<lparr>timeoutTimer := None, response := Some msg, responseTime := now\<rparr>
      in case getType msg of
           RESPONSE \<Rightarrow> Inr (updateState RESPONDED c')
         | ERR \<Rightarrow> Inr (updateState CERR c')
         | REQUEST \<Rightarrow> Inl (RuntimeError ''Unexpected message type received.''))"

text \<open>The timer has fired.\<close>

definition checkTimeout :: "u64 \<Rightarrow> RPCCall \<Rightarrow> RPCCall \<times> CallEvent list" where
  "checkTimeout now c0 =
     (let c = c0\<lparr>timeoutTimer := None\<rparr>
      in if cstate c \<noteq> SENT \<and> cstate c \<noteq> STALLED then (c, [])
         else let elapsed = int32 (uint (now - sentTime c));
                  remaining = int32 (RPC_CALL_TIMEOUT_MAX - elapsed)
              in if remaining > 0 then
                   let (c', ev) = updateState STALLED c in (c'\<lparr>timeoutTimer := Some (now + word_of_int remaining)\<rparr>, ev)
                 else updateState TIMEOUT c)"

definition call_failed :: "RPCCall \<Rightarrow> RPCCall \<times> CallEvent list" where
  "call_failed c = updateState TIMEOUT c"

definition call_cancel :: "RPCCall \<Rightarrow> RPCCall \<times> CallEvent list" where
  "call_cancel c = updateState CANCELED (c\<lparr>timeoutTimer := None\<rparr>)"

definition call_stall :: "RPCCall \<Rightarrow> RPCCall \<times> CallEvent list" where
  "call_stall c = (if cstate c = SENT then updateState STALLED c else (c, []))"

text \<open>\<open>None\<close> where the code dereferences the null response.\<close>

definition matchesId :: "RPCCall \<Rightarrow> bool option" where
  "matchesId c = map_option (\<lambda>m. id_eq (mid m) (targetId c)) (response c)"

definition matchesAddress :: "RPCCall \<Rightarrow> bool option" where
  "matchesAddress c = map_option (\<lambda>m. sa_eq (morigin m) (remoteAddr (request c))) (response c)"

section \<open>The server\<close>

datatype Effect =
    CallEvent nat CallEvent
  | OnSend Id
  | OnTimeout Id
  | OnMessage bool Message
  | Datagram Message

datatype SendOutcome = Sent | Again | Failed | Throws error

text \<open>The parameters: \<open>sendto\<close> is the outcome of encrypting and sending the message.\<close>

record Env =
  sendto :: "Message \<Rightarrow> SendOutcome"
  nodeVersion :: int
  addr_string :: "SocketAddress \<Rightarrow> string"

record RPCServer =
  self :: Id
  hasSock4 :: bool
  hasSock6 :: bool
  hasDht4 :: bool
  hasDht6 :: bool
  calls :: "int \<Rightarrow> RPCCall option"
  nextTxid :: int
  isReachable :: bool
  messagesAtLastReachableCheck :: u64
  lastReachableCheck :: u64
  startTime :: u64
  receivedMessages :: u64
  messageQueue :: "Message list"

type_synonym server_step = "RPCServer \<times> Effect list \<times> error option"

definition and_then :: "server_step \<Rightarrow> (RPCServer \<Rightarrow> server_step) \<Rightarrow> server_step" where
  "and_then r f =
     (case r of (s, es, err) \<Rightarrow>
        (case err of Some e \<Rightarrow> (s, es, Some e) | None \<Rightarrow> (case f s of (s', es', err') \<Rightarrow> (s', es @ es', err'))))"

definition updateReachability :: "u64 \<Rightarrow> RPCServer \<Rightarrow> RPCServer" where
  "updateReachability now s =
     (if receivedMessages s \<noteq> messagesAtLastReachableCheck s then
        s\<lparr>isReachable := True, lastReachableCheck := now, messagesAtLastReachableCheck := receivedMessages s\<rparr>
      else if now - lastReachableCheck s > RPC_SERVER_REACHABILITY_TIMEOUT then s\<lparr>isReachable := False\<rparr>
      else s)"

definition sendData :: "Env \<Rightarrow> Message \<Rightarrow> RPCServer \<Rightarrow> server_step" where
  "sendData env msg s =
     (case remoteAddr msg of
        Unspec \<Rightarrow> (s, [], Some (RuntimeError ''Remote address is invalid, need to be specified!''))
      | addr \<Rightarrow>
          if (case addr of Inet4 _ _ \<Rightarrow> \<not> hasSock4 s | _ \<Rightarrow> \<not> hasSock6 s)
          then (s, [], Some (RuntimeError ''Socket fd is error!!!''))
          else case sendto env msg of
                 Again \<Rightarrow> (s\<lparr>messageQueue := messageQueue s @ [msg]\<rparr>, [], None)
               | Failed \<Rightarrow> (s, [], None)
               | Throws e \<Rightarrow> (s, [], Some e)
               | Sent \<Rightarrow> (s, [Datagram msg], None))"

definition sendMessage :: "Env \<Rightarrow> u64 \<Rightarrow> Message \<Rightarrow> RPCServer \<Rightarrow> server_step" where
  "sendMessage env now msg0 s =
     (let msg = msg0\<lparr>mid := self s, mversion := nodeVersion env\<rparr>
      in and_then
           (case associatedCall msg of
              None \<Rightarrow> (s, [], None)
            | Some r \<Rightarrow>
                (case calls s (txid msg) of
                   None \<Rightarrow> (s, [], None)
                 | Some c \<Rightarrow>
                     let (c', ev) = call_sent now (c\<lparr>request := msg\<rparr>)
                     in (s\<lparr>calls := (calls s)(txid msg \<mapsto> c')\<rparr>, OnSend (targetId c) # map (CallEvent r) ev, None)))
           (sendData env msg))"

definition sendError :: "Env \<Rightarrow> u64 \<Rightarrow> Message \<Rightarrow> int \<Rightarrow> string \<Rightarrow> RPCServer \<Rightarrow> server_step" where
  "sendError env now msg code err s =
     sendMessage env now
       ((mkMessage (ErrorBody (getMethod msg) code err) (txid msg))\<lparr>remoteId := mid msg, remoteAddr := morigin msg\<rparr>) s"

text \<open>The transaction id of the next call and the counter after it; zero is skipped.\<close>

definition alloc_txid :: "RPCServer \<Rightarrow> int \<times> RPCServer" where
  "alloc_txid s =
     (let t = nextTxid s; s1 = s\<lparr>nextTxid := int32 (t + 1)\<rparr>
      in if t = 0 then (nextTxid s1, s1\<lparr>nextTxid := int32 (nextTxid s1 + 1)\<rparr>) else (t, s1))"

definition sendCall :: "Env \<Rightarrow> u64 \<Rightarrow> RPCCall \<Rightarrow> RPCServer \<Rightarrow> server_step" where
  "sendCall env now call s0 =
     (let (t, s) = alloc_txid s0
      in if calls s t \<noteq> None then (s, [], Some (RuntimeError ''Transaction ID already exists''))
         else let req = (request call)\<lparr>txid := t, associatedCall := Some (call_ref call)\<rparr>;
                  c = call\<lparr>request := req\<rparr>
              in sendMessage env now req (s\<lparr>calls := (calls s)(t \<mapsto> c)\<rparr>))"

text \<open>Firing the timer of the pending call \<open>t\<close>: the time-out handler of the server reports the call to
  the DHT and forgets it.\<close>

definition fire_timer :: "u64 \<Rightarrow> int \<Rightarrow> RPCServer \<Rightarrow> server_step" where
  "fire_timer now t s =
     (case calls s t of
        None \<Rightarrow> (s, [], None)
      | Some c \<Rightarrow>
          let (c', ev) = checkTimeout now c; evs = map (CallEvent (call_ref c)) ev
          in if TimeoutHandler \<in> set ev
             then (s\<lparr>calls := (calls s)(t := None)\<rparr>, evs @ [OnTimeout (targetId c)], None)
             else (s\<lparr>calls := (calls s)(t \<mapsto> c')\<rparr>, evs, None))"

text \<open>Dereferencing the DHT that does not exist is undefined.\<close>

definition handleMessage :: "Message \<Rightarrow> RPCServer \<Rightarrow> server_step" where
  "handleMessage msg s =
     (if sa_family (morigin msg) = sa_family (Inet4 [] 0) then
        (if hasDht4 s then (s, [OnMessage True msg], None) else (s, [], Some Undefined))
      else if hasDht6 s then (s, [OnMessage False msg], None)
      else (s, [], Some Undefined))"

definition PROTOCOL_ERROR :: int where "PROTOCOL_ERROR = 203"

definition mismatch_text :: "Env \<Rightarrow> SocketAddress \<Rightarrow> SocketAddress \<Rightarrow> string" where
  "mismatch_text env dest origin =
     ''A request was sent to '' @ addr_string env dest @
     '' and a response with matching transaction id was received from '' @ addr_string env origin @
     '' . Multihomed nodes should ensure that sockets are properly bound and responses are sent with the correct source socket address. See BEPs 32 and 45.''"

text \<open>A response or error message whose transaction id is that of the pending call \<open>c\<close>.\<close>

definition handle_reply :: "Env \<Rightarrow> u64 \<Rightarrow> Message \<Rightarrow> RPCCall \<Rightarrow> RPCServer \<Rightarrow> server_step" where
  "handle_reply env now msg c s =
     (if sa_eq (remoteAddr (request c)) (morigin msg) then
        let s1 = s\<lparr>calls := (calls s)(txid msg := None)\<rparr>; msg' = msg\<lparr>associatedCall := Some (call_ref c)\<rparr>
        in case responsed now msg' c of
             Inl e \<Rightarrow> (s1, [], Some e)
           | Inr (c', ev) \<Rightarrow> and_then (s1, map (CallEvent (call_ref c)) ev, None) (handleMessage msg')
      else
        and_then
          (if getType msg = RESPONSE \<and> hasDht6 s then
             sendMessage env now
               ((mkMessage (ErrorBody (getMethod msg) PROTOCOL_ERROR
                              (mismatch_text env (remoteAddr (request c)) (morigin msg))) (txid msg))
                  \<lparr>remoteId := mid msg, remoteAddr := remoteAddr (request c)\<rparr>) s
           else (s, [], None))
          (\<lambda>s. let (c', ev) = call_stall c
               in (s\<lparr>calls := (calls s)(txid msg \<mapsto> c')\<rparr>, map (CallEvent (call_ref c)) ev, None)))"

definition dispatch :: "Env \<Rightarrow> u64 \<Rightarrow> Message \<Rightarrow> RPCServer \<Rightarrow> server_step" where
  "dispatch env now msg s =
     (if getType msg = REQUEST then handleMessage msg s
      else case calls s (txid msg) of
             Some c \<Rightarrow> handle_reply env now msg c s
           | None \<Rightarrow>
               if getType msg = RESPONSE \<and> now - startTime s > 2 * 60 * 1000
               then sendError env now msg PROTOCOL_ERROR
                      ''Received a response message whose transaction ID did not match a pending request or transaction expired'' s
               else if getType msg = ERR then handleMessage msg s
               else (s, [], None))"

text \<open>The debug line of \<^verbatim>\<open>handlePacket\<close> evaluates \<^verbatim>\<open>msg->toString()\<close>, which takes \<^verbatim>\<open>value()\<close> of the nonce and of the signature of a message
  with a public key, and throws \<^verbatim>\<open>std::bad_optional_access\<close> when one is missing.\<close>

fun printable :: "Body \<Rightarrow> bool" where
  "printable (StoreRequest q) = (vf_publicKey q = None \<or> vf_nonce q \<noteq> None \<and> vf_signature q \<noteq> None)"
| "printable (FindValueResponse _ f) = (vf_publicKey f = None \<or> vf_nonce f \<noteq> None \<and> vf_signature f \<noteq> None)"
| "printable _ = True"

text \<open>\<^verbatim>\<open>handlePacket\<close> does not check that the packet holds an id: for a shorter one the length that is
  left is a negative number converted to \<^verbatim>\<open>size_t\<close>. It catches the exceptions of decryption and of the parser, but not those of the debug line.\<close>

definition handlePacket ::
  "(Id \<Rightarrow> byte list \<Rightarrow> byte list result) \<Rightarrow> (byte list \<Rightarrow> Message result) \<Rightarrow> Env \<Rightarrow> u64 \<Rightarrow>
   byte list \<Rightarrow> SocketAddress \<Rightarrow> RPCServer \<Rightarrow> server_step" where
  "handlePacket decrypt parse env now buf from s =
     (if length buf < 32 then (s, [], Some Undefined)
      else case decrypt (take 32 buf) (drop 32 buf) of
             Inl e \<Rightarrow> (s, [], None)
           | Inr buffer \<Rightarrow>
               (case parse buffer of
                  Inl e \<Rightarrow> (s, [], if e = Undefined then Some Undefined else None)
                | Inr m \<Rightarrow>
                    let msg = m\<lparr>mid := take 32 buf, morigin := from\<rparr>;
                        s1 = s\<lparr>receivedMessages := receivedMessages s + 1\<rparr>
                    in if \<not> printable (body msg) then (s1, [], Some (RuntimeError ''bad optional access''))
                       else and_then
                         (if getType msg \<noteq> ERR \<and> txid msg = 0
                          then sendError env now msg PROTOCOL_ERROR
                                 ''Received a message with an invalid transaction id, expected a non-zero transaction id'' s1
                          else (s1, [], None))
                         (dispatch env now msg)))"

text \<open>The queue of \<^verbatim>\<open>periodic\<close>: a message that the socket does not take goes to its end and the loop
  goes on, so the loop ends only once the socket takes everything. \<open>env n\<close> is the environment at the
  \<open>n\<close>th attempt.\<close>

partial_function (option) flush_queue :: "(nat \<Rightarrow> Env) \<Rightarrow> nat \<Rightarrow> RPCServer \<Rightarrow> server_step option" where
  "flush_queue env n s =
     (case messageQueue s of
        [] \<Rightarrow> Some (s, [], None)
      | msg # rest \<Rightarrow>
          (case sendData (env n) msg (s\<lparr>messageQueue := rest\<rparr>) of
             (s', es, Some e) \<Rightarrow> Some (s', es, Some e)
           | (s', es, None) \<Rightarrow>
               Option.bind (flush_queue env (n + 1) s') (\<lambda>(s2, es2, err). Some (s2, es @ es2, err))))"

section \<open>The calls in flight\<close>

text \<open>Every pending call is filed under the transaction id of its request, is waiting, and has a timer
  that fires two seconds after it was sent or when its ten seconds are over.\<close>

definition call_ok :: "int \<Rightarrow> RPCCall \<Rightarrow> bool" where
  "call_ok t c \<longleftrightarrow>
     t \<noteq> 0 \<and> txid (request c) = t \<and> (cstate c = SENT \<or> cstate c = STALLED) \<and>
     (timeoutTimer c = Some (sentTime c + 2000) \<or> timeoutTimer c = Some (sentTime c + 10000))"

definition pending_ok :: "RPCServer \<Rightarrow> bool" where
  "pending_ok s \<longleftrightarrow> (\<forall>t c. calls s t = Some c \<longrightarrow> call_ok t c)"

lemma pending_okD: "pending_ok s \<Longrightarrow> calls s t = Some c \<Longrightarrow> call_ok t c"
  by (simp add: pending_ok_def)

lemma pending_ok_put: "pending_ok s \<Longrightarrow> call_ok t c \<Longrightarrow> pending_ok (s\<lparr>calls := (calls s)(t \<mapsto> c)\<rparr>)"
  by (simp add: pending_ok_def)

lemma pending_ok_drop: "pending_ok s \<Longrightarrow> pending_ok (s\<lparr>calls := (calls s)(t := None)\<rparr>)"
  by (simp add: pending_ok_def)

lemma pending_ok_calls: "pending_ok s \<Longrightarrow> calls s' = calls s \<Longrightarrow> pending_ok s'"
  by (simp add: pending_ok_def)

lemma sendData_fst_calls [simp]: "calls (fst (sendData env msg s)) = calls s"
  by (simp add: sendData_def split: SocketAddress.split SendOutcome.split)

lemma fst_and_then: "fst (and_then r f) = (case snd (snd r) of None \<Rightarrow> fst (f (fst r)) | Some _ \<Rightarrow> fst r)"
  by (cases r) (auto simp: and_then_def split: option.splits prod.splits)

lemma effects_and_then:
  "set (fst (snd (and_then r f))) =
     set (fst (snd r)) \<union> (case snd (snd r) of None \<Rightarrow> set (fst (snd (f (fst r)))) | Some _ \<Rightarrow> {})"
  by (cases r) (auto simp: and_then_def split: option.splits prod.splits)

lemma sendMessage_plain_calls:
  "associatedCall msg = None \<Longrightarrow> calls (fst (sendMessage env now msg s)) = calls s"
  by (simp add: sendMessage_def Let_def fst_and_then)

lemma associatedCall_mkMessage [simp]: "associatedCall (mkMessage b t) = None"
  by (simp add: mkMessage_def)

lemma sendError_calls: "calls (fst (sendError env now msg code err s)) = calls s"
  by (simp add: sendError_def sendMessage_plain_calls)

lemma handleMessage_calls: "calls (fst (handleMessage msg s)) = calls s"
  by (simp add: handleMessage_def)

lemma alloc_txid_nonzero: "alloc_txid s = (t, s') \<Longrightarrow> t \<noteq> 0 \<and> calls s' = calls s"
  by (auto simp: alloc_txid_def Let_def int32_def split: if_splits)

lemma call_sent_ok: "call_sent now c = (c', ev) \<Longrightarrow> t \<noteq> 0 \<Longrightarrow> txid (request c) = t \<Longrightarrow> call_ok t c'"
  by (auto simp: call_sent_def updateState_def call_ok_def Let_def)

lemma sendCall_pending: "pending_ok s \<Longrightarrow> pending_ok (fst (sendCall env now call s))"
proof -
  assume inv: "pending_ok s"
  obtain t s1 where a: "alloc_txid s = (t, s1)" by force
  note nz = alloc_txid_nonzero [OF a]
  have inv1: "pending_ok s1" using inv nz by (blast intro: pending_ok_calls)
  obtain c' ev where cs: "call_sent now (call\<lparr>request := (request call)\<lparr>txid := t,
      associatedCall := Some (call_ref call), mid := self s1, mversion := nodeVersion env\<rparr>\<rparr>) = (c', ev)" by force
  have "call_ok t c'" using call_sent_ok [OF cs] nz by simp
  then have put: "pending_ok (s1\<lparr>calls := (calls s1)(t \<mapsto> c')\<rparr>)" by (rule pending_ok_put [OF inv1])
  show ?thesis
    using inv1 a cs put
    by (auto simp: sendCall_def sendMessage_def Let_def fst_and_then split: prod.splits intro!: pending_ok_calls [OF put])
qed


text \<open>The elapsed time of a call, while the clock is not more than 24 days past its sending.\<close>

definition elapsed_ok :: "u64 \<Rightarrow> RPCCall \<Rightarrow> bool" where
  "elapsed_ok now c \<longleftrightarrow> uint (now - sentTime c) < 2 ^ 31"

lemma int32_remaining: "0 \<le> e \<Longrightarrow> e < 2 ^ 31 \<Longrightarrow> int32 (RPC_CALL_TIMEOUT_MAX - e) = 10000 - e"
  unfolding RPC_CALL_TIMEOUT_MAX_def by (subst int32_id) simp_all

lemma checkTimeout_pending:
  assumes "elapsed_ok now c" "cstate c = SENT \<or> cstate c = STALLED"
  shows "checkTimeout now c =
     (if now - sentTime c < 10000
      then (c\<lparr>cstate := STALLED, timeoutTimer := Some (sentTime c + 10000)\<rparr>, [StateChange (cstate c) STALLED, StallHandler])
      else (c\<lparr>cstate := TIMEOUT, timeoutTimer := None\<rparr>, [StateChange (cstate c) TIMEOUT, TimeoutHandler]))"
proof -
  let ?e = "uint (now - sentTime c)"
  have e0: "0 \<le> ?e" by simp
  have e1: "?e < 2 ^ 31" using assms(1) by (simp only: elapsed_ok_def)
  have i: "int32 ?e = ?e" using e0 e1 by (intro int32_id) linarith+
  have r: "int32 (RPC_CALL_TIMEOUT_MAX - int32 ?e) = 10000 - ?e"
    unfolding i using e0 e1 by (rule int32_remaining)
  have lt: "now - sentTime c < 10000 \<longleftrightarrow> ?e < 10000" by (simp add: word_less_def)
  have w: "now + word_of_int (10000 - ?e) = sentTime c + 10000" by simp
  show ?thesis
    using assms(2) unfolding checkTimeout_def Let_def
    by (auto simp: r lt w updateState_def)
qed

lemma fire_timer_pending:
  assumes inv: "pending_ok s" and el: "\<And>c. calls s t = Some c \<Longrightarrow> elapsed_ok now c"
  shows "pending_ok (fst (fire_timer now t s))"
proof (cases "calls s t")
  case None
  then show ?thesis using inv by (simp add: fire_timer_def)
next
  case (Some c)
  have ok: "call_ok t c" using inv Some by (rule pending_okD)
  have ct: "cstate c = SENT \<or> cstate c = STALLED" using ok by (simp add: call_ok_def)
  have "call_ok t (c\<lparr>cstate := STALLED, timeoutTimer := Some (sentTime c + 10000)\<rparr>)" using ok by (simp add: call_ok_def)
  then show ?thesis
    using pending_ok_drop [OF inv] pending_ok_put [OF inv]
    by (simp add: fire_timer_def Some checkTimeout_pending [OF el [OF Some] ct])
qed

lemma call_stall_ok: "call_ok t c \<Longrightarrow> call_ok t (fst (call_stall c))"
  by (auto simp: call_stall_def call_ok_def updateState_def)

lemma responsed_reply: "getType msg \<noteq> REQUEST \<Longrightarrow> \<exists>c' ev. responsed now msg c = Inr (c', ev)"
  by (cases "getType msg") (auto simp: responsed_def updateState_def Let_def)

lemma handle_reply_calls:
  assumes "calls s (txid msg) = Some c" "getType msg \<noteq> REQUEST"
  shows "calls (fst (handle_reply env now msg c s)) =
     (if sa_eq (remoteAddr (request c)) (morigin msg) then (calls s)(txid msg := None)
      else if snd (snd (handle_reply env now msg c s)) = None then (calls s)(txid msg \<mapsto> fst (call_stall c))
      else calls s)"
proof (cases "sa_eq (remoteAddr (request c)) (morigin msg)")
  case True
  obtain c' ev where "responsed now (msg\<lparr>associatedCall := Some (call_ref c)\<rparr>) c = Inr (c', ev)"
    using responsed_reply [of "msg\<lparr>associatedCall := Some (call_ref c)\<rparr>" now c] assms(2) by auto
  then show ?thesis
    using True by (simp add: handle_reply_def Let_def fst_and_then handleMessage_calls)
next
  case False
  then show ?thesis
    by (auto simp: handle_reply_def Let_def and_then_def split: prod.splits option.splits if_splits
        dest!: arg_cong [where f = "\<lambda>r. calls (fst r)"] simp: sendMessage_plain_calls)
qed

lemma dispatch_pending:
  assumes inv: "pending_ok s"
  shows "pending_ok (fst (dispatch env now msg s))"
proof (cases "getType msg \<noteq> REQUEST \<and> (\<exists>c. calls s (txid msg) = Some c)")
  case True
  then obtain c where c: "calls s (txid msg) = Some c" and ty: "getType msg \<noteq> REQUEST" by blast
  have "call_ok (txid msg) (fst (call_stall c))" using pending_okD [OF inv c] by (rule call_stall_ok)
  then have "\<forall>t c'. calls (fst (handle_reply env now msg c s)) t = Some c' \<longrightarrow> call_ok t c'"
    using inv by (auto simp: handle_reply_calls [OF c ty] pending_ok_def)
  then show ?thesis using c ty by (simp add: dispatch_def pending_ok_def)
next
  case False
  then have "calls (fst (dispatch env now msg s)) = calls s"
    by (auto simp: dispatch_def handleMessage_calls sendError_calls)
  then show ?thesis by (rule pending_ok_calls [OF inv])
qed

lemma handlePacket_pending:
  assumes inv: "pending_ok s"
  shows "pending_ok (fst (handlePacket decrypt parse env now buf from s))"
proof -
  have p: "pending_ok s'" if "calls s' = calls s" for s' using inv that by (rule pending_ok_calls)
  show ?thesis
    unfolding handlePacket_def Let_def
    by (simp add: fst_and_then inv sendError_calls dispatch_pending p split: sum.split option.split)
qed


text \<open>What reaches the DHT.\<close>

lemma sendData_effects: "set (fst (snd (sendData env msg s))) \<subseteq> {Datagram msg}"
  by (simp add: sendData_def split: SocketAddress.split SendOutcome.split)

lemma sendMessage_plain_effects:
  "associatedCall msg = None \<Longrightarrow>
     set (fst (snd (sendMessage env now msg s))) \<subseteq> {Datagram (msg\<lparr>mid := self s, mversion := nodeVersion env\<rparr>)}"
  using sendData_effects by (simp add: sendMessage_def Let_def effects_and_then)

lemma sendError_no_delivery: "OnMessage b m \<notin> set (fst (snd (sendError env now msg code err s)))"
  using sendMessage_plain_effects [of "(mkMessage (ErrorBody (getMethod msg) code err) (txid msg))
    \<lparr>remoteId := mid msg, remoteAddr := morigin msg\<rparr>" env now s]
  by (auto simp: sendError_def)

lemma call_stall_events: "OnMessage b m \<notin> CallEvent r ` set (snd (call_stall c))"
  by auto

lemma mismatch_no_delivery:
  assumes "\<not> sa_eq (remoteAddr (request c)) (morigin msg)"
  shows "OnMessage b m \<notin> set (fst (snd (handle_reply env now msg c s)))"
proof -
  let ?e = "(mkMessage (ErrorBody (getMethod msg) PROTOCOL_ERROR
     (mismatch_text env (remoteAddr (request c)) (morigin msg))) (txid msg))
     \<lparr>remoteId := mid msg, remoteAddr := remoteAddr (request c)\<rparr>"
  have "OnMessage b m \<notin> set (fst (snd (sendMessage env now ?e s)))"
    using sendMessage_plain_effects [of ?e env now s] by auto
  then show ?thesis
    using assms by (auto simp: handle_reply_def effects_and_then Let_def split: prod.splits option.splits if_splits)
qed

lemma response_needs_call:
  assumes "getType msg = RESPONSE" "OnMessage b m \<in> set (fst (snd (dispatch env now msg s)))"
  shows "\<exists>c. calls s (txid msg) = Some c \<and> sa_eq (remoteAddr (request c)) (morigin msg)"
proof (cases "calls s (txid msg)")
  case None
  then show ?thesis
    using assms sendError_no_delivery by (auto simp: dispatch_def split: if_splits)
next
  case (Some c)
  then have "OnMessage b m \<in> set (fst (snd (handle_reply env now msg c s)))"
    using assms by (simp add: dispatch_def)
  then show ?thesis using Some mismatch_no_delivery by blast
qed


lemma fire_timer_outcome:
  assumes inv: "pending_ok s" and c: "calls s t = Some c" and el: "elapsed_ok now c"
  shows "if now - sentTime c < 10000
         then calls (fst (fire_timer now t s)) t = Some (c\<lparr>cstate := STALLED, timeoutTimer := Some (sentTime c + 10000)\<rparr>)
         else calls (fst (fire_timer now t s)) t = None \<and>
              fst (snd (fire_timer now t s)) =
                [CallEvent (call_ref c) (StateChange (cstate c) TIMEOUT), CallEvent (call_ref c) TimeoutHandler,
                 OnTimeout (targetId c)]"
proof -
  have "cstate c = SENT \<or> cstate c = STALLED" using pending_okD [OF inv c] by (simp add: call_ok_def)
  from checkTimeout_pending [OF el this] show ?thesis by (simp add: fire_timer_def c)
qed

lemma reply_completes:
  assumes c: "calls s (txid msg) = Some c" and ty: "getType msg = RESPONSE"
    and addr: "sa_eq (remoteAddr (request c)) (morigin msg)"
    and dht: "if sa_family (morigin msg) = sa_family (Inet4 [] 0) then hasDht4 s else hasDht6 s"
  shows "dispatch env now msg s =
     (s\<lparr>calls := (calls s)(txid msg := None)\<rparr>,
      [CallEvent (call_ref c) (StateChange (cstate c) RESPONDED), CallEvent (call_ref c) ResponseHandler,
       OnMessage (sa_family (morigin msg) = sa_family (Inet4 [] 0)) (msg\<lparr>associatedCall := Some (call_ref c)\<rparr>)], None)"
  using assms
  by (auto simp: dispatch_def handle_reply_def responsed_def updateState_def Let_def and_then_def handleMessage_def
      split: if_splits)

text \<open>A queue whose messages the socket takes, or refuses for good, is emptied.\<close>

lemma flush_queue_empties:
  assumes "\<And>k m. n \<le> k \<Longrightarrow> m \<in> set (messageQueue s) \<Longrightarrow> sendto (env k) m = Sent \<or> sendto (env k) m = Failed"
    and "\<And>m. m \<in> set (messageQueue s) \<Longrightarrow> \<exists>a p. remoteAddr m = Inet4 a p \<and> hasSock4 s"
  shows "\<exists>es. flush_queue env n s = Some (s\<lparr>messageQueue := []\<rparr>, es, None)"
  using assms
proof (induction "messageQueue s" arbitrary: s n)
  case Nil
  then show ?case by (subst flush_queue.simps) (simp add: Nil.hyps [symmetric])
next
  case (Cons m q)
  let ?s = "s\<lparr>messageQueue := q\<rparr>"
  have m: "m \<in> set (messageQueue s)" using Cons.hyps(2) [symmetric] by simp
  obtain a p where ap: "remoteAddr m = Inet4 a p" "hasSock4 s" using Cons.prems(2) [OF m] by blast
  obtain es where es: "sendData (env n) m ?s = (?s, es, None)"
    using Cons.prems(1) [OF order_refl m] ap by (auto simp: sendData_def)
  have "\<exists>es'. flush_queue env (n + 1) ?s = Some (?s\<lparr>messageQueue := []\<rparr>, es', None)"
  proof (rule Cons.hyps(1))
    fix k m' assume "n + 1 \<le> k" "m' \<in> set (messageQueue ?s)"
    then show "sendto (env k) m' = Sent \<or> sendto (env k) m' = Failed"
      using Cons.prems(1) [of k m'] Cons.hyps(2) [symmetric] by simp
  next
    fix m' assume "m' \<in> set (messageQueue ?s)"
    then show "\<exists>a p. remoteAddr m' = Inet4 a p \<and> hasSock4 ?s"
      using Cons.prems(2) [of m'] Cons.hyps(2) [symmetric] by simp
  qed simp
  then show ?case
    by (subst flush_queue.simps) (auto simp: Cons.hyps(2) [symmetric] es)
qed

text \<open>The states of the server.\<close>

inductive rpc_reachable :: "RPCServer \<Rightarrow> bool" where
  start: "calls s = Map.empty \<Longrightarrow> messageQueue s = [] \<Longrightarrow> 1 \<le> nextTxid s \<Longrightarrow> nextTxid s \<le> 32768 \<Longrightarrow> rpc_reachable s"
| sendCall: "rpc_reachable s \<Longrightarrow> sendCall env now call s = (s', es, err) \<Longrightarrow> rpc_reachable s'"
| sendMessage: "rpc_reachable s \<Longrightarrow> associatedCall msg = None \<Longrightarrow> sendMessage env now msg s = (s', es, err) \<Longrightarrow> rpc_reachable s'"
| packet: "rpc_reachable s \<Longrightarrow> handlePacket decrypt parse env now buf from s = (s', es, err) \<Longrightarrow> rpc_reachable s'"
| timer: "rpc_reachable s \<Longrightarrow> calls s t = Some c \<Longrightarrow> elapsed_ok now c \<Longrightarrow> fire_timer now t s = (s', es, err) \<Longrightarrow> rpc_reachable s'"
| reachability: "rpc_reachable s \<Longrightarrow> rpc_reachable (updateReachability now s)"
| resend: "rpc_reachable s \<Longrightarrow> messageQueue s = m # q \<Longrightarrow> sendData env m (s\<lparr>messageQueue := q\<rparr>) = (s', es, err) \<Longrightarrow> rpc_reachable s'"

lemma updateReachability_calls [simp]: "calls (updateReachability now s) = calls s"
  by (simp add: updateReachability_def)

lemma rpc_reachable_pending: "rpc_reachable s \<Longrightarrow> pending_ok s"
proof (induction rule: rpc_reachable.induct)
  case (start s) then show ?case by (simp add: pending_ok_def)
next
  case (sendCall s env now call s' es err)
  then show ?case using sendCall_pending [of s env now call] by simp
next
  case (sendMessage s msg env now s' es err)
  then show ?case using sendMessage_plain_calls [of msg env now s] by (auto intro: pending_ok_calls)
next
  case (packet s decrypt parse env now buf "from" s' es err)
  then show ?case using handlePacket_pending [of s decrypt parse env now buf "from"] by simp
next
  case (timer s t c now s' es err)
  then show ?case using fire_timer_pending [of s t now] by simp
next
  case (reachability s now)
  then show ?case by (auto intro: pending_ok_calls)
next
  case (resend s m q env s' es err)
  then show ?case using sendData_fst_calls [of env m "s\<lparr>messageQueue := q\<rparr>"] by (auto intro: pending_ok_calls)
qed

end
