(* ===== verification/Message_Contents.thy ===== *)
theory Message_Contents
  imports Messages
begin

text \<open>
  What the messages of \<^verbatim>\<open>src/core/messages\<close> carry: values (\<^verbatim>\<open>store_value_request.cc\<close>,
  \<^verbatim>\<open>find_value_response.cc\<close>), peers (\<^verbatim>\<open>announce_peer_request.h\<close>), node lists (\<^verbatim>\<open>lookup_response.cc\<close>), and
  the requests the lookups and announces build. The lemmas show that a value or a peer taken out of a
  message is the one that was put in, less what never travels: the private key.
\<close>

section \<open>Definitions\<close>

definition opt_blob :: "byte list option \<Rightarrow> byte list" where
  "opt_blob x = (case x of Some b \<Rightarrow> b | None \<Rightarrow> [])"

text \<open>\<^verbatim>\<open>setValue\<close> and \<^verbatim>\<open>getValue\<close> are the same code in the request that stores a value and in the
  response that returns one.\<close>

definition setValue :: "Value \<Rightarrow> 'a ValueFields_scheme \<Rightarrow> 'a ValueFields_scheme" where
  "setValue v f =
     (let f1 = (if isMutable v then
                  let f0 = f\<lparr>vf_publicKey := v_publicKey v, vf_nonce := v_nonce v, vf_signature := v_signature v,
                             vf_sequenceNumber := v_sequenceNumber v\<rparr>
                  in if isEncrypted v then f0\<lparr>vf_recipient := v_recipient v\<rparr> else f0
                else f)
      in f1\<lparr>vf_value := v_data v\<rparr>)"

definition getValue :: "'a ValueFields_scheme \<Rightarrow> Value result" where
  "getValue f =
     Value_of (opt_blob (vf_publicKey f)) [] (opt_blob (vf_recipient f)) (opt_blob (vf_nonce f)) (vf_sequenceNumber f)
       (opt_blob (vf_signature f)) (vf_value f)"

definition hasValue :: "'a ValueFields_scheme \<Rightarrow> bool" where
  "hasValue f \<longleftrightarrow> vf_value f \<noteq> []"

definition getValueId :: "(byte list \<Rightarrow> byte list) \<Rightarrow> 'a ValueFields_scheme \<Rightarrow> Id" where
  "getValueId sha256 f = calculateId sha256 (vf_publicKey f) (vf_nonce f) (vf_value f)"

definition mkStoreValueRequest :: "Value \<Rightarrow> int \<Rightarrow> StoreValueRequest" where
  "mkStoreValueRequest v token = setValue v (default_store\<lparr>sv_token := token\<rparr>)"

definition setPeer :: "PeerInfo \<Rightarrow> AnnouncePeerRequest \<Rightarrow> AnnouncePeerRequest" where
  "setPeer p q =
     q\<lparr>ap_peerId := p_publicKey p, ap_nodeId := (if isDelegated p then Some (p_nodeId p) else ap_nodeId q),
       ap_port := p_port p,
       ap_alternativeURL := (case p_alternativeURL p of Some u \<Rightarrow> u | None \<Rightarrow> ap_alternativeURL q),
       ap_signature := p_signature p\<rparr>"

text \<open>The origin of the peer is the sender of the message, \<open>sender\<close>.\<close>

definition getPeer :: "(string \<Rightarrow> string option) \<Rightarrow> Id \<Rightarrow> AnnouncePeerRequest \<Rightarrow> PeerInfo result" where
  "getPeer nfc sender q =
     PeerInfo_of nfc (ap_peerId q) [] (case ap_nodeId q of Some n \<Rightarrow> n | None \<Rightarrow> sender) sender (ap_port q)
       (ap_alternativeURL q) (ap_signature q)"

definition mkAnnouncePeerRequest :: "PeerInfo \<Rightarrow> int \<Rightarrow> AnnouncePeerRequest" where
  "mkAnnouncePeerRequest p token = (setPeer p default_announce)\<lparr>ap_token := token\<rparr>"

definition getNodes :: "bool \<Rightarrow> LookupResponse \<Rightarrow> NodeInfo list" where
  "getNodes ipv4 r = (if ipv4 then nodes4 r else nodes6 r)"

definition mkFindNodeRequest :: "Id \<Rightarrow> bool \<Rightarrow> LookupRequest" where
  "mkFindNodeRequest target token = default_lookup\<lparr>lq_target := target, wantToken := token\<rparr>"

definition mkFindPeerRequest :: "Id \<Rightarrow> LookupRequest" where
  "mkFindPeerRequest target = default_lookup\<lparr>lq_target := target, wantToken := True\<rparr>"

definition mkFindValueRequest :: "Id \<Rightarrow> LookupRequest" where
  "mkFindValueRequest target = default_lookup\<lparr>lq_target := target, wantToken := True\<rparr>"

section \<open>Values and peers travel unchanged\<close>

lemma getValue_setValue:
  assumes v: "wf_value v" and f: "vf_publicKey f = None" "vf_recipient f = None" "vf_nonce f = None"
    "vf_signature f = None" "vf_sequenceNumber f = -1"
  shows "getValue (setValue v f) = Inr (v\<lparr>v_privateKey := None\<rparr>)"
  using v f
  by (auto simp: wf_value_def wf_id_def getValue_def setValue_def opt_blob_def isMutable_def isEncrypted_def Value_of_def
      mk_mutable_def Value_default_def mkId_def mkNonce_def throw_if_def bind_result_def Let_def
      split: option.splits if_splits)

lemma getPeer_setPeer:
  assumes p: "length (p_publicKey p) = 32" "length (p_nodeId p) = 32" "length (p_origin p) = 32" "p_port p \<noteq> 0"
    "length (p_signature p) = SIGNATURE_BYTES" "\<And>u. p_alternativeURL p = Some u \<Longrightarrow> normalised nfc u"
  shows "getPeer nfc (p_origin p) (mkAnnouncePeerRequest p token) = Inr (p\<lparr>p_privateKey := None\<rparr>)"
proof -
  have w: "wf_id (p_nodeId p)" "wf_id (p_origin p)" using p by (simp_all add: wf_id_def)
  have ne: "p_origin p \<noteq> []" using p(3) by auto
  show ?thesis
    using p w ne
    by (cases "p_alternativeURL p")
       (auto simp: getPeer_def mkAnnouncePeerRequest_def setPeer_def default_announce_def PeerInfo_of_def isDelegated_def normal_url_same)
qed

end
