(* ===== verification/Lookup_Sets.thy ===== *)
theory Lookup_Sets
  imports Bucket_Entries
begin

text \<open>
  The two node sets of an iterative lookup: \<^verbatim>\<open>src/core/task/candidate_node.h\<close>,
  \<^verbatim>\<open>src/core/task/closest_candidates.cc\<close> (the nodes still to be asked, ordered by their distance to
  the target) and \<^verbatim>\<open>src/core/task/closest_set.h\<close> (the nodes that answered). A candidate object is
  named by its node id, which \<open>dedup_ids\<close> makes unique. The address set uses the comparison of the
  production build, by IP only.
\<close>

section \<open>Definitions\<close>

record CandidateNode = NodeInfo +
  clastSent :: u64
  clastReply :: u64
  creachable :: bool
  pinged :: int
  ctoken :: int

text \<open>The constructor; \<open>r\<close> is the reachability when the argument is a \<^verbatim>\<open>KBucketEntry\<close>.\<close>

definition mkCandidateNode :: "NodeInfo \<Rightarrow> bool option \<Rightarrow> CandidateNode" where
  "mkCandidateNode ni r =
     (let c = NodeInfo_copy ni
      in \<lparr>nodeId = nodeId c, sockaddr = sockaddr c, version = version c, clastSent = 0, clastReply = 0,
          creachable = (case r of Some b \<Rightarrow> b | None \<Rightarrow> False), pinged = 0, ctoken = 0\<rparr>)"

definition setSent :: "u64 \<Rightarrow> CandidateNode \<Rightarrow> CandidateNode" where
  "setSent now c = c\<lparr>clastSent := now, pinged := int32 (pinged c + 1)\<rparr>"

definition clearSent :: "CandidateNode \<Rightarrow> CandidateNode" where
  "clearSent c = c\<lparr>clastSent := 0\<rparr>"

definition setReplied :: "u64 \<Rightarrow> CandidateNode \<Rightarrow> CandidateNode" where
  "setReplied now c = c\<lparr>clastReply := now\<rparr>"

definition setToken :: "int \<Rightarrow> CandidateNode \<Rightarrow> CandidateNode" where
  "setToken t c = c\<lparr>ctoken := t\<rparr>"

definition isUnreachable :: "CandidateNode \<Rightarrow> bool" where
  "isUnreachable c \<longleftrightarrow> pinged c \<ge> 3"

definition isInFlight :: "CandidateNode \<Rightarrow> bool" where
  "isInFlight c \<longleftrightarrow> clastSent c \<noteq> 0"

definition cisEligible :: "CandidateNode \<Rightarrow> bool" where
  "cisEligible c \<longleftrightarrow> clastSent c = 0 \<and> pinged c < 3"

record ClosestCandidates =
  cc_target :: Id
  cc_capacity :: nat
  dedup_ids :: "Id list"
  dedups_addrs :: "SocketAddress list"
  cc_closest :: "CandidateNode list"

definition mkClosestCandidates :: "Id \<Rightarrow> nat \<Rightarrow> ClosestCandidates" where
  "mkClosestCandidates t cap = \<lparr>cc_target = t, cc_capacity = cap, dedup_ids = [], dedups_addrs = [], cc_closest = []\<rparr>"

definition cc_reachedCapacity :: "ClosestCandidates \<Rightarrow> bool" where
  "cc_reachedCapacity cc \<longleftrightarrow> length (cc_closest cc) \<ge> cc_capacity cc"

definition cc_get :: "Id \<Rightarrow> ClosestCandidates \<Rightarrow> CandidateNode option" where
  "cc_get i cc = find (\<lambda>c. id_eq i (nodeId c)) (cc_closest cc)"

definition cc_remove :: "Id \<Rightarrow> ClosestCandidates \<Rightarrow> CandidateNode option \<times> ClosestCandidates" where
  "cc_remove i cc =
     (case find (\<lambda>c. id_eq i (nodeId c)) (cc_closest cc) of
        None \<Rightarrow> (None, cc)
      | Some c \<Rightarrow> (Some c, cc\<lparr>cc_closest := erase_first (\<lambda>x. id_eq i (nodeId x)) (cc_closest cc)\<rparr>))"

definition candidateOrder :: "Id \<Rightarrow> CandidateNode \<Rightarrow> CandidateNode \<Rightarrow> int" where
  "candidateOrder target a b =
     (let comparison = int32 (pinged a - pinged b)
      in if comparison \<noteq> 0 then (if comparison < 0 then -1 else 1)
         else threeWayCompare target (nodeId a) (nodeId b))"

definition candidateLess :: "Id \<Rightarrow> CandidateNode \<Rightarrow> CandidateNode \<Rightarrow> bool" where
  "candidateLess target a b \<longleftrightarrow> candidateOrder target a b < 0"

definition distanceLess :: "Id \<Rightarrow> CandidateNode \<Rightarrow> CandidateNode \<Rightarrow> bool" where
  "distanceLess target a b \<longleftrightarrow> threeWayCompare target (nodeId a) (nodeId b) < 0"

definition cc_next :: "ClosestCandidates \<Rightarrow> CandidateNode option" where
  "cc_next cc =
     (let candidates = filter cisEligible (cc_closest cc)
      in if candidates \<noteq> [] then Some (hd (list_sort (candidateLess (cc_target cc)) candidates)) else None)"

definition cc_head :: "ClosestCandidates \<Rightarrow> Id" where
  "cc_head cc = (if cc_closest cc = [] then distance (cc_target cc) MAX_ID else nodeId (hd (cc_closest cc)))"

definition cc_tail :: "ClosestCandidates \<Rightarrow> Id" where
  "cc_tail cc = (if cc_closest cc = [] then distance (cc_target cc) MAX_ID else nodeId (last (cc_closest cc)))"

text \<open>Inserting into a \<^verbatim>\<open>std::set\<close> with the comparison \<open>lt\<close>: nothing is inserted when an equivalent
  element is present.\<close>

definition set_insert :: "('a \<Rightarrow> 'a \<Rightarrow> bool) \<Rightarrow> 'a \<Rightarrow> 'a list \<Rightarrow> bool \<times> 'a list" where
  "set_insert lt x xs = (if \<exists>y\<in>set xs. \<not> lt x y \<and> \<not> lt y x then (False, xs) else (True, x # xs))"

fun dedup :: "(NodeInfo \<times> bool option) list \<Rightarrow> Id list \<Rightarrow> SocketAddress list \<Rightarrow>
    CandidateNode list \<times> Id list \<times> SocketAddress list" where
  "dedup [] ids addrs = ([], ids, addrs)"
| "dedup ((ni, r) # items) ids addrs =
     (let (fresh, ids') = set_insert id_less (nodeId ni) ids
      in if \<not> fresh then dedup items ids' addrs
         else let (freshAddr, addrs') = set_insert IpCompare (sockaddr ni) addrs
              in if \<not> freshAddr then dedup items ids' addrs'
                 else let (cs, s) = dedup items ids' addrs' in (mkCandidateNode ni r # cs, s))"

definition cc_trim :: "ClosestCandidates \<Rightarrow> ClosestCandidates" where
  "cc_trim cc =
     (if length (cc_closest cc) > cc_capacity cc then
        let toRemove = filter (\<lambda>c. \<not> isInFlight c) (cc_closest cc)
        in if length toRemove > cc_capacity cc then
             foldl (\<lambda>cc c. snd (cc_remove (nodeId c) cc)) cc
               (drop (cc_capacity cc) (list_sort (candidateLess (cc_target cc)) toRemove))
           else cc
      else cc)"

definition cc_add :: "(NodeInfo \<times> bool option) list \<Rightarrow> ClosestCandidates \<Rightarrow> ClosestCandidates" where
  "cc_add candidates cc =
     (let (filtered, ids, addrs) = dedup candidates (dedup_ids cc) (dedups_addrs cc);
          sorted_new = list_sort (distanceLess (cc_target cc)) filtered;
          merged = list_merge (distanceLess (cc_target cc)) (cc_closest cc) sorted_new
      in cc_trim (cc\<lparr>dedup_ids := ids, dedups_addrs := addrs, cc_closest := merged\<rparr>))"

text \<open>The closest set is a \<^verbatim>\<open>std::map\<close> from ids to candidates, kept in the order of its keys; the
  comparison of the object at the head with the inserted one is the comparison of their keys.\<close>

record ClosestSet =
  cs_target :: Id
  cs_capacity :: nat
  cs_closest :: "(Id \<times> CandidateNode) list"
  insertAttemptsSinceTailModification :: int
  insertAttemptsSinceHeadModification :: int

definition mkClosestSet :: "Id \<Rightarrow> nat \<Rightarrow> ClosestSet" where
  "mkClosestSet t cap = \<lparr>cs_target = t, cs_capacity = cap, cs_closest = [],
     insertAttemptsSinceTailModification = 0, insertAttemptsSinceHeadModification = 0\<rparr>"

definition cs_reachedCapacity :: "ClosestSet \<Rightarrow> bool" where
  "cs_reachedCapacity s \<longleftrightarrow> length (cs_closest s) \<ge> cs_capacity s"

definition cs_contains :: "Id \<Rightarrow> ClosestSet \<Rightarrow> bool" where
  "cs_contains i s \<longleftrightarrow> (\<exists>p\<in>set (cs_closest s). \<not> id_less i (fst p) \<and> \<not> id_less (fst p) i)"

fun map_assign :: "Id \<Rightarrow> 'v \<Rightarrow> (Id \<times> 'v) list \<Rightarrow> (Id \<times> 'v) list" where
  "map_assign k v [] = [(k, v)]"
| "map_assign k v ((k', v') # m) =
     (if id_less k' k then (k', v') # map_assign k v m
      else if id_less k k' then (k, v) # (k', v') # m
      else (k', v) # m)"

text \<open>\<^verbatim>\<open>add\<close> erases the last element of a set that has grown over its capacity and then reads
  \<^verbatim>\<open>last->second\<close> through the iterator that the erasure has made invalid: undefined behaviour, \<open>None\<close>.\<close>

definition cs_add :: "CandidateNode \<Rightarrow> ClosestSet \<Rightarrow> ClosestSet option" where
  "cs_add cn s =
     (let m = map_assign (nodeId cn) cn (cs_closest s)
      in if length m > cs_capacity s then None
         else Some (s\<lparr>cs_closest := m,
                insertAttemptsSinceHeadModification :=
                  (if fst (hd m) = nodeId cn then 0 else insertAttemptsSinceHeadModification s + 1)\<rparr>))"

definition cs_removeCandidate :: "Id \<Rightarrow> ClosestSet \<Rightarrow> ClosestSet" where
  "cs_removeCandidate i s =
     (if cs_closest s \<noteq> [] then s\<lparr>cs_closest := filter (\<lambda>p. id_less i (fst p) \<or> id_less (fst p) i) (cs_closest s)\<rparr> else s)"

definition cs_getEntries :: "ClosestSet \<Rightarrow> CandidateNode list" where
  "cs_getEntries s = map snd (cs_closest s)"

definition cs_tail :: "ClosestSet \<Rightarrow> Id" where
  "cs_tail s = (if cs_closest s = [] then distance (cs_target s) MAX_ID else fst (last (cs_closest s)))"

definition cs_head :: "ClosestSet \<Rightarrow> Id" where
  "cs_head s = (if cs_closest s = [] then distance (cs_target s) MAX_ID else fst (hd (cs_closest s)))"

definition cs_isEligible :: "ClosestSet \<Rightarrow> bool" where
  "cs_isEligible s \<longleftrightarrow> cs_reachedCapacity s \<and> insertAttemptsSinceTailModification s > int (cs_capacity s)"

section \<open>Orders on candidates\<close>

lemma distanceLess_compare:
  assumes "wf_id t"
  shows "std_compare (distanceLess t) (\<lambda>c. id_val (distance t (nodeId c))) wf_node"
  by unfold_locales (simp add: distanceLess_def threeWayCompare_val wf_node_def assms)

text \<open>The number of pings of a candidate is small: a candidate is asked at most three times.\<close>

definition wf_candidate :: "CandidateNode \<Rightarrow> bool" where
  "wf_candidate c \<longleftrightarrow> wf_node c \<and> 0 \<le> pinged c \<and> pinged c \<le> 3"

definition candidate_key :: "Id \<Rightarrow> CandidateNode \<Rightarrow> nat" where
  "candidate_key t c = nat (pinged c) * 2 ^ 256 + id_val (distance t (nodeId c))"

lemma candidateLess_compare:
  assumes "wf_id t"
  shows "std_compare (candidateLess t) (candidate_key t) wf_candidate"
proof
  fix x y assume "wf_candidate x" "wf_candidate y"
  then have w: "wf_id (nodeId x)" "wf_id (nodeId y)" "0 \<le> pinged x" "pinged x \<le> 3" "0 \<le> pinged y" "pinged y \<le> 3"
    by (auto simp: wf_candidate_def wf_node_def)
  then have i: "int32 (pinged x - pinged y) = pinged x - pinged y" by (intro int32_id) auto
  have d: "id_val (distance t (nodeId x)) < 2 ^ 256" "id_val (distance t (nodeId y)) < 2 ^ 256"
    using w assms by (intro id_val_wf wf_distance; simp)+
  have k: "a * m + d < b * m + e \<longleftrightarrow> a < b \<or> (a = b \<and> d < e)" if "d < m" "e < m" for a b d e m :: nat
    using that mult_add_less [of a b d m e] mult_add_less [of b a e m d] by (cases a b rule: linorder_cases) auto
  show "candidateLess t x y = (candidate_key t x < candidate_key t y)"
    unfolding candidate_key_def k [OF d]
    using w assms i by (auto simp: candidateLess_def candidateOrder_def threeWayCompare_val Let_def)
qed

section \<open>The candidate list\<close>

abbreviation cdist :: "Id \<Rightarrow> CandidateNode \<Rightarrow> nat" where
  "cdist t c \<equiv> id_val (distance t (nodeId c))"

definition cc_inv :: "ClosestCandidates \<Rightarrow> bool" where
  "cc_inv cc \<longleftrightarrow> wf_id (cc_target cc) \<and> (\<forall>i\<in>set (dedup_ids cc). wf_id i)
     \<and> (\<forall>c\<in>set (cc_closest cc). wf_candidate c \<and> nodeId c \<in> set (dedup_ids cc))
     \<and> distinct (map nodeId (cc_closest cc)) \<and> sorted (map (cdist (cc_target cc)) (cc_closest cc))"

lemma cc_invD:
  assumes "cc_inv cc"
  shows "wf_id (cc_target cc)" "\<And>i. i \<in> set (dedup_ids cc) \<Longrightarrow> wf_id i"
    "\<And>c. c \<in> set (cc_closest cc) \<Longrightarrow> wf_candidate c" "\<And>c. c \<in> set (cc_closest cc) \<Longrightarrow> nodeId c \<in> set (dedup_ids cc)"
    "distinct (map nodeId (cc_closest cc))" "sorted (map (cdist (cc_target cc)) (cc_closest cc))"
    "\<And>c. c \<in> set (cc_closest cc) \<Longrightarrow> wf_id (nodeId c)"
  using assms by (auto simp: cc_inv_def wf_candidate_def wf_node_def)

lemma mkClosestCandidates_inv: "wf_id t \<Longrightarrow> cc_inv (mkClosestCandidates t n)"
  by (simp add: cc_inv_def mkClosestCandidates_def)

lemma cc_remove_eq:
  assumes "\<forall>c\<in>set (cc_closest cc). wf_id (nodeId c)" "distinct (map nodeId (cc_closest cc))" "wf_id i"
  shows "snd (cc_remove i cc) = cc\<lparr>cc_closest := filter (\<lambda>c. nodeId c \<noteq> i) (cc_closest cc)\<rparr>"
proof -
  have f: "find (\<lambda>c. id_eq i (nodeId c)) (cc_closest cc) = find (\<lambda>c. nodeId c = i) (cc_closest cc)"
    by (rule find_cong) (use assms in auto)
  have e: "erase_first (\<lambda>c. id_eq i (nodeId c)) xs = erase_first (\<lambda>c. nodeId c = i) xs" if "set xs \<subseteq> set (cc_closest cc)" for xs
    using that assms by (induction xs) auto
  have "filter (\<lambda>c. nodeId c \<noteq> i) (cc_closest cc) = cc_closest cc" if "find (\<lambda>c. nodeId c = i) (cc_closest cc) = None"
    using that by (auto simp: find_None_iff)
  then show ?thesis
    using erase_first_filter [OF assms(2), of i] e [OF subset_refl]
    by (auto simp: cc_remove_def f split: option.split)
qed

lemma cc_filter_inv: "cc_inv cc \<Longrightarrow> cc_inv (cc\<lparr>cc_closest := filter p (cc_closest cc)\<rparr>)"
  by (auto simp: cc_inv_def distinct_map_filter sorted_filter)

lemma cc_remove_all:
  assumes "cc_inv cc" "\<forall>r\<in>set rs. wf_id (nodeId r)"
  shows "foldl (\<lambda>cc c. snd (cc_remove (nodeId c) cc)) cc rs
    = cc\<lparr>cc_closest := filter (\<lambda>c. nodeId c \<notin> nodeId ` set rs) (cc_closest cc)\<rparr>"
  using assms
proof (induction rs arbitrary: cc)
  case Nil
  then show ?case by simp
next
  case (Cons r rs)
  have e: "snd (cc_remove (nodeId r) cc) = cc\<lparr>cc_closest := filter (\<lambda>c. nodeId c \<noteq> nodeId r) (cc_closest cc)\<rparr>"
    using Cons.prems cc_invD(5,7) [OF Cons.prems(1)] by (intro cc_remove_eq) auto
  have i: "cc_inv (snd (cc_remove (nodeId r) cc))" unfolding e by (rule cc_filter_inv [OF Cons.prems(1)])
  show ?case
    using Cons.IH [OF i] Cons.prems(2) by (simp add: e)
qed

lemma set_insert_id:
  assumes "wf_id x" "\<forall>i\<in>set ids. wf_id i"
  shows "set_insert id_less x ids = (if x \<in> set ids then (False, ids) else (True, x # ids))"
proof -
  have "(\<exists>y\<in>set ids. \<not> id_less x y \<and> \<not> id_less y x) \<longleftrightarrow> x \<in> set ids"
    using assms id_val_inject [OF assms(1)] by (auto simp: id_less_val not_less dest: antisym)
  then show ?thesis by (simp add: set_insert_def)
qed

text \<open>The relation between the items given to \<open>dedup\<close> and what it keeps of them.\<close>

definition dedup_ok :: "(NodeInfo \<times> bool option) list \<Rightarrow> Id list \<Rightarrow> CandidateNode list \<Rightarrow> Id list \<Rightarrow> bool" where
  "dedup_ok items ids cs ids' \<longleftrightarrow> (\<forall>i\<in>set ids'. wf_id i) \<and> set ids \<subseteq> set ids' \<and> distinct (map nodeId cs)
     \<and> (\<forall>c\<in>set cs. wf_candidate c \<and> clastSent c = 0 \<and> pinged c = 0 \<and> nodeId c \<in> set ids' \<and> nodeId c \<notin> set ids
          \<and> nodeId c \<in> (\<lambda>x. nodeId (fst x)) ` set items)
     \<and> set ids' = set ids \<union> (\<lambda>x. nodeId (fst x)) ` set items"

lemma mkCandidateNode_simps [simp]:
  "nodeId (mkCandidateNode ni r) = nodeId ni" "sockaddr (mkCandidateNode ni r) = sockaddr ni"
  "clastSent (mkCandidateNode ni r) = 0" "pinged (mkCandidateNode ni r) = 0"
  "wf_candidate (mkCandidateNode ni r) = wf_node ni"
  by (simp_all add: mkCandidateNode_def NodeInfo_copy_def Let_def wf_candidate_def wf_node_def)

lemma dedup_effect:
  assumes "\<forall>x\<in>set items. wf_node (fst x)" "\<forall>i\<in>set ids. wf_id i" "dedup items ids addrs = (cs, ids', addrs')"
  shows "dedup_ok items ids cs ids'"
  using assms
proof (induction items arbitrary: ids addrs cs)
  case Nil
  then show ?case by (auto simp: dedup_ok_def)
next
  case (Cons x items)
  obtain ni r where x: "x = (ni, r)" by fastforce
  have w: "wf_node ni" "wf_id (nodeId ni)" using Cons.prems(1) x by (auto simp: wf_node_def)
  note s = set_insert_id [OF w(2) Cons.prems(2)]
  have w': "\<forall>i\<in>set (nodeId ni # ids). wf_id i" using Cons.prems(2) w(2) by simp
  obtain fr as where a: "set_insert IpCompare (sockaddr ni) addrs = (fr, as)" by fastforce
  consider (known) "nodeId ni \<in> set ids" | (addr) "nodeId ni \<notin> set ids" "\<not> fr" | (new) "nodeId ni \<notin> set ids" fr by blast
  then show ?case
  proof cases
    case known
    with Cons.prems(3) s x have "dedup items ids addrs = (cs, ids', addrs')" by simp
    from Cons.IH [OF _ Cons.prems(2) this] Cons.prems(1) known x show ?thesis by (auto simp: dedup_ok_def)
  next
    case addr
    with Cons.prems(3) s x a have "dedup items (nodeId ni # ids) as = (cs, ids', addrs')" by simp
    from Cons.IH [OF _ w' this] Cons.prems(1) addr x show ?thesis by (auto simp: dedup_ok_def)
  next
    case new
    obtain cs0 where c: "dedup items (nodeId ni # ids) as = (cs0, ids', addrs')" "cs = mkCandidateNode ni r # cs0"
      using Cons.prems(3) s x a new by (auto split: prod.splits)
    from Cons.IH [OF _ w' c(1)] Cons.prems(1) new x w c(2) show ?thesis by (auto simp: dedup_ok_def)
  qed
qed

lemma length_filter_dropped:
  assumes "mset xs = mset ys"
  shows "length (filter (\<lambda>c. f c \<notin> f ` set (drop n ys)) xs) \<le> n"
proof -
  let ?P = "\<lambda>c. f c \<notin> f ` set (drop n ys)"
  have "length (filter ?P xs) = length (filter ?P ys)"
    by (metis assms mset_filter size_mset)
  also have "filter ?P ys = filter ?P (take n ys) @ filter ?P (drop n ys)"
    by (metis append_take_drop_id filter_append)
  also have "filter ?P (drop n ys) = []" by (simp add: filter_empty_conv)
  also have "length (filter ?P (take n ys) @ []) \<le> n"
    using le_trans [OF length_filter_le, of "take n ys" n] by simp
  finally show ?thesis .
qed

lemma trim_inv:
  assumes "cc_inv cc"
  shows "cc_inv (cc_trim cc)" "cc_target (cc_trim cc) = cc_target cc" "cc_capacity (cc_trim cc) = cc_capacity cc"
    "dedup_ids (cc_trim cc) = dedup_ids cc" "set (cc_closest (cc_trim cc)) \<subseteq> set (cc_closest cc)"
    "length (filter (\<lambda>c. \<not> isInFlight c) (cc_closest (cc_trim cc))) \<le> cc_capacity cc"
    "\<And>c. c \<in> set (cc_closest cc) \<Longrightarrow> isInFlight c \<Longrightarrow> c \<in> set (cc_closest (cc_trim cc))"
proof -
  let ?idle = "filter (\<lambda>c. \<not> isInFlight c) (cc_closest cc)" and ?n = "cc_capacity cc"
  let ?s = "list_sort (candidateLess (cc_target cc)) ?idle"
  let ?cc = "cc\<lparr>cc_closest := filter (\<lambda>c. nodeId c \<notin> nodeId ` set (drop ?n ?s)) (cc_closest cc)\<rparr>"
  have ds: "set (drop ?n ?s) \<subseteq> set ?idle" using set_drop_subset set_list_sort by metis
  then have "foldl (\<lambda>cc c. snd (cc_remove (nodeId c) cc)) cc (drop ?n ?s) = ?cc"
    using cc_invD(7) [OF assms] by (intro cc_remove_all [OF assms]) auto
  then have t: "cc_trim cc = (if length ?idle > ?n then ?cc else cc)"
    using less_le_trans [OF _ length_filter_le [of "\<lambda>c. \<not> isInFlight c" "cc_closest cc"], of ?n]
    by (simp add: cc_trim_def Let_def)
  show "cc_inv (cc_trim cc)" unfolding t using assms cc_filter_inv by simp
  show "cc_target (cc_trim cc) = cc_target cc" "cc_capacity (cc_trim cc) = cc_capacity cc"
    "dedup_ids (cc_trim cc) = dedup_ids cc" "set (cc_closest (cc_trim cc)) \<subseteq> set (cc_closest cc)"
    by (auto simp: t)
  have inj: "nodeId c = nodeId d \<Longrightarrow> c = d" if "c \<in> set (cc_closest cc)" "d \<in> set (cc_closest cc)" for c d
    using cc_invD(5) [OF assms] that by (auto simp: distinct_map inj_on_def)
  show "c \<in> set (cc_closest (cc_trim cc))" if c: "c \<in> set (cc_closest cc)" "isInFlight c" for c
  proof -
    have "nodeId c \<notin> nodeId ` set (drop ?n ?s)"
      using ds inj [OF c(1)] c(2) by auto
    with c show ?thesis by (simp add: t)
  qed
  have "filter (\<lambda>c. \<not> isInFlight c) (cc_closest ?cc) = filter (\<lambda>c. nodeId c \<notin> nodeId ` set (drop ?n ?s)) ?idle"
    by (simp add: conj_commute)
  then have "length (filter (\<lambda>c. \<not> isInFlight c) (cc_closest ?cc)) \<le> ?n"
    using length_filter_dropped [of ?idle ?s nodeId ?n] by simp
  then show "length (filter (\<lambda>c. \<not> isInFlight c) (cc_closest (cc_trim cc))) \<le> cc_capacity cc"
    unfolding t by auto
qed

lemma cc_add_effect:
  assumes inv: "cc_inv cc" and items: "\<forall>x\<in>set items. wf_node (fst x)"
  shows "cc_inv (cc_add items cc)"
    "set (dedup_ids (cc_add items cc)) = set (dedup_ids cc) \<union> (\<lambda>x. nodeId (fst x)) ` set items"
    "length (filter (\<lambda>c. \<not> isInFlight c) (cc_closest (cc_add items cc))) \<le> cc_capacity cc"
    "\<And>c. c \<in> set (cc_closest cc) \<Longrightarrow> isInFlight c \<Longrightarrow> c \<in> set (cc_closest (cc_add items cc))"
    "\<And>c. c \<in> set (cc_closest (cc_add items cc)) \<Longrightarrow> c \<in> set (cc_closest cc) \<or>
       (nodeId c \<notin> set (dedup_ids cc) \<and> clastSent c = 0 \<and> pinged c = 0 \<and> nodeId c \<in> (\<lambda>x. nodeId (fst x)) ` set items)"
    "cc_target (cc_add items cc) = cc_target cc" "cc_capacity (cc_add items cc) = cc_capacity cc"
proof -
  let ?t = "cc_target cc"
  obtain cs ids addrs where d: "dedup items (dedup_ids cc) (dedups_addrs cc) = (cs, ids, addrs)"
    by (cases "dedup items (dedup_ids cc) (dedups_addrs cc)") auto
  from dedup_effect [OF items _ d] cc_invD(2) [OF inv] have ok: "dedup_ok items (dedup_ids cc) cs ids" by blast
  let ?new = "list_sort (distanceLess ?t) cs"
  let ?m = "list_merge (distanceLess ?t) (cc_closest cc) ?new"
  let ?cc = "cc\<lparr>dedup_ids := ids, dedups_addrs := addrs, cc_closest := ?m\<rparr>"
  have a: "cc_add items cc = cc_trim ?cc" by (simp add: cc_add_def d Let_def)
  have mm: "mset ?m = mset (cc_closest cc @ cs)" by simp
  have wf: "\<forall>c\<in>set (cc_closest cc). wf_node c" "\<forall>c\<in>set cs. wf_node c"
    using cc_invD(3) [OF inv] ok by (auto simp: wf_candidate_def dedup_ok_def)
  have "nodeId x \<noteq> nodeId y" if "x \<in> set (cc_closest cc)" "y \<in> set cs" for x y
    using cc_invD(4) [OF inv that(1)] ok that(2) unfolding dedup_ok_def by metis
  then have "distinct (map nodeId (cc_closest cc @ cs))"
    using cc_invD(5) [OF inv] ok by (auto simp: dedup_ok_def)
  then have dist: "distinct (map nodeId ?m)" using distinct_map_mset [OF mm] by blast
  have so: "sorted (map (cdist ?t) ?m)"
    using distanceLess_compare [OF cc_invD(1) [OF inv]] wf cc_invD(6) [OF inv]
    by (intro std_compare.sorted_list_merge [where valid = wf_node] std_compare.sorted_list_sort [where valid = wf_node]) auto
  have i: "cc_inv ?cc"
    using cc_invD(1,3,4) [OF inv] ok dist so by (auto simp: cc_inv_def dedup_ok_def)
  note t = trim_inv [OF i]
  show "cc_inv (cc_add items cc)" unfolding a by (rule t(1))
  show "set (dedup_ids (cc_add items cc)) = set (dedup_ids cc) \<union> (\<lambda>x. nodeId (fst x)) ` set items"
    unfolding a t(4) using ok by (simp add: dedup_ok_def)
  show "length (filter (\<lambda>c. \<not> isInFlight c) (cc_closest (cc_add items cc))) \<le> cc_capacity cc"
    unfolding a using t(6) by simp
  show "c \<in> set (cc_closest (cc_add items cc))" if "c \<in> set (cc_closest cc)" "isInFlight c" for c
    unfolding a using that by (intro t(7)) simp_all
  show "c \<in> set (cc_closest cc) \<or> (nodeId c \<notin> set (dedup_ids cc) \<and> clastSent c = 0 \<and> pinged c = 0 \<and> nodeId c \<in> (\<lambda>x. nodeId (fst x)) ` set items)"
    if "c \<in> set (cc_closest (cc_add items cc))" for c
  proof -
    from that t(5) have "c \<in> set (cc_closest cc) \<union> set cs" unfolding a by auto
    with ok show ?thesis by (auto simp: dedup_ok_def)
  qed
  show "cc_target (cc_add items cc) = cc_target cc" "cc_capacity (cc_add items cc) = cc_capacity cc"
    unfolding a t(2,3) by simp_all
qed

lemma cc_next_least:
  assumes "cc_inv cc"
  shows "cc_next cc = None \<longleftrightarrow> (\<forall>c\<in>set (cc_closest cc). \<not> cisEligible c)"
    and "cc_next cc = Some m \<Longrightarrow> m \<in> set (cc_closest cc) \<and> cisEligible m
      \<and> (\<forall>c\<in>set (cc_closest cc). cisEligible c \<longrightarrow> candidate_key (cc_target cc) m \<le> candidate_key (cc_target cc) c)"
proof -
  let ?e = "filter cisEligible (cc_closest cc)" and ?t = "cc_target cc"
  show "cc_next cc = None \<longleftrightarrow> (\<forall>c\<in>set (cc_closest cc). \<not> cisEligible c)"
    by (auto simp: cc_next_def Let_def filter_empty_conv)
  assume "cc_next cc = Some m"
  then have ne: "?e \<noteq> []" and m: "m = hd (list_sort (candidateLess ?t) ?e)"
    by (auto simp: cc_next_def Let_def split: if_splits)
  then obtain ms where ms: "list_sort (candidateLess ?t) ?e = m # ms"
    by (metis length_0_conv length_list_sort list.collapse)
  have "m \<in> set ?e \<and> candidate_key ?t m \<le> candidate_key ?t c" if "c \<in> set ?e" for c
    using std_compare.list_sort_hd_least [OF candidateLess_compare [OF cc_invD(1) [OF assms]] _ ms that]
      cc_invD(3) [OF assms] by auto
  moreover obtain c where "c \<in> set ?e" using ne by (cases ?e) auto
  ultimately show "m \<in> set (cc_closest cc) \<and> cisEligible m
      \<and> (\<forall>c\<in>set (cc_closest cc). cisEligible c \<longrightarrow> candidate_key ?t m \<le> candidate_key ?t c)" by auto
qed

section \<open>The closest set\<close>

definition cs_inv :: "ClosestSet \<Rightarrow> bool" where
  "cs_inv s \<longleftrightarrow> wf_id (cs_target s) \<and> 0 < cs_capacity s \<and> length (cs_closest s) \<le> cs_capacity s
     \<and> (\<forall>p\<in>set (cs_closest s). wf_id (fst p) \<and> nodeId (snd p) = fst p) \<and> sorted (map (\<lambda>p. id_val (fst p)) (cs_closest s))
     \<and> distinct (map fst (cs_closest s))"

lemma mkClosestSet_inv: "wf_id t \<Longrightarrow> 0 < n \<Longrightarrow> cs_inv (mkClosestSet t n)"
  by (simp add: cs_inv_def mkClosestSet_def)

lemma map_assign_effect:
  assumes "wf_id k" "\<forall>p\<in>set m. wf_id (fst p)" "sorted (map (\<lambda>p. id_val (fst p)) m)" "distinct (map fst m)"
  shows "set (map_assign k v m) = insert (k, v) {p \<in> set m. fst p \<noteq> k} \<and> distinct (map fst (map_assign k v m))
    \<and> sorted (map (\<lambda>p. id_val (fst p)) (map_assign k v m)) \<and> length (map_assign k v m) \<le> Suc (length m)"
  using assms
proof (induction m)
  case Nil
  then show ?case by simp
next
  case (Cons p m)
  obtain k' v' where p: "p = (k', v')" by fastforce
  have w: "wf_id k'" using Cons.prems(2) p by simp
  have lt: "id_val k' < id_val (fst q)" if "q \<in> set m" for q
  proof -
    have "id_val k' \<le> id_val (fst q)" "k' \<noteq> fst q" "wf_id (fst q)" using Cons.prems p that by auto
    then show ?thesis using id_val_inject [OF w] by (auto simp: le_less)
  qed
  consider (below) "id_val k' < id_val k" | (above) "id_val k < id_val k'" | (same) "k' = k"
    using id_val_inject [OF w Cons.prems(1)] by (metis linorder_less_linear)
  then show ?case
  proof cases
    case below
    with Cons p w show ?thesis by (auto simp: id_less_val)
  next
    case above
    moreover have "id_val k < id_val (fst q)" if "q \<in> set m" for q using lt [OF that] above by simp
    ultimately show ?thesis using Cons.prems p w by (auto simp: id_less_val)
  next
    case same
    with Cons.prems p w lt show ?thesis by (auto simp: id_less_val)
  qed
qed

lemma length_map_assign: "length (map_assign k v m) \<le> Suc (length m)"
  by (induction k v m rule: map_assign.induct) auto

lemma cs_add_None: "cs_add c s = None \<Longrightarrow> cs_reachedCapacity s"
  using length_map_assign [of "nodeId c" c "cs_closest s"]
  by (auto simp: cs_add_def cs_reachedCapacity_def Let_def split: if_splits)

lemma cs_add_inv:
  assumes inv: "cs_inv s" and c: "wf_id (nodeId c)" and a: "cs_add c s = Some s'"
  shows "cs_inv s'" "set (cs_closest s') = insert (nodeId c, c) {p \<in> set (cs_closest s). fst p \<noteq> nodeId c}"
proof -
  let ?m = "map_assign (nodeId c) c (cs_closest s)"
  have m: "set ?m = insert (nodeId c, c) {p \<in> set (cs_closest s). fst p \<noteq> nodeId c}" "distinct (map fst ?m)"
    "sorted (map (\<lambda>p. id_val (fst p)) ?m)"
    using map_assign_effect [OF c, of "cs_closest s" c] inv by (simp_all add: cs_inv_def)
  have e: "cs_closest s' = ?m" "cs_target s' = cs_target s" "cs_capacity s' = cs_capacity s" "length ?m \<le> cs_capacity s"
    using a by (auto simp: cs_add_def Let_def split: if_splits)
  show "set (cs_closest s') = insert (nodeId c, c) {p \<in> set (cs_closest s). fst p \<noteq> nodeId c}" using m(1) e(1) by simp
  show "cs_inv s'" using m inv c e by (auto simp: cs_inv_def)
qed

text \<open>Exactly the answer of one more node than the set can hold is undefined.\<close>

lemma cs_add_None_iff:
  assumes inv: "cs_inv s" and c: "wf_id (nodeId c)"
  shows "cs_add c s = None \<longleftrightarrow> cs_reachedCapacity s \<and> nodeId c \<notin> fst ` set (cs_closest s)"
proof -
  let ?m = "map_assign (nodeId c) c (cs_closest s)"
  have m: "set ?m = insert (nodeId c, c) {p \<in> set (cs_closest s). fst p \<noteq> nodeId c}" "distinct (map fst ?m)"
    using map_assign_effect [OF c, of "cs_closest s" c] inv by (simp_all add: cs_inv_def)
  have "length ?m = card (fst ` set ?m)" using m(2) by (metis distinct_card length_map list.set_map)
  moreover have "fst ` set ?m = insert (nodeId c) (fst ` set (cs_closest s))" using m(1) by force
  moreover have "length (cs_closest s) = card (fst ` set (cs_closest s))"
    using inv by (metis cs_inv_def distinct_card length_map list.set_map)
  ultimately have "length ?m = (if nodeId c \<in> fst ` set (cs_closest s) then length (cs_closest s) else Suc (length (cs_closest s)))"
    by (simp add: insert_absorb)
  then show ?thesis using inv by (auto simp: cs_add_def cs_reachedCapacity_def cs_inv_def Let_def)
qed

end
