(* ===== verification/Closest_Nodes.thy ===== *)
theory Closest_Nodes
  imports Routing_Invariants
begin

text \<open>
  The selection of the table entries close to a target: \<^verbatim>\<open>src/core/kclosest_nodes.cc\<close> and
  \<^verbatim>\<open>src/core/kclosest_nodes.h\<close>. The lemmas show that \<open>kcn_fill\<close> always returns, that it returns at most
  the number of entries asked for, only eligible ones, and that \<open>shave\<close> keeps the closest.
\<close>

section \<open>Definitions\<close>

text \<open>The list of \<^verbatim>\<open>Sp<KBucketEntry>\<close> holds entries of the table and, behind a \<^verbatim>\<open>static_pointer_cast\<close>,
  plain bootstrap nodes, which are no \<^verbatim>\<open>KBucketEntry\<close>: of such a \<open>Downcast\<close> only the members of
  \<^verbatim>\<open>NodeInfo\<close> exist, and no definition reads another one.\<close>

datatype Listed = Own KBucketEntry | Downcast NodeInfo

primrec listed_node :: "Listed \<Rightarrow> NodeInfo" where
  "listed_node (Own e) = \<lparr>nodeId = nodeId e, sockaddr = sockaddr e, version = version e\<rparr>"
| "listed_node (Downcast n) = n"

record KClosestNodes =
  ktarget :: Id
  maxEntries :: int
  kfilter :: "KBucketEntry \<Rightarrow> bool"
  kentries :: "Listed list"

definition mkKClosestNodes :: "Id \<Rightarrow> int \<Rightarrow> (KBucketEntry \<Rightarrow> bool) \<Rightarrow> KClosestNodes" where
  "mkKClosestNodes t n f = \<lparr>ktarget = t, maxEntries = n, kfilter = f, kentries = []\<rparr>"

definition defaultKClosestNodes :: "Id \<Rightarrow> int \<Rightarrow> KClosestNodes" where
  "defaultKClosestNodes t n = mkKClosestNodes t n isEligibleForNodesList"

text \<open>\<^verbatim>\<open>entries.size() < maxEntries\<close> converts the signed bound to an unsigned one.\<close>

definition below_max :: "KClosestNodes \<Rightarrow> bool" where
  "below_max k \<longleftrightarrow> int (length (kentries k)) < maxEntries k mod 2 ^ 64"

definition kcn_isFull :: "KClosestNodes \<Rightarrow> bool" where
  "kcn_isFull k \<longleftrightarrow> \<not> below_max k"

definition insertEntries :: "KBucket \<Rightarrow> KClosestNodes \<Rightarrow> KClosestNodes" where
  "insertEntries b k = k\<lparr>kentries := kentries k @ map Own (filter (kfilter k) (entries b))\<rparr>"

definition closer :: "Id \<Rightarrow> Listed \<Rightarrow> Listed \<Rightarrow> bool" where
  "closer t a b \<longleftrightarrow> threeWayCompare t (nodeId (listed_node a)) (nodeId (listed_node b)) < 0"

definition shave :: "KClosestNodes \<Rightarrow> KClosestNodes" where
  "shave k =
     (let overshoot = int32 (int (length (kentries k)) - maxEntries k)
      in if overshoot \<le> 0 then k
         else let sorted_entries = list_sort (closer (ktarget k)) (kentries k)
              in k\<lparr>kentries := take (nat (int (length sorted_entries) - overshoot)) sorted_entries\<rparr>)"

text \<open>The loop of \<^verbatim>\<open>fill\<close> over the neighbours of the target's bucket.\<close>

function fill_loop :: "KBucket list \<Rightarrow> int \<Rightarrow> int \<Rightarrow> KClosestNodes \<Rightarrow> KClosestNodes option" where
  "fill_loop bs low high k =
     (if below_max k then
        let hasLow = low > 0; hasHigh = high < int (length bs) - 1
        in if \<not> hasLow \<and> \<not> hasHigh then Some k
           else if \<not> hasLow then
             do { hb \<leftarrow> list_get bs (high + 1); fill_loop bs low (high + 1) (insertEntries hb k) }
           else if \<not> hasHigh then
             do { lb \<leftarrow> list_get bs (low - 1); fill_loop bs (low - 1) high (insertEntries lb k) }
           else do { lb \<leftarrow> list_get bs (low - 1); hb \<leftarrow> list_get bs (high + 1);
                     let dir = threeWayCompare (ktarget k) (prefix_last (bprefix lb)) (prefix_first (bprefix hb))
                     in if dir < 0 then fill_loop bs (low - 1) high (insertEntries lb k)
                        else if dir > 0 then fill_loop bs low (high + 1) (insertEntries hb k)
                        else fill_loop bs (low - 1) (high + 1) (insertEntries hb (insertEntries lb k)) }
      else Some k)"
  by pat_completeness auto
termination
  by (relation "measure (\<lambda>(bs, low, high, _). nat low + nat (int (length bs) - 1 - high))") auto

definition kcn_collect :: "RoutingTable \<Rightarrow> KClosestNodes \<Rightarrow> KClosestNodes option" where
  "kcn_collect rt k =
     do { idx \<leftarrow> indexOf (buckets rt) (ktarget k);
          kb \<leftarrow> list_get (buckets rt) idx;
          fill_loop (buckets rt) idx idx (insertEntries kb k) }"

text \<open>\<open>bootstrap\<close> are the bootstrap nodes of the configuration, pushed through the wrong cast,
  \<open>usable\<close> is \<^verbatim>\<open>DHT::canUseSocketAddress\<close> and \<open>self\<close> the entry made of the node's own id and address.\<close>

definition kcn_fill ::
  "NodeInfo list \<Rightarrow> (SocketAddress \<Rightarrow> bool) \<Rightarrow> KBucketEntry \<Rightarrow> bool \<Rightarrow> RoutingTable \<Rightarrow> KClosestNodes \<Rightarrow> KClosestNodes option" where
  "kcn_fill bootstrap usable self includeSelf rt k =
     do { k1 \<leftarrow> kcn_collect rt k;
          let k2 = (if below_max k1
                    then k1\<lparr>kentries := kentries k1 @ map Downcast (filter (\<lambda>b. usable (sockaddr b)) bootstrap)\<rparr> else k1);
              k3 = (if below_max k2 \<and> includeSelf then k2\<lparr>kentries := kentries k2 @ [Own self]\<rparr> else k2)
          in Some (shave k3) }"

definition asNodeList :: "KClosestNodes \<Rightarrow> NodeInfo list" where
  "asNodeList k = map listed_node (kentries k)"

section \<open>Shaving\<close>

lemma closer_val:
  "wf_id t \<Longrightarrow> wf_id (nodeId (listed_node a)) \<Longrightarrow> wf_id (nodeId (listed_node b)) \<Longrightarrow>
    closer t a b \<longleftrightarrow> id_val (distance t (nodeId (listed_node a))) < id_val (distance t (nodeId (listed_node b)))"
  by (simp add: closer_def threeWayCompare_val)

text \<open>The comparator of the distance to a fixed target satisfies the contract of \<^verbatim>\<open>std::list::sort\<close>.\<close>

lemma closer_compare:
  assumes "wf_id t"
  shows "std_compare (closer t) (\<lambda>e. id_val (distance t (nodeId (listed_node e)))) (\<lambda>e. wf_id (nodeId (listed_node e)))"
  by unfold_locales (simp add: closer_val assms)

lemma shave_fields [simp]: "ktarget (shave k) = ktarget k" "maxEntries (shave k) = maxEntries k" "kfilter (shave k) = kfilter k"
  by (simp_all add: shave_def Let_def)

lemma shave_noop: "length (kentries k) < 2 ^ 31 \<Longrightarrow> 0 \<le> maxEntries k \<Longrightarrow> maxEntries k < 2 ^ 31 \<Longrightarrow>
    int (length (kentries k)) \<le> maxEntries k \<Longrightarrow> shave k = k"
  by (simp add: shave_def int32_id)

lemma shave_cut:
  assumes "length (kentries k) < 2 ^ 31" "0 \<le> maxEntries k" "maxEntries k < 2 ^ 31"
    "maxEntries k < int (length (kentries k))"
  shows "kentries (shave k) = take (nat (maxEntries k)) (list_sort (closer (ktarget k)) (kentries k))"
proof -
  have "int32 (int (length (kentries k)) - maxEntries k) = int (length (kentries k)) - maxEntries k"
    using assms by (intro int32_id) auto
  with assms show ?thesis by (simp add: shave_def Let_def)
qed

lemma shave_bound:
  assumes "length (kentries k) < 2 ^ 31" "0 \<le> maxEntries k" "maxEntries k < 2 ^ 31"
  shows "int (length (kentries (shave k))) = min (maxEntries k) (int (length (kentries k)))"
    "set (kentries (shave k)) \<subseteq> set (kentries k)"
proof -
  have c: "int (length (kentries (shave k))) = min (maxEntries k) (int (length (kentries k)))
      \<and> set (kentries (shave k)) \<subseteq> set (kentries k)"
  proof (cases "int (length (kentries k)) \<le> maxEntries k")
    case True
    then show ?thesis using shave_noop [OF assms] by simp
  next
    case False
    then show ?thesis
      using shave_cut [OF assms] set_take_subset [of _ "list_sort (closer (ktarget k)) (kentries k)"] assms(2) by simp
  qed
  then show "int (length (kentries (shave k))) = min (maxEntries k) (int (length (kentries k)))"
    "set (kentries (shave k)) \<subseteq> set (kentries k)" by simp_all
qed

lemma sorted_take_drop:
  assumes "sorted (map f xs)" "x \<in> set (take n xs)" "y \<in> set (drop n xs)"
  shows "f x \<le> f y"
proof -
  have "sorted (map f (take n xs) @ map f (drop n xs))"
    using assms(1) by (simp flip: map_append)
  with assms(2,3) show ?thesis unfolding sorted_append by simp
qed

lemma shave_closest:
  assumes "length (kentries k) < 2 ^ 31" "0 \<le> maxEntries k" "maxEntries k < 2 ^ 31"
    and "wf_id (ktarget k)" "\<forall>e\<in>set (kentries k). wf_id (nodeId (listed_node e))"
    and "x \<in> set (kentries (shave k))" "y \<in> set (kentries k)" "y \<notin> set (kentries (shave k))"
  shows "id_val (distance (ktarget k) (nodeId (listed_node x))) \<le> id_val (distance (ktarget k) (nodeId (listed_node y)))"
proof (cases "int (length (kentries k)) \<le> maxEntries k")
  case True
  then show ?thesis using shave_noop [OF assms(1-3)] assms(7,8) by simp
next
  case False
  note c = std_compare.sorted_list_sort [OF closer_compare [OF assms(4)]]
  let ?s = "list_sort (closer (ktarget k)) (kentries k)" and ?n = "nat (maxEntries k)"
  have k: "kentries (shave k) = take ?n ?s" using shave_cut [OF assms(1-3)] False by simp
  have "y \<in> set (take ?n ?s) \<union> set (drop ?n ?s)"
    using assms(7) by (metis append_take_drop_id set_append set_list_sort)
  with assms(6,8) k c [of "kentries k"] assms(5) show ?thesis
    by (intro sorted_take_drop [of _ ?s x ?n y]) auto
qed

section \<open>Filling\<close>

lemma list_get_in: "list_get xs i = Some x \<Longrightarrow> x \<in> set xs"
  by (auto simp: list_get_Some)

text \<open>The eligible entries of the buckets with the indices from \<open>low\<close> to \<open>high\<close>.\<close>

definition eligible_between :: "KBucket list \<Rightarrow> (KBucketEntry \<Rightarrow> bool) \<Rightarrow> int \<Rightarrow> int \<Rightarrow> KBucketEntry set" where
  "eligible_between bs f low high =
     {e. f e \<and> (\<exists>i b. low \<le> i \<and> i \<le> high \<and> list_get bs i = Some b \<and> e \<in> set (entries b))}"

lemma eligible_extend:
  assumes "low \<le> high"
  shows "list_get bs (high + 1) = Some b \<Longrightarrow>
      eligible_between bs f low (high + 1) = eligible_between bs f low high \<union> set (filter f (entries b))"
    and "list_get bs (low - 1) = Some b \<Longrightarrow>
      eligible_between bs f (low - 1) high = eligible_between bs f low high \<union> set (filter f (entries b))"
proof -
  have "i \<le> high + 1 \<longleftrightarrow> i \<le> high \<or> i = high + 1" "low - 1 \<le> i \<longleftrightarrow> low \<le> i \<or> i = low - 1" for i by auto
  with assms show "list_get bs (high + 1) = Some b \<Longrightarrow>
      eligible_between bs f low (high + 1) = eligible_between bs f low high \<union> set (filter f (entries b))"
    "list_get bs (low - 1) = Some b \<Longrightarrow>
      eligible_between bs f (low - 1) high = eligible_between bs f low high \<union> set (filter f (entries b))"
    unfolding eligible_between_def by fastforce+
qed

lemma eligible_all:
  "eligible_between bs f 0 (int (length bs) - 1) = {e. f e \<and> (\<exists>b\<in>set bs. e \<in> set (entries b))}" (is "?L = ?R")
proof
  show "?L \<subseteq> ?R" by (auto simp: eligible_between_def list_get_Some)
  show "?R \<subseteq> ?L"
  proof
    fix e assume "e \<in> ?R"
    then obtain b where "b \<in> set bs" "e \<in> set (entries b)" "f e" by blast
    then obtain i where "i < length bs" "e \<in> set (entries (bs ! i))" "f e" by (metis in_set_conv_nth)
    then show "e \<in> ?L" unfolding eligible_between_def by (auto intro!: exI [of _ "int i"])
  qed
qed

definition fill_ok :: "KBucket list \<Rightarrow> KClosestNodes \<Rightarrow> int \<Rightarrow> int \<Rightarrow> KClosestNodes \<Rightarrow> bool" where
  "fill_ok bs k0 low high k \<longleftrightarrow> 0 \<le> low \<and> low \<le> high \<and> high < int (length bs)
     \<and> ktarget k = ktarget k0 \<and> maxEntries k = maxEntries k0 \<and> kfilter k = kfilter k0
     \<and> set (kentries k) = Own ` eligible_between bs (kfilter k0) low high
     \<and> int (length (kentries k)) \<le> maxEntries k0 + 16"

lemma insertEntries_ok:
  assumes b: "\<forall>b\<in>set bs. length (entries b) \<le> 8" and k: "fill_ok bs k0 low high k" "below_max k"
    and m: "0 \<le> maxEntries k0" "maxEntries k0 < 2 ^ 64"
  shows "high + 1 < int (length bs) \<Longrightarrow> list_get bs (high + 1) = Some hb \<Longrightarrow> fill_ok bs k0 low (high + 1) (insertEntries hb k)"
    and "0 < low \<Longrightarrow> list_get bs (low - 1) = Some lb \<Longrightarrow> fill_ok bs k0 (low - 1) high (insertEntries lb k)"
    and "0 < low \<Longrightarrow> high + 1 < int (length bs) \<Longrightarrow> list_get bs (low - 1) = Some lb \<Longrightarrow> list_get bs (high + 1) = Some hb
      \<Longrightarrow> fill_ok bs k0 (low - 1) (high + 1) (insertEntries hb (insertEntries lb k))"
proof -
  have lt: "int (length (kentries k)) < maxEntries k0"
    using k m by (simp add: below_max_def fill_ok_def)
  have len: "int (length (filter f (entries x))) \<le> 8" if "list_get bs i = Some x" for f x i
  proof -
    have "x \<in> set bs" using that by (auto simp: list_get_Some)
    with b show ?thesis using le_trans [OF length_filter_le] by fastforce
  qed
  have e: "0 \<le> low" "low \<le> high" "high < int (length bs)" using k(1) by (auto simp: fill_ok_def)
  show "fill_ok bs k0 low (high + 1) (insertEntries hb k)"
    if "high + 1 < int (length bs)" "list_get bs (high + 1) = Some hb"
    using k(1) lt len [OF that(2), of "kfilter k0"] eligible_extend(1) [OF e(2) that(2)] that
    by (simp add: fill_ok_def insertEntries_def image_Un)
  show "fill_ok bs k0 (low - 1) high (insertEntries lb k)" if "0 < low" "list_get bs (low - 1) = Some lb"
    using k(1) lt len [OF that(2), of "kfilter k0"] eligible_extend(2) [OF e(2) that(2)] that
    by (simp add: fill_ok_def insertEntries_def image_Un)
  show "fill_ok bs k0 (low - 1) (high + 1) (insertEntries hb (insertEntries lb k))"
    if "0 < low" "high + 1 < int (length bs)" "list_get bs (low - 1) = Some lb" "list_get bs (high + 1) = Some hb"
    using k(1) lt len [OF that(3), of "kfilter k0"] len [OF that(4), of "kfilter k0"]
      eligible_extend(2) [OF e(2) that(3), of "kfilter k0"]
      eligible_extend(1) [OF _ that(4), of "low - 1" "kfilter k0"] that e
    by (simp add: fill_ok_def insertEntries_def image_Un Un_assoc)
qed

text \<open>One turn of the loop widens the range of indices and keeps the description of what was collected.\<close>

lemma fill_loop_step:
  assumes b: "\<forall>b\<in>set bs. length (entries b) \<le> 8" and m: "0 \<le> maxEntries k0" "maxEntries k0 < 2 ^ 64"
    and k: "fill_ok bs k0 low high k" "below_max k" "low > 0 \<or> high < int (length bs) - 1"
  shows "\<exists>low' high' k'. fill_loop bs low high k = fill_loop bs low' high' k' \<and> fill_ok bs k0 low' high' k'
    \<and> nat low' + nat (int (length bs) - 1 - high') < nat low + nat (int (length bs) - 1 - high)"
proof -
  note [simp del] = fill_loop.simps
  have r: "0 \<le> low" "low \<le> high" "high < int (length bs)" using k(1) by (auto simp: fill_ok_def)
  note step = insertEntries_ok [OF b k(1,2) m]
  have lb: "\<exists>x. list_get bs (low - 1) = Some x" if "0 < low" using that r by (simp add: list_get_def)
  have hb: "\<exists>x. list_get bs (high + 1) = Some x" if "high < int (length bs) - 1" using that r by (simp add: list_get_def)
  consider (h) "\<not> low > 0" "high < int (length bs) - 1" | (l) "low > 0" "\<not> high < int (length bs) - 1"
    | (both) "low > 0" "high < int (length bs) - 1" using k(3) by blast
  then show ?thesis
  proof cases
    case h
    then obtain x where x: "list_get bs (high + 1) = Some x" using hb by blast
    with k(2) h have "fill_loop bs low high k = fill_loop bs low (high + 1) (insertEntries x k)"
      by (subst fill_loop.simps) (simp add: Let_def)
    with step(1) [OF _ x] h show ?thesis by (intro exI conjI) auto
  next
    case l
    then obtain x where x: "list_get bs (low - 1) = Some x" using lb by blast
    with k(2) l have "fill_loop bs low high k = fill_loop bs (low - 1) high (insertEntries x k)"
      by (subst fill_loop.simps) (simp add: Let_def)
    with step(2) [OF _ x] l show ?thesis by (intro exI conjI) auto
  next
    case both
    then obtain x y where xy: "list_get bs (low - 1) = Some x" "list_get bs (high + 1) = Some y" using lb hb by blast
    let ?d = "threeWayCompare (ktarget k) (prefix_last (bprefix x)) (prefix_first (bprefix y))"
    have e: "fill_loop bs low high k = (if ?d < 0 then fill_loop bs (low - 1) high (insertEntries x k)
       else if ?d > 0 then fill_loop bs low (high + 1) (insertEntries y k)
       else fill_loop bs (low - 1) (high + 1) (insertEntries y (insertEntries x k)))"
      using k(2) both xy by (subst fill_loop.simps) (simp add: Let_def)
    have ok: "fill_ok bs k0 low (high + 1) (insertEntries y k)" "fill_ok bs k0 (low - 1) high (insertEntries x k)"
      "fill_ok bs k0 (low - 1) (high + 1) (insertEntries y (insertEntries x k))"
      using step(1) [OF _ xy(2)] step(2) [OF _ xy(1)] step(3) [OF _ _ xy] both by auto
    have lt: "nat (low - 1) < nat low" "nat (int (length bs) - 1 - (high + 1)) < nat (int (length bs) - 1 - high)"
      using both by auto
    consider "?d < 0" | "\<not> ?d < 0" "?d > 0" | "\<not> ?d < 0" "\<not> ?d > 0" by linarith
    then show ?thesis
    proof cases
      case 1
      with e ok(2) lt show ?thesis by (intro exI [of _ "low - 1"] exI [of _ high] exI [of _ "insertEntries x k"]) simp
    next
      case 2
      with e ok(1) lt show ?thesis by (intro exI [of _ low] exI [of _ "high + 1"] exI [of _ "insertEntries y k"]) simp
    next
      case 3
      with e ok(3) lt show ?thesis
        by (intro exI [of _ "low - 1"] exI [of _ "high + 1"] exI [of _ "insertEntries y (insertEntries x k)"]) simp
    qed
  qed
qed

lemma fill_loop_total:
  assumes b: "\<forall>b\<in>set bs. length (entries b) \<le> 8" and m: "0 \<le> maxEntries k0" "maxEntries k0 < 2 ^ 64"
    and "fill_ok bs k0 low high k"
  shows "\<exists>k' lo hi. fill_loop bs low high k = Some k' \<and> fill_ok bs k0 lo hi k'
    \<and> (\<not> below_max k' \<or> (lo = 0 \<and> hi = int (length bs) - 1))"
  using assms(4)
proof (induction "nat low + nat (int (length bs) - 1 - high)" arbitrary: low high k rule: less_induct)
  case less
  have r: "0 \<le> low" "low \<le> high" "high < int (length bs)" using less.prems by (auto simp: fill_ok_def)
  show ?case
  proof (cases "below_max k \<and> (low > 0 \<or> high < int (length bs) - 1)")
    case False
    then have "fill_loop bs low high k = Some k" by (subst fill_loop.simps) (auto simp: Let_def)
    moreover have "\<not> below_max k \<or> low = 0 \<and> high = int (length bs) - 1" using False r by auto
    ultimately show ?thesis using less.prems by blast
  next
    case True
    from fill_loop_step [OF b m less.prems] True obtain low' high' k' where
      s: "fill_loop bs low high k = fill_loop bs low' high' k'" "fill_ok bs k0 low' high' k'"
        "nat low' + nat (int (length bs) - 1 - high') < nat low + nat (int (length bs) - 1 - high)" by blast
    from less.hyps [OF s(3,2)] show ?thesis unfolding s(1) .
  qed
qed

lemma kcn_collect_total:
  assumes inv: "rt_inv rt" and k: "wf_id (ktarget k)" "kentries k = []" "0 \<le> maxEntries k" "maxEntries k < 2 ^ 64"
  obtains k' where "kcn_collect rt k = Some k'" "ktarget k' = ktarget k" "maxEntries k' = maxEntries k" "kfilter k' = kfilter k"
    "int (length (kentries k')) \<le> maxEntries k + 16"
    "\<forall>x\<in>set (kentries k'). x \<in> Own ` {e \<in> set (rt_entries rt). kfilter k e}"
    "\<not> below_max k' \<or> set (kentries k') = Own ` {e \<in> set (rt_entries rt). kfilter k e}"
proof -
  let ?bs = "buckets rt"
  from indexOf_finds [OF inv k(1)] obtain i where
    i: "i < length ?bs" "indexOf ?bs (ktarget k) = Some (int i)" by blast
  let ?kb = "?bs ! i"
  have b: "\<forall>b\<in>set ?bs. length (entries b) \<le> 8"
    using rt_invD(6) [OF inv] bucket_invD(2) by (force simp: KBucket_constants)
  have "int (length (filter (kfilter k) (entries ?kb))) \<le> 8"
    using b i(1) le_trans [OF length_filter_le] by (meson nth_mem of_nat_le_numeral_iff)
  then have "fill_ok ?bs k (int i) (int i) (insertEntries ?kb k)"
    using i(1) k by (auto simp: fill_ok_def insertEntries_def eligible_between_def intro!: imageI)
  from fill_loop_total [OF b k(3,4) this] obtain k' lo hi where
    f: "fill_loop ?bs (int i) (int i) (insertEntries ?kb k) = Some k'" "fill_ok ?bs k lo hi k'"
      "\<not> below_max k' \<or> lo = 0 \<and> hi = int (length ?bs) - 1" by blast
  have c: "kcn_collect rt k = Some k'" using i f(1) by (simp add: kcn_collect_def)
  have s: "set (kentries k') = Own ` eligible_between ?bs (kfilter k) lo hi" using f(2) by (simp add: fill_ok_def)
  have "\<forall>x\<in>set (kentries k'). x \<in> Own ` {e \<in> set (rt_entries rt). kfilter k e}"
    unfolding s by (auto simp: eligible_between_def set_rt_entries dest: list_get_in)
  moreover have "\<not> below_max k' \<or> set (kentries k') = Own ` {e \<in> set (rt_entries rt). kfilter k e}"
  proof -
    have "{e. kfilter k e \<and> (\<exists>b\<in>set ?bs. e \<in> set (entries b))} = {e \<in> set (rt_entries rt). kfilter k e}"
      unfolding set_rt_entries by blast
    then show ?thesis using f(3) eligible_all [of ?bs "kfilter k"] s by metis
  qed
  moreover have "ktarget k' = ktarget k" "maxEntries k' = maxEntries k" "kfilter k' = kfilter k"
    "int (length (kentries k')) \<le> maxEntries k + 16" using f(2) by (simp_all add: fill_ok_def)
  ultimately show ?thesis by (intro that [OF c])
qed

text \<open>What \<open>kcn_fill\<close> adds to the collected entries before it shaves them.\<close>

definition kcn_extras :: "NodeInfo list \<Rightarrow> (SocketAddress \<Rightarrow> bool) \<Rightarrow> KBucketEntry \<Rightarrow> Listed set" where
  "kcn_extras bootstrap usable self = insert (Own self) (Downcast ` {b \<in> set bootstrap. usable (sockaddr b)})"

lemma kcn_fill_total:
  assumes inv: "rt_inv rt" and k: "wf_id (ktarget k)" "kentries k = []" "0 \<le> maxEntries k" "maxEntries k < 2 ^ 30"
    and bs: "length bootstrap < 2 ^ 29"
  obtains k3 where "kcn_fill bootstrap usable self includeSelf rt k = Some (shave k3)"
    "ktarget k3 = ktarget k" "maxEntries k3 = maxEntries k" "length (kentries k3) < 2 ^ 31"
    "\<forall>x\<in>set (kentries k3). x \<in> Own ` {e \<in> set (rt_entries rt). kfilter k e} \<or> x \<in> kcn_extras bootstrap usable self"
    "int (length (kentries k3)) < maxEntries k \<Longrightarrow> Own ` {e \<in> set (rt_entries rt). kfilter k e} \<subseteq> set (kentries k3)"
proof -
  have "maxEntries k < 2 ^ 64" using k(4) by simp
  from kcn_collect_total [OF inv k(1-3) this] obtain k1 where
    c: "kcn_collect rt k = Some k1" "ktarget k1 = ktarget k" "maxEntries k1 = maxEntries k" and "kfilter k1 = kfilter k"
      and c2: "int (length (kentries k1)) \<le> maxEntries k + 16" "\<forall>x\<in>set (kentries k1). x \<in> Own ` {e \<in> set (rt_entries rt). kfilter k e}"
      "\<not> below_max k1 \<or> set (kentries k1) = Own ` {e \<in> set (rt_entries rt). kfilter k e}" .
  let ?bs = "map Downcast (filter (\<lambda>b. usable (sockaddr b)) bootstrap)"
  define k2 where "k2 = (if below_max k1 then k1\<lparr>kentries := kentries k1 @ ?bs\<rparr> else k1)"
  define k3 where "k3 = (if below_max k2 \<and> includeSelf then k2\<lparr>kentries := kentries k2 @ [Own self]\<rparr> else k2)"
  obtain xs where x: "kentries k3 = kentries k1 @ xs" "set xs \<subseteq> kcn_extras bootstrap usable self" "length xs \<le> Suc (length ?bs)"
  proof
    let ?xs = "(if below_max k1 then ?bs else []) @ (if below_max k2 \<and> includeSelf then [Own self] else [])"
    show "kentries k3 = kentries k1 @ ?xs" by (simp add: k3_def k2_def)
    show "set ?xs \<subseteq> kcn_extras bootstrap usable self" by (auto simp: kcn_extras_def)
    show "length ?xs \<le> Suc (length ?bs)" by simp
  qed
  have f: "kcn_fill bootstrap usable self includeSelf rt k = Some (shave k3)"
    using c(1) by (simp add: kcn_fill_def k2_def k3_def Let_def)
  have "length xs \<le> Suc (length bootstrap)"
    using x(3) length_filter_le [of "\<lambda>b. usable (sockaddr b)" bootstrap] unfolding length_map by linarith
  then have len: "length (kentries k3) < 2 ^ 31" using x(1) c2(1) k(4) bs by simp
  have e: "\<forall>x\<in>set (kentries k3). x \<in> Own ` {e \<in> set (rt_entries rt). kfilter k e} \<or> x \<in> kcn_extras bootstrap usable self"
    using x(1,2) c2(2) by auto
  have "Own ` {e \<in> set (rt_entries rt). kfilter k e} \<subseteq> set (kentries k3)" if "int (length (kentries k3)) < maxEntries k"
  proof -
    have "below_max k1" using that x(1) c(3) k(3,4) by (simp add: below_max_def)
    with c2(3) x(1) show ?thesis by auto
  qed
  moreover have "ktarget k3 = ktarget k" "maxEntries k3 = maxEntries k" using c(2,3) by (simp_all add: k3_def k2_def)
  ultimately show ?thesis using len e by (intro that [OF f])
qed

end
