(* ===== verification/Tasks.thy ===== *)
theory Tasks
  imports Rpc Message_Contents Lookup_Sets Closest_Nodes
begin

text \<open>
  The asynchronous tasks of the DHT: \<^verbatim>\<open>src/core/task/task.cc\<close>, \<^verbatim>\<open>task.h\<close>, \<^verbatim>\<open>lookup_task.cc\<close>,
  \<^verbatim>\<open>node_lookup.cc\<close>, \<^verbatim>\<open>value_lookup.cc\<close>, \<^verbatim>\<open>peer_lookup.cc\<close>, \<^verbatim>\<open>value_announce.cc\<close>, \<^verbatim>\<open>peer_announce.cc\<close> and
  \<^verbatim>\<open>ping_refresh_task.cc\<close>. A task is a record; its subclass is the value \<open>kind\<close>, with the members of the
  subclass. The operations act on a \<open>Run\<close>: the task, the supply of names for the call objects it
  creates, what it has asked other components to do (in order), and the exception or undefined
  behaviour that ended the operation, if any. A candidate object of a lookup is named by its id: an id
  is never added twice, and a candidate with a call in flight is never trimmed. The closures that
  \<^verbatim>\<open>dht.cc\<close> installs as result handlers are the records \<open>ValueHandler\<close> and \<open>PeerHandler\<close> of the
  variables they capture. The production build is modelled: \<^verbatim>\<open>CARRIER_DEVELOPMENT\<close> is not defined.
\<close>

section \<open>Tasks and their kinds\<close>

definition MAX_CONCURRENT_TASK_REQUESTS :: nat where "MAX_CONCURRENT_TASK_REQUESTS = 10"

datatype TaskState = INITIAL | QUEUED | RUNNING | FINISHED | TASK_CANCELED

datatype LookupOption = LOCAL | ARBITRARY | OPTIMISTIC | CONSERVATIVE

record LookupTask =
  lt_target :: Id
  closestSet :: ClosestSet
  closestCandidates :: ClosestCandidates

definition mkLookupTask :: "Id \<Rightarrow> LookupTask" where
  "mkLookupTask i = \<lparr>lt_target = i, closestSet = mkClosestSet i MAX_ENTRIES_PER_BUCKET,
     closestCandidates = mkClosestCandidates i (MAX_ENTRIES_PER_BUCKET * 3)\<rparr>"

record ValueHandler =
  vh_option :: LookupOption
  vh_value :: "Value option"

record PeerHandler =
  ph_expected :: int
  ph_option :: LookupOption
  ph_peers :: "PeerInfo list"

datatype Kind =
    NodeLookup LookupTask bool bool
  | ValueLookup LookupTask int ValueHandler
  | PeerLookup LookupTask PeerHandler
  | ValueAnnounce "CandidateNode list" Value
  | PeerAnnounce "CandidateNode list" PeerInfo
  | PingRefresh PingRefreshTask

text \<open>\<open>inFlight\<close> holds the names of the calls and the ids of their targets.\<close>

record 'l Task =
  taskId :: nat
  taskState :: TaskState
  nested :: "nat option"
  tstart :: u64
  tfinish :: u64
  inFlight :: "(nat \<times> Id) list"
  listeners :: "'l list"
  lock :: int
  kind :: Kind

definition newTask :: "nat \<Rightarrow> Kind \<Rightarrow> 'l Task" where
  "newTask i k = \<lparr>taskId = i, taskState = INITIAL, nested = None, tstart = 0, tfinish = 0, inFlight = [], listeners = [],
     lock = 0, kind = k\<rparr>"

datatype 'l TaskEffect =
    Notify 'l
  | SubmitCall RPCCall
  | RemoveTask
  | RemoveEntry Id
  | CancelTask nat

record 'l Run =
  task :: "'l Task"
  nextCall :: nat
  emitted :: "'l TaskEffect list"
  fault :: "error option"

text \<open>What a task reads of the DHT and the node: the time, the own entry (id and address), the family,
  the routing table, the bootstrap nodes as the entries the code casts them to, the current contents
  of bucket entry objects, and the cryptographic primitives.\<close>

record TaskCtx =
  tnow :: u64
  myEntry :: KBucketEntry
  isIPv4 :: bool
  table :: RoutingTable
  bootstraps :: "NodeInfo list"
  entryAt :: "nat \<Rightarrow> KBucketEntry"
  hash256 :: "byte list \<Rightarrow> byte list"
  verify_sig :: "byte list \<Rightarrow> byte list \<Rightarrow> Id \<Rightarrow> bool"

section \<open>States and listeners\<close>

definition isTerminal :: "'l Task \<Rightarrow> bool" where
  "isTerminal t \<longleftrightarrow> taskState t = FINISHED \<or> taskState t = TASK_CANCELED"

definition setState :: "TaskState list \<Rightarrow> TaskState \<Rightarrow> 'l Task \<Rightarrow> bool \<times> 'l Task" where
  "setState expected newState t =
     (if taskState t \<in> set expected then (True, t\<lparr>taskState := newState\<rparr>) else (False, t))"

definition emit :: "'l TaskEffect \<Rightarrow> 'l Run \<Rightarrow> 'l Run" where
  "emit e r = r\<lparr>emitted := emitted r @ [e]\<rparr>"

definition on_task :: "('l Task \<Rightarrow> 'l Task) \<Rightarrow> 'l Run \<Rightarrow> 'l Run" where
  "on_task f r = r\<lparr>task := f (task r)\<rparr>"

definition set_kind :: "Kind \<Rightarrow> 'l Run \<Rightarrow> 'l Run" where
  "set_kind k = on_task (\<lambda>t. t\<lparr>kind := k\<rparr>)"

definition addListener :: "'l \<Rightarrow> 'l Run \<Rightarrow> 'l Run" where
  "addListener l r =
     on_task (\<lambda>t. t\<lparr>listeners := listeners t @ [l]\<rparr>) (if isTerminal (task r) then emit (Notify l) r else r)"

definition notifyCompletionListeners :: "'l Run \<Rightarrow> 'l Run" where
  "notifyCompletionListeners r = r\<lparr>emitted := emitted r @ map Notify (listeners (task r))\<rparr>"

definition finish :: "u64 \<Rightarrow> 'l Run \<Rightarrow> 'l Run" where
  "finish now r =
     (let (ok, t) = setState [INITIAL, QUEUED, RUNNING] FINISHED (task r)
      in if ok then notifyCompletionListeners (r\<lparr>task := t\<lparr>tfinish := now\<rparr>\<rparr>) else r)"

definition cancel :: "u64 \<Rightarrow> 'l Run \<Rightarrow> 'l Run" where
  "cancel now r =
     (let (ok, t) = setState [INITIAL, QUEUED, RUNNING] TASK_CANCELED (task r);
          r1 = (if ok then notifyCompletionListeners (r\<lparr>task := t\<lparr>tfinish := now\<rparr>\<rparr>) else r)
      in case nested (task r1) of None \<Rightarrow> r1 | Some n \<Rightarrow> emit (CancelTask n) r1)"

definition setNestedTask :: "nat \<Rightarrow> 'l Run \<Rightarrow> 'l Run" where
  "setNestedTask n = on_task (\<lambda>t. t\<lparr>nested := Some n\<rparr>)"

section \<open>Calls\<close>

definition canDoRequest :: "'l Task \<Rightarrow> bool" where
  "canDoRequest t \<longleftrightarrow> length (inFlight t) < MAX_CONCURRENT_TASK_REQUESTS"

definition node_of :: "'a NodeInfo_scheme \<Rightarrow> NodeInfo" where
  "node_of n = \<lparr>nodeId = nodeId n, sockaddr = sockaddr n, version = version n\<rparr>"

text \<open>\<open>m\<close> is what \<^verbatim>\<open>modifyCallBeforeSubmit\<close> does to the members of the task. Whether the server throws when it
  sends the call makes no difference here: the callers catch the exception and go on.\<close>

definition task_sendCall :: "'a NodeInfo_scheme \<Rightarrow> bool \<Rightarrow> Body \<Rightarrow> (Kind \<Rightarrow> Kind) \<Rightarrow> 'l Run \<Rightarrow> 'l Run" where
  "task_sendCall node reach req m r =
     (if \<not> canDoRequest (task r) then r
      else let call = mkRPCCall (nextCall r) (node_of node) (Some reach) (mkMessage req 0)
           in emit (SubmitCall call)
                (r\<lparr>task := (task r)\<lparr>kind := m (kind (task r)), inFlight := inFlight (task r) @ [(nextCall r, nodeId node)]\<rparr>,
                   nextCall := nextCall r + 1\<rparr>))"

definition removeCall :: "nat \<Rightarrow> 'l Task \<Rightarrow> 'l Task" where
  "removeCall c t = t\<lparr>inFlight := filter (\<lambda>x. fst x \<noteq> c) (inFlight t)\<rparr>"

section \<open>Lookups\<close>

definition canUseSocketAddress :: "bool \<Rightarrow> SocketAddress \<Rightarrow> bool" where
  "canUseSocketAddress ipv4 addr \<longleftrightarrow>
     sa_family addr = (if ipv4 then sa_family (Inet4 [] 0) else sa_family (Inet6 [] 0 [] []))"

text \<open>A node in the list is paired with its reachability when the object is a bucket entry.\<close>

definition addCandidates :: "TaskCtx \<Rightarrow> (NodeInfo \<times> bool option) list \<Rightarrow> LookupTask \<Rightarrow> LookupTask" where
  "addCandidates ctx nodes lt =
     (let candidates = filter (\<lambda>(n, _). \<not> (isBogon (sockaddr n) \<noteq> Some False \<or> id_eq (nodeId (myEntry ctx)) (nodeId n)
                                 \<or> sa_eq (sockaddr (myEntry ctx)) (sockaddr n) \<or> cs_contains (nodeId n) (closestSet lt))) nodes
      in if candidates \<noteq> [] then lt\<lparr>closestCandidates := cc_add candidates (closestCandidates lt)\<rparr> else lt)"

definition lookup_isDone :: "LookupTask \<Rightarrow> bool" where
  "lookup_isDone lt \<longleftrightarrow> length (cc_closest (closestCandidates lt)) = 0
     \<or> (cs_isEligible (closestSet lt)
         \<and> threeWayCompare (lt_target lt) (cs_tail (closestSet lt)) (cc_head (closestCandidates lt)) \<le> 0)"

definition lookup_callError :: "Id \<Rightarrow> LookupTask \<Rightarrow> LookupTask" where
  "lookup_callError i lt = lt\<lparr>closestCandidates := snd (cc_remove i (closestCandidates lt))\<rparr>"

definition on_candidate :: "Id \<Rightarrow> (CandidateNode \<Rightarrow> CandidateNode) \<Rightarrow> LookupTask \<Rightarrow> LookupTask" where
  "on_candidate i f lt =
     lt\<lparr>closestCandidates := (closestCandidates lt)
        \<lparr>cc_closest := map (\<lambda>c. if id_eq i (nodeId c) then f c else c) (cc_closest (closestCandidates lt))\<rparr>\<rparr>"

text \<open>The target object of the call is the candidate of that id; when it is no longer listed, nothing else
  refers to it.\<close>

definition lookup_callTimeout :: "Id \<Rightarrow> LookupTask \<Rightarrow> LookupTask" where
  "lookup_callTimeout i lt =
     (case cc_get i (closestCandidates lt) of
        None \<Rightarrow> lt
      | Some c \<Rightarrow> if isUnreachable c then lookup_callError i lt else on_candidate i clearSent lt)"

text \<open>The token is read through a static cast to \<^verbatim>\<open>LookupResponse\<close>.\<close>

fun response_token :: "Body \<Rightarrow> int option" where
  "response_token (FindNodeResponse q) = Some (ltoken q)"
| "response_token (FindPeerResponse q _) = Some (ltoken q)"
| "response_token (FindValueResponse q _) = Some (ltoken q)"
| "response_token _ = None"

definition lookup_callResponsed :: "u64 \<Rightarrow> Id \<Rightarrow> Message \<Rightarrow> LookupTask \<Rightarrow> LookupTask result" where
  "lookup_callResponsed now i msg lt =
     (case cc_remove i (closestCandidates lt) of
        (None, _) \<Rightarrow> Inr lt
      | (Some c, cc) \<Rightarrow>
          (case response_token (body msg) of
             None \<Rightarrow> Inl Undefined
           | Some tok \<Rightarrow>
               (case cs_add (setToken tok (setReplied now c)) (closestSet lt) of
                  None \<Rightarrow> Inl Undefined
                | Some s \<Rightarrow> Inr (lt\<lparr>closestCandidates := cc, closestSet := s\<rparr>))))"

text \<open>The result handlers of \<^verbatim>\<open>dht.cc\<close>; the second component says whether the handler cancels the task.\<close>

definition findValue_result :: "Value \<Rightarrow> ValueHandler \<Rightarrow> ValueHandler \<times> bool" where
  "findValue_result v h =
     ((case vh_value h of
         None \<Rightarrow> h\<lparr>vh_value := Some v\<rparr>
       | Some old \<Rightarrow> if isMutable v \<and> v_sequenceNumber old < v_sequenceNumber v then h\<lparr>vh_value := Some v\<rparr> else h),
      vh_option h \<noteq> CONSERVATIVE \<or> \<not> isMutable v)"

definition findPeer_result :: "PeerInfo list \<Rightarrow> PeerHandler \<Rightarrow> PeerHandler \<times> bool" where
  "findPeer_result ps h =
     (let h1 = h\<lparr>ph_peers := ph_peers h @ ps\<rparr>
      in (h1, ph_option h \<noteq> CONSERVATIVE \<and> int (length (ph_peers h1)) \<ge> ph_expected h mod 2 ^ 64))"

definition plain_nodes :: "NodeInfo list \<Rightarrow> (NodeInfo \<times> bool option) list" where
  "plain_nodes ns = map (\<lambda>n. (n, None)) ns"

definition add_nodes :: "TaskCtx \<Rightarrow> LookupResponse \<Rightarrow> LookupTask \<Rightarrow> LookupTask" where
  "add_nodes ctx q lt =
     (let ns = getNodes (isIPv4 ctx) q in if ns \<noteq> [] then addCandidates ctx (plain_nodes ns) lt else lt)"

definition raise_fault :: "error \<Rightarrow> 'l Run \<Rightarrow> 'l Run" where
  "raise_fault e r = r\<lparr>fault := Some e\<rparr>"

definition node_callResponsed :: "TaskCtx \<Rightarrow> RPCCall \<Rightarrow> Message \<Rightarrow> LookupTask \<Rightarrow> LookupTask result" where
  "node_callResponsed ctx c msg lt =
     bind_result (lookup_callResponsed (tnow ctx) (targetId c) msg lt) (\<lambda>lt1.
       case body msg of
         FindNodeResponse q \<Rightarrow> Inr (if matchesId c = Some True then add_nodes ctx q lt1 else lt1)
       | _ \<Rightarrow> Inr lt1)"

definition value_callResponsed :: "TaskCtx \<Rightarrow> RPCCall \<Rightarrow> Message \<Rightarrow> LookupTask \<Rightarrow> int \<Rightarrow> ValueHandler \<Rightarrow> 'l Run \<Rightarrow> 'l Run" where
  "value_callResponsed ctx c msg lt expectedSequence h r =
     (case body msg of
        FindValueResponse q f \<Rightarrow>
          if matchesId c \<noteq> Some True then r
          else (case lookup_callResponsed (tnow ctx) (targetId c) msg lt of
                  Inl e \<Rightarrow> raise_fault e r
                | Inr lt1 \<Rightarrow>
                    let r1 = set_kind (ValueLookup lt1 expectedSequence h) r
                    in if hasValue f then
                         (case getValue f of
                            Inl e \<Rightarrow> raise_fault e r1
                          | Inr v \<Rightarrow>
                              if \<not> id_eq (value_getId (hash256 ctx) v) (lt_target lt) then r1
                              else if \<not> value_isValid (verify_sig ctx) v then r1
                              else if expectedSequence \<ge> 0 \<and> v_sequenceNumber v < expectedSequence then r1
                              else let (h1, stop) = findValue_result v h;
                                       r2 = set_kind (ValueLookup lt1 expectedSequence h1) r
                                   in if stop then cancel (tnow ctx) r2 else r2)
                       else set_kind (ValueLookup (add_nodes ctx q lt1) expectedSequence h) r)
      | _ \<Rightarrow> r)"

definition peer_callResponsed :: "TaskCtx \<Rightarrow> RPCCall \<Rightarrow> Message \<Rightarrow> LookupTask \<Rightarrow> PeerHandler \<Rightarrow> 'l Run \<Rightarrow> 'l Run" where
  "peer_callResponsed ctx c msg lt h r =
     (case body msg of
        FindPeerResponse q ps \<Rightarrow>
          if matchesId c \<noteq> Some True then r
          else (case lookup_callResponsed (tnow ctx) (targetId c) msg lt of
                  Inl e \<Rightarrow> raise_fault e r
                | Inr lt1 \<Rightarrow>
                    if ps \<noteq> [] then
                      (if \<not> list_all (peer_isValid (verify_sig ctx)) ps then set_kind (PeerLookup lt1 h) r
                       else let (h1, stop) = findPeer_result ps h; r2 = set_kind (PeerLookup lt1 h1) r
                            in if stop then cancel (tnow ctx) r2 else r2)
                    else set_kind (PeerLookup (add_nodes ctx q lt1) h) r)
      | _ \<Rightarrow> r)"

section \<open>The virtual members\<close>

fun kind_isDone :: "Kind \<Rightarrow> bool \<Rightarrow> bool" where
  "kind_isDone (NodeLookup lt _ _) base = (base \<and> lookup_isDone lt)"
| "kind_isDone (ValueLookup lt _ _) base = (base \<and> lookup_isDone lt)"
| "kind_isDone (PeerLookup lt _) base = (base \<and> lookup_isDone lt)"
| "kind_isDone (ValueAnnounce td _) base = (td = [] \<and> base)"
| "kind_isDone (PeerAnnounce td _) base = (td = [])"
| "kind_isDone (PingRefresh p) base = (todo p = [] \<and> base)"

definition isDone :: "'l Task \<Rightarrow> bool" where
  "isDone t = kind_isDone (kind t) (inFlight t = [] \<or> isTerminal t)"

definition task_callResponsed :: "TaskCtx \<Rightarrow> RPCCall \<Rightarrow> Message \<Rightarrow> 'l Run \<Rightarrow> 'l Run" where
  "task_callResponsed ctx c msg r =
     (case kind (task r) of
        NodeLookup lt b w \<Rightarrow> (case node_callResponsed ctx c msg lt of
                                Inl e \<Rightarrow> raise_fault e r | Inr lt1 \<Rightarrow> set_kind (NodeLookup lt1 b w) r)
      | ValueLookup lt s h \<Rightarrow> value_callResponsed ctx c msg lt s h r
      | PeerLookup lt h \<Rightarrow> peer_callResponsed ctx c msg lt h r
      | _ \<Rightarrow> r)"

fun map_lookup :: "(LookupTask \<Rightarrow> LookupTask) \<Rightarrow> Kind \<Rightarrow> Kind" where
  "map_lookup f (NodeLookup lt b w) = NodeLookup (f lt) b w"
| "map_lookup f (ValueLookup lt s h) = ValueLookup (f lt) s h"
| "map_lookup f (PeerLookup lt h) = PeerLookup (f lt) h"
| "map_lookup f k = k"

definition task_callError :: "RPCCall \<Rightarrow> 'l Run \<Rightarrow> 'l Run" where
  "task_callError c = on_task (\<lambda>t. t\<lparr>kind := map_lookup (lookup_callError (targetId c)) (kind t)\<rparr>)"

definition task_callTimeout :: "RPCCall \<Rightarrow> 'l Run \<Rightarrow> 'l Run" where
  "task_callTimeout c r =
     (case kind (task r) of
        PingRefresh p \<Rightarrow> if removeOnTimeout p then emit (RemoveEntry (targetId c)) r else r
      | k \<Rightarrow> set_kind (map_lookup (lookup_callTimeout (targetId c)) k) r)"

fun lookup_of :: "Kind \<Rightarrow> LookupTask option" where
  "lookup_of (NodeLookup lt _ _) = Some lt"
| "lookup_of (ValueLookup lt _ _) = Some lt"
| "lookup_of (PeerLookup lt _) = Some lt"
| "lookup_of _ = None"

definition want :: "bool \<Rightarrow> LookupRequest \<Rightarrow> LookupRequest" where
  "want ipv4 q = q\<lparr>want4 := ipv4, want6 := \<not> ipv4\<rparr>"

fun lookup_request :: "TaskCtx \<Rightarrow> Kind \<Rightarrow> Body" where
  "lookup_request ctx (NodeLookup lt _ w) = FindNodeRequest (want (isIPv4 ctx) (mkFindNodeRequest (lt_target lt) w))"
| "lookup_request ctx (ValueLookup lt s _) =
     FindValueRequest (want (isIPv4 ctx) (mkFindValueRequest (lt_target lt))) (if s \<noteq> -1 then s else -1)"
| "lookup_request ctx (PeerLookup lt _) = FindPeerRequest (want (isIPv4 ctx) (mkFindPeerRequest (lt_target lt)))"
| "lookup_request ctx _ = PingRequest"

text \<open>The loop that asks the next candidates while the task may make requests.\<close>

function lookup_update :: "TaskCtx \<Rightarrow> 'l Run \<Rightarrow> 'l Run" where
  "lookup_update ctx r =
     (if canDoRequest (task r) then
        (case Option.bind (lookup_of (kind (task r))) (\<lambda>lt. cc_next (closestCandidates lt)) of
           None \<Rightarrow> r
         | Some c \<Rightarrow>
             lookup_update ctx
               (task_sendCall c (creachable c) (lookup_request ctx (kind (task r)))
                  (map_lookup (on_candidate (nodeId c) (setSent (tnow ctx)))) r))
      else r)"
  by pat_completeness auto
termination
  by (relation "measure (\<lambda>(_, r). MAX_CONCURRENT_TASK_REQUESTS - length (inFlight (task r)))")
    (auto simp: task_sendCall_def canDoRequest_def emit_def Let_def)

declare lookup_update.simps [simp del]

fun announce_loop :: "(CandidateNode \<Rightarrow> Body) \<Rightarrow> (CandidateNode list \<Rightarrow> Kind) \<Rightarrow> CandidateNode list \<Rightarrow> 'l Run \<Rightarrow> 'l Run" where
  "announce_loop req k [] r = r"
| "announce_loop req k (c # cs) r =
     (if canDoRequest (task r) then announce_loop req k cs (task_sendCall c (creachable c) (req c) (\<lambda>_. k cs) r) else r)"

fun ping_loop :: "TaskCtx \<Rightarrow> PingRefreshTask \<Rightarrow> KBucketEntry list \<Rightarrow> 'l Run \<Rightarrow> 'l Run" where
  "ping_loop ctx p [] r = r"
| "ping_loop ctx p (e # es) r =
     (if canDoRequest (task r) then
        let e' = entryAt ctx (eref e); k = PingRefresh (p\<lparr>todo := es\<rparr>)
        in if \<not> checkAll p \<and> \<not> needsPing (tnow ctx) e' then ping_loop ctx p es (set_kind k r)
           else ping_loop ctx p es (task_sendCall e' (reachable e') PingRequest (\<lambda>_. k) r)
      else r)"

definition update :: "TaskCtx \<Rightarrow> 'l Run \<Rightarrow> 'l Run" where
  "update ctx r =
     (case kind (task r) of
        ValueAnnounce td v \<Rightarrow> announce_loop (\<lambda>c. StoreRequest (mkStoreValueRequest v (ctoken c))) (\<lambda>td. ValueAnnounce td v) td r
      | PeerAnnounce td p \<Rightarrow> announce_loop (\<lambda>c. AnnounceRequest (mkAnnouncePeerRequest p (ctoken c))) (\<lambda>td. PeerAnnounce td p) td r
      | PingRefresh p \<Rightarrow> ping_loop ctx p (todo p) r
      | _ \<Rightarrow> lookup_update ctx r)"

text \<open>The entries that \<^verbatim>\<open>KClosestNodes\<close> finds, with the reachability of those that are bucket entries.\<close>

primrec listed_reachable :: "Listed \<Rightarrow> bool option" where
  "listed_reachable (Own e) = Some (reachable e)"
| "listed_reachable (Downcast n) = None"

definition closest_list :: "TaskCtx \<Rightarrow> KClosestNodes \<Rightarrow> (NodeInfo \<times> bool option) list option" where
  "closest_list ctx k =
     map_option (\<lambda>k. map (\<lambda>e. (listed_node e, listed_reachable e)) (kentries k))
       (kcn_fill (bootstraps ctx) (canUseSocketAddress (isIPv4 ctx)) (myEntry ctx) False (table ctx) k)"

fun kind_closest :: "Kind \<Rightarrow> KClosestNodes option" where
  "kind_closest (NodeLookup lt bootstrap _) =
     Some (mkKClosestNodes (if bootstrap then distance (lt_target lt) MAX_ID else lt_target lt)
             (int MAX_ENTRIES_PER_BUCKET * 2) isEligibleForNodesList)"
| "kind_closest (ValueLookup lt _ _) = Some (defaultKClosestNodes (lt_target lt) (int MAX_ENTRIES_PER_BUCKET * 2))"
| "kind_closest (PeerLookup lt _) = Some (defaultKClosestNodes (lt_target lt) (int MAX_ENTRIES_PER_BUCKET * 2))"
| "kind_closest _ = None"

definition prepare :: "TaskCtx \<Rightarrow> 'l Run \<Rightarrow> 'l Run" where
  "prepare ctx r =
     (case kind_closest (kind (task r)) of
        None \<Rightarrow> r
      | Some k \<Rightarrow>
          (case closest_list ctx k of
             None \<Rightarrow> raise_fault Undefined r
           | Some nodes \<Rightarrow> set_kind (map_lookup (addCandidates ctx nodes) (kind (task r))) r))"

section \<open>Running a task\<close>

definition update_round :: "TaskCtx \<Rightarrow> 'l Run \<Rightarrow> 'l Run" where
  "update_round ctx r =
     (let r1 = (if isDone (task r) then finish (tnow ctx) r else r)
      in if canDoRequest (task r1) \<and> \<not> isTerminal (task r1) then
           let r2 = update ctx r1 in if isDone (task r2) then finish (tnow ctx) r2 else r2
         else r1)"

partial_function (option) update_loop :: "TaskCtx \<Rightarrow> int \<Rightarrow> 'l Run \<Rightarrow> 'l Run option" where
  "update_loop ctx current r =
     (let r1 = update_round ctx r;
          current' = lock (task r1) - current;
          r2 = on_task (\<lambda>t. t\<lparr>lock := current'\<rparr>) r1
      in if current' > 0 then update_loop ctx current' r2 else Some r2)"

definition serializedUpdate :: "TaskCtx \<Rightarrow> 'l Run \<Rightarrow> 'l Run option" where
  "serializedUpdate ctx r =
     (let current = lock (task r) + 1;
          r1 = on_task (\<lambda>t. t\<lparr>lock := current\<rparr>) r
      in if current > 1 then Some r1
         else map_option (\<lambda>r2. if isTerminal (task r2) then emit RemoveTask r2 else r2) (update_loop ctx current r1))"

definition start :: "TaskCtx \<Rightarrow> 'l Run \<Rightarrow> 'l Run option" where
  "start ctx r =
     (let (ok, t) = setState [INITIAL, QUEUED] RUNNING (task r)
      in if ok then
           let r1 = prepare ctx (r\<lparr>task := t\<lparr>tstart := tnow ctx\<rparr>\<rparr>)
           in if fault r1 = None then serializedUpdate ctx r1 else Some r1
         else Some r)"

text \<open>The state change handler that \<open>task_sendCall\<close> installs in the call \<open>c\<close>; an exception leaves the handler
  before the update.\<close>

definition callStateChanged :: "TaskCtx \<Rightarrow> RPCCall \<Rightarrow> CallState \<Rightarrow> 'l Run \<Rightarrow> 'l Run option" where
  "callStateChanged ctx c current r =
     (let drop = on_task (removeCall (call_ref c)) r;
          r1 = (case current of
                  RESPONDED \<Rightarrow>
                    if isTerminal (task r) then drop
                    else (case response c of None \<Rightarrow> raise_fault Undefined drop | Some msg \<Rightarrow> task_callResponsed ctx c msg drop)
                | CERR \<Rightarrow> if isTerminal (task r) then drop else task_callError c drop
                | TIMEOUT \<Rightarrow> if isTerminal (task r) then drop else task_callTimeout c drop
                | _ \<Rightarrow> r)
      in if fault r1 = None \<and> current \<in> {RESPONDED, CERR, STALLED, TIMEOUT} then serializedUpdate ctx r1 else Some r1)"

end
