(* ===== verification/Task_Progress.thy ===== *)
theory Task_Progress
  imports Tasks
begin

text \<open>
  How a task moves through its states. Every operation of a task is a \<^emph>\<open>progress\<close>: it leaves the listeners
  alone, does nothing to a task that is over, and when it ends the task it notifies every listener
  once, in order. The lemmas lift this from the loops of the subclasses to the handlers that the
  scheduler and the RPC calls run, and show that \<open>serializedUpdate\<close> always returns.
\<close>

section \<open>Progress\<close>

fun notified :: "'l TaskEffect list \<Rightarrow> 'l list" where
  "notified [] = []"
| "notified (Notify l # es) = l # notified es"
| "notified (_ # es) = notified es"

lemma notified_append [simp]: "notified (xs @ ys) = notified xs @ notified ys"
  by (induction xs rule: notified.induct) auto

lemma notified_map [simp]: "notified (map Notify ls) = ls"
  by (induction ls) auto

text \<open>Nothing that the outside of the task can see has happened, but for requests.\<close>

definition quiet :: "'l Run \<Rightarrow> 'l Run \<Rightarrow> bool" where
  "quiet r r' \<longleftrightarrow> taskState (task r') = taskState (task r) \<and> listeners (task r') = listeners (task r)
     \<and> lock (task r') = lock (task r) \<and> taskId (task r') = taskId (task r) \<and> nested (task r') = nested (task r)
     \<and> notified (emitted r') = notified (emitted r)"

definition progress :: "'l Run \<Rightarrow> 'l Run \<Rightarrow> bool" where
  "progress r r' \<longleftrightarrow> listeners (task r') = listeners (task r) \<and> lock (task r') = lock (task r)
     \<and> taskId (task r') = taskId (task r) \<and> nested (task r') = nested (task r)
     \<and> ((taskState (task r') = taskState (task r) \<and> notified (emitted r') = notified (emitted r))
        \<or> (\<not> isTerminal (task r) \<and> isTerminal (task r')
            \<and> notified (emitted r') = notified (emitted r) @ listeners (task r)))"

lemma isTerminal_state: "taskState t' = taskState t \<Longrightarrow> isTerminal t' = isTerminal t"
  by (simp add: isTerminal_def)

lemma quiet_refl [simp]: "quiet r r"
  by (simp add: quiet_def)

lemma quiet_trans [trans]: "quiet r s \<Longrightarrow> quiet s t \<Longrightarrow> quiet r t"
  by (simp add: quiet_def)

lemma quiet_progress: "quiet r s \<Longrightarrow> progress r s"
  by (simp add: quiet_def progress_def)

lemma progress_refl [simp]: "progress r r"
  by (simp add: progress_def)

lemma progress_trans [trans]: "progress r s \<Longrightarrow> progress s t \<Longrightarrow> progress r t"
  using isTerminal_state [of "task s" "task r"] isTerminal_state [of "task t" "task s"]
  by (auto simp: progress_def)

named_theorems quiet_intros

lemmas run_defs = emit_def on_task_def set_kind_def raise_fault_def

lemma quiet_set_kind [quiet_intros]: "quiet r (set_kind k r)"
  by (simp add: quiet_def run_defs)

lemma quiet_raise [quiet_intros]: "quiet r (raise_fault e r)"
  by (simp add: quiet_def run_defs)

lemma quiet_sendCall [quiet_intros]: "quiet r (task_sendCall n b q m r)"
  by (simp add: quiet_def task_sendCall_def run_defs Let_def)

lemma quiet_lookup_update [quiet_intros]: "quiet r (lookup_update ctx r)"
proof (induction ctx r rule: lookup_update.induct)
  case (1 ctx r)
  then show ?case
    by (subst lookup_update.simps) (auto split: option.split intro: quiet_trans quiet_sendCall)
qed

lemma quiet_announce_loop [quiet_intros]: "quiet r (announce_loop q k cs r)"
  by (induction cs arbitrary: r) (auto intro: quiet_trans quiet_sendCall)

lemma quiet_ping_loop [quiet_intros]: "quiet r (ping_loop ctx p es r)"
  by (induction es arbitrary: r) (auto simp: Let_def intro: quiet_trans quiet_sendCall quiet_set_kind)

lemma quiet_update [quiet_intros]: "quiet r (update ctx r)"
  unfolding update_def by (auto split: Kind.split intro: quiet_intros)

lemma quiet_prepare [quiet_intros]: "quiet r (prepare ctx r)"
  unfolding prepare_def by (auto split: option.split intro: quiet_intros)

lemma quiet_callError [quiet_intros]: "quiet r (task_callError c r)"
  by (simp add: task_callError_def quiet_def run_defs)

lemma quiet_callTimeout [quiet_intros]: "quiet r (task_callTimeout c r)"
  by (auto simp: task_callTimeout_def quiet_def run_defs split: Kind.split)

lemma quiet_removeCall [quiet_intros]: "quiet r (on_task (removeCall c) r)"
  by (simp add: quiet_def on_task_def removeCall_def)

lemma active_states: "\<not> isTerminal t \<longleftrightarrow> taskState t \<in> {INITIAL, QUEUED, RUNNING}"
  by (cases "taskState t") (simp_all add: isTerminal_def)

lemma finish_progress: "progress r (finish now r)"
  by (auto simp: finish_def setState_def progress_def notifyCompletionListeners_def isTerminal_def)

lemma finish_terminal: "isTerminal (task (finish now r))"
  using active_states [of "task r"]
  by (auto simp: finish_def setState_def notifyCompletionListeners_def isTerminal_def)

lemma cancel_progress: "progress r (cancel now r)"
  by (auto simp: cancel_def setState_def progress_def notifyCompletionListeners_def isTerminal_def emit_def Let_def
      split: option.split)

lemma cancel_terminal: "isTerminal (task (cancel now r))"
  using active_states [of "task r"]
  by (auto simp: cancel_def setState_def notifyCompletionListeners_def isTerminal_def emit_def Let_def split: option.split)

lemma callResponsed_progress: "progress r (task_callResponsed ctx c msg r)"
proof -
  have c: "progress r (cancel n (set_kind k r))" for n k
    using quiet_progress [OF quiet_set_kind] cancel_progress by (rule progress_trans)
  note i = quiet_progress [OF quiet_set_kind] quiet_progress [OF quiet_raise] c progress_refl
  have "progress r (value_callResponsed ctx c msg lt s h r)" for lt s h
    unfolding value_callResponsed_def
    by (auto simp: Let_def split: Body.split sum.split prod.split intro: i quiet_progress [OF quiet_trans [OF quiet_set_kind quiet_raise]])
  moreover have "progress r (peer_callResponsed ctx c msg lt h r)" for lt h
    unfolding peer_callResponsed_def by (auto simp: Let_def split: Body.split sum.split prod.split intro: i)
  ultimately show ?thesis
    unfolding task_callResponsed_def by (auto split: Kind.split sum.split intro: i)
qed

section \<open>Updates return\<close>

lemma update_round_progress: "progress r (update_round ctx r)"
proof -
  let ?r1 = "if isDone (task r) then finish (tnow ctx) r else r"
  have 1: "progress r ?r1" by (simp add: finish_progress)
  have 2: "progress ?r1 (update ctx ?r1)" by (rule quiet_progress [OF quiet_update])
  have 3: "progress ?r1 (finish (tnow ctx) (update ctx ?r1))" using 2 finish_progress by (rule progress_trans)
  show ?thesis
    unfolding update_round_def Let_def using 1 progress_trans [OF 1 2] progress_trans [OF 1 3] by presburger
qed

lemma update_loop_once:
  "update_loop ctx (lock (task r)) r = Some (on_task (\<lambda>t. t\<lparr>lock := 0\<rparr>) (update_round ctx r))"
  using update_round_progress [of r ctx] by (subst update_loop.simps) (simp add: progress_def Let_def)

text \<open>One round under the lock.\<close>

definition one_update :: "TaskCtx \<Rightarrow> 'l Run \<Rightarrow> 'l Run" where
  "one_update ctx r =
     (let r2 = on_task (\<lambda>t. t\<lparr>lock := 0\<rparr>) (update_round ctx (on_task (\<lambda>t. t\<lparr>lock := 1\<rparr>) r))
      in if isTerminal (task r2) then emit RemoveTask r2 else r2)"

lemma serializedUpdate_once: "lock (task r) = 0 \<Longrightarrow> serializedUpdate ctx r = Some (one_update ctx r)"
  using update_loop_once [of ctx "on_task (\<lambda>t. t\<lparr>lock := 1\<rparr>) r"]
  by (simp add: serializedUpdate_def one_update_def on_task_def Let_def)

lemma one_update_progress:
  assumes "lock (task r) = 0"
  shows "progress r (one_update ctx r)"
  using update_round_progress [of "on_task (\<lambda>t. t\<lparr>lock := 1\<rparr>) r" ctx] assms
  by (auto simp: one_update_def progress_def run_defs Let_def isTerminal_def)

lemma callStateChanged_returns:
  assumes "lock (task r) = 0"
  shows "\<exists>r'. callStateChanged ctx c current r = Some r' \<and> progress r r'"
proof -
  let ?d = "on_task (removeCall (call_ref c)) r"
  let ?r1 = "case current of
      RESPONDED \<Rightarrow>
        if isTerminal (task r) then ?d
        else (case response c of None \<Rightarrow> raise_fault Undefined ?d | Some msg \<Rightarrow> task_callResponsed ctx c msg ?d)
    | CERR \<Rightarrow> if isTerminal (task r) then ?d else task_callError c ?d
    | TIMEOUT \<Rightarrow> if isTerminal (task r) then ?d else task_callTimeout c ?d
    | _ \<Rightarrow> r"
  have d: "progress r ?d" by (rule quiet_progress [OF quiet_removeCall])
  have p: "progress r ?r1"
    by (auto split: CallState.split option.split
        intro: d progress_trans [OF d] quiet_progress [OF quiet_raise] quiet_progress [OF quiet_callError]
          quiet_progress [OF quiet_callTimeout] callResponsed_progress)
  then have "lock (task ?r1) = 0" using assms by (simp add: progress_def)
  with p show ?thesis
    unfolding callStateChanged_def Let_def
    using serializedUpdate_once [of ?r1 ctx] one_update_progress [of ?r1 ctx] progress_trans [OF p] by auto
qed

lemma start_returns:
  assumes "lock (task r) = 0"
  shows "\<exists>r'. start ctx r = Some r' \<and>
    (if taskState (task r) \<in> {INITIAL, QUEUED} then progress (on_task (\<lambda>t. t\<lparr>taskState := RUNNING, tstart := tnow ctx\<rparr>) r) r' else r' = r)"
proof (cases "taskState (task r) \<in> {INITIAL, QUEUED}")
  case True
  let ?r0 = "on_task (\<lambda>t. t\<lparr>taskState := RUNNING, tstart := tnow ctx\<rparr>) r"
  have q: "progress ?r0 (prepare ctx ?r0)" by (rule quiet_progress [OF quiet_prepare])
  then have "lock (task (prepare ctx ?r0)) = 0" using assms by (simp add: progress_def on_task_def)
  with q True serializedUpdate_once [of "prepare ctx ?r0" ctx] one_update_progress [of "prepare ctx ?r0" ctx] show ?thesis
    by (auto simp: start_def setState_def on_task_def Let_def intro: progress_trans)
next
  case False
  then show ?thesis by (auto simp: start_def setState_def)
qed

end
