(* ===== verification/Task_Invariants.thy ===== *)
theory Task_Invariants
  imports Task_Progress
begin

text \<open>
  The invariant of a lookup and the states a task can reach. A lookup keeps every candidate it has asked
  in its list until the call is over, asks a candidate at most three times, and has a candidate in
  flight for every call in flight. The converse, that a candidate in flight always has a call in flight,
  holds for node lookups and is what makes them end; value and peer lookups lose it when a reply
  carries another id than the one that was asked.
\<close>

section \<open>Lookups\<close>

abbreviation cands :: "LookupTask \<Rightarrow> CandidateNode list" where
  "cands lt \<equiv> cc_closest (closestCandidates lt)"

text \<open>The ids of the candidates in flight.\<close>

definition asked :: "LookupTask \<Rightarrow> Id set" where
  "asked lt = nodeId ` {c \<in> set (cands lt). isInFlight c}"

definition lookup_ok :: "LookupTask \<Rightarrow> (nat \<times> Id) list \<Rightarrow> bool" where
  "lookup_ok lt fl \<longleftrightarrow> cc_inv (closestCandidates lt) \<and> cc_target (closestCandidates lt) = lt_target lt \<and> cs_inv (closestSet lt)
     \<and> distinct (map snd fl) \<and> snd ` set fl \<subseteq> asked lt \<and> (\<forall>c\<in>set (cands lt). isInFlight c \<or> pinged c < 3)"

definition no_orphan :: "LookupTask \<Rightarrow> (nat \<times> Id) list \<Rightarrow> bool" where
  "no_orphan lt fl \<longleftrightarrow> asked lt \<subseteq> snd ` set fl"

lemma cands_wf: "cc_inv (closestCandidates lt) \<Longrightarrow> c \<in> set (cands lt) \<Longrightarrow> wf_id (nodeId c)"
  using cc_invD(3) by (auto simp: wf_candidate_def wf_node_def)

lemma lookup_okD:
  assumes "lookup_ok lt fl"
  shows "cc_inv (closestCandidates lt)" "cc_target (closestCandidates lt) = lt_target lt" "cs_inv (closestSet lt)"
    "distinct (map snd fl)" "snd ` set fl \<subseteq> asked lt"
    "\<And>c. c \<in> set (cands lt) \<Longrightarrow> isInFlight c \<or> pinged c < 3"
    "\<And>i. i \<in> asked lt \<Longrightarrow> wf_id i"
  using assms cands_wf unfolding lookup_ok_def by (auto simp: asked_def)

lemma mkLookupTask_ok: "wf_id i \<Longrightarrow> lookup_ok (mkLookupTask i) [] \<and> no_orphan (mkLookupTask i) []"
  using mkClosestCandidates_inv [of i] mkClosestSet_inv [of i]
  by (simp add: lookup_ok_def no_orphan_def asked_def mkLookupTask_def mkClosestCandidates_def MAX_ENTRIES_PER_BUCKET_def)

lemma unique_candidate:
  assumes "cc_inv cc" "c \<in> set (cc_closest cc)" "d \<in> set (cc_closest cc)" "nodeId c = nodeId d"
  shows "c = d"
  using cc_invD(5) [OF assms(1)] assms(2-4) by (auto simp: distinct_map dest: inj_onD)

lemma cc_map_inv:
  assumes inv: "cc_inv cc" and g: "\<And>c. c \<in> set (cc_closest cc) \<Longrightarrow> nodeId (g c) = nodeId c \<and> wf_candidate (g c)"
  shows "cc_inv (cc\<lparr>cc_closest := map g (cc_closest cc)\<rparr>)"
proof -
  have "map nodeId (map g (cc_closest cc)) = map nodeId (cc_closest cc)"
    "map (cdist (cc_target cc)) (map g (cc_closest cc)) = map (cdist (cc_target cc)) (cc_closest cc)" using g by simp_all
  then show ?thesis using inv g by (auto simp: cc_inv_def simp del: map_map)
qed

text \<open>Changing one candidate.\<close>

lemma on_candidate_list:
  assumes "cc_inv (closestCandidates lt)" "c \<in> set (cands lt)"
  shows "set (cands (on_candidate (nodeId c) f lt)) = insert (f c) (set (cands lt) - {c})"
proof -
  have "(if id_eq (nodeId c) (nodeId d) then f d else d) = (if d = c then f c else d)" if "d \<in> set (cands lt)" for d
    using that assms(2) unique_candidate [OF assms(1) that assms(2)] cands_wf [OF assms(1)] by auto
  then show ?thesis using assms(2) by (auto simp: on_candidate_def)
qed

lemma on_candidate_ok:
  assumes ok: "lookup_ok lt fl" and c: "c \<in> set (cands lt)"
    and f: "nodeId (f c) = nodeId c" "wf_candidate (f c)" "isInFlight (f c) \<or> pinged (f c) < 3"
    and fl: "distinct (map snd fl')" "snd ` set fl' \<subseteq> (if isInFlight (f c) then insert (nodeId c) (asked lt) else asked lt - {nodeId c})"
  shows "lookup_ok (on_candidate (nodeId c) f lt) fl'"
    "asked (on_candidate (nodeId c) f lt) = (if isInFlight (f c) then insert (nodeId c) (asked lt) else asked lt - {nodeId c})"
proof -
  note inv = lookup_okD(1) [OF ok]
  let ?g = "\<lambda>d. if id_eq (nodeId c) (nodeId d) then f d else d" and ?lt = "on_candidate (nodeId c) f lt"
  have "nodeId (?g d) = nodeId d \<and> wf_candidate (?g d)" if "d \<in> set (cands lt)" for d
  proof (cases "d = c")
    case False
    then have "\<not> id_eq (nodeId c) (nodeId d)" using unique_candidate [OF inv that c] cands_wf [OF inv that] cands_wf [OF inv c] by auto
    then show ?thesis using cc_invD(3) [OF inv that] by simp
  qed (use f(1,2) cands_wf [OF inv c] in simp)
  from cc_map_inv [OF inv this] have 1: "cc_inv (closestCandidates ?lt)" by (simp add: on_candidate_def)
  have u: "d = c" if "d \<in> set (cands lt)" "nodeId d = nodeId c" for d
    using unique_candidate [OF inv that(1) c that(2)] .
  show 2: "asked ?lt = (if isInFlight (f c) then insert (nodeId c) (asked lt) else asked lt - {nodeId c})"
  proof -
    have "nodeId ` ({d \<in> set (cands lt). isInFlight d} - {c}) = asked lt - {nodeId c}" using u by (auto simp: asked_def)
    moreover have "{d \<in> set (cands ?lt). isInFlight d}
        = (if isInFlight (f c) then insert (f c) ({d \<in> set (cands lt). isInFlight d} - {c}) else {d \<in> set (cands lt). isInFlight d} - {c})"
      unfolding on_candidate_list [OF inv c] by auto
    ultimately show ?thesis using f(1) by (simp add: asked_def)
  qed
  show "lookup_ok ?lt fl'"
    using 1 lookup_okD(2,3,6) [OF ok] f(3) fl unfolding lookup_ok_def 2 on_candidate_list [OF inv c]
    by (auto simp: on_candidate_def)
qed

lemma setSent_simps [simp]:
  "nodeId (setSent now c) = nodeId c" "isInFlight (setSent now c) \<longleftrightarrow> now \<noteq> 0" "sockaddr (setSent now c) = sockaddr c"
  by (simp_all add: setSent_def isInFlight_def)

lemma clearSent_simps [simp]:
  "nodeId (clearSent c) = nodeId c" "\<not> isInFlight (clearSent c)" "pinged (clearSent c) = pinged c"
  "wf_candidate (clearSent c) = wf_candidate c"
  by (simp_all add: clearSent_def isInFlight_def wf_candidate_def wf_node_def)

text \<open>Asking the candidate that \<open>cc_next\<close> chose.\<close>

lemma lookup_ask_ok:
  assumes ok: "lookup_ok lt fl" and nx: "cc_next (closestCandidates lt) = Some c" and now: "now \<noteq> 0"
  shows "lookup_ok (on_candidate (nodeId c) (setSent now) lt) (fl @ [(n, nodeId c)])"
    "no_orphan lt fl \<Longrightarrow> no_orphan (on_candidate (nodeId c) (setSent now) lt) (fl @ [(n, nodeId c)])"
proof -
  note inv = lookup_okD(1) [OF ok]
  from cc_next_least(2) [OF inv nx] have c: "c \<in> set (cands lt)" "cisEligible c" by auto
  then have e: "\<not> isInFlight c" "0 \<le> pinged c" "pinged c < 3"
    using cc_invD(3) [OF inv c(1)] by (auto simp: cisEligible_def isInFlight_def wf_candidate_def)
  have w: "wf_candidate (setSent now c)"
    using cc_invD(3) [OF inv c(1)] e int32_id [of "pinged c + 1"] by (auto simp: wf_candidate_def wf_node_def setSent_def)
  have "nodeId c \<notin> snd ` set fl"
    using lookup_okD(5) [OF ok] unique_candidate [OF inv _ c(1)] e(1) by (auto simp: asked_def)
  then have "distinct (map snd (fl @ [(n, nodeId c)]))" "snd ` set (fl @ [(n, nodeId c)]) \<subseteq> insert (nodeId c) (asked lt)"
    using lookup_okD(4,5) [OF ok] by auto
  then show "lookup_ok (on_candidate (nodeId c) (setSent now) lt) (fl @ [(n, nodeId c)])"
    using now w by (intro on_candidate_ok(1) [OF ok c(1)]) simp_all
  show "no_orphan (on_candidate (nodeId c) (setSent now) lt) (fl @ [(n, nodeId c)])" if "no_orphan lt fl"
    using that on_candidate_ok(2) [OF ok c(1), of "setSent now" "[]"] now w by (auto simp: no_orphan_def)
qed

text \<open>The end of a call: \<open>fl'\<close> is what is left in flight.\<close>

definition ended :: "Id \<Rightarrow> (nat \<times> Id) list \<Rightarrow> (nat \<times> Id) list \<Rightarrow> bool" where
  "ended i fl fl' \<longleftrightarrow> distinct (map snd fl') \<and> snd ` set fl' = snd ` set fl - {i} \<and> i \<in> snd ` set fl"

lemma removeCall_ended:
  assumes "distinct (map fst fl)" "distinct (map snd fl)" "(r, i) \<in> set fl"
  shows "ended i fl (filter (\<lambda>x. fst x \<noteq> r) fl)"
proof -
  have "inj_on fst (set fl)" "inj_on snd (set fl)" using assms(1,2) by (simp_all add: distinct_map)
  then have "fst x = r \<longleftrightarrow> snd x = i" if "x \<in> set fl" for x
    using that assms(3) by (metis fst_conv inj_onD snd_conv)
  then have "snd ` set (filter (\<lambda>x. fst x \<noteq> r) fl) = snd ` set fl - {i}" by auto
  with assms(2,3) show ?thesis by (force simp: ended_def distinct_map_filter)
qed

lemma dropped_ok: "lookup_ok lt fl \<Longrightarrow> ended i fl fl' \<Longrightarrow> lookup_ok lt fl'"
  by (auto simp: lookup_ok_def ended_def)

lemma callError_ok:
  assumes ok: "lookup_ok lt fl" and e: "ended i fl fl'"
  shows "lookup_ok (lookup_callError i lt) fl'" "no_orphan lt fl \<Longrightarrow> no_orphan (lookup_callError i lt) fl'"
proof -
  note inv = lookup_okD(1) [OF ok]
  have "wf_id i" using e lookup_okD(5,7) [OF ok] by (auto simp: ended_def)
  then have "snd (cc_remove i (closestCandidates lt)) = (closestCandidates lt)\<lparr>cc_closest := filter (\<lambda>c. nodeId c \<noteq> i) (cands lt)\<rparr>"
    using cands_wf [OF inv] cc_invD(5) [OF inv] by (intro cc_remove_eq) auto
  then have eq: "lookup_callError i lt = lt\<lparr>closestCandidates := (closestCandidates lt)\<lparr>cc_closest := filter (\<lambda>c. nodeId c \<noteq> i) (cands lt)\<rparr>\<rparr>"
    by (simp add: lookup_callError_def)
  have a: "asked (lookup_callError i lt) = asked lt - {i}" by (auto simp: eq asked_def)
  show "lookup_ok (lookup_callError i lt) fl'"
    using lookup_okD(2-6) [OF ok] cc_filter_inv [OF inv] e unfolding lookup_ok_def a ended_def by (auto simp: eq)
  show "no_orphan (lookup_callError i lt) fl'" if "no_orphan lt fl"
    using that e unfolding no_orphan_def a ended_def by auto
qed

lemma cc_get_in_flight:
  assumes inv: "cc_inv (closestCandidates lt)" and i: "i \<in> asked lt"
  obtains c where "cc_get i (closestCandidates lt) = Some c" "c \<in> set (cands lt)" "nodeId c = i" "isInFlight c"
proof -
  from i obtain c where c: "c \<in> set (cands lt)" "nodeId c = i" "isInFlight c" by (auto simp: asked_def)
  obtain d where d: "cc_get i (closestCandidates lt) = Some d"
    using c cands_wf [OF inv c(1)] by (cases "cc_get i (closestCandidates lt)") (auto simp: cc_get_def find_None_iff)
  then have "d \<in> set (cands lt)" "id_eq i (nodeId d)"
    unfolding cc_get_def by (auto simp: find_Some_iff)
  then have "d \<in> set (cands lt)" "nodeId d = i" using cands_wf [OF inv \<open>d \<in> set (cands lt)\<close>] cands_wf [OF inv c(1)] c(2) by simp_all
  then have "d = c" using c(2) by (intro unique_candidate [OF inv _ c(1)]) simp_all
  with d c show ?thesis by (intro that) auto
qed

lemma callTimeout_ok:
  assumes ok: "lookup_ok lt fl" and e: "ended i fl fl'"
  shows "lookup_ok (lookup_callTimeout i lt) fl'" "no_orphan lt fl \<Longrightarrow> no_orphan (lookup_callTimeout i lt) fl'"
proof -
  from e lookup_okD(5) [OF ok] have "i \<in> asked lt" by (auto simp: ended_def)
  from cc_get_in_flight [OF lookup_okD(1) [OF ok] this] obtain c where
    c: "cc_get i (closestCandidates lt) = Some c" "c \<in> set (cands lt)" "nodeId c = i" by blast
  have w: "wf_candidate (clearSent c)" using cc_invD(3) [OF lookup_okD(1) [OF ok] c(2)] by simp
  have fl: "distinct (map snd fl')" "snd ` set fl' \<subseteq> asked lt - {i}"
    using e lookup_okD(5) [OF ok] by (auto simp: ended_def)
  note o = on_candidate_ok [OF ok c(2), of clearSent fl']
  have 1: "lookup_ok (on_candidate (nodeId c) clearSent lt) fl'" if "\<not> isUnreachable c"
    using that w fl c(3) by (intro o) (auto simp: isUnreachable_def)
  have 2: "no_orphan (on_candidate (nodeId c) clearSent lt) fl'" if "no_orphan lt fl" "\<not> isUnreachable c"
    using that o(2) w fl e c(3) by (auto simp: no_orphan_def ended_def isUnreachable_def)
  show "lookup_ok (lookup_callTimeout i lt) fl'" "no_orphan lt fl \<Longrightarrow> no_orphan (lookup_callTimeout i lt) fl'"
    using c 1 2 callError_ok [OF ok e] by (auto simp: lookup_callTimeout_def)
qed

lemma callResponsed_ok:
  assumes ok: "lookup_ok lt fl" and e: "ended i fl fl'" and r: "lookup_callResponsed now i msg lt = Inr lt'"
  shows "lookup_ok lt' fl'" "no_orphan lt fl \<Longrightarrow> no_orphan lt' fl'" "lt_target lt' = lt_target lt"
proof -
  from e lookup_okD(5) [OF ok] have i: "i \<in> asked lt" by (auto simp: ended_def)
  from cc_get_in_flight [OF lookup_okD(1) [OF ok] i] obtain c where
    c: "cc_get i (closestCandidates lt) = Some c" "c \<in> set (cands lt)" "nodeId c = i" by blast
  then have f: "fst (cc_remove i (closestCandidates lt)) = Some c" by (simp add: cc_get_def cc_remove_def)
  obtain tok s where lt': "lt' = (lookup_callError i lt)\<lparr>closestSet := s\<rparr>"
    and s: "cs_add (setToken tok (setReplied now c)) (closestSet lt) = Some s"
    using r f by (cases "cc_remove i (closestCandidates lt)") (auto simp: lookup_callResponsed_def lookup_callError_def split: option.splits)
  have n: "nodeId (setToken tok (setReplied now c)) = i" using c(3) by (simp add: setToken_def setReplied_def)
  have "cs_inv s"
    using lookup_okD(3) [OF ok] lookup_okD(7) [OF ok i] n by (intro cs_add_inv(1) [OF _ _ s]) simp_all
  with callError_ok(1) [OF ok e] show "lookup_ok lt' fl'" by (simp add: lookup_ok_def lt' asked_def)
  show "no_orphan lt' fl'" if "no_orphan lt fl" using callError_ok(2) [OF ok e that] by (simp add: no_orphan_def lt' asked_def)
  show "lt_target lt' = lt_target lt" by (simp add: lt' lookup_callError_def)
qed

lemma addCandidates_ok:
  assumes ok: "lookup_ok lt fl" and w: "\<forall>x\<in>set nodes. wf_node (fst x)"
  shows "lookup_ok (addCandidates ctx nodes lt) fl" "no_orphan lt fl \<Longrightarrow> no_orphan (addCandidates ctx nodes lt) fl"
    "lt_target (addCandidates ctx nodes lt) = lt_target lt" "closestSet (addCandidates ctx nodes lt) = closestSet lt"
proof -
  note inv = lookup_okD(1) [OF ok]
  define cs where "cs = filter (\<lambda>(n, _). \<not> (isBogon (sockaddr n) \<noteq> Some False \<or> id_eq (nodeId (myEntry ctx)) (nodeId n)
     \<or> sa_eq (sockaddr (myEntry ctx)) (sockaddr n) \<or> cs_contains (nodeId n) (closestSet lt))) nodes"
  have "\<forall>x\<in>set cs. wf_node (fst x)" using w by (auto simp: cs_def)
  note a = cc_add_effect [OF inv this]
  let ?lt = "lt\<lparr>closestCandidates := cc_add cs (closestCandidates lt)\<rparr>"
  have eq: "addCandidates ctx nodes lt = (if cs \<noteq> [] then ?lt else lt)"
    by (simp add: addCandidates_def cs_def Let_def)
  have new: "c \<in> set (cands lt) \<or> (clastSent c = 0 \<and> pinged c = 0)" if "c \<in> set (cc_closest (cc_add cs (closestCandidates lt)))" for c
    using a(5) [OF that] by blast
  have as: "asked ?lt = asked lt"
    using a(4) new by (auto simp: asked_def isInFlight_def)
  have "\<forall>c\<in>set (cands ?lt). isInFlight c \<or> pinged c < 3" using new lookup_okD(6) [OF ok] by force
  then have "lookup_ok ?lt fl"
    using a(1) a(6) lookup_okD(2-5) [OF ok] unfolding lookup_ok_def as by simp
  then show "lookup_ok (addCandidates ctx nodes lt) fl" using ok eq by simp
  show "no_orphan (addCandidates ctx nodes lt) fl" if "no_orphan lt fl"
    using that as unfolding eq no_orphan_def by simp
  show "lt_target (addCandidates ctx nodes lt) = lt_target lt" "closestSet (addCandidates ctx nodes lt) = closestSet lt"
    by (simp_all add: eq)
qed

end
