(* ===== verification/Task_Reachability.thy ===== *)
theory Task_Reachability
  imports Task_Invariants
begin

text \<open>
  The states a task can reach under any sequence of the operations the DHT, the task manager and the
  RPC calls perform on it, and what holds of all of them: at most ten calls are in flight, the
  listeners have been notified exactly when the task is over, and a running task that gets the replies
  it asked for always has a call in flight, so it cannot stop without finishing.
\<close>

section \<open>The environment\<close>

definition ctx_ok :: "TaskCtx \<Rightarrow> bool" where
  "ctx_ok ctx \<longleftrightarrow> tnow ctx \<noteq> 0 \<and> rt_inv (table ctx) \<and> (\<forall>b\<in>set (bootstraps ctx). wf_node b) \<and> length (bootstraps ctx) < 2 ^ 29"

fun body_nodes :: "Body \<Rightarrow> NodeInfo list" where
  "body_nodes (FindNodeResponse q) = nodes4 q @ nodes6 q"
| "body_nodes (FindPeerResponse q _) = nodes4 q @ nodes6 q"
| "body_nodes (FindValueResponse q _) = nodes4 q @ nodes6 q"
| "body_nodes _ = []"

definition msg_ok :: "Message \<Rightarrow> bool" where
  "msg_ok msg \<longleftrightarrow> (\<forall>n\<in>set (body_nodes (body msg)). wf_node n)"

lemma wf_node_of [simp]: "wf_node (node_of n) = wf_node n"
  by (simp add: wf_node_def node_of_def)

lemma rt_entry_wf: "rt_inv rt \<Longrightarrow> e \<in> set (rt_entries rt) \<Longrightarrow> wf_node e"
  using rt_invD(6) by (auto simp: rt_entries_def bucket_inv_def entries_ok_def)

lemma closest_list_total:
  assumes ctx: "ctx_ok ctx" and k: "wf_id (ktarget k)" "kentries k = []" "0 \<le> maxEntries k" "maxEntries k < 2 ^ 30"
  shows "\<exists>nodes. closest_list ctx k = Some nodes \<and> (\<forall>x\<in>set nodes. wf_node (fst x))"
proof -
  from ctx have c: "rt_inv (table ctx)" "length (bootstraps ctx) < 2 ^ 29" "\<forall>b\<in>set (bootstraps ctx). wf_node b" by (auto simp: ctx_ok_def)
  have m: "maxEntries k < 2 ^ 64" using k(4) by simp
  obtain k1 where k1: "kcn_collect (table ctx) k = Some k1"
    "\<forall>x\<in>set (kentries k1). x \<in> Own ` {e \<in> set (rt_entries (table ctx)). kfilter k e}"
    by (rule kcn_collect_total [OF c(1) k(1-3) m]) blast
  let ?k2 = "if below_max k1 then k1\<lparr>kentries := kentries k1 @ map Downcast (filter (\<lambda>b. canUseSocketAddress (isIPv4 ctx) (sockaddr b)) (bootstraps ctx))\<rparr> else k1"
  have "kcn_fill (bootstraps ctx) (canUseSocketAddress (isIPv4 ctx)) (myEntry ctx) False (table ctx) k = Some (shave ?k2)"
    using k1(1) by (simp add: kcn_fill_def Let_def)
  moreover have "set (kentries (shave ?k2)) \<subseteq> set (kentries ?k2)"
    by (auto simp: shave_def Let_def dest!: in_set_takeD)
  moreover have "\<forall>e\<in>set (kentries ?k2). wf_node (listed_node e)" using k1(2) c rt_entry_wf by (auto simp: wf_node_def)
  ultimately show ?thesis by (auto simp: closest_list_def)
qed

section \<open>What every state of a task satisfies\<close>

definition kind_ok :: "Kind \<Rightarrow> (nat \<times> Id) list \<Rightarrow> bool" where
  "kind_ok k fl \<longleftrightarrow> (\<forall>lt. lookup_of k = Some lt \<longrightarrow> lookup_ok lt fl)"

definition kind_live :: "Kind \<Rightarrow> (nat \<times> Id) list \<Rightarrow> bool" where
  "kind_live k fl \<longleftrightarrow> (\<forall>lt. lookup_of k = Some lt \<longrightarrow> no_orphan lt fl)"

definition calls_ok :: "'l Run \<Rightarrow> bool" where
  "calls_ok r \<longleftrightarrow> length (inFlight (task r)) \<le> MAX_CONCURRENT_TASK_REQUESTS \<and> distinct (map fst (inFlight (task r)))
     \<and> (\<forall>x\<in>set (inFlight (task r)). fst x < nextCall r)"

definition core :: "'l Run \<Rightarrow> bool" where
  "core r \<longleftrightarrow> calls_ok r \<and> kind_ok (kind (task r)) (inFlight (task r))"

abbreviation live :: "'l Run \<Rightarrow> bool" where
  "live r \<equiv> kind_live (kind (task r)) (inFlight (task r))"

lemma lookup_of_map [simp]: "lookup_of (map_lookup f k) = map_option f (lookup_of k)"
  by (cases k) auto

lemma calls_ok_send: "calls_ok r \<Longrightarrow> canDoRequest (task r) \<Longrightarrow> calls_ok (task_sendCall n b q m r)"
  by (auto simp: calls_ok_def task_sendCall_def canDoRequest_def emit_def Let_def dest: less_SucI)

lemma inFlight_send:
  "canDoRequest (task r) \<Longrightarrow> inFlight (task (task_sendCall n b q m r)) = inFlight (task r) @ [(nextCall r, nodeId n)]"
  "canDoRequest (task r) \<Longrightarrow> kind (task (task_sendCall n b q m r)) = m (kind (task r))"
  "fault (task_sendCall n b q m r) = fault r"
  by (simp_all add: task_sendCall_def emit_def Let_def)

lemma kind_free: "lookup_of k = None \<Longrightarrow> kind_ok k fl" "lookup_of k = None \<Longrightarrow> kind_live k fl"
  by (simp_all add: kind_ok_def kind_live_def)

section \<open>The update loops\<close>

lemma lookup_update_core:
  assumes "core r" "tnow ctx \<noteq> 0" "lookup_of (kind (task r)) \<noteq> None"
  shows "core (lookup_update ctx r) \<and> (live r \<longrightarrow> live (lookup_update ctx r)) \<and> fault (lookup_update ctx r) = fault r
    \<and> (\<exists>lt. lookup_of (kind (task (lookup_update ctx r))) = Some lt
          \<and> (canDoRequest (task (lookup_update ctx r)) \<longrightarrow> cc_next (closestCandidates lt) = None))"
  using assms
proof (induction ctx r rule: lookup_update.induct)
  case (1 ctx r)
  from 1(4) obtain lt where lt: "lookup_of (kind (task r)) = Some lt" by auto
  show ?case
  proof (cases "canDoRequest (task r) \<and> cc_next (closestCandidates lt) \<noteq> None")
    case False
    then have "lookup_update ctx r = r" by (subst lookup_update.simps) (auto simp: lt)
    with 1(2) False lt show ?thesis by auto
  next
    case True
    then obtain c where c: "cc_next (closestCandidates lt) = Some c" and can: "canDoRequest (task r)" by auto
    let ?r = "task_sendCall c (creachable c) (lookup_request ctx (kind (task r))) (map_lookup (on_candidate (nodeId c) (setSent (tnow ctx)))) r"
    have eq: "lookup_update ctx r = lookup_update ctx ?r" by (subst lookup_update.simps) (simp add: lt c can)
    have ok: "lookup_ok lt (inFlight (task r))" using 1(2) lt by (auto simp: core_def kind_ok_def)
    note a = lookup_ask_ok [OF ok c 1(3), of "nextCall r"]
    have "core ?r" using a(1) calls_ok_send [OF _ can] 1(2) lt by (auto simp: core_def inFlight_send(1,2) [OF can] kind_ok_def)
    moreover have "live r \<longrightarrow> live ?r" using a(2) lt by (auto simp: inFlight_send(1,2) [OF can] kind_live_def)
    moreover have "lookup_of (kind (task ?r)) \<noteq> None" using lt by (simp add: inFlight_send(1,2) [OF can])
    ultimately show ?thesis
      using 1(1) [OF can, of c] 1(3) lt c unfolding eq by (auto simp: inFlight_send(3))
  qed
qed

lemma announce_loop_core:
  assumes "core r" "kind (task r) = k cs" "\<And>cs. lookup_of (k cs) = None"
  shows "core (announce_loop q k cs r) \<and> fault (announce_loop q k cs r) = fault r
    \<and> (\<exists>cs'. kind (task (announce_loop q k cs r)) = k cs' \<and> (canDoRequest (task (announce_loop q k cs r)) \<longrightarrow> cs' = []))"
  using assms(1,2)
proof (induction cs arbitrary: r)
  case (Cons c cs)
  show ?case
  proof (cases "canDoRequest (task r)")
    case True
    let ?r = "task_sendCall c (creachable c) (q c) (\<lambda>_. k cs) r"
    have "core ?r" using Cons.prems calls_ok_send [OF _ True] assms(3) by (simp add: core_def inFlight_send(1,2) [OF True] kind_free)
    from Cons.IH [OF this] True show ?thesis by (simp add: inFlight_send)
  qed (use Cons.prems in auto)
qed auto

lemma ping_loop_core:
  assumes "core r" "kind (task r) = PingRefresh (p\<lparr>todo := es\<rparr>)"
  shows "core (ping_loop ctx p es r) \<and> fault (ping_loop ctx p es r) = fault r
    \<and> (\<exists>es'. kind (task (ping_loop ctx p es r)) = PingRefresh (p\<lparr>todo := es'\<rparr>) \<and> (canDoRequest (task (ping_loop ctx p es r)) \<longrightarrow> es' = []))"
  using assms
proof (induction es arbitrary: r)
  case (Cons e es)
  show ?case
  proof (cases "canDoRequest (task r)")
    case True
    let ?e = "entryAt ctx (eref e)" and ?k = "PingRefresh (p\<lparr>todo := es\<rparr>)"
    have 1: "core (task_sendCall ?e (reachable ?e) PingRequest (\<lambda>_. ?k) r)"
      using Cons.prems calls_ok_send [OF _ True] by (simp add: core_def inFlight_send(1,2) [OF True] kind_free)
    have 2: "core (set_kind ?k r)" using Cons.prems by (simp add: core_def run_defs calls_ok_def kind_free)
    from Cons.IH [OF 1] Cons.IH [OF 2] True show ?thesis by (simp add: inFlight_send Let_def run_defs)
  qed (use Cons.prems in auto)
qed auto

text \<open>After an update nothing is left to do unless a call is in flight.\<close>

lemma update_core:
  assumes r: "core r" and now: "tnow ctx \<noteq> 0"
  shows "core (update ctx r)" "fault (update ctx r) = fault r" "live r \<Longrightarrow> live (update ctx r)"
    "live r \<Longrightarrow> inFlight (task (update ctx r)) = [] \<Longrightarrow> isDone (task (update ctx r))"
proof -
  have can: "canDoRequest t" if "inFlight t = []" for t :: "'a Task"
    using that by (simp add: canDoRequest_def MAX_CONCURRENT_TASK_REQUESTS_def)
  have lk: "core (update ctx r) \<and> fault (update ctx r) = fault r \<and> (live r \<longrightarrow> live (update ctx r))
      \<and> (live r \<longrightarrow> inFlight (task (update ctx r)) = [] \<longrightarrow> isDone (task (update ctx r)))"
    if lt: "lookup_of (kind (task r)) \<noteq> None"
  proof -
    have u: "update ctx r = lookup_update ctx r" using lt by (cases "kind (task r)") (simp_all add: update_def)
    from lookup_update_core [OF r now lt] obtain lt' where
      l: "core (update ctx r)" "live r \<longrightarrow> live (update ctx r)" "fault (update ctx r) = fault r"
      "lookup_of (kind (task (update ctx r))) = Some lt'"
      "canDoRequest (task (update ctx r)) \<longrightarrow> cc_next (closestCandidates lt') = None" unfolding u by blast
    have "isDone (task (update ctx r))" if "live (update ctx r)" "inFlight (task (update ctx r)) = []"
    proof -
      have ok: "lookup_ok lt' []" using l(1,4) that(2) by (auto simp: core_def kind_ok_def)
      have "no_orphan lt' []" using that l(4) by (auto simp: kind_live_def)
      then have "\<forall>c\<in>set (cands lt'). \<not> isInFlight c" by (auto simp: no_orphan_def asked_def)
      moreover have "\<forall>c\<in>set (cands lt'). \<not> cisEligible c"
        using l(5) can [OF that(2)] cc_next_least(1) [OF lookup_okD(1) [OF ok]] by blast
      ultimately have "cands lt' = []" using lookup_okD(6) [OF ok] by (force simp: cisEligible_def isInFlight_def)
      then have "lookup_isDone lt'" by (simp add: lookup_isDone_def)
      with l(4) that(2) show ?thesis by (cases "kind (task (update ctx r))") (auto simp: isDone_def)
    qed
    with l show ?thesis by blast
  qed
  have an: "core (update ctx r) \<and> fault (update ctx r) = fault r \<and> live (update ctx r)
      \<and> (inFlight (task (update ctx r)) = [] \<longrightarrow> isDone (task (update ctx r)))"
    if lt: "lookup_of (kind (task r)) = None"
  proof (cases "kind (task r)")
    case (ValueAnnounce td v)
    then have u: "update ctx r = announce_loop (\<lambda>c. StoreRequest (mkStoreValueRequest v (ctoken c))) (\<lambda>td. ValueAnnounce td v) td r" by (simp add: update_def)
    from announce_loop_core [OF r, of "\<lambda>td. ValueAnnounce td v" td "\<lambda>c. StoreRequest (mkStoreValueRequest v (ctoken c))"] ValueAnnounce obtain td' where
      "core (update ctx r)" "fault (update ctx r) = fault r" "kind (task (update ctx r)) = ValueAnnounce td' v"
      "canDoRequest (task (update ctx r)) \<longrightarrow> td' = []" unfolding u by auto
    then show ?thesis using can [of "task (update ctx r)"] by (auto simp: isDone_def kind_live_def)
  next
    case (PeerAnnounce td v)
    then have u: "update ctx r = announce_loop (\<lambda>c. AnnounceRequest (mkAnnouncePeerRequest v (ctoken c))) (\<lambda>td. PeerAnnounce td v) td r" by (simp add: update_def)
    from announce_loop_core [OF r, of "\<lambda>td. PeerAnnounce td v" td "\<lambda>c. AnnounceRequest (mkAnnouncePeerRequest v (ctoken c))"] PeerAnnounce obtain td' where
      "core (update ctx r)" "fault (update ctx r) = fault r" "kind (task (update ctx r)) = PeerAnnounce td' v"
      "canDoRequest (task (update ctx r)) \<longrightarrow> td' = []" unfolding u by auto
    then show ?thesis using can [of "task (update ctx r)"] by (auto simp: isDone_def kind_live_def)
  next
    case (PingRefresh p)
    then have u: "update ctx r = ping_loop ctx p (todo p) r" by (simp add: update_def)
    from ping_loop_core [OF r, where p = p and es = "todo p" and ctx = ctx] PingRefresh obtain td' where
      "core (update ctx r)" "fault (update ctx r) = fault r" "kind (task (update ctx r)) = PingRefresh (p\<lparr>todo := td'\<rparr>)"
      "canDoRequest (task (update ctx r)) \<longrightarrow> td' = []" unfolding u by auto
    then show ?thesis using can [of "task (update ctx r)"] by (auto simp: isDone_def kind_live_def)
  qed (use lt in auto)
  show "core (update ctx r)" "fault (update ctx r) = fault r" "live r \<Longrightarrow> live (update ctx r)"
    "live r \<Longrightarrow> inFlight (task (update ctx r)) = [] \<Longrightarrow> isDone (task (update ctx r))"
    using lk an by blast+
qed

section \<open>Rounds of updates\<close>

text \<open>What \<open>finish\<close> and \<open>cancel\<close> leave alone.\<close>

lemma finish_keeps [simp]:
  "kind (task (finish now r)) = kind (task r)" "inFlight (task (finish now r)) = inFlight (task r)"
  "nextCall (finish now r) = nextCall r" "fault (finish now r) = fault r"
  by (auto simp: finish_def setState_def notifyCompletionListeners_def)

lemma cancel_keeps [simp]:
  "kind (task (cancel now r)) = kind (task r)" "inFlight (task (cancel now r)) = inFlight (task r)"
  "nextCall (cancel now r) = nextCall r" "fault (cancel now r) = fault r"
  by (auto simp: cancel_def setState_def notifyCompletionListeners_def emit_def Let_def split: option.split)

lemma finish_core [simp]: "core (finish now r) = core r"
  by (simp add: core_def calls_ok_def)

lemma finish_terminal_id: "isTerminal (task r) \<Longrightarrow> finish now r = r"
  by (auto simp: finish_def setState_def isTerminal_def)

lemma update_round_terminal: "isTerminal (task r) \<Longrightarrow> update_round ctx r = r"
  by (simp add: update_round_def finish_terminal_id)

lemma update_round_core:
  assumes r: "core r" and now: "tnow ctx \<noteq> 0"
  shows "core (update_round ctx r)" "fault (update_round ctx r) = fault r" "live r \<Longrightarrow> live (update_round ctx r)"
    "live r \<Longrightarrow> isTerminal (task (update_round ctx r)) \<or> inFlight (task (update_round ctx r)) \<noteq> []"
proof -
  let ?r1 = "if isDone (task r) then finish (tnow ctx) r else r"
  have 1: "core ?r1" "fault ?r1 = fault r" "live r \<Longrightarrow> live ?r1" using r by simp_all
  note u = update_core [OF 1(1) now]
  show "core (update_round ctx r)"
    unfolding update_round_def Let_def using u(1) 1(1) by simp
  show "fault (update_round ctx r) = fault r"
    unfolding update_round_def Let_def using u(2) 1(2) by auto
  show "live (update_round ctx r)" if "live r"
    unfolding update_round_def Let_def using u(3) 1(3) [OF that] by auto
  show "isTerminal (task (update_round ctx r)) \<or> inFlight (task (update_round ctx r)) \<noteq> []" if "live r"
    unfolding update_round_def Let_def
    using u(4) [OF 1(3) [OF that]] finish_terminal finish_terminal [of "tnow ctx" r]
    by (auto simp: canDoRequest_def MAX_CONCURRENT_TASK_REQUESTS_def)
qed

text \<open>What a state between two operations satisfies.\<close>

definition run_ok :: "'l Run \<Rightarrow> bool" where
  "run_ok r \<longleftrightarrow> lock (task r) = 0 \<and> calls_ok r \<and> (\<not> isTerminal (task r) \<longrightarrow> kind_ok (kind (task r)) (inFlight (task r)))
     \<and> (taskState (task r) \<in> {INITIAL, QUEUED} \<longrightarrow> inFlight (task r) = [])
     \<and> notified (emitted r) = (if isTerminal (task r) then listeners (task r) else [])"

text \<open>The undefined behaviour of a lookup: the read through the erased iterator, when the set of those who
  answered is full.\<close>

definition tail_erased :: "'l Run \<Rightarrow> bool" where
  "tail_erased r \<longleftrightarrow> fault r = Some Undefined \<and> (\<exists>lt. lookup_of (kind (task r)) = Some lt \<and> cs_reachedCapacity (closestSet lt))"

definition run_live :: "'l Run \<Rightarrow> bool" where
  "run_live r \<longleftrightarrow> tail_erased r \<or> fault r = None \<and> (\<not> isTerminal (task r) \<longrightarrow> live r) \<and> (taskState (task r) = RUNNING \<longrightarrow> inFlight (task r) \<noteq> [])"

lemma notified_progress:
  assumes "progress r r'" "notified (emitted r) = (if isTerminal (task r) then listeners (task r) else [])"
  shows "notified (emitted r') = (if isTerminal (task r') then listeners (task r') else [])"
  using assms isTerminal_state [of "task r'" "task r"] by (auto simp: progress_def)

lemma one_update_fields:
  "kind (task (one_update ctx r)) = kind (task (update_round ctx (on_task (\<lambda>t. t\<lparr>lock := 1\<rparr>) r)))"
  "inFlight (task (one_update ctx r)) = inFlight (task (update_round ctx (on_task (\<lambda>t. t\<lparr>lock := 1\<rparr>) r)))"
  "nextCall (one_update ctx r) = nextCall (update_round ctx (on_task (\<lambda>t. t\<lparr>lock := 1\<rparr>) r))"
  "fault (one_update ctx r) = fault (update_round ctx (on_task (\<lambda>t. t\<lparr>lock := 1\<rparr>) r))"
  "isTerminal (task (one_update ctx r)) = isTerminal (task (update_round ctx (on_task (\<lambda>t. t\<lparr>lock := 1\<rparr>) r)))"
  by (simp_all add: one_update_def run_defs Let_def isTerminal_def)

lemma one_update_ok:
  assumes r: "run_ok r" and s: "taskState (task r) \<notin> {INITIAL, QUEUED}" and now: "tnow ctx \<noteq> 0"
  shows "run_ok (one_update ctx r)"
    "fault r = None \<Longrightarrow> (\<not> isTerminal (task r) \<longrightarrow> live r) \<Longrightarrow> run_live (one_update ctx r)"
proof -
  let ?r = "on_task (\<lambda>t. t\<lparr>lock := 1\<rparr>) r"
  have p: "progress r (one_update ctx r)" using r by (intro one_update_progress) (simp add: run_ok_def)
  have same [simp]: "kind (task ?r) = kind (task r)" "inFlight (task ?r) = inFlight (task r)" "calls_ok ?r = calls_ok r"
    "isTerminal (task ?r) = isTerminal (task r)" "fault ?r = fault r" "nextCall ?r = nextCall r"
    by (simp_all add: on_task_def calls_ok_def isTerminal_def)
  have c: "core ?r" if "\<not> isTerminal (task r)" using that r by (auto simp: core_def run_ok_def)
  note u = update_round_core [OF c now]
  have s': "taskState (task (one_update ctx r)) \<notin> {INITIAL, QUEUED}"
    using p s by (auto simp: progress_def isTerminal_def)
  have "calls_ok (one_update ctx r) \<and> (\<not> isTerminal (task r) \<longrightarrow> kind_ok (kind (task (one_update ctx r))) (inFlight (task (one_update ctx r))))"
  proof (cases "isTerminal (task r)")
    case True
    then show ?thesis using r update_round_terminal [of ?r ctx] by (simp add: run_ok_def calls_ok_def one_update_fields)
  next
    case False
    then show ?thesis using u(1) by (simp add: core_def calls_ok_def one_update_fields)
  qed
  moreover have "\<not> isTerminal (task r)" if "\<not> isTerminal (task (one_update ctx r))"
    using that p by (auto simp: progress_def isTerminal_def)
  ultimately show "run_ok (one_update ctx r)"
    using s' r notified_progress [OF p] p unfolding run_ok_def by (auto simp: progress_def)
  assume l: "fault r = None" "\<not> isTerminal (task r) \<longrightarrow> live r"
  show "run_live (one_update ctx r)"
  proof (cases "isTerminal (task r)")
    case True
    then have "update_round ctx ?r = ?r" by (intro update_round_terminal) simp
    then have "isTerminal (task (one_update ctx r))" "fault (one_update ctx r) = None" using True l by (simp_all add: one_update_fields)
    then show ?thesis by (auto simp: run_live_def isTerminal_def)
  next
    case False
    have "\<not> isTerminal (task (one_update ctx r))" if "taskState (task (one_update ctx r)) = RUNNING"
      using that by (simp add: isTerminal_def)
    with False u(2-4) l show ?thesis by (auto simp: run_live_def one_update_fields)
  qed
qed

end
