(* ===== verification/Task_Runs.thy ===== *)
theory Task_Runs
  imports Task_Reachability
begin

text \<open>
  Runs of a task: the inductive predicate \<open>task_reachable\<close> of the states that the operations of
  \<^verbatim>\<open>dht.cc\<close>, of the task manager and of the RPC calls lead to, and the invariants of all these states.
\<close>

section \<open>Replies\<close>

text \<open>A reply that a task of the kind can use. A node lookup needs a response to some lookup; a value or
  peer lookup needs a response of its own method from the node it asked, and a value that can be built.\<close>

fun answers :: "Kind \<Rightarrow> RPCCall \<Rightarrow> bool" where
  "answers (NodeLookup _ _ _) c = (\<exists>msg tok. response c = Some msg \<and> response_token (body msg) = Some tok)"
| "answers (ValueLookup _ _ _) c = (\<exists>msg q f. response c = Some msg \<and> body msg = FindValueResponse q f \<and> matchesId c = Some True
     \<and> (hasValue f \<longrightarrow> (\<exists>v. getValue f = Inr v)))"
| "answers (PeerLookup _ _) c = (\<exists>msg q ps. response c = Some msg \<and> body msg = FindPeerResponse q ps \<and> matchesId c = Some True)"
| "answers _ c = True"

lemma add_nodes_ok:
  assumes "lookup_ok lt fl" "\<forall>n\<in>set (nodes4 q @ nodes6 q). wf_node n"
  shows "lookup_ok (add_nodes ctx q lt) fl" "no_orphan lt fl \<Longrightarrow> no_orphan (add_nodes ctx q lt) fl"
proof -
  have w: "\<forall>x\<in>set (plain_nodes (getNodes (isIPv4 ctx) q)). wf_node (fst x)"
    using assms(2) by (auto simp: plain_nodes_def getNodes_def)
  show "lookup_ok (add_nodes ctx q lt) fl" "no_orphan lt fl \<Longrightarrow> no_orphan (add_nodes ctx q lt) fl"
    using assms(1) addCandidates_ok [OF assms(1) w] by (simp_all add: add_nodes_def Let_def)
qed

lemma lookup_callResponsed_Inl:
  "response_token (body msg) = Some tok \<Longrightarrow> lookup_callResponsed now i msg lt = Inl e \<Longrightarrow> e = Undefined \<and> cs_reachedCapacity (closestSet lt)"
  by (auto simp: lookup_callResponsed_def cs_add_None split: option.splits prod.splits)

text \<open>\<open>handled r fl r'\<close>: \<open>r'\<close> comes from \<open>r\<close> by handling a reply; \<open>fl\<close> was in flight before.\<close>

definition handled :: "'l Run \<Rightarrow> (nat \<times> Id) list \<Rightarrow> bool \<Rightarrow> 'l Run \<Rightarrow> bool" where
  "handled r fl good r' \<longleftrightarrow> inFlight (task r') = inFlight (task r) \<and> nextCall r' = nextCall r
     \<and> kind_ok (kind (task r')) (inFlight (task r))
     \<and> (good \<longrightarrow> kind_live (kind (task r)) fl \<longrightarrow> tail_erased r' \<or> fault r' = fault r \<and> live r')"

lemma set_kind_fields [simp]:
  "kind (task (set_kind k r)) = k" "inFlight (task (set_kind k r)) = inFlight (task r)" "nextCall (set_kind k r) = nextCall r"
  "fault (set_kind k r) = fault r" "isTerminal (task (set_kind k r)) = isTerminal (task r)"
  by (simp_all add: run_defs isTerminal_def)

lemma raise_fields [simp]:
  "task (raise_fault e r) = task r" "nextCall (raise_fault e r) = nextCall r" "fault (raise_fault e r) = Some e"
  by (simp_all add: raise_fault_def)

lemma node_responsed:
  assumes k: "kind (task r) = NodeLookup lt b w" and ok: "lookup_ok lt fl" and e: "ended (targetId c) fl (inFlight (task r))"
    and m: "msg_ok msg" "response c = Some msg"
  shows "handled r fl (answers (kind (task r)) c) (task_callResponsed ctx c msg r)"
proof (cases "lookup_callResponsed (tnow ctx) (targetId c) msg lt")
  case (Inl x)
  then show ?thesis
    using k m lookup_callResponsed_Inl [OF _ Inl] dropped_ok [OF ok e]
    by (auto simp: handled_def task_callResponsed_def node_callResponsed_def kind_ok_def tail_erased_def)
next
  case (Inr lt1)
  note c = callResponsed_ok [OF ok e Inr]
  have n: "lookup_ok (add_nodes ctx q lt1) (inFlight (task r))" "no_orphan lt fl \<Longrightarrow> no_orphan (add_nodes ctx q lt1) (inFlight (task r))"
    if "body msg = FindNodeResponse q" for q
    using add_nodes_ok [OF c(1), of q ctx] c(2) m(1) that by (auto simp: msg_ok_def)
  show ?thesis
    using k Inr c n by (auto simp: handled_def task_callResponsed_def node_callResponsed_def kind_ok_def kind_live_def split: Body.split)
qed

lemma value_responsed:
  assumes k: "kind (task r) = ValueLookup lt s h" and ok: "lookup_ok lt fl" and e: "ended (targetId c) fl (inFlight (task r))"
    and m: "msg_ok msg" "response c = Some msg"
  shows "handled r fl (answers (kind (task r)) c) (task_callResponsed ctx c msg r)"
proof (cases "\<exists>q f. body msg = FindValueResponse q f \<and> matchesId c = Some True")
  case False
  then have "task_callResponsed ctx c msg r = r"
    using k by (cases "body msg") (simp_all add: task_callResponsed_def value_callResponsed_def)
  with False k m(2) dropped_ok [OF ok e] show ?thesis by (auto simp: handled_def kind_ok_def)
next
  case True
  then obtain q f where b: "body msg = FindValueResponse q f" "matchesId c = Some True" by blast
  show ?thesis
  proof (cases "lookup_callResponsed (tnow ctx) (targetId c) msg lt")
    case (Inl x)
    then show ?thesis
      using k b lookup_callResponsed_Inl [OF _ Inl] dropped_ok [OF ok e]
      by (auto simp: handled_def task_callResponsed_def value_callResponsed_def kind_ok_def tail_erased_def)
  next
    case lt1: (Inr lt1)
    note c = callResponsed_ok [OF ok e lt1]
    note n = add_nodes_ok [OF c(1), of q ctx]
    have w: "\<forall>n\<in>set (nodes4 q @ nodes6 q). wf_node n" using m(1) b by (simp add: msg_ok_def)
    show ?thesis
      using k c n [OF w] m(2) b
      by (auto simp: handled_def task_callResponsed_def value_callResponsed_def lt1 kind_ok_def kind_live_def Let_def
          split: sum.split prod.split)
  qed
qed

lemma peer_responsed:
  assumes k: "kind (task r) = PeerLookup lt h" and ok: "lookup_ok lt fl" and e: "ended (targetId c) fl (inFlight (task r))"
    and m: "msg_ok msg" "response c = Some msg"
  shows "handled r fl (answers (kind (task r)) c) (task_callResponsed ctx c msg r)"
proof (cases "\<exists>q ps. body msg = FindPeerResponse q ps \<and> matchesId c = Some True")
  case False
  then have "task_callResponsed ctx c msg r = r"
    using k by (cases "body msg") (simp_all add: task_callResponsed_def peer_callResponsed_def)
  with False k m(2) dropped_ok [OF ok e] show ?thesis by (auto simp: handled_def kind_ok_def)
next
  case True
  then obtain q ps where b: "body msg = FindPeerResponse q ps" "matchesId c = Some True" by blast
  show ?thesis
  proof (cases "lookup_callResponsed (tnow ctx) (targetId c) msg lt")
    case (Inl x)
    then show ?thesis
      using k b lookup_callResponsed_Inl [OF _ Inl] dropped_ok [OF ok e]
      by (auto simp: handled_def task_callResponsed_def peer_callResponsed_def kind_ok_def tail_erased_def)
  next
    case lt1: (Inr lt1)
    note c = callResponsed_ok [OF ok e lt1]
    note n = add_nodes_ok [OF c(1), of q ctx]
    have w: "\<forall>n\<in>set (nodes4 q @ nodes6 q). wf_node n" using m(1) b by (simp add: msg_ok_def)
    show ?thesis
      using k c n [OF w] m(2) b
      by (auto simp: handled_def task_callResponsed_def peer_callResponsed_def lt1 kind_ok_def kind_live_def Let_def
          split: prod.split)
  qed
qed

lemma callResponsed_handled:
  assumes "kind_ok (kind (task r)) fl" "lookup_of (kind (task r)) \<noteq> None \<Longrightarrow> ended (targetId c) fl (inFlight (task r))"
    "msg_ok msg" "response c = Some msg"
  shows "handled r fl (answers (kind (task r)) c) (task_callResponsed ctx c msg r)"
proof (cases "kind (task r)")
  case (NodeLookup lt b w)
  then show ?thesis using assms by (intro node_responsed) (auto simp: kind_ok_def)
next
  case (ValueLookup lt s h)
  then show ?thesis using assms by (intro value_responsed) (auto simp: kind_ok_def)
next
  case (PeerLookup lt h)
  then show ?thesis using assms by (intro peer_responsed) (auto simp: kind_ok_def)
qed (auto simp: handled_def task_callResponsed_def kind_ok_def kind_live_def)

lemma callError_handled:
  assumes "kind_ok (kind (task r)) fl" "lookup_of (kind (task r)) \<noteq> None \<Longrightarrow> ended (targetId c) fl (inFlight (task r))"
  shows "handled r fl True (task_callError c r)"
  using assms callError_ok
  by (auto simp: handled_def task_callError_def on_task_def kind_ok_def kind_live_def)

lemma callTimeout_handled:
  assumes "kind_ok (kind (task r)) fl" "lookup_of (kind (task r)) \<noteq> None \<Longrightarrow> ended (targetId c) fl (inFlight (task r))"
  shows "handled r fl True (task_callTimeout c r)"
proof (cases "\<exists>p. kind (task r) = PingRefresh p")
  case True
  then have "kind (task (task_callTimeout c r)) = kind (task r)" "inFlight (task (task_callTimeout c r)) = inFlight (task r)"
    "nextCall (task_callTimeout c r) = nextCall r" "fault (task_callTimeout c r) = fault r" "lookup_of (kind (task r)) = None"
    by (auto simp: task_callTimeout_def emit_def)
  then show ?thesis by (simp add: handled_def kind_free)
next
  case False
  then have "task_callTimeout c r = set_kind (map_lookup (lookup_callTimeout (targetId c)) (kind (task r))) r"
    by (cases "kind (task r)") (simp_all add: task_callTimeout_def)
  then show ?thesis
    using assms callTimeout_ok by (auto simp: handled_def kind_ok_def kind_live_def)
qed

section \<open>Events of calls\<close>

definition event_ok :: "TaskCtx \<Rightarrow> RPCCall \<Rightarrow> CallState \<Rightarrow> 'l Run \<Rightarrow> bool" where
  "event_ok ctx c current r \<longleftrightarrow> ctx_ok ctx \<and> (call_ref c, targetId c) \<in> set (inFlight (task r))
     \<and> (current = RESPONDED \<longrightarrow> (\<exists>msg. response c = Some msg \<and> msg_ok msg))"

text \<open>The state right before the update: the call is no longer in flight and the task has handled its end.\<close>

lemma event_before_update:
  assumes ok: "run_ok r" and ev: "event_ok ctx c current r" "current \<in> {RESPONDED, CERR, TIMEOUT}"
  defines "d \<equiv> on_task (removeCall (call_ref c)) r"
  defines "r1 \<equiv> if isTerminal (task r) then d
     else if current = RESPONDED then task_callResponsed ctx c (the (response c)) d
     else if current = CERR then task_callError c d else task_callTimeout c d"
  shows "run_ok r1" "current = RESPONDED \<longrightarrow> answers (kind (task r)) c \<Longrightarrow> run_live r \<Longrightarrow> fault r = None \<Longrightarrow>
      tail_erased r1 \<or> fault r1 = None \<and> (\<not> isTerminal (task r1) \<longrightarrow> live r1)"
    "taskState (task r1) \<notin> {INITIAL, QUEUED}"
proof -
  let ?fl = "inFlight (task r)" and ?good = "current = RESPONDED \<longrightarrow> answers (kind (task r)) c"
  have mem: "(call_ref c, targetId c) \<in> set ?fl" using ev by (simp add: event_ok_def)
  have st: "taskState (task r) \<notin> {INITIAL, QUEUED}" using ok mem by (auto simp: run_ok_def)
  have d [simp]: "kind (task d) = kind (task r)" "nextCall d = nextCall r" "isTerminal (task d) = isTerminal (task r)" "fault d = fault r"
    "inFlight (task d) = filter (\<lambda>x. fst x \<noteq> call_ref c) ?fl"
    by (simp_all add: d_def on_task_def removeCall_def isTerminal_def)
  have cd: "calls_ok d"
    using ok le_trans [OF length_filter_le] by (auto simp: run_ok_def calls_ok_def distinct_map_filter)
  have pd: "progress r d" unfolding d_def by (rule quiet_progress [OF quiet_removeCall])
  have p: "progress r r1"
    unfolding r1_def
    by (auto intro: pd progress_trans [OF pd] callResponsed_progress quiet_progress [OF quiet_callError] quiet_progress [OF quiet_callTimeout])
  have h: "handled d ?fl ?good r1" if t: "\<not> isTerminal (task r)"
  proof -
    have k: "kind_ok (kind (task d)) ?fl" using ok t by (simp add: run_ok_def)
    have e: "ended (targetId c) ?fl (inFlight (task d))" if "lookup_of (kind (task d)) \<noteq> None"
      using that k ok mem by (auto simp: run_ok_def calls_ok_def kind_ok_def dest: lookup_okD(4) intro: removeCall_ended)
    have "handled d ?fl ?good r1" if "current = RESPONDED"
      using that t ev(1) callResponsed_handled [OF k e, where ctx = ctx] unfolding r1_def by (auto simp: event_ok_def)
    moreover have "handled d ?fl ?good r1" if "current = CERR"
      using that t callError_handled [OF k e] unfolding r1_def by simp
    moreover have "handled d ?fl ?good r1" if "current = TIMEOUT"
      using that t callTimeout_handled [OF k e] unfolding r1_def by simp
    ultimately show ?thesis using ev(2) by blast
  qed
  show st1: "taskState (task r1) \<notin> {INITIAL, QUEUED}" using p st by (auto simp: progress_def isTerminal_def)
  have c1: "calls_ok r1" using h cd by (cases "isTerminal (task r)") (auto simp: r1_def handled_def calls_ok_def)
  have t1: "\<not> isTerminal (task r)" if "\<not> isTerminal (task r1)"
    using that p isTerminal_state [of "task r1" "task r"] by (auto simp: progress_def)
  have "kind_ok (kind (task r1)) (inFlight (task r1))" if "\<not> isTerminal (task r1)"
    using h [OF t1 [OF that]] by (simp add: handled_def)
  moreover have "lock (task r1) = 0" using p ok by (simp add: progress_def run_ok_def)
  moreover have "notified (emitted r1) = (if isTerminal (task r1) then listeners (task r1) else [])"
  proof (rule notified_progress [OF p])
    show "notified (emitted r) = (if isTerminal (task r) then listeners (task r) else [])" using ok unfolding run_ok_def by blast
  qed
  ultimately show "run_ok r1" using c1 st1 unfolding run_ok_def by simp
  assume g: ?good and "run_live r" and f: "fault r = None"
  then have l: "\<not> isTerminal (task r) \<longrightarrow> live r" by (auto simp: run_live_def tail_erased_def)
  show "tail_erased r1 \<or> fault r1 = None \<and> (\<not> isTerminal (task r1) \<longrightarrow> live r1)"
  proof (cases "isTerminal (task r)")
    case True
    then have "r1 = d" by (simp add: r1_def)
    then show ?thesis using f True by simp
  next
    case False
    then show ?thesis using h [OF False] g l f by (auto simp: handled_def)
  qed
qed

lemma callStateChanged_ok:
  assumes ok: "run_ok r" and ev: "event_ok ctx c current r" and f: "fault r = None"
    and st: "callStateChanged ctx c current r = Some r'"
  shows "run_ok r'" "current = RESPONDED \<longrightarrow> answers (kind (task r)) c \<Longrightarrow> run_live r \<Longrightarrow> run_live r'"
proof -
  have now: "tnow ctx \<noteq> 0" using ev by (simp add: event_ok_def ctx_ok_def)
  have st0: "taskState (task r) \<notin> {INITIAL, QUEUED}" using ok ev by (auto simp: run_ok_def event_ok_def)
  have upd: "run_ok r' \<and> (run_live r \<longrightarrow> run_live r')"
    if "current \<notin> {RESPONDED, CERR, TIMEOUT}"
    using that st ok f one_update_ok [OF ok st0 now] serializedUpdate_once [of r ctx]
    by (cases current) (auto simp: callStateChanged_def run_ok_def run_live_def tail_erased_def Let_def split: if_splits)
  define d where "d = on_task (removeCall (call_ref c)) r"
  define r1 where "r1 = (if isTerminal (task r) then d
     else if current = RESPONDED then task_callResponsed ctx c (the (response c)) d
     else if current = CERR then task_callError c d else task_callTimeout c d)"
  have ended: "run_ok r' \<and> ((current = RESPONDED \<longrightarrow> answers (kind (task r)) c) \<longrightarrow> run_live r \<longrightarrow> run_live r')"
    if cur: "current \<in> {RESPONDED, CERR, TIMEOUT}"
  proof -
    note b = event_before_update [OF ok ev cur, folded d_def, folded r1_def]
    have "callStateChanged ctx c current r = (if fault r1 = None then serializedUpdate ctx r1 else Some r1)"
      using cur ev by (auto simp: callStateChanged_def event_ok_def r1_def d_def Let_def)
    moreover have "lock (task r1) = 0" using b(1) by (simp add: run_ok_def)
    ultimately have "r' = (if fault r1 = None then one_update ctx r1 else r1)"
      using st serializedUpdate_once [of r1 ctx] by (auto split: if_splits)
    with b f one_update_ok [OF b(1) b(3) now] show ?thesis by (auto simp: run_live_def [of r1] tail_erased_def)
  qed
  show "run_ok r'" "current = RESPONDED \<longrightarrow> answers (kind (task r)) c \<Longrightarrow> run_live r \<Longrightarrow> run_live r'"
    using upd ended by blast+
qed

section \<open>Reachable states\<close>

fun new_kind :: "Kind \<Rightarrow> bool" where
  "new_kind (NodeLookup lt _ _) = (\<exists>i. wf_id i \<and> lt = mkLookupTask i)"
| "new_kind (ValueLookup lt _ _) = (\<exists>i. wf_id i \<and> lt = mkLookupTask i)"
| "new_kind (PeerLookup lt _) = (\<exists>i. wf_id i \<and> lt = mkLookupTask i)"
| "new_kind _ = True"

text \<open>\<open>P\<close> restricts the replies; \<open>others\<close> are the calls of other tasks, \<open>caught\<close> is an exception that the caller
  of the operation handles.\<close>

inductive task_reachable :: "(Kind \<Rightarrow> RPCCall \<Rightarrow> bool) \<Rightarrow> 'l Run \<Rightarrow> bool" for P where
  new: "new_kind k \<Longrightarrow> task_reachable P \<lparr>task = newTask i k, nextCall = n, emitted = [], fault = None\<rparr>"
| listener: "task_reachable P r \<Longrightarrow> task_reachable P (addListener l r)"
| inject: "task_reachable P r \<Longrightarrow> taskState (task r) = INITIAL \<Longrightarrow> kind (task r) = NodeLookup lt b w \<Longrightarrow>
    \<forall>x\<in>set nodes. wf_node (fst x) \<Longrightarrow> task_reachable P (set_kind (map_lookup (addCandidates ctx nodes) (kind (task r))) r)"
| enqueue: "task_reachable P r \<Longrightarrow> task_reachable P (on_task (\<lambda>t. snd (setState [INITIAL] QUEUED t)) r)"
| nest: "task_reachable P r \<Longrightarrow> task_reachable P (setNestedTask n r)"
| others: "task_reachable P r \<Longrightarrow> nextCall r \<le> n \<Longrightarrow> task_reachable P (r\<lparr>nextCall := n\<rparr>)"
| start: "task_reachable P r \<Longrightarrow> fault r = None \<Longrightarrow> ctx_ok ctx \<Longrightarrow> start ctx r = Some r' \<Longrightarrow> task_reachable P r'"
| cancel: "task_reachable P r \<Longrightarrow> task_reachable P (cancel now r)"
| event: "task_reachable P r \<Longrightarrow> fault r = None \<Longrightarrow> event_ok ctx c current r \<Longrightarrow> (current = RESPONDED \<longrightarrow> P (kind (task r)) c) \<Longrightarrow>
    callStateChanged ctx c current r = Some r' \<Longrightarrow> task_reachable P r'"
| caught: "task_reachable P r \<Longrightarrow> fault r = Some e \<Longrightarrow> e \<noteq> Undefined \<Longrightarrow> task_reachable P (r\<lparr>fault := None\<rparr>)"

lemma run_ok_same:
  assumes "run_ok r" "progress r r'" "inFlight (task r') = inFlight (task r)" "nextCall r \<le> nextCall r'"
    "kind (task r') = kind (task r) \<or> kind_ok (kind (task r')) (inFlight (task r))"
  shows "run_ok r'"
proof -
  have t: "\<not> isTerminal (task r)" if "\<not> isTerminal (task r')"
    using that assms(2) isTerminal_state [of "task r'" "task r"] by (auto simp: progress_def)
  have "kind_ok (kind (task r')) (inFlight (task r'))" if "\<not> isTerminal (task r')"
    using t [OF that] assms(1,3,5) by (auto simp: run_ok_def)
  moreover have "notified (emitted r') = (if isTerminal (task r') then listeners (task r') else [])"
    using assms(1) by (intro notified_progress [OF assms(2)]) (simp add: run_ok_def)
  moreover have "calls_ok r'" using assms(1,3,4) by (auto simp: run_ok_def calls_ok_def)
  moreover have "inFlight (task r') = []" if "taskState (task r') \<in> {INITIAL, QUEUED}"
    using that assms(1-3) by (auto simp: run_ok_def progress_def isTerminal_def)
  moreover have "lock (task r') = 0" using assms(1,2) by (simp add: run_ok_def progress_def)
  ultimately show ?thesis unfolding run_ok_def by blast
qed

lemma closest_target_wf: "kind_ok k fl \<Longrightarrow> kind_closest k = Some q \<Longrightarrow> wf_id (ktarget q)"
proof -
  assume k: "kind_ok k fl" "kind_closest k = Some q"
  then obtain lt where lt: "lookup_of k = Some lt" "ktarget q = lt_target lt \<or> ktarget q = distance (lt_target lt) MAX_ID"
    by (cases k) (auto simp: mkKClosestNodes_def defaultKClosestNodes_def)
  then have "lookup_ok lt fl" using k(1) by (simp add: kind_ok_def)
  then have "wf_id (lt_target lt)" using lookup_okD(1,2) [of lt fl] cc_invD(1) by metis
  with lt(2) show ?thesis by (auto intro: wf_distance)
qed

lemma prepare_ok:
  assumes ok: "run_ok r" "taskState (task r) \<in> {INITIAL, QUEUED}" and ctx: "ctx_ok ctx"
    and tg: "\<And>k. kind_closest (kind (task r)) = Some k \<Longrightarrow> wf_id (ktarget k)"
  defines "r0 \<equiv> on_task (\<lambda>t. t\<lparr>taskState := RUNNING, tstart := tnow ctx\<rparr>) r"
  shows "run_ok (prepare ctx r0)" "fault (prepare ctx r0) = fault r" "live r \<Longrightarrow> live (prepare ctx r0)"
    "taskState (task (prepare ctx r0)) = RUNNING"
proof -
  have [simp]: "kind (task r0) = kind (task r)" "inFlight (task r0) = []" "nextCall r0 = nextCall r" "fault r0 = fault r"
    "taskState (task r0) = RUNNING"
    using ok by (auto simp: r0_def on_task_def run_ok_def)
  have r: "run_ok r0" using ok by (auto simp: r0_def on_task_def run_ok_def calls_ok_def isTerminal_def)
  show "taskState (task (prepare ctx r0)) = RUNNING" using quiet_prepare [of r0 ctx] by (simp add: quiet_def)
  have fl: "inFlight (task r) = []" using ok by (auto simp: run_ok_def)
  show "run_ok (prepare ctx r0)" "fault (prepare ctx r0) = fault r" "live r \<Longrightarrow> live (prepare ctx r0)"
  proof (atomize (full), cases "kind_closest (kind (task r))")
    case None
    then show "run_ok (prepare ctx r0) \<and> fault (prepare ctx r0) = fault r \<and> (live r \<longrightarrow> live (prepare ctx r0))"
      using r fl by (simp add: prepare_def)
  next
    case (Some k)
    then have k: "kentries k = []" "0 \<le> maxEntries k" "maxEntries k < 2 ^ 30"
      by (cases "kind (task r)"; auto simp: mkKClosestNodes_def defaultKClosestNodes_def MAX_ENTRIES_PER_BUCKET_def)+
    from closest_list_total [OF ctx tg [OF Some] k] obtain nodes where
      n: "closest_list ctx k = Some nodes" "\<forall>x\<in>set nodes. wf_node (fst x)" by blast
    have p: "prepare ctx r0 = set_kind (map_lookup (addCandidates ctx nodes) (kind (task r))) r0"
      by (simp add: prepare_def Some n(1))
    have "kind_ok (map_lookup (addCandidates ctx nodes) (kind (task r))) []"
      using ok fl n(2) addCandidates_ok(1) by (auto simp: run_ok_def isTerminal_def kind_ok_def)
    then have "run_ok (prepare ctx r0)"
      using quiet_progress [OF quiet_prepare, of r0 ctx] by (intro run_ok_same [OF r]) (simp_all add: p)
    moreover have "live r \<longrightarrow> live (prepare ctx r0)"
      using fl ok n(2) addCandidates_ok(2) unfolding p by (auto simp: run_ok_def isTerminal_def kind_ok_def kind_live_def)
    ultimately show "run_ok (prepare ctx r0) \<and> fault (prepare ctx r0) = fault r \<and> (live r \<longrightarrow> live (prepare ctx r0))"
      by (simp add: p)
  qed
qed

lemma start_ok:
  assumes ok: "run_ok r" and ctx: "ctx_ok ctx" and f: "fault r = None" and st: "start ctx r = Some r'"
  shows "run_ok r'" "run_live r \<Longrightarrow> run_live r'"
proof -
  have now: "tnow ctx \<noteq> 0" using ctx by (simp add: ctx_ok_def)
  have "run_ok r' \<and> (run_live r \<longrightarrow> run_live r')"
  proof (cases "taskState (task r) \<in> {INITIAL, QUEUED}")
    case False
    then show ?thesis using st ok by (simp add: start_def setState_def)
  next
    case True
    define r0 where "r0 = on_task (\<lambda>t. t\<lparr>taskState := RUNNING, tstart := tnow ctx\<rparr>) r"
    have nt: "\<not> isTerminal (task r)" using True by (auto simp: isTerminal_def)
    then have k: "kind_ok (kind (task r)) (inFlight (task r))" using ok by (simp add: run_ok_def)
    note p = prepare_ok [OF ok True ctx closest_target_wf [OF k], folded r0_def]
    have "start ctx r = serializedUpdate ctx (prepare ctx r0)"
      using True p(2) f by (auto simp: start_def setState_def r0_def on_task_def Let_def)
    moreover have "lock (task (prepare ctx r0)) = 0" using p(1) by (simp add: run_ok_def)
    ultimately have "r' = one_update ctx (prepare ctx r0)" using st serializedUpdate_once [of "prepare ctx r0" ctx] by simp
    with one_update_ok [OF p(1) _ now] p(2-4) f nt show ?thesis by (auto simp: run_live_def [of r] tail_erased_def)
  qed
  then show "run_ok r'" "run_live r \<Longrightarrow> run_live r'" by simp_all
qed

lemma addListener_fields:
  "taskState (task (addListener l r)) = taskState (task r)" "inFlight (task (addListener l r)) = inFlight (task r)"
  "kind (task (addListener l r)) = kind (task r)" "nextCall (addListener l r) = nextCall r" "fault (addListener l r) = fault r"
  "lock (task (addListener l r)) = lock (task r)" "listeners (task (addListener l r)) = listeners (task r) @ [l]"
  "notified (emitted (addListener l r)) = notified (emitted r) @ (if isTerminal (task r) then [l] else [])"
  by (simp_all add: addListener_def on_task_def emit_def)

lemma addListener_ok: "run_ok r \<Longrightarrow> run_ok (addListener l r)"
  by (simp add: run_ok_def addListener_fields calls_ok_def isTerminal_def)

lemma inject_ok:
  fixes ctx :: TaskCtx
  assumes "run_ok r" "taskState (task r) = INITIAL" "\<forall>x\<in>set nodes. wf_node (fst x)"
  defines "r' \<equiv> set_kind (map_lookup (addCandidates ctx nodes) (kind (task r))) r"
  shows "run_ok r'" "run_live r \<Longrightarrow> run_live r'"
proof -
  have k: "kind_ok (kind (task r)) (inFlight (task r))" using assms(1,2) by (auto simp: run_ok_def isTerminal_def)
  then have "kind_ok (kind (task r')) (inFlight (task r))"
    using addCandidates_ok(1) assms(3) unfolding r'_def by (auto simp: kind_ok_def)
  then show "run_ok r'"
    using quiet_progress [OF quiet_set_kind] unfolding r'_def by (intro run_ok_same [OF assms(1)]) simp_all
  show "run_live r'" if "run_live r"
    using that k addCandidates_ok(2,4) assms(2,3) unfolding r'_def
    by (auto simp: run_live_def tail_erased_def kind_ok_def kind_live_def run_defs isTerminal_def)
qed

lemma run_ok_other: "run_ok r \<Longrightarrow> nextCall r \<le> n \<Longrightarrow> run_ok (r\<lparr>nextCall := n\<rparr>)"
  by (auto simp: run_ok_def calls_ok_def)

lemma setNestedTask_ok: "run_ok r \<Longrightarrow> run_ok (setNestedTask n r)"
  by (simp add: setNestedTask_def on_task_def run_ok_def calls_ok_def isTerminal_def)

lemma enqueue_ok: "run_ok r \<Longrightarrow> run_ok (on_task (\<lambda>t. snd (setState [INITIAL] QUEUED t)) r)"
  by (auto simp: on_task_def setState_def run_ok_def calls_ok_def isTerminal_def)

lemma cancel_ok: "run_ok r \<Longrightarrow> run_ok (cancel now r)"
  by (rule run_ok_same [OF _ cancel_progress]) simp_all

lemma new_ok: "new_kind k \<Longrightarrow> run_ok \<lparr>task = newTask i k, nextCall = n, emitted = [], fault = None\<rparr>
    \<and> run_live \<lparr>task = newTask i k, nextCall = n, emitted = [], fault = None\<rparr>"
  using mkLookupTask_ok
  by (cases k) (auto simp: run_ok_def run_live_def newTask_def calls_ok_def isTerminal_def kind_ok_def kind_live_def
      MAX_CONCURRENT_TASK_REQUESTS_def)

theorem task_reachable_ok: "task_reachable P r \<Longrightarrow> run_ok r"
proof (induction rule: task_reachable.induct)
  case (event r ctx c current r')
  then show ?case using callStateChanged_ok(1) by blast
next
  case (start r ctx r')
  then show ?case using start_ok(1) by blast
next
  case (inject r lt b w nodes ctx)
  then show ?case by (intro inject_ok(1))
next
  case (caught r e)
  then show ?case by (simp add: run_ok_def calls_ok_def)
qed (simp_all add: new_ok addListener_ok run_ok_other setNestedTask_ok enqueue_ok cancel_ok)

theorem task_reachable_live: "task_reachable answers r \<Longrightarrow> run_live r"
proof (induction rule: task_reachable.induct)
  case (event r ctx c current r')
  then show ?case using callStateChanged_ok(2) [OF task_reachable_ok [OF event.hyps(1)]] by blast
next
  case (start r ctx r')
  then show ?case using start_ok(2) [OF task_reachable_ok [OF start.hyps(1)]] by blast
next
  case (inject r lt b w nodes ctx)
  then show ?case by (intro inject_ok(2) [OF task_reachable_ok [OF inject.hyps(1)]])
next
  case (cancel r now)
  then show ?case using cancel_terminal [of now r] by (auto simp: run_live_def tail_erased_def isTerminal_def [of "task (cancel now r)"])
next
  case (caught r e)
  then show ?case by (auto simp: run_live_def tail_erased_def)
next
  case (new k i n)
  then show ?case using new_ok by blast
next
  case (enqueue r)
  then show ?case by (auto simp: run_live_def tail_erased_def isTerminal_def on_task_def setState_def)
qed (simp_all add: new_ok run_live_def tail_erased_def addListener_fields isTerminal_def setNestedTask_def on_task_def setState_def)

end
