(* ===== verification/Task_Manager.thy ===== *)
theory Task_Manager
  imports Task_Runs
begin

text \<open>
  The task manager: \<^verbatim>\<open>src/core/task/task_manager.cc\<close> and \<^verbatim>\<open>task_manager.h\<close>. Tasks are shared objects, so they live in a
  store and the queues hold their ids. \<open>trace\<close> collects, in order, what the tasks ask other components to
  do; the removal from the queues that a finished task performs is carried out here. The mutex of the
  manager is not modelled: operations are atomic, and a listener is an entry of the trace that runs
  after the operation.
\<close>

section \<open>Definitions\<close>

definition MAX_ACTIVE_TASKS :: nat where "MAX_ACTIVE_TASKS = 16"

record 'l TaskManager =
  tasks :: "nat \<Rightarrow> 'l Task option"
  queued :: "nat list"
  running :: "nat list"
  canceling :: bool
  callSupply :: nat
  trace :: "(nat \<times> 'l TaskEffect) list"

definition newTaskManager :: "nat \<Rightarrow> 'l TaskManager" where
  "newTaskManager n = \<lparr>tasks = Map.empty, queued = [], running = [], canceling = False, callSupply = n, trace = []\<rparr>"

definition removeTask :: "nat \<Rightarrow> 'l TaskManager \<Rightarrow> 'l TaskManager" where
  "removeTask i s = s\<lparr>running := filter (\<lambda>j. j \<noteq> i) (running s), queued := filter (\<lambda>j. j \<noteq> i) (queued s)\<rparr>"

definition run_of :: "'l Task \<Rightarrow> 'l TaskManager \<Rightarrow> 'l Run" where
  "run_of t s = \<lparr>task = t, nextCall = callSupply s, emitted = [], fault = None\<rparr>"

fun perform :: "nat \<Rightarrow> 'l TaskEffect \<Rightarrow> 'l TaskManager \<Rightarrow> 'l TaskManager" where
  "perform i RemoveTask s = removeTask i s"
| "perform i e s = s\<lparr>trace := trace s @ [(i, e)]\<rparr>"

definition store :: "nat \<Rightarrow> 'l Run \<Rightarrow> 'l TaskManager \<Rightarrow> 'l TaskManager" where
  "store i r s = fold (perform i) (emitted r) (s\<lparr>tasks := (tasks s)(i \<mapsto> task r), callSupply := nextCall r\<rparr>)"

text \<open>\<open>None\<close> where the manager is asked for a task that does not exist.\<close>

definition add_task :: "nat \<Rightarrow> bool \<Rightarrow> 'l TaskManager \<Rightarrow> 'l TaskManager option" where
  "add_task i prior s =
     (if canceling s then Some s
      else case tasks s i of
             None \<Rightarrow> None
           | Some t \<Rightarrow>
               if taskState t = RUNNING then Some (s\<lparr>running := running s @ [i]\<rparr>)
               else let (ok, t') = setState [INITIAL] QUEUED t
                    in Some (if \<not> ok then s
                             else s\<lparr>tasks := (tasks s)(i \<mapsto> t'), queued := (if prior then i # queued s else queued s @ [i])\<rparr>))"

definition canStartTask :: "'l TaskManager \<Rightarrow> bool" where
  "canStartTask s \<longleftrightarrow> \<not> canceling s \<and> length (running s) \<le> MAX_ACTIVE_TASKS"

partial_function (option) dequeue :: "TaskCtx \<Rightarrow> 'l TaskManager \<Rightarrow> 'l TaskManager option" where
  "dequeue ctx s =
     (if \<not> canStartTask s then Some s
      else case queued s of
             [] \<Rightarrow> Some s
           | i # q \<Rightarrow>
               do { t \<leftarrow> tasks s i;
                    let s1 = s\<lparr>queued := q\<rparr>;
                    if isTerminal t then dequeue ctx s1
                    else do { r \<leftarrow> start ctx (run_of t s1);
                              dequeue ctx (store i r (s1\<lparr>running := running s1 @ [i]\<rparr>)) } })"

text \<open>\<^verbatim>\<open>Task::cancel\<close> with the tasks nested in the task; a nested task that is missing is a null pointer in the
  code and skipped.\<close>

partial_function (option) cancel_task :: "u64 \<Rightarrow> nat \<Rightarrow> 'l TaskManager \<Rightarrow> 'l TaskManager option" where
  "cancel_task now i s =
     (case tasks s i of
        None \<Rightarrow> Some s
      | Some t \<Rightarrow>
          (let s1 = store i (cancel now (run_of t s)) s
           in case nested t of None \<Rightarrow> Some s1 | Some n \<Rightarrow> cancel_task now n s1))"

fun cancel_tasks :: "u64 \<Rightarrow> nat list \<Rightarrow> 'l TaskManager \<Rightarrow> 'l TaskManager option" where
  "cancel_tasks now [] s = Some s"
| "cancel_tasks now (i # is) s = do { s1 \<leftarrow> cancel_task now i s; cancel_tasks now is s1 }"

definition cancelAll :: "u64 \<Rightarrow> 'l TaskManager \<Rightarrow> 'l TaskManager option" where
  "cancelAll now s =
     do { s1 \<leftarrow> cancel_tasks now (running s) (s\<lparr>canceling := True\<rparr>);
          s2 \<leftarrow> cancel_tasks now (queued s1) s1;
          Some (s2\<lparr>canceling := False\<rparr>) }"

section \<open>Starting tasks\<close>

definition task_ok :: "'l TaskManager \<Rightarrow> nat \<Rightarrow> bool" where
  "task_ok s i \<longleftrightarrow> (\<exists>t. tasks s i = Some t \<and> lock t = 0)"

definition tm_inv :: "'l TaskManager \<Rightarrow> bool" where
  "tm_inv s \<longleftrightarrow> distinct (queued s @ running s) \<and> (\<forall>i\<in>set (queued s @ running s). task_ok s i)
     \<and> (\<forall>i\<in>set (queued s). \<forall>t. tasks s i = Some t \<longrightarrow> taskState t = QUEUED \<or> isTerminal t)"

lemma perform_fields [simp]:
  "tasks (perform i e s) = tasks s" "callSupply (perform i e s) = callSupply s" "canceling (perform i e s) = canceling s"
  by (cases e; simp add: removeTask_def)+

lemma fold_perform:
  "tasks (fold (perform i) es s) = tasks s" "canceling (fold (perform i) es s) = canceling s"
  "queued (fold (perform i) es s) = (if RemoveTask \<in> set es then filter (\<lambda>j. j \<noteq> i) (queued s) else queued s)"
  "running (fold (perform i) es s) = (if RemoveTask \<in> set es then filter (\<lambda>j. j \<noteq> i) (running s) else running s)"
proof (induction es arbitrary: s)
  case (Cons e es)
  { case 1 show ?case using Cons.IH(1) [of "perform i e s"] by simp }
  { case 2 show ?case using Cons.IH(2) [of "perform i e s"] by simp }
  { case 3 show ?case using Cons.IH(3) [of "perform i e s"] by (cases e) (simp_all add: removeTask_def) }
  { case 4 show ?case using Cons.IH(4) [of "perform i e s"] by (cases e) (simp_all add: removeTask_def) }
qed simp_all

lemma store_fields [simp]:
  "tasks (store i r s) = (tasks s)(i \<mapsto> task r)" "canceling (store i r s) = canceling s"
  by (simp_all add: store_def fold_perform)

lemma store_queues:
  "queued (store i r s) = (if RemoveTask \<in> set (emitted r) then filter (\<lambda>j. j \<noteq> i) (queued s) else queued s)"
  "running (store i r s) = (if RemoveTask \<in> set (emitted r) then filter (\<lambda>j. j \<noteq> i) (running s) else running s)"
  by (simp_all add: store_def fold_perform)

lemma store_inv:
  assumes "tm_inv s" "lock (task r) = 0" "taskState (task r) = QUEUED \<or> isTerminal (task r) \<or> i \<notin> set (queued s)"
  shows "tm_inv (store i r s)"
  using assms by (auto simp: tm_inv_def task_ok_def store_queues)

text \<open>\<open>dequeue\<close> returns, starts the tasks in the order of the queue, and leaves a task in the queue only when
  seventeen are running.\<close>

definition dequeued :: "'l TaskManager \<Rightarrow> 'l TaskManager \<Rightarrow> bool" where
  "dequeued s s' \<longleftrightarrow> tm_inv s' \<and> canceling s' = canceling s \<and> (\<exists>n. queued s' = drop n (queued s))
     \<and> (queued s' \<noteq> [] \<longrightarrow> \<not> canStartTask s')
     \<and> (length (running s) \<le> MAX_ACTIVE_TASKS + 1 \<longrightarrow> length (running s') \<le> MAX_ACTIVE_TASKS + 1)
     \<and> (\<forall>i\<in>set (queued s) - set (queued s'). \<exists>t. tasks s' i = Some t \<and> taskState t \<notin> {INITIAL, QUEUED})
     \<and> (\<forall>i. i \<notin> set (queued s) \<longrightarrow> tasks s' i = tasks s i)"

lemma start_leaves_queue:
  assumes "lock (task r) = 0" "start ctx r = Some r'" "\<not> isTerminal (task r)"
  shows "taskState (task r') \<notin> {INITIAL, QUEUED}" "lock (task r') = 0"
  using start_returns [OF assms(1), of ctx] assms by (auto simp: progress_def on_task_def isTerminal_def split: if_splits)

lemma dequeue_step:
  assumes inv: "tm_inv s" and can: "canStartTask s" and q: "queued s = i # is"
  shows "\<exists>s1. dequeue ctx s = dequeue ctx s1 \<and> tm_inv s1 \<and> queued s1 = is \<and> canceling s1 = canceling s
    \<and> length (running s1) \<le> length (running s) + 1
    \<and> (\<exists>t. tasks s1 i = Some t \<and> taskState t \<notin> {INITIAL, QUEUED}) \<and> (\<forall>j. j \<noteq> i \<longrightarrow> tasks s1 j = tasks s j)"
proof -
  from inv q obtain t where t: "tasks s i = Some t" "lock t = 0" "taskState t = QUEUED \<or> isTerminal t" "i \<notin> set is" "i \<notin> set (running s)"
    by (auto simp: tm_inv_def task_ok_def)
  let ?s1 = "s\<lparr>queued := is\<rparr>"
  have inv1: "tm_inv ?s1" using inv q by (auto simp: tm_inv_def task_ok_def)
  show ?thesis
  proof (cases "isTerminal t")
    case True
    then have "dequeue ctx s = dequeue ctx ?s1" by (subst dequeue.simps) (simp add: can q t)
    with inv1 t True show ?thesis by (intro exI [of _ ?s1]) (auto simp: isTerminal_def)
  next
    case False
    from start_returns [of "run_of t ?s1" ctx] t(2) obtain r where r: "start ctx (run_of t ?s1) = Some r" by (auto simp: run_of_def)
    have l: "taskState (task r) \<notin> {INITIAL, QUEUED}" "lock (task r) = 0"
      using start_leaves_queue [OF _ r] t(2) False by (auto simp: run_of_def)
    let ?s2 = "?s1\<lparr>running := running s @ [i]\<rparr>"
    have "tm_inv ?s2" using inv q t by (auto simp: tm_inv_def task_ok_def)
    then have inv3: "tm_inv (store i r ?s2)" using l t(4) by (intro store_inv) auto
    have "dequeue ctx s = dequeue ctx (store i r ?s2)" by (subst dequeue.simps) (simp add: can q t False r)
    moreover have "queued (store i r ?s2) = is" using t(4) by (auto simp: store_queues filter_id_conv)
    moreover have "length (running (store i r ?s2)) \<le> length (running s) + 1"
      by (auto simp: store_queues intro: le_SucI)
    ultimately show ?thesis using inv3 l by (intro exI [of _ "store i r ?s2"]) auto
  qed
qed

lemma dequeue_returns:
  assumes "tm_inv s"
  shows "\<exists>s'. dequeue ctx s = Some s' \<and> dequeued s s'"
  using assms
proof (induction "queued s" arbitrary: s)
  case Nil
  then show ?case by (subst dequeue.simps) (auto simp: dequeued_def Nil.hyps [symmetric])
next
  case (Cons i "is")
  show ?case
  proof (cases "canStartTask s")
    case False
    then have "dequeue ctx s = Some s" by (subst dequeue.simps) simp
    with False Cons.prems show ?thesis by (auto simp: dequeued_def intro: exI [of _ 0])
  next
    case True
    from dequeue_step [OF Cons.prems True Cons.hyps(2) [symmetric], of ctx] obtain s1 where
      s1: "dequeue ctx s = dequeue ctx s1" "tm_inv s1" "queued s1 = is" "canceling s1 = canceling s"
      "length (running s1) \<le> length (running s) + 1" "\<exists>t. tasks s1 i = Some t \<and> taskState t \<notin> {INITIAL, QUEUED}"
      "\<forall>j. j \<noteq> i \<longrightarrow> tasks s1 j = tasks s j" by blast
    from Cons.hyps(1) [OF s1(3) [symmetric] s1(2)] obtain s' where s': "dequeue ctx s1 = Some s'" "dequeued s1 s'" by blast
    have i: "i \<notin> set is" using Cons.prems Cons.hyps(2) by (metis distinct.simps(2) distinct_append tm_inv_def)
    from s'(2) obtain n where n: "queued s' = drop n is" by (auto simp: dequeued_def s1(3))
    then have dr: "\<exists>m. queued s' = drop m (i # is)" by (intro exI [of _ "Suc n"]) simp
    have "set (queued s') \<subseteq> set is" unfolding n by (rule set_drop_subset)
    then have "dequeued s s'"
      unfolding dequeued_def Cons.hyps(2) [symmetric]
      using s'(2) s1(3-7) i True by (intro conjI dr) (auto simp: dequeued_def canStartTask_def)
    then show ?thesis using s1(1) s'(1) by simp
  qed
qed

section \<open>Cancelling tasks\<close>

text \<open>A nested task is created after the task it is nested in, so its id is greater.\<close>

definition nested_ok :: "'l TaskManager \<Rightarrow> nat \<Rightarrow> bool" where
  "nested_ok s n \<longleftrightarrow> (\<forall>i t. tasks s i = Some t \<longrightarrow> i < n \<and> (\<forall>j. nested t = Some j \<longrightarrow> i < j))"

definition cancels :: "'l TaskManager \<Rightarrow> 'l TaskManager \<Rightarrow> bool" where
  "cancels s s' \<longleftrightarrow> dom (tasks s') = dom (tasks s) \<and> canceling s' = canceling s
     \<and> (\<forall>i t. tasks s i = Some t \<longrightarrow> (\<exists>t'. tasks s' i = Some t' \<and> nested t' = nested t \<and> lock t' = lock t
           \<and> (taskState t' = taskState t \<or> isTerminal t')))
     \<and> queued s' = queued s \<and> running s' = running s"

lemma cancels_refl [simp]: "cancels s s"
  by (simp add: cancels_def)

lemma cancels_trans [trans]: "cancels s s1 \<Longrightarrow> cancels s1 s2 \<Longrightarrow> cancels s s2"
  unfolding cancels_def by (metis isTerminal_state)

lemma cancels_nested:
  assumes c: "cancels s s'" and n: "nested_ok s n"
  shows "nested_ok s' n"
  unfolding nested_ok_def
proof (intro allI impI)
  fix i t' assume t': "tasks s' i = Some t'"
  then have "i \<in> dom (tasks s)" using c by (auto simp: cancels_def)
  then obtain t where t: "tasks s i = Some t" by blast
  then have "nested t' = nested t" using c t' unfolding cancels_def by (metis option.inject)
  then show "i < n \<and> (\<forall>j. nested t' = Some j \<longrightarrow> i < j)" using n t by (auto simp: nested_ok_def)
qed

lemma cancels_terminal: "cancels s s' \<Longrightarrow> tasks s i = Some t \<Longrightarrow> isTerminal t \<Longrightarrow> \<exists>t'. tasks s' i = Some t' \<and> isTerminal t'"
  unfolding cancels_def by (metis isTerminal_state)

lemma cancel_no_removal: "RemoveTask \<in> set (emitted (cancel now r)) \<longleftrightarrow> RemoveTask \<in> set (emitted r)"
  by (auto simp: cancel_def setState_def notifyCompletionListeners_def emit_def Let_def split: option.split)

lemma store_cancel:
  assumes "tasks s i = Some t"
  shows "cancels s (store i (cancel now (run_of t s)) s)"
    "\<exists>t'. tasks (store i (cancel now (run_of t s)) s) i = Some t' \<and> isTerminal t'"
  using assms cancel_terminal [of now "run_of t s"] cancel_progress [of "run_of t s" now] cancel_no_removal [of now "run_of t s"]
  by (auto simp: cancels_def store_queues progress_def run_of_def)

lemma cancel_task_returns:
  assumes "nested_ok s n"
  shows "\<exists>s'. cancel_task now i s = Some s' \<and> cancels s s' \<and> (\<forall>t. tasks s i = Some t \<longrightarrow> (\<exists>t'. tasks s' i = Some t' \<and> isTerminal t'))"
  using assms
proof (induction "n - i" arbitrary: i s rule: less_induct)
  case less
  show ?case
  proof (cases "tasks s i")
    case None
    then show ?thesis by (subst cancel_task.simps) simp
  next
    case (Some t)
    let ?s1 = "store i (cancel now (run_of t s)) s"
    note c = store_cancel [OF Some, of now]
    show ?thesis
    proof (cases "nested t")
      case None
      then have "cancel_task now i s = Some ?s1" by (subst cancel_task.simps) (simp add: Some del: store_fields)
      with c show ?thesis by blast
    next
      case (Some j)
      have "n - j < n - i" using less.prems \<open>tasks s i = Some t\<close> Some by (auto simp: nested_ok_def intro!: diff_less_mono2)
      from less.hyps [OF this cancels_nested [OF c(1) less.prems]] obtain s' where
        s': "cancel_task now j ?s1 = Some s'" "cancels ?s1 s'" by blast
      have "cancel_task now i s = cancel_task now j ?s1"
        by (subst cancel_task.simps) (simp add: \<open>tasks s i = Some t\<close> Some del: store_fields)
      with s' c cancels_trans [OF c(1) s'(2)] cancels_terminal [OF s'(2)] show ?thesis by auto
    qed
  qed
qed

lemma cancel_tasks_return:
  assumes "nested_ok s n"
  shows "\<exists>s'. cancel_tasks now is s = Some s' \<and> cancels s s'
    \<and> (\<forall>i\<in>set is. \<forall>t. tasks s i = Some t \<longrightarrow> (\<exists>t'. tasks s' i = Some t' \<and> isTerminal t'))"
  using assms
proof (induction "is" arbitrary: s)
  case (Cons i "is")
  from cancel_task_returns [OF Cons.prems, of now i] obtain s1 where
    s1: "cancel_task now i s = Some s1" "cancels s s1" "\<forall>t. tasks s i = Some t \<longrightarrow> (\<exists>t'. tasks s1 i = Some t' \<and> isTerminal t')" by blast
  from Cons.IH [OF cancels_nested [OF s1(2) Cons.prems]] obtain s2 where
    s2: "cancel_tasks now is s1 = Some s2" "cancels s1 s2"
    "\<forall>j\<in>set is. \<forall>t. tasks s1 j = Some t \<longrightarrow> (\<exists>t'. tasks s2 j = Some t' \<and> isTerminal t')" by blast
  have "\<exists>t'. tasks s2 j = Some t' \<and> isTerminal t'" if "j \<in> set (i # is)" "tasks s j = Some t" for j t
  proof (cases "j = i")
    case True
    then show ?thesis using that s1(3) cancels_terminal [OF s2(2)] by blast
  next
    case False
    then have "j \<in> set is" "\<exists>t'. tasks s1 j = Some t'" using that s1(2) by (auto simp: cancels_def)
    then show ?thesis using s2(3) by blast
  qed
  then show ?case using s1(1) s2(1) cancels_trans [OF s1(2) s2(2)] by auto
qed simp

lemma cancelAll_returns:
  assumes "nested_ok s n"
  shows "\<exists>s'. cancelAll now s = Some s' \<and> \<not> canceling s' \<and> queued s' = queued s \<and> running s' = running s
    \<and> (\<forall>i\<in>set (running s @ queued s). \<forall>t. tasks s i = Some t \<longrightarrow> (\<exists>t'. tasks s' i = Some t' \<and> isTerminal t'))"
proof -
  let ?s = "s\<lparr>canceling := True\<rparr>"
  have n: "nested_ok ?s n" using assms by (simp add: nested_ok_def)
  from cancel_tasks_return [OF n, of now "running s"] obtain s1 where
    s1: "cancel_tasks now (running s) ?s = Some s1" "cancels ?s s1"
    "\<forall>i\<in>set (running s). \<forall>t. tasks ?s i = Some t \<longrightarrow> (\<exists>t'. tasks s1 i = Some t' \<and> isTerminal t')" by blast
  from cancel_tasks_return [OF cancels_nested [OF s1(2) n], of now "queued s1"] obtain s2 where
    s2: "cancel_tasks now (queued s1) s1 = Some s2" "cancels s1 s2"
    "\<forall>i\<in>set (queued s1). \<forall>t. tasks s1 i = Some t \<longrightarrow> (\<exists>t'. tasks s2 i = Some t' \<and> isTerminal t')" by blast
  have q: "queued s1 = queued s" "queued s2 = queued s" "running s2 = running s" using s1(2) s2(2) by (simp_all add: cancels_def)
  have "\<exists>t'. tasks s2 i = Some t' \<and> isTerminal t'" if "i \<in> set (running s @ queued s)" "tasks s i = Some t" for i t
  proof (cases "i \<in> set (running s)")
    case True
    then show ?thesis using that s1(3) cancels_terminal [OF s2(2)] by auto
  next
    case False
    moreover have "\<exists>t'. tasks s1 i = Some t'" using that(2) s1(2) by (auto simp: cancels_def)
    ultimately show ?thesis using that(1) s2(3) q(1) by auto
  qed
  then show ?thesis using s1(1) s2(1) q by (auto simp: cancelAll_def)
qed

end
