(* ===== verification/Scheduler.thy ===== *)
theory Scheduler
  imports Values "HOL-Library.Sublist"
begin

text \<open>
  The scheduler of the server: \<^verbatim>\<open>src/core/scheduler.h\<close>. Jobs are shared objects, named by numbers; the multimap of
  timers is a list in the order of its keys, where equal keys keep the order of their insertion, and an
  entry whose pointer has been moved out is \<open>None\<close>. \<open>clk n\<close> is the \<open>n\<close>th reading of the clock during a run.
  What a job does to the scheduler and to the rest of the program is the parameter \<open>exec\<close>: a job may add
  and cancel timers while the run goes on.
\<close>

section \<open>Definitions\<close>

record 'j Job =
  job_do :: "'j option"
  fixedDelay :: int

record 'j Scheduler =
  snow :: u64
  timers :: "(u64 \<times> nat option) list"
  sjobs :: "nat \<Rightarrow> 'j Job option"
  nextJob :: nat

definition newScheduler :: "u64 \<Rightarrow> 'j Scheduler" where
  "newScheduler now = \<lparr>snow = now, timers = [], sjobs = Map.empty, nextJob = 0\<rparr>"

fun insert_timer :: "u64 \<Rightarrow> nat \<Rightarrow> (u64 \<times> nat option) list \<Rightarrow> (u64 \<times> nat option) list" where
  "insert_timer t r [] = [(t, Some r)]"
| "insert_timer t r (x # ts) = (if fst x \<le> t then x # insert_timer t r ts else (t, Some r) # x # ts)"

definition sched_add_job :: "u64 \<Rightarrow> nat \<Rightarrow> 'j Job \<Rightarrow> int \<Rightarrow> int \<Rightarrow> 'j Scheduler \<Rightarrow> 'j Scheduler" where
  "sched_add_job current r job delay fixed s =
     (let s1 = s\<lparr>sjobs := (sjobs s)(r \<mapsto> job\<lparr>fixedDelay := fixed\<rparr>)\<rparr>; t = current + word_of_int delay
      in if t \<noteq> - 1 then s1\<lparr>timers := insert_timer t r (timers s1)\<rparr> else s1)"

text \<open>The second component names the job object that \<^verbatim>\<open>add\<close> returns.\<close>

definition sched_add :: "u64 \<Rightarrow> 'j option \<Rightarrow> int \<Rightarrow> int \<Rightarrow> 'j Scheduler \<Rightarrow> 'j Scheduler \<times> nat" where
  "sched_add current f delay fixed s =
     (let r = nextJob s in (sched_add_job current r \<lparr>job_do = f, fixedDelay = 0\<rparr> delay fixed (s\<lparr>nextJob := r + 1\<rparr>), r))"

definition job_cancel :: "nat \<Rightarrow> 'j Scheduler \<Rightarrow> 'j Scheduler" where
  "job_cancel r s = (case sjobs s r of None \<Rightarrow> s | Some _ \<Rightarrow> s\<lparr>sjobs := (sjobs s)(r \<mapsto> \<lparr>job_do = None, fixedDelay = 0\<rparr>)\<rparr>)"

definition sched_edit :: "u64 \<Rightarrow> nat \<Rightarrow> int \<Rightarrow> int \<Rightarrow> 'j Scheduler \<Rightarrow> 'j Scheduler \<times> nat" where
  "sched_edit current r delay fixed s =
     (case sjobs s r of
        None \<Rightarrow> (s, r)
      | Some job \<Rightarrow> sched_add current (job_do job) delay fixed (job_cancel r s))"

definition syncTime :: "u64 \<Rightarrow> 'j Scheduler \<Rightarrow> 'j Scheduler" where
  "syncTime n s = s\<lparr>snow := n\<rparr>"

definition getNextJobTime :: "'j Scheduler \<Rightarrow> u64" where
  "getNextJobTime s = (case timers s of [] \<Rightarrow> - 1 | x # _ \<Rightarrow> fst x)"

text \<open>The pointer of the first timer is moved out, the job is executed, and what it is afterwards decides whether it
  is scheduled again; then the entry that was moved from is erased. An exception leaves the loop before that.\<close>

partial_function (option) sched_run ::
  "(nat \<Rightarrow> u64) \<Rightarrow> nat \<Rightarrow> ('j \<Rightarrow> 'j Scheduler \<Rightarrow> 'w \<Rightarrow> 'j Scheduler \<times> 'w \<times> error option) \<Rightarrow> 'j Scheduler \<Rightarrow> 'w \<Rightarrow>
   ('j Scheduler \<times> 'w \<times> error option) option" where
  "sched_run clk n exec s w =
     (case timers s of
        [] \<Rightarrow> Some (s, w, None)
      | (t, p) # rest \<Rightarrow>
          if t > snow s then Some (s, w, None)
          else (case Option.bind p (sjobs s) of
                  None \<Rightarrow> Some (s, w, Some Undefined)
                | Some job \<Rightarrow>
                    (let s1 = s\<lparr>timers := (t, None) # rest\<rparr>
                     in case (case job_do job of None \<Rightarrow> (s1, w, None) | Some f \<Rightarrow> exec f s1 w) of
                          (s2, w1, Some e) \<Rightarrow> Some (s2, w1, Some e)
                        | (s2, w1, None) \<Rightarrow>
                            let d = (case Option.bind p (sjobs s2) of None \<Rightarrow> 0 | Some job \<Rightarrow> fixedDelay job);
                                s3 = (if d > 0 then fst (sched_edit (clk n) (the p) d d s2) else s2)
                            in sched_run clk (n + 1) exec (s3\<lparr>timers := erase_first (\<lambda>x. x = (t, None)) (timers s3)\<rparr>) w1)))"

section \<open>What jobs may do\<close>

text \<open>A job acts on the scheduler by adding jobs, with the reading of the clock at that time, and by cancelling jobs.\<close>

datatype 'j SchedOp = AddJob u64 "'j option" int int | CancelJob nat

primrec apply_op :: "'j SchedOp \<Rightarrow> 'j Scheduler \<Rightarrow> 'j Scheduler" where
  "apply_op (AddJob current f delay fixed) s = fst (sched_add current f delay fixed s)"
| "apply_op (CancelJob r) s = job_cancel r s"

text \<open>New timers lie in the future, delays are far from the end of the range, and \<open>K\<close> holds the jobs that may be cancelled.\<close>

primrec op_ok :: "nat set \<Rightarrow> u64 \<Rightarrow> 'j SchedOp \<Rightarrow> bool" where
  "op_ok K now (AddJob current f delay fixed) = (now < current + word_of_int delay \<and> fixed < 2 ^ 40)"
| "op_ok K now (CancelJob r) = (r \<in> K)"

definition acts :: "nat set \<Rightarrow> ('j \<Rightarrow> 'j Scheduler \<Rightarrow> 'w \<Rightarrow> 'j Scheduler \<times> 'w \<times> error option) \<Rightarrow> bool" where
  "acts K exec \<longleftrightarrow> (\<forall>f s w. \<exists>ops. (\<forall>p\<in>set ops. op_ok K (snow s) p) \<and> fst (exec f s w) = fold apply_op ops s)"

text \<open>The same jobs, with a list of those that were executed.\<close>

definition logged :: "('j \<Rightarrow> 'j Scheduler \<Rightarrow> 'w \<Rightarrow> 'j Scheduler \<times> 'w \<times> error option) \<Rightarrow>
    'j \<Rightarrow> 'j Scheduler \<Rightarrow> 'w \<times> 'j list \<Rightarrow> 'j Scheduler \<times> ('w \<times> 'j list) \<times> error option" where
  "logged exec f s x = (case exec f s (fst x) of (s', w', e) \<Rightarrow> (s', (w', snd x @ [f]), e))"

definition is_due :: "'j Scheduler \<Rightarrow> u64 \<times> nat option \<Rightarrow> bool" where
  "is_due s x \<longleftrightarrow> fst x \<le> snow s"

text \<open>The names of the jobs whose timers are due, and what the job of a name would do.\<close>

definition due_refs :: "'j Scheduler \<Rightarrow> nat list" where
  "due_refs s = List.map_filter snd (filter (is_due s) (timers s))"

definition action :: "'j Scheduler \<Rightarrow> nat \<Rightarrow> 'j option" where
  "action s r = Option.bind (sjobs s r) job_do"

abbreviation (input) dead_job :: "'j Job" where
  "dead_job \<equiv> \<lparr>job_do = None, fixedDelay = 0\<rparr>"

text \<open>The timers are in order, every timer refers to a job object of its own, and delays are small
  enough for the sums with the current time.\<close>

definition wf_timers :: "'j Scheduler \<Rightarrow> bool" where
  "wf_timers s \<longleftrightarrow> sorted (map fst (timers s)) \<and> distinct (map snd (timers s))
     \<and> (\<forall>x\<in>set (timers s). \<forall>r. snd x = Some r \<longrightarrow> sjobs s r \<noteq> None)
     \<and> (\<forall>r job. sjobs s r = Some job \<longrightarrow> r < nextJob s \<and> fixedDelay job < 2 ^ 40)"

definition wf_sched :: "'j Scheduler \<Rightarrow> bool" where
  "wf_sched s \<longleftrightarrow> wf_timers s \<and> None \<notin> snd ` set (timers s)"

lemma set_insert_timer [simp]: "set (insert_timer t r ts) = insert (t, Some r) (set ts)"
  by (induction ts) auto

lemma insert_timer_snd: "distinct (map snd ts) \<Longrightarrow> Some r \<notin> snd ` set ts \<Longrightarrow> distinct (map snd (insert_timer t r ts))"
  by (induction ts) auto

lemma insert_timer_sorted: "sorted (map fst ts) \<Longrightarrow> sorted (map fst (insert_timer t r ts))"
  by (induction ts) auto

lemma filter_insert_timer: "\<not> p (t, Some r) \<Longrightarrow> filter p (insert_timer t r ts) = filter p ts"
  by (induction ts) auto

text \<open>The clock does not run backwards and is far from the end of its range.\<close>

definition clock_ok :: "(nat \<Rightarrow> u64) \<Rightarrow> 'j Scheduler \<Rightarrow> bool" where
  "clock_ok clk s \<longleftrightarrow> (\<forall>n. snow s \<le> clk n \<and> uint (clk n) < 2 ^ 63)"

lemma later_time:
  fixes c now :: u64
  assumes "now \<le> c" "uint c < 2 ^ 63" "0 < d" "d < 2 ^ 40"
  shows "now < c + word_of_int d" "c + word_of_int d \<noteq> - 1"
proof -
  have u: "uint (c + word_of_int d) = uint c + d"
    using assms(2-4) by (simp add: uint_word_ariths(1) uint_word_of_int)
  then show "now < c + word_of_int d" using assms(1,3) by (simp add: word_less_def word_le_def)
  have "uint (c + word_of_int d) < 2 ^ 63 + 2 ^ 40" using u assms(2,4) by linarith
  moreover have "uint (- 1 :: u64) = 2 ^ 64 - 1" by (simp add: unsigned_minus_1_eq_mask mask_eq_exp_minus_1)
  ultimately show "c + word_of_int d \<noteq> - 1" by fastforce
qed

section \<open>How the scheduler changes while a job runs\<close>

text \<open>No timer is lost, new timers are not due, and no job changes but for the cancelled ones of \<open>K\<close>.\<close>

definition grown :: "nat set \<Rightarrow> 'j Scheduler \<Rightarrow> 'j Scheduler \<Rightarrow> bool" where
  "grown K s s' \<longleftrightarrow> snow s' = snow s \<and> set (timers s) \<subseteq> set (timers s')
     \<and> filter (is_due s) (timers s') = filter (is_due s) (timers s)
     \<and> (\<forall>t. (t, None) \<in> set (timers s') \<longrightarrow> (t, None) \<in> set (timers s))
     \<and> (\<forall>r job. sjobs s r = Some job \<longrightarrow> sjobs s' r = Some job \<or> r \<in> K \<and> sjobs s' r = Some dead_job)"

lemma grown_refl [simp]: "grown K s s"
  by (simp add: grown_def)

lemma grown_due: "grown K s s' \<Longrightarrow> is_due s' = is_due s"
  by (simp add: grown_def is_due_def fun_eq_iff)

lemma grown_trans: "grown K s s' \<Longrightarrow> grown K s' s'' \<Longrightarrow> grown K s s''"
  using grown_due [of K s s'] unfolding grown_def by (auto; metis)

lemma grown_mono: "grown K s s' \<Longrightarrow> K \<subseteq> L \<Longrightarrow> grown L s s'"
  unfolding grown_def by blast

lemma sched_add_grown:
  assumes "wf_timers s" "snow s < current + word_of_int delay" "fixed < 2 ^ 40"
  shows "wf_timers (fst (sched_add current f delay fixed s))" "grown K s (fst (sched_add current f delay fixed s))"
proof -
  have n: "sjobs s (nextJob s) = None" using assms(1) by (cases "sjobs s (nextJob s)") (auto simp: wf_timers_def)
  then have "Some (nextJob s) \<notin> snd ` set (timers s)" using assms(1) by (force simp: wf_timers_def)
  with n show "wf_timers (fst (sched_add current f delay fixed s))"
    using assms(1,3) unfolding wf_timers_def
    by (auto simp: sched_add_def sched_add_job_def Let_def insert_timer_sorted insert_timer_snd less_Suc_eq)
  show "grown K s (fst (sched_add current f delay fixed s))"
    using n assms(2) by (auto simp: grown_def sched_add_def sched_add_job_def Let_def is_due_def filter_insert_timer)
qed

lemma job_cancel_grown:
  assumes "wf_timers s" "r \<in> K"
  shows "wf_timers (job_cancel r s)" "grown K s (job_cancel r s)"
  using assms by (auto simp: wf_timers_def grown_def job_cancel_def split: option.split)

lemma op_grown: "wf_timers s \<Longrightarrow> op_ok K (snow s) p \<Longrightarrow> wf_timers (apply_op p s) \<and> grown K s (apply_op p s)"
  using sched_add_grown job_cancel_grown by (cases p) auto

lemma ops_grown:
  "wf_timers s \<Longrightarrow> \<forall>p\<in>set ops. op_ok K (snow s) p \<Longrightarrow> wf_timers (fold apply_op ops s) \<and> grown K s (fold apply_op ops s)"
proof (induction ops arbitrary: s)
  case (Cons p ops)
  then have p: "wf_timers (apply_op p s)" "grown K s (apply_op p s)" using op_grown [of s K p] by auto
  then have "snow (apply_op p s) = snow s" by (simp add: grown_def)
  then show ?case using Cons.IH [OF p(1)] Cons.prems(2) grown_trans [OF p(2)] by simp
qed simp

lemma acts_grown:
  assumes "acts K exec" "wf_timers s" "exec f s w = (s', w', e)"
  shows "wf_timers s'" "grown K s s'"
  using assms ops_grown [OF assms(2)] unfolding acts_def by (metis fst_conv)+

text \<open>A periodic job is scheduled again under a new name, and the old object is left empty.\<close>

lemma sched_edit_grown:
  assumes "wf_timers s" "snow s \<le> current" "uint current < 2 ^ 63" "sjobs s r = Some job" "0 < fixedDelay job"
  defines "s' \<equiv> fst (sched_edit current r (fixedDelay job) (fixedDelay job) s)"
  shows "wf_timers s'" "grown (insert r K) s s'" "sjobs s' r = Some dead_job"
    "(current + word_of_int (fixedDelay job), Some (nextJob s)) \<in> set (timers s')" "sjobs s' (nextJob s) = Some job"
    "snow s < current + word_of_int (fixedDelay job)"
proof -
  have d: "fixedDelay job < 2 ^ 40" "r < nextJob s" using assms(1,4) by (auto simp: wf_timers_def)
  note t = later_time [OF assms(2,3,5) d(1)]
  then show "snow s < current + word_of_int (fixedDelay job)" by simp
  have e: "s' = fst (sched_add current (job_do job) (fixedDelay job) (fixedDelay job) (job_cancel r s))"
    by (simp add: s'_def sched_edit_def assms(4))
  have c: "wf_timers (job_cancel r s)" "grown (insert r K) s (job_cancel r s)" using job_cancel_grown [OF assms(1)] by auto
  then have "snow (job_cancel r s) = snow s" by (simp add: grown_def)
  with sched_add_grown [OF c(1)] t(1) d(1) grown_trans [OF c(2)]
  show "wf_timers s'" "grown (insert r K) s s'" unfolding e by auto
  show "sjobs s' r = Some dead_job" "sjobs s' (nextJob s) = Some job"
    "(current + word_of_int (fixedDelay job), Some (nextJob s)) \<in> set (timers s')"
    using assms(4) d(2) t(2) unfolding e by (auto simp: sched_add_def sched_add_job_def job_cancel_def Let_def)
qed

section \<open>A turn of the loop\<close>

lemma set_map_filter: "set (List.map_filter f xs) = {y. \<exists>x\<in>set xs. f x = Some y}"
  by (force simp: List.map_filter_def)

lemma distinct_map_filter_Some: "distinct (map f xs) \<Longrightarrow> distinct (List.map_filter f xs)"
  by (induction xs) (auto simp: List.map_filter_simps set_map_filter image_iff split: option.split)

lemma set_subseq_subset: "subseq xs ys \<Longrightarrow> set xs \<subseteq> set ys"
  by (induction rule: list_emb.induct) auto

lemma set_due_refs: "set (due_refs s) = {r. \<exists>t. (t, Some r) \<in> set (timers s) \<and> t \<le> snow s}"
  by (force simp: due_refs_def is_due_def set_map_filter)

text \<open>What lasts from \<open>s\<close> to \<open>s'\<close>: the timers that are not due, and the jobs but for those of \<open>K\<close>.\<close>

definition kept :: "nat set \<Rightarrow> 'j Scheduler \<Rightarrow> 'j Scheduler \<Rightarrow> bool" where
  "kept K s s' \<longleftrightarrow> snow s' = snow s \<and> (\<forall>x\<in>set (timers s). \<not> is_due s x \<longrightarrow> x \<in> set (timers s'))
     \<and> (\<forall>r job. sjobs s r = Some job \<longrightarrow> sjobs s' r = Some job \<or> r \<in> K \<and> sjobs s' r = Some dead_job)"

lemma kept_trans: "kept K s s' \<Longrightarrow> kept L s' s'' \<Longrightarrow> kept (K \<union> L) s s''"
  unfolding kept_def is_due_def by (auto; metis)

text \<open>The job \<open>r\<close> of \<open>s\<close> has in \<open>s'\<close> a timer in the future under another name; the object \<open>r\<close> itself, which its owner may still hold, is empty.\<close>

definition rescheduled :: "nat set \<Rightarrow> 'j Scheduler \<Rightarrow> 'j Scheduler \<Rightarrow> nat \<Rightarrow> 'j Job \<Rightarrow> bool" where
  "rescheduled K s s' r job \<longleftrightarrow> sjobs s' r = Some dead_job
     \<and> (\<exists>t r'. (t, Some r') \<in> set (timers s') \<and> snow s < t \<and> r' \<noteq> r \<and> (sjobs s' r' = Some job \<or> r' \<in> K))"

definition finish_timer :: "u64 \<Rightarrow> nat \<Rightarrow> u64 \<Rightarrow> 'j Scheduler \<Rightarrow> 'j Scheduler" where
  "finish_timer current r t s2 =
     (let d = (case sjobs s2 r of None \<Rightarrow> 0 | Some job \<Rightarrow> fixedDelay job);
          s3 = (if d > 0 then fst (sched_edit current r d d s2) else s2)
      in s3\<lparr>timers := erase_first (\<lambda>x. x = (t, None)) (timers s3)\<rparr>)"

text \<open>The state while the job of the first timer runs.\<close>

abbreviation moved_out :: "u64 \<Rightarrow> (u64 \<times> nat option) list \<Rightarrow> 'j Scheduler \<Rightarrow> 'j Scheduler" where
  "moved_out t rest s \<equiv> s\<lparr>timers := (t, None) # rest\<rparr>"

lemma erase_moved:
  assumes "wf_timers s3" "\<forall>u. (u, None) \<in> set (timers s3) \<longrightarrow> u = t"
  shows "wf_sched (s3\<lparr>timers := erase_first (\<lambda>x. x = (t, None)) (timers s3)\<rparr>)"
    "erase_first (\<lambda>x. x = (t, None)) (timers s3) = filter (\<lambda>x. x \<noteq> (t, None)) (timers s3)"
proof -
  have "distinct (map (\<lambda>x. x) (timers s3))" using assms(1) by (simp add: wf_timers_def distinct_map)
  from erase_first_filter [OF this] show e: "erase_first (\<lambda>x. x = (t, None)) (timers s3) = filter (\<lambda>x. x \<noteq> (t, None)) (timers s3)" .
  have "sorted (map fst (filter (\<lambda>x. x \<noteq> (t, None)) (timers s3)))" using assms(1) by (simp add: wf_timers_def sorted_filter)
  then show "wf_sched (s3\<lparr>timers := erase_first (\<lambda>x. x = (t, None)) (timers s3)\<rparr>)"
    using assms unfolding e by (auto simp: wf_sched_def wf_timers_def distinct_map_filter)
qed

lemma finish_timer_ok:
  assumes wf: "wf_sched s" and clk: "snow s \<le> current" "uint current < 2 ^ 63"
    and ts: "timers s = (t, Some r) # rest" "t \<le> snow s" and job: "sjobs s r = Some job"
    and s2: "wf_timers s2" "grown K (moved_out t rest s) s2"
  defines "s4 \<equiv> finish_timer current r t s2"
  shows "wf_sched s4" "due_refs s = r # due_refs s4" "kept (insert r K) s s4"
    "r \<notin> K \<Longrightarrow> 0 < fixedDelay job \<Longrightarrow> rescheduled K s s4 r job"
proof -
  let ?s1 = "moved_out t rest s"
  have now: "snow s2 = snow s" using s2(2) by (simp add: grown_def)
  from s2(2) job obtain job2 where job2: "sjobs s2 r = Some job2" "job2 = job \<or> r \<in> K \<and> job2 = dead_job"
    unfolding grown_def by fastforce
  define s3 where "s3 = (if fixedDelay job2 > 0 then fst (sched_edit current r (fixedDelay job2) (fixedDelay job2) s2) else s2)"
  have s4: "s4 = s3\<lparr>timers := erase_first (\<lambda>x. x = (t, None)) (timers s3)\<rparr>"
    by (simp add: s4_def finish_timer_def job2(1) s3_def Let_def)
  note ed = sched_edit_grown [OF s2(1) _ _ job2(1), of current, unfolded now, OF clk]
  have s3: "wf_timers s3" "grown (insert r K) s2 s3" using s2(1) ed(1,2) by (simp_all add: s3_def)
  have g: "grown (insert r K) ?s1 s3" using grown_trans [OF grown_mono [OF s2(2)] s3(2)] by blast
  have rest: "(u, None) \<notin> set rest" for u using wf ts(1) by (force simp: wf_sched_def)
  have none: "\<forall>u. (u, None) \<in> set (timers s3) \<longrightarrow> u = t" using g rest by (auto simp: grown_def)
  note er = erase_moved [OF s3(1) none]
  show "wf_sched s4" unfolding s4 by (rule er(1))
  have due: "is_due s4 = is_due s" using g by (simp add: s4 grown_def is_due_def fun_eq_iff)
  have "filter (is_due s) (timers s4) = filter (\<lambda>x. x \<noteq> (t, None)) (filter (is_due ?s1) (timers s3))"
    unfolding s4 er(2) by (simp add: is_due_def conj_commute)
  also have "\<dots> = filter (\<lambda>x. x \<noteq> (t, None)) (filter (is_due ?s1) (timers ?s1))" using g by (simp add: grown_def)
  also have "\<dots> = filter (is_due s) rest"
    using rest ts(2) by (auto simp: is_due_def intro!: filter_cong)
  finally show "due_refs s = r # due_refs s4"
    using ts due by (simp add: due_refs_def is_due_def List.map_filter_simps)
  show "kept (insert r K) s s4"
    using g ts rest unfolding kept_def s4 er(2) grown_def is_due_def by auto
  assume r: "r \<notin> K" "0 < fixedDelay job"
  then have "job2 = job" using job2(2) by blast
  with r(2) ed(3-6) have "sjobs s3 r = Some dead_job" "sjobs s3 (nextJob s2) = Some job"
    "(current + word_of_int (fixedDelay job), Some (nextJob s2)) \<in> set (timers s3)" "snow s < current + word_of_int (fixedDelay job)"
    by (simp_all add: s3_def)
  moreover have "nextJob s2 \<noteq> r" using s2(1) job2(1) by (auto simp: wf_timers_def)
  ultimately show "rescheduled K s s4 r job"
    unfolding rescheduled_def s4 er(2) by auto
qed

lemma sched_run_step:
  assumes "timers s = (t, Some r) # rest" "t \<le> snow s" "sjobs s r = Some job"
  shows "sched_run clk n exec s w =
    (case (case job_do job of None \<Rightarrow> (moved_out t rest s, w, None) | Some f \<Rightarrow> exec f (moved_out t rest s) w) of
       (s2, w1, Some e) \<Rightarrow> Some (s2, w1, Some e)
     | (s2, w1, None) \<Rightarrow> sched_run clk (n + 1) exec (finish_timer (clk n) r t s2) w1)"
  using assms by (subst sched_run.simps) (auto simp: finish_timer_def Let_def split: prod.splits option.splits)

lemma wf_moved_out: "wf_sched s \<Longrightarrow> timers s = (t, Some r) # rest \<Longrightarrow> wf_timers (moved_out t rest s)"
  by (auto simp: wf_sched_def wf_timers_def)

section \<open>What a run does\<close>

text \<open>The outcome \<open>(s', w', log, e)\<close> of a run from \<open>s\<close>, where \<open>rs\<close> are the jobs that were executed.\<close>

definition run_outcome :: "nat set \<Rightarrow> 'j Scheduler \<Rightarrow> nat list \<Rightarrow> 'j Scheduler \<Rightarrow> 'j list \<Rightarrow> error option \<Rightarrow> bool" where
  "run_outcome K s rs s' log e \<longleftrightarrow> subseq rs (due_refs s) \<and> log = List.map_filter (action s) rs
     \<and> (e = None \<longrightarrow> wf_sched s' \<and> (\<forall>x\<in>set (timers s'). snow s < fst x) \<and> kept (K \<union> set (due_refs s)) s s'
          \<and> (\<forall>r\<in>set (due_refs s) - K. r \<in> set rs
                \<and> (\<forall>job. sjobs s r = Some job \<longrightarrow> 0 < fixedDelay job \<longrightarrow> rescheduled K s s' r job)))"

text \<open>A job that a turn has scheduled again stays scheduled until the end.\<close>

lemma rescheduled_kept:
  assumes "rescheduled K s s1 r job" "kept (K \<union> set (due_refs s1)) s1 s2" "snow s1 = snow s" "wf_sched s1"
  shows "rescheduled K s s2 r job"
proof -
  from assms(1) obtain t r' where t: "sjobs s1 r = Some dead_job" "(t, Some r') \<in> set (timers s1)" "snow s < t" "r' \<noteq> r"
    "sjobs s1 r' = Some job \<or> r' \<in> K" by (auto simp: rescheduled_def)
  have "r' \<notin> set (due_refs s1)"
  proof
    assume "r' \<in> set (due_refs s1)"
    then obtain u where "(u, Some r') \<in> set (timers s1)" "u \<le> snow s1" by (auto simp: set_due_refs)
    moreover have "inj_on snd (set (timers s1))" using assms(4) by (simp add: wf_sched_def wf_timers_def distinct_map)
    ultimately have "u = t" using t(2) by (metis fst_conv inj_onD snd_conv)
    with \<open>u \<le> snow s1\<close> t(3) assms(3) show False by simp
  qed
  with t assms(2,3) show ?thesis
    unfolding rescheduled_def kept_def is_due_def
    by (intro conjI exI [of _ t] exI [of _ r']) fastforce+
qed

text \<open>The outcome of the rest of a run, seen from before the turn that executed \<open>r\<close>.\<close>

lemma run_outcome_step:
  assumes wf: "wf_sched s" "wf_sched s1" and r: "due_refs s = r # due_refs s1" and k: "kept (insert r K) s s1"
    and job: "sjobs s r = Some job" "r \<notin> K \<Longrightarrow> 0 < fixedDelay job \<Longrightarrow> rescheduled K s s1 r job"
    and o: "run_outcome K s1 rs s' log e"
  defines "rs' \<equiv> r # filter (\<lambda>q. sjobs s1 q = sjobs s q) rs"
  shows "run_outcome K s rs' s' ((case job_do job of None \<Rightarrow> [] | Some f \<Rightarrow> [f]) @ log) e"
proof -
  have sub: "subseq rs (due_refs s1)" and log: "log = List.map_filter (action s1) rs" using o by (simp_all add: run_outcome_def)
  have now: "snow s1 = snow s" using k by (simp add: kept_def)
  have d: "distinct (due_refs s)"
  proof -
    have "distinct (map snd (filter (is_due s) (timers s)))" using wf(1) by (simp add: wf_sched_def wf_timers_def distinct_map_filter)
    then show ?thesis unfolding due_refs_def by (rule distinct_map_filter_Some)
  qed
  have old: "\<exists>j. sjobs s q = Some j \<and> (sjobs s1 q = Some j \<or> q \<in> K \<and> sjobs s1 q = Some dead_job)" if "q \<in> set (due_refs s1)" for q
  proof -
    have "q \<in> set (due_refs s)" "q \<noteq> r" using that r d by auto
    then obtain j where "sjobs s q = Some j" using wf(1) by (force simp: set_due_refs wf_sched_def wf_timers_def)
    with k \<open>q \<noteq> r\<close> show ?thesis unfolding kept_def by blast
  qed
  have "set rs \<subseteq> set (due_refs s1)" using sub by (rule set_subseq_subset)
  then have "List.map_filter (action s1) rs = List.map_filter (action s) (filter (\<lambda>q. sjobs s1 q = sjobs s q) rs)"
  proof (induction rs)
    case (Cons q rs)
    then show ?case using old [of q] by (auto simp: List.map_filter_simps action_def split: option.split)
  qed simp
  then have l: "(case job_do job of None \<Rightarrow> [] | Some f \<Rightarrow> [f]) @ log = List.map_filter (action s) rs'"
    by (simp add: rs'_def log List.map_filter_simps action_def job(1) split: option.split)
  have sub': "subseq rs' (due_refs s)"
    unfolding rs'_def r using subseq_order.trans [OF subseq_filter_left sub] by simp
  show ?thesis
  proof (cases e)
    case None
    then have w: "wf_sched s'" "\<forall>x\<in>set (timers s'). snow s < fst x" "kept (K \<union> set (due_refs s1)) s1 s'"
      "\<forall>q\<in>set (due_refs s1) - K. q \<in> set rs \<and> (\<forall>j. sjobs s1 q = Some j \<longrightarrow> 0 < fixedDelay j \<longrightarrow> rescheduled K s1 s' q j)"
      using o now by (simp_all add: run_outcome_def)
    have "kept (K \<union> set (due_refs s)) s s'" using kept_trans [OF k w(3)] r by (simp add: Un_insert_left Un_insert_right Un_left_commute)
    moreover have "q \<in> set rs' \<and> (\<forall>j. sjobs s q = Some j \<longrightarrow> 0 < fixedDelay j \<longrightarrow> rescheduled K s s' q j)"
      if "q \<in> set (due_refs s) - K" for q
    proof (cases "q = r")
      case True
      then show ?thesis using that job rescheduled_kept [OF _ w(3) now wf(2)] by (auto simp: rs'_def)
    next
      case False
      then have q: "q \<in> set (due_refs s1) - K" using that r by auto
      then have "sjobs s1 q = sjobs s q" using old [of q] by auto
      with w(4) q now show ?thesis by (auto simp: rs'_def rescheduled_def)
    qed
    ultimately show ?thesis using None w(1,2) sub' l by (simp add: run_outcome_def)
  qed (use sub' l in \<open>simp add: run_outcome_def\<close>)
qed

text \<open>A run ends; it executes the jobs that are due, in their order, and leaves the periodic ones scheduled.\<close>

lemma sched_run_outcome:
  assumes "wf_sched s" "clock_ok clk s" "acts K exec"
  shows "\<exists>s' w' log e rs. sched_run clk n exec s w = Some (s', w', e)
    \<and> sched_run clk n (logged exec) s (w, l) = Some (s', (w', l @ log), e) \<and> run_outcome K s rs s' log e"
  using assms(1,2)
proof (induction "length (due_refs s)" arbitrary: s n w l)
  case 0
  then have none: "due_refs s = []" by simp
  have later: "snow s < fst x" if "x \<in> set (timers s)" for x
  proof (rule ccontr)
    assume "\<not> snow s < fst x"
    moreover have "snd x \<noteq> None" using 0(2) that by (force simp: wf_sched_def)
    then obtain r where "snd x = Some r" by blast
    ultimately have "r \<in> set (due_refs s)" using that by (cases x) (auto simp: set_due_refs)
    with none show False by simp
  qed
  then have "sched_run clk n exec s w = Some (s, w, None)" "sched_run clk n (logged exec) s (w, l) = Some (s, (w, l @ []), None)"
    using later by (subst sched_run.simps, auto split: list.split)+
  moreover have "run_outcome K s [] s [] None"
    using 0(2) none later by (simp add: run_outcome_def kept_def List.map_filter_simps)
  ultimately show ?case by blast
next
  case (Suc k)
  from Suc(2) obtain r refs where refs: "due_refs s = r # refs" by (cases "due_refs s") auto
  then obtain u where "(u, Some r) \<in> set (timers s)" "u \<le> snow s" using set_due_refs [of s] by auto
  then obtain t p rest where "timers s = (t, p) # rest" "t \<le> snow s"
    using Suc(3) by (cases "timers s") (fastforce simp: wf_sched_def wf_timers_def)+
  moreover have "p \<noteq> None" using Suc(3) calculation(1) by (force simp: wf_sched_def)
  ultimately have ts: "timers s = (t, Some r) # rest" "t \<le> snow s"
    using refs by (auto simp: due_refs_def is_due_def List.map_filter_simps)
  obtain job where job: "sjobs s r = Some job" using Suc(3) ts(1) by (auto simp: wf_sched_def wf_timers_def)
  note mo = wf_moved_out [OF Suc(3) ts(1)]
  define res where "res = (case job_do job of None \<Rightarrow> (moved_out t rest s, w, None) | Some f \<Rightarrow> exec f (moved_out t rest s) w)"
  obtain s2 w1 e where res: "res = (s2, w1, e)" by (cases res)
  have s2: "wf_timers s2" "grown K (moved_out t rest s) s2"
    using res mo acts_grown [OF assms(3) mo] by (auto simp: res_def split: option.splits)
  let ?one = "case job_do job of None \<Rightarrow> [] | Some f \<Rightarrow> [f]"
  have lres: "(case job_do job of None \<Rightarrow> (moved_out t rest s, (w, l), None) | Some f \<Rightarrow> logged exec f (moved_out t rest s) (w, l))
      = (s2, (w1, l @ ?one), e)"
    using res by (auto simp: res_def logged_def split: option.split)
  show ?case
  proof (cases e)
    case (Some err)
    moreover have "run_outcome K s [r] s2 ?one (Some err)"
      using refs job by (simp add: run_outcome_def List.map_filter_simps action_def split: option.split)
    ultimately show ?thesis
      unfolding sched_run_step [OF ts job] lres res [unfolded res_def] by auto
  next
    case None
    let ?s = "finish_timer (clk n) r t s2"
    have clk: "snow s \<le> clk n" "uint (clk n) < 2 ^ 63" using Suc(4) by (simp_all add: clock_ok_def)
    note f = finish_timer_ok [OF Suc(3) clk ts job s2]
    have "k = length (due_refs ?s)" "clock_ok clk ?s" using Suc(2,4) f(2,3) by (simp_all add: clock_ok_def kept_def)
    from Suc(1) [OF this(1) f(1) this(2), of "n + 1" w1 "l @ ?one"] obtain s' w' log e' rs where
      i: "sched_run clk (n + 1) exec ?s w1 = Some (s', w', e')"
        "sched_run clk (n + 1) (logged exec) ?s (w1, l @ ?one) = Some (s', (w', (l @ ?one) @ log), e')" "run_outcome K ?s rs s' log e'"
      by blast
    from run_outcome_step [OF Suc(3) f(1,2,3) job f(4) i(3)] i(1,2) None show ?thesis
      unfolding sched_run_step [OF ts job] lres res [unfolded res_def] by auto
  qed
qed

end
