(* ===== verification/Dht.thy ===== *)
theory Dht
  imports Storage Tokens Task_Manager Scheduler
begin

text \<open>
  The DHT node: \<^verbatim>\<open>src/core/dht.cc\<close> and \<^verbatim>\<open>dht.h\<close>, the part that receives messages. A \<open>World\<close> is the state a
  handler works on: the DHT itself, the DHT of the other address family if there is one, and the
  components they share (RPC server, token manager, storage, task manager), with supplies of names for
  task and entry objects. What the server does (datagrams, events of calls) is collected in \<open>out\<close>, the results
  handed to users in \<open>completions\<close> and the tables written to the file in \<open>saved\<close>. A handler returns
  the world it leaves and the exception or undefined behaviour that ended it, if any. The
  production build is modelled: \<^verbatim>\<open>CARRIER_DEVELOPMENT\<close> and \<^verbatim>\<open>CARRIER_CRAWLER\<close> are not defined.
\<close>

section \<open>State\<close>

record DHT =
  dtype4 :: bool
  dnode :: Id
  daddr :: SocketAddress
  rtable :: RoutingTable
  bootstrapNodes :: "NodeInfo list"
  knownNodes :: "(SocketAddress \<times> Id) list"
  bootstrapping :: bool
  lastBootstrap :: u64
  lastSave :: u64
  drunning :: bool
  persistFile :: string

text \<open>The closures that \<^verbatim>\<open>dht.cc\<close> and \<^verbatim>\<open>routing_table.cc\<close> add to tasks as listeners, with what they capture; a number
  names the completion handler of the user, \<open>None\<close> the handler that does nothing.\<close>

datatype Listener =
    MaintenanceDone nat
  | BootstrapDone
  | RandomLookupDone
  | FindNodeDone "nat option" Id
  | FindValueDone nat
  | StoreLookupDone nat Value
  | StoreDone nat "NodeInfo list"
  | FindPeerDone nat
  | AnnounceLookupDone nat PeerInfo
  | AnnounceDone nat "NodeInfo list"

text \<open>The variables that the state handlers of the calls of one bootstrap round share.\<close>

record Round =
  rcalls :: "nat list"
  rnodes :: "NodeInfo list"
  rcount :: int
  rlen :: int

text \<open>What the completion handlers of the user receive, and the periodic jobs that \<^verbatim>\<open>DHT::start\<close> adds.\<close>

datatype Completion =
    NodeResult "NodeInfo option"
  | ValueResult "Value option"
  | NodesResult "NodeInfo list"
  | PeersResult "PeerInfo list"

datatype DhtJob = DequeueJob | UpdateJob | RandomPingJob | RandomLookupJob

record World =
  dht :: DHT
  otherDht :: "DHT option"
  server :: RPCServer
  tokenMan :: TokenManager
  storage :: Storage
  taskMan :: "Listener TaskManager"
  taskNames :: nat
  entryNames :: nat
  boot_round :: Round
  out :: "Effect list"
  completions :: "(nat \<times> Completion) list"
  saved :: "(string \<times> KBucketEntry list option) list"
  sched :: "DhtJob Scheduler"

text \<open>Parameters: the RPC environment, SQLite, the cryptographic primitives, Unicode normalisation, and the
  bootstrap nodes of the configuration as the entries the code casts them to; \<open>lostEntry\<close> is the contents of
  bucket entry objects that have left the routing table.\<close>

record Config =
  rpcEnv :: Env
  sqlite :: Sqlite
  sha_256 :: "byte list \<Rightarrow> byte list"
  verify_sign :: "byte list \<Rightarrow> byte list \<Rightarrow> Id \<Rightarrow> bool"
  unf_nfc :: "string \<Rightarrow> string option"
  configBootstraps :: "NodeInfo list"
  lostEntry :: "nat \<Rightarrow> KBucketEntry"

type_synonym step = "World \<times> error option"

definition proceed :: "step \<Rightarrow> (World \<Rightarrow> step) \<Rightarrow> step" where
  "proceed r f = (case r of (w, Some e) \<Rightarrow> (w, Some e) | (w, None) \<Rightarrow> f w)"

definition on_table :: "(RoutingTable \<Rightarrow> RoutingTable option) \<Rightarrow> World \<Rightarrow> step" where
  "on_table f w = (case f (rtable (dht w)) of
     None \<Rightarrow> (w, Some Undefined)
   | Some rt \<Rightarrow> (w\<lparr>dht := (dht w)\<lparr>rtable := rt\<rparr>\<rparr>, None))"

definition from_result :: "'a result \<Rightarrow> World \<Rightarrow> ('a \<Rightarrow> World \<Rightarrow> step) \<Rightarrow> step" where
  "from_result r w f = (case r of Inl e \<Rightarrow> (w, Some e) | Inr x \<Rightarrow> f x w)"

section \<open>Notifications from the server\<close>

definition onSend :: "u64 \<Rightarrow> Id \<Rightarrow> World \<Rightarrow> step" where
  "onSend now i w = (if \<not> drunning (dht w) then (w, None) else on_table (rt_onSend now i) w)"

definition onTimeout :: "u64 \<Rightarrow> Id \<Rightarrow> World \<Rightarrow> step" where
  "onTimeout now i w =
     (if \<not> drunning (dht w) \<or> \<not> isReachable (server w) then (w, None) else on_table (rt_onTimeout now i) w)"

text \<open>An operation of the server, with the notifications \<^verbatim>\<open>onSend\<close> that it makes on the way.\<close>

fun notify_all :: "u64 \<Rightarrow> Effect list \<Rightarrow> World \<Rightarrow> step" where
  "notify_all now [] w = (w, None)"
| "notify_all now (OnSend i # es) w = proceed (onSend now i w) (notify_all now es)"
| "notify_all now (e # es) w = notify_all now es w"

definition serve :: "u64 \<Rightarrow> (RPCServer \<Rightarrow> server_step) \<Rightarrow> World \<Rightarrow> step" where
  "serve now f w =
     (case f (server w) of (s, es, err) \<Rightarrow>
        proceed (notify_all now es (w\<lparr>server := s, out := out w @ es\<rparr>)) (\<lambda>w'. (w', err)))"

definition reply :: "Config \<Rightarrow> u64 \<Rightarrow> Message \<Rightarrow> Body \<Rightarrow> World \<Rightarrow> step" where
  "reply cfg now q b =
     serve now (sendMessage (rpcEnv cfg) now ((mkMessage b (txid q))\<lparr>remoteId := mid q, remoteAddr := morigin q\<rparr>))"

definition dht_sendError :: "Config \<Rightarrow> u64 \<Rightarrow> Message \<Rightarrow> int \<Rightarrow> string \<Rightarrow> World \<Rightarrow> step" where
  "dht_sendError cfg now q code msg = serve now (sendError (rpcEnv cfg) now q code msg)"

section \<open>Requests\<close>

text \<open>The nodes of \<open>d\<close> closest to a target.\<close>

definition closest_nodes :: "Config \<Rightarrow> u64 \<Rightarrow> DHT \<Rightarrow> Id \<Rightarrow> int \<Rightarrow> bool \<Rightarrow> NodeInfo list option" where
  "closest_nodes cfg now d target n includeSelf =
     map_option asNodeList (kcn_fill (configBootstraps cfg) (canUseSocketAddress (dtype4 d))
       (mkKBucketEntry 0 now (dnode d) (daddr d) 0) includeSelf (rtable d) (defaultKClosestNodes target n))"

text \<open>\<^verbatim>\<open>*node.getDHT(..)\<close> of a DHT that does not run is a null pointer.\<close>

definition populateClosestNodes :: "Config \<Rightarrow> u64 \<Rightarrow> World \<Rightarrow> Id \<Rightarrow> int \<Rightarrow> int \<Rightarrow> LookupResponse \<Rightarrow> LookupResponse option" where
  "populateClosestNodes cfg now w target v4 v6 r =
     (let this = dht w
      in do { r1 \<leftarrow> if v4 > 0
                    then do { d \<leftarrow> if dtype4 this then Some this else otherDht w;
                              ns \<leftarrow> closest_nodes cfg now d target v4 (dtype4 this);
                              Some (r\<lparr>nodes4 := ns\<rparr>) }
                    else Some r;
              if v6 > 0
              then do { d \<leftarrow> if \<not> dtype4 this then Some this else otherDht w;
                        ns \<leftarrow> closest_nodes cfg now d target v6 (\<not> dtype4 this);
                        Some (r1\<lparr>nodes6 := ns\<rparr>) }
              else Some r1 })"

definition wanted :: "bool \<Rightarrow> int" where
  "wanted b = (if b then int MAX_ENTRIES_PER_BUCKET else 0)"

definition populated :: "Config \<Rightarrow> u64 \<Rightarrow> LookupRequest \<Rightarrow> LookupResponse \<Rightarrow> World \<Rightarrow> (LookupResponse \<Rightarrow> World \<Rightarrow> step) \<Rightarrow> step" where
  "populated cfg now q r w f =
     (case populateClosestNodes cfg now w (lq_target q) (wanted (want4 q)) (wanted (want6 q)) r of
        None \<Rightarrow> (w, Some Undefined)
      | Some r' \<Rightarrow> f r' w)"

definition new_token :: "Config \<Rightarrow> u64 \<Rightarrow> Message \<Rightarrow> Id \<Rightarrow> World \<Rightarrow> int \<times> World" where
  "new_token cfg now q target w =
     (let (tok, tm) = generateToken (sha_256 cfg) now (mid q) (morigin q) target (tokenMan w)
      in (tok, w\<lparr>tokenMan := tm\<rparr>))"

definition check_token :: "Config \<Rightarrow> u64 \<Rightarrow> Message \<Rightarrow> int \<Rightarrow> Id \<Rightarrow> World \<Rightarrow> bool \<times> World" where
  "check_token cfg now q tok target w =
     (let (ok, tm) = verifyToken (sha_256 cfg) now tok (mid q) (morigin q) target (tokenMan w)
      in (ok, w\<lparr>tokenMan := tm\<rparr>))"

definition onPing :: "Config \<Rightarrow> u64 \<Rightarrow> Message \<Rightarrow> World \<Rightarrow> step" where
  "onPing cfg now msg w = reply cfg now msg PingResponse w"

definition onFindNode :: "Config \<Rightarrow> u64 \<Rightarrow> Message \<Rightarrow> LookupRequest \<Rightarrow> World \<Rightarrow> step" where
  "onFindNode cfg now msg q w =
     populated cfg now q default_response w (\<lambda>r w.
       let (tok, w1) = (if wantToken q then new_token cfg now msg (lq_target q) w else (ltoken r, w))
       in reply cfg now msg (FindNodeResponse (r\<lparr>ltoken := tok\<rparr>)) w1)"

definition onFindValue :: "Config \<Rightarrow> u64 \<Rightarrow> Message \<Rightarrow> LookupRequest \<Rightarrow> int \<Rightarrow> World \<Rightarrow> step" where
  "onFindValue cfg now msg q seq w0 =
     (let (tok, w) = new_token cfg now msg (dnode (dht w0)) w0; r = default_response\<lparr>ltoken := tok\<rparr>
      in from_result (db_getValue (sqlite cfg) now (lq_target q) (storage w)) w (\<lambda>value w.
           case value of
             Some v \<Rightarrow>
               if seq < 0 \<or> v_sequenceNumber v < 0 \<or> seq \<le> v_sequenceNumber v
               then reply cfg now msg (FindValueResponse r (setValue v default_fields)) w
               else populated cfg now q r w (\<lambda>r' w. reply cfg now msg (FindValueResponse r' default_fields) w)
           | None \<Rightarrow> populated cfg now q r w (\<lambda>r' w. reply cfg now msg (FindValueResponse r' default_fields) w)))"

definition onStoreValue :: "Config \<Rightarrow> u64 \<Rightarrow> Message \<Rightarrow> StoreValueRequest \<Rightarrow> World \<Rightarrow> step" where
  "onStoreValue cfg now msg q w0 =
     from_result (getValue q) w0 (\<lambda>v w0.
       let valueId = value_getId (sha_256 cfg) v; (ok, w) = check_token cfg now msg (sv_token q) valueId w0
       in if \<not> ok then dht_sendError cfg now msg PROTOCOL_ERROR ''Invalid token for STORE VALUE request'' w
          else if \<not> value_isValid (verify_sign cfg) v then dht_sendError cfg now msg PROTOCOL_ERROR ''Invalid value'' w
          else from_result (db_putValue (sha_256 cfg) (verify_sign cfg) (sqlite cfg) now v (expectedSequenceNumber q) False False
                              (storage w)) w
                 (\<lambda>(db, old) w. reply cfg now msg StoreValueResponse (w\<lparr>storage := db\<rparr>)))"

definition onFindPeers :: "Config \<Rightarrow> u64 \<Rightarrow> Message \<Rightarrow> LookupRequest \<Rightarrow> World \<Rightarrow> step" where
  "onFindPeers cfg now msg q w0 =
     (let (tok, w) = new_token cfg now msg (lq_target q) w0; r = default_response\<lparr>ltoken := tok\<rparr>
      in from_result (db_getPeers (unf_nfc cfg) (sqlite cfg) now (lq_target q) 8 (storage w)) w (\<lambda>ps w.
           if ps \<noteq> [] then reply cfg now msg (FindPeerResponse r ps) w
           else populated cfg now q r w (\<lambda>r' w. reply cfg now msg (FindPeerResponse r' []) w)))"

definition onAnnouncePeer :: "Config \<Rightarrow> u64 \<Rightarrow> Message \<Rightarrow> AnnouncePeerRequest \<Rightarrow> World \<Rightarrow> step" where
  "onAnnouncePeer cfg now msg q w0 =
     (if isBogon (morigin msg) \<noteq> Some False then (w0, None)
      else let (ok, w) = check_token cfg now msg (ap_token q) (ap_peerId q) w0
           in if \<not> ok then dht_sendError cfg now msg PROTOCOL_ERROR ''Invalid token for ANNOUNCE PEER request'' w
              else from_result (getPeer (unf_nfc cfg) (mid msg) q) w (\<lambda>p w.
                     from_result (db_putPeer (sqlite cfg) now p False False (storage w)) w (\<lambda>db w.
                       reply cfg now msg AnnouncePeerResponse (w\<lparr>storage := db\<rparr>))))"

text \<open>A message of class \<^verbatim>\<open>ErrorMessage\<close> is logged, a response needs nothing more.\<close>

definition onRequest :: "Config \<Rightarrow> u64 \<Rightarrow> Message \<Rightarrow> World \<Rightarrow> step" where
  "onRequest cfg now msg w =
     (case body msg of
        PingRequest \<Rightarrow> onPing cfg now msg w
      | FindNodeRequest q \<Rightarrow> onFindNode cfg now msg q w
      | FindValueRequest q seq \<Rightarrow> onFindValue cfg now msg q seq w
      | StoreRequest q \<Rightarrow> onStoreValue cfg now msg q w
      | FindPeerRequest q \<Rightarrow> onFindPeers cfg now msg q w
      | AnnounceRequest q \<Rightarrow> onAnnouncePeer cfg now msg q w
      | _ \<Rightarrow> (w, None))"

section \<open>What a message tells the routing table\<close>

text \<open>\<^verbatim>\<open>std::map\<close> takes two addresses for the same key when neither is less than the other.\<close>

definition same_addr :: "SocketAddress \<Rightarrow> SocketAddress \<Rightarrow> bool" where
  "same_addr a b \<longleftrightarrow> \<not> sa_less a b \<and> \<not> sa_less b a"

definition known_find :: "SocketAddress \<Rightarrow> (SocketAddress \<times> Id) list \<Rightarrow> Id option" where
  "known_find a m = map_option snd (find (\<lambda>x. same_addr (fst x) a) m)"

definition known_erase :: "SocketAddress \<Rightarrow> (SocketAddress \<times> Id) list \<Rightarrow> (SocketAddress \<times> Id) list" where
  "known_erase a m = filter (\<lambda>x. \<not> same_addr (fst x) a) m"

definition known_set :: "SocketAddress \<Rightarrow> Id \<Rightarrow> (SocketAddress \<times> Id) list \<Rightarrow> (SocketAddress \<times> Id) list" where
  "known_set a i m = (if known_find a m = None then m @ [(a, i)]
     else map (\<lambda>x. if same_addr (fst x) a then (fst x, i) else x) m)"

definition on_known :: "((SocketAddress \<times> Id) list \<Rightarrow> (SocketAddress \<times> Id) list) \<Rightarrow> World \<Rightarrow> World" where
  "on_known f w = w\<lparr>dht := (dht w)\<lparr>knownNodes := f (knownNodes (dht w))\<rparr>\<rparr>"

text \<open>A task is an object of its own, which the task manager takes.\<close>

definition submit :: "Kind \<Rightarrow> Listener list \<Rightarrow> World \<Rightarrow> World" where
  "submit k ls w =
     (let i = taskNames w; t = (newTask i k)\<lparr>listeners := ls\<rparr>;
          tm = (taskMan w)\<lparr>tasks := (tasks (taskMan w))(i \<mapsto> t)\<rparr>
      in w\<lparr>taskMan := (case add_task i False tm of None \<Rightarrow> tm | Some tm' \<Rightarrow> tm'), taskNames := i + 1\<rparr>)"

text \<open>\<^verbatim>\<open>tryPingMaintenance\<close> with the task it starts.\<close>

definition ping_bucket :: "u64 \<Rightarrow> Id \<Rightarrow> PingOptions list \<Rightarrow> World \<Rightarrow> step" where
  "ping_bucket now i options w =
     (case getBucket (rtable (dht w)) i of
        None \<Rightarrow> (w, Some Undefined)
      | Some b \<Rightarrow>
          (case tryPingMaintenance now b options (rtable (dht w)) of (rt, t) \<Rightarrow>
             let w1 = w\<lparr>dht := (dht w)\<lparr>rtable := rt\<rparr>\<rparr>
             in (case t of None \<Rightarrow> w1 | Some p \<Rightarrow> submit (PingRefresh p) [MaintenanceDone (bref b)] w1, None)))"

text \<open>The end of \<^verbatim>\<open>received\<close>: a new entry for the sender; one that is not yet in the table and did not answer a call is
  pinged first.\<close>

definition enter_node :: "Config \<Rightarrow> u64 \<Rightarrow> Message \<Rightarrow> RPCCall option \<Rightarrow> bool \<Rightarrow> World \<Rightarrow> step" where
  "enter_node cfg now msg call isNew w0 =
     (let e0 = mkKBucketEntry (entryNames w0) now (mid msg) (morigin msg) (mversion msg);
          e = (case call of Some c \<Rightarrow> mergeRequestTime (sentTime c) (signalResponse now e0) | None \<Rightarrow> e0);
          w = on_known (known_set (morigin msg) (mid msg)) w0;
          n = callSupply (taskMan w)
      in proceed
           (if call = None \<and> isNew
            then serve now (sendCall (rpcEnv cfg) now (mkRPCCall n (node_of e) (Some (reachable e)) (mkMessage PingRequest 0)))
                   (w\<lparr>taskMan := (taskMan w)\<lparr>callSupply := n + 1\<rparr>\<rparr>)
            else (w, None))
           (\<lambda>w. on_table (rt_put now e) (w\<lparr>entryNames := entryNames w + 1\<rparr>)))"

text \<open>\<open>call\<close> is the call object the message is associated with; \<^verbatim>\<open>matchesAddress\<close> and \<^verbatim>\<open>matchesId\<close> read its response.\<close>

definition received :: "Config \<Rightarrow> u64 \<Rightarrow> Message \<Rightarrow> RPCCall option \<Rightarrow> World \<Rightarrow> step" where
  "received cfg now msg call w =
     (if isBogon (morigin msg) \<noteq> Some False then (w, None)
      else if (case call of None \<Rightarrow> False | Some c \<Rightarrow> matchesAddress c \<noteq> Some True \<or> matchesId c \<noteq> Some True) then (w, None)
      else case getEntry (rtable (dht w)) (mid msg) of
             None \<Rightarrow> (w, Some Undefined)
           | Some old \<Rightarrow>
               if (case old of None \<Rightarrow> False | Some e \<Rightarrow> \<not> sa_eq (sockaddr e) (morigin msg)) then (w, None)
               else case known_find (morigin msg) (knownNodes (dht w)) of
                      None \<Rightarrow> enter_node cfg now msg call (old = None) w
                    | Some knownId \<Rightarrow>
                        if id_eq knownId (mid msg) then enter_node cfg now msg call (old = None) w
                        else (case getEntry (rtable (dht w)) knownId of
                                None \<Rightarrow> (w, Some Undefined)
                              | Some None \<Rightarrow> enter_node cfg now msg call (old = None) (on_known (known_erase (morigin msg)) w)
                              | Some (Some knownEntry) \<Rightarrow>
                                  proceed (on_table (rt_remove now knownId) w) (\<lambda>w.
                                  proceed (ping_bucket now knownId [CheckAll] w) (\<lambda>w.
                                    (on_known (known_set (morigin msg) (mid msg)) w, None)))))"

definition onMessage :: "Config \<Rightarrow> u64 \<Rightarrow> Message \<Rightarrow> RPCCall option \<Rightarrow> World \<Rightarrow> step" where
  "onMessage cfg now msg call w =
     (if \<not> drunning (dht w) then (w, None)
      else if id_eq (dnode (dht w)) (mid msg) \<or> sa_eq (daddr (dht w)) (morigin msg) then (w, None)
      else proceed (if getType msg = REQUEST then onRequest cfg now msg w else (w, None))
             (received cfg now msg call))"

end
