(* ===== verification/Storage_Contract.thy ===== *)
theory Storage_Contract
  imports Storage
begin

text \<open>
  What the store promises. The abstract store is a map from ids to values with the time they were
  stored at, and the SQL of \<open>Storage\<close> refines it as long as SQLite reports no failure. On top of it: the
  invariant of the two tables, the round trips of values and peers, and the rules that a new version of
  a value has to meet.
\<close>

section \<open>Statements that succeed\<close>

definition healthy :: "Sqlite \<Rightarrow> bool" where
  "healthy sql \<longleftrightarrow> (\<forall>s. prepares sql s) \<and> (\<forall>s k. steps sql s k)
     \<and> (\<forall>rs. mset (value_order sql rs) = mset rs) \<and> (\<forall>rs. mset (peer_order sql rs) = mset rs)"

lemma healthyD [simp]:
  assumes "healthy sql"
  shows "prepares sql s" "steps sql s k" "mset (value_order sql vs) = mset vs" "mset (peer_order sql ps) = mset ps"
  using assms by (auto simp: healthy_def)

lemma fetch_all: "(\<And>k. ok k) \<Longrightarrow> fetch ok k xs = xs"
  by (induction xs arbitrary: k) auto

lemma healthy_fetch [simp]: "healthy sql \<Longrightarrow> fetch (steps sql s) k xs = xs"
  by (rule fetch_all) simp

section \<open>Rows and the data they hold\<close>

lemma mkValueRow_wf:
  assumes "wf_value v"
  shows "mkValueRow sha256 now v persistent ann =
    Inr \<lparr>vr_id = value_getId sha256 v, vr_persistent = persistent, vr_publicKey = v_publicKey v,
         vr_privateKey = v_privateKey v, vr_recipient = v_recipient v, vr_nonce = v_nonce v, vr_signature = v_signature v,
         vr_sequenceNumber = v_sequenceNumber v, vr_data = v_data v, vr_timestamp = bind_int64 now,
         vr_announced = (if ann then bind_int64 now else 0)\<rparr>"
proof (cases "v_publicKey v")
  case None
  with assms have "v_nonce v = None" by (simp add: wf_value_def)
  with None show ?thesis by (simp add: mkValueRow_def isMutable_def)
next
  case (Some pk)
  with assms obtain n where "v_nonce v = Some n" by (auto simp: wf_value_def)
  with Some show ?thesis by (simp add: mkValueRow_def isMutable_def)
qed

lemma value_row_roundtrip:
  assumes "wf_value v" "v_sequenceNumber v < 2 ^ 31" "mkValueRow sha256 now v persistent ann = Inr r"
  shows "value_of_row r = Inr v"
proof -
  have "int32 (v_sequenceNumber v) = v_sequenceNumber v"
    using assms(1,2) by (intro int32_id) (auto simp: wf_value_def split: option.splits)
  moreover have "length (opt_bytes (v_nonce v)) = NONCE_BYTES \<or> v_nonce v = None"
    using assms(1) by (auto simp: wf_value_def opt_bytes_def split: option.splits)
  then have "(let n = opt_bytes (v_nonce v) in if length n = NONCE_BYTES then n else []) = opt_bytes (v_nonce v)"
    by (auto simp: opt_bytes_def Let_def)
  moreover have "vr_publicKey r = v_publicKey v" "vr_privateKey r = v_privateKey v" "vr_recipient r = v_recipient v"
    "vr_nonce r = v_nonce v" "vr_signature r = v_signature v" "vr_sequenceNumber r = v_sequenceNumber v" "vr_data r = v_data v"
    using assms(3) by (auto simp: mkValueRow_wf [OF assms(1)])
  ultimately show ?thesis by (simp add: value_of_row_def Value_of_fields [OF assms(1)])
qed

lemma value_of_row_update [simp]:
  "value_of_row (r\<lparr>vr_timestamp := t, vr_announced := a\<rparr>) = value_of_row r"
  "value_of_row (r\<lparr>vr_persistent := p, vr_announced := a\<rparr>) = value_of_row r"
  by (simp_all add: value_of_row_def)

definition wf_value_row :: "(byte list \<Rightarrow> byte list) \<Rightarrow> ValueRow \<Rightarrow> bool" where
  "wf_value_row sha256 r \<longleftrightarrow> (\<exists>v. value_of_row r = Inr v \<and> wf_value v \<and> vr_id r = value_getId sha256 v)"

text \<open>What \<^verbatim>\<open>utf8proc_NFC\<close> promises: a result is a C string, and normalising it again changes nothing.\<close>

definition nfc_ok :: "(string \<Rightarrow> string option) \<Rightarrow> bool" where
  "nfc_ok nfc \<longleftrightarrow> (\<forall>u v. nfc (c_str u) = Some v \<longrightarrow> CHR 0x00 \<notin> set v \<and> nfc v = Some v)"

text \<open>The URL of a peer, read back from the store, can be normalised.\<close>

definition wf_peer :: "(string \<Rightarrow> string option) \<Rightarrow> PeerInfo \<Rightarrow> bool" where
  "wf_peer nfc p \<longleftrightarrow> wf_id (p_publicKey p) \<and> wf_id (p_nodeId p) \<and> wf_id (p_origin p) \<and> p_port p \<noteq> 0
     \<and> (\<forall>k. p_privateKey p = Some k \<longrightarrow> length k = PRIVATEKEY_BYTES) \<and> length (p_signature p) = SIGNATURE_BYTES
     \<and> (\<forall>u. p_alternativeURL p = Some u \<longrightarrow> c_str u = [] \<or> nfc (c_str u) \<noteq> None)"

text \<open>A URL survives the store when it is normalised.\<close>

definition plain_url :: "(string \<Rightarrow> string option) \<Rightarrow> PeerInfo \<Rightarrow> bool" where
  "plain_url nfc p \<longleftrightarrow> (\<forall>u. p_alternativeURL p = Some u \<longrightarrow> normalised nfc u)"

definition wf_peer_row :: "(string \<Rightarrow> string option) \<Rightarrow> PeerRow \<Rightarrow> bool" where
  "wf_peer_row nfc r \<longleftrightarrow> wf_id (pr_id r) \<and> wf_id (pr_nodeId r) \<and> wf_id (pr_origin r) \<and> word_of_int (pr_port r) \<noteq> (0 :: u16)
     \<and> (\<forall>k. pr_privateKey r = Some k \<longrightarrow> length k = PRIVATEKEY_BYTES) \<and> length (pr_signature r) = SIGNATURE_BYTES
     \<and> (\<forall>u. pr_alternativeURL r = Some u \<longrightarrow> u = [] \<or> nfc (c_str u) \<noteq> None)"

lemma c_str_idem [simp]: "c_str (c_str u) = c_str u"
  by (rule c_str_id) (auto simp: c_str_def dest: set_takeWhileD)

text \<open>What the loop that reads a row makes of the peer that was written, with the origin it passes on.\<close>

lemma peer_of_row_mk:
  assumes "wf_peer nfc p" "plain_url nfc p" "origin = [] \<or> wf_id origin"
  shows "peer_of_row nfc (p_publicKey p) origin (mkPeerRow now p persistent ann)
    = Inr (p\<lparr>p_origin := (if origin = [] then p_nodeId p else origin)\<rparr>)"
  using assms
  by (cases p; cases "p_privateKey p"; cases "p_alternativeURL p")
    (auto simp: wf_peer_def plain_url_def peer_of_row_def mkPeerRow_def PeerInfo_of_def opt_bytes_def wf_id_def
      PRIVATEKEY_BYTES_def normalised_def c_str_id normal_url_same)

lemma mkPeerRow_wf: "wf_peer nfc p \<Longrightarrow> wf_peer_row nfc (mkPeerRow now p persistent ann)"
  by (auto simp: wf_peer_row_def mkPeerRow_def wf_peer_def)

lemma nfc_okD: "nfc_ok nfc \<Longrightarrow> nfc (c_str u) = Some v \<Longrightarrow> nfc (c_str v) = Some v"
  unfolding nfc_ok_def using c_str_id by metis

lemma PeerInfo_of_wf: "PeerInfo_of nfc i sk n o' port u sig = Inr p \<Longrightarrow> nfc_ok nfc \<Longrightarrow> wf_peer nfc p"
  by (cases "normal_url nfc u") (auto simp: PeerInfo_of_def wf_peer_def wf_id_def normal_url_Some dest: nfc_okD split: if_splits)

lemma wf_peer_row_decodes:
  assumes "wf_peer_row nfc r" "nfc_ok nfc"
  shows "\<exists>p. peer_of_row nfc (pr_id r) (pr_origin r) r = Inr p \<and> wf_peer nfc p \<and> peer_key r = (p_publicKey p, p_nodeId p, p_origin p)"
proof -
  have "\<exists>p. peer_of_row nfc (pr_id r) (pr_origin r) r = Inr p \<and> peer_key r = (p_publicKey p, p_nodeId p, p_origin p)"
    using assms(1) by (cases "pr_privateKey r"; cases "pr_alternativeURL r")
      (auto simp: wf_peer_row_def peer_of_row_def PeerInfo_of_def opt_bytes_def wf_id_def peer_key_def normal_url_def)
  then show ?thesis using assms(2) by (auto simp: peer_of_row_def intro: PeerInfo_of_wf)
qed

section \<open>The invariant of the tables\<close>

definition wf_storage :: "(string \<Rightarrow> string option) \<Rightarrow> (byte list \<Rightarrow> byte list) \<Rightarrow> Storage \<Rightarrow> bool" where
  "wf_storage nfc sha256 db \<longleftrightarrow>
     distinct (map vr_id (valores db)) \<and> (\<forall>r\<in>set (valores db). wf_value_row sha256 r)
     \<and> distinct (map peer_key (peersTable db)) \<and> (\<forall>r\<in>set (peersTable db). wf_peer_row nfc r)"

lemma distinct_map_keyed: "distinct (map key xs) \<Longrightarrow> (\<And>r. key (f r) = key r) \<Longrightarrow> distinct (map key (map f xs))"
  by (simp add: comp_def)

lemma distinct_map_filter_key: "distinct (map key xs) \<Longrightarrow> distinct (map key (filter P xs))"
  by (rule distinct_map_filter)

lemma wf_put_value:
  assumes "wf_storage nfc sha256 db" "wf_value v" "v_sequenceNumber v < 2 ^ 31" "mkValueRow sha256 now v persistent ann = Inr r"
  shows "wf_storage nfc sha256 (db\<lparr>valores := upsert_value r (valores db)\<rparr>)"
proof -
  have id: "vr_id r = value_getId sha256 v" using assms(4) by (auto simp: mkValueRow_wf [OF assms(2)])
  have new: "wf_value_row sha256 r"
    using value_row_roundtrip [OF assms(2-4)] assms(2) id by (auto simp: wf_value_row_def)
  have "\<forall>x\<in>set (upsert_value r (valores db)). wf_value_row sha256 x"
    by (rule vt.upsert_all) (use assms(1) new in \<open>auto simp: wf_storage_def wf_value_row_def merge_value_def\<close>)
  then show ?thesis using assms(1) vt.upsert_distinct by (simp add: wf_storage_def)
qed

lemma db_putValue_wf:
  assumes "wf_storage nfc sha256 db" "wf_value v" "v_sequenceNumber v < 2 ^ 31"
    "db_putValue sha256 verify sql now v expectedSeq persistent ann db = Inr (db', old)"
  shows "wf_storage nfc sha256 db'"
  using assms(4) wf_put_value [OF assms(1-3)] assms(1) by (auto simp: db_putValue_def split: if_splits)

lemma wf_put_peer:
  assumes "wf_storage nfc sha256 db" "wf_peer nfc p"
  shows "wf_storage nfc sha256 (db\<lparr>peersTable := upsert_peer (mkPeerRow now p persistent ann) (peersTable db)\<rparr>)"
proof -
  have "\<forall>x\<in>set (upsert_peer (mkPeerRow now p persistent ann) (peersTable db)). wf_peer_row nfc x"
    by (rule pt.upsert_all) (use assms mkPeerRow_wf in \<open>auto simp: wf_storage_def\<close>)
  then show ?thesis using assms(1) pt.upsert_distinct by (simp add: wf_storage_def)
qed

lemma put_rows_wf:
  assumes "wf_storage nfc sha256 db" "\<forall>p\<in>set ps. wf_peer nfc p" "put_rows ok k now ps (peersTable db) = (rows, e)"
  shows "wf_storage nfc sha256 (db\<lparr>peersTable := rows\<rparr>)"
  using assms
proof (induction ps arbitrary: k db)
  case (Cons p ps)
  show ?case
  proof (cases "ok k")
    case True
    let ?db = "db\<lparr>peersTable := upsert_peer (mkPeerRow now p False False) (peersTable db)\<rparr>"
    have "wf_storage nfc sha256 ?db" using Cons.prems by (intro wf_put_peer) auto
    from Cons.IH [OF this] Cons.prems True show ?thesis by simp
  qed (use Cons.prems in \<open>auto simp: wf_storage_def\<close>)
qed (auto simp: wf_storage_def)

text \<open>Everything the interface offers that changes the tables.\<close>

inductive storage_step :: "(string \<Rightarrow> string option) \<Rightarrow> (byte list \<Rightarrow> byte list) \<Rightarrow> (byte list \<Rightarrow> byte list \<Rightarrow> Id \<Rightarrow> bool) \<Rightarrow> Storage \<Rightarrow> Storage \<Rightarrow> bool"
  for nfc sha256 verify where
  put_value: "wf_value v \<Longrightarrow> v_sequenceNumber v < 2 ^ 31 \<Longrightarrow>
    db_putValue sha256 verify sql now v expectedSeq persistent ann db = Inr (db', old) \<Longrightarrow> storage_step nfc sha256 verify db db'"
| announce_value: "db_updateValueLastAnnounce sql now i db = Inr db' \<Longrightarrow> storage_step nfc sha256 verify db db'"
| remove_value: "db_removeValue sql i db = Inr (db', b) \<Longrightarrow> storage_step nfc sha256 verify db db'"
| put_peer: "wf_peer nfc p \<Longrightarrow> db_putPeer sql now p persistent ann db = Inr db' \<Longrightarrow> storage_step nfc sha256 verify db db'"
| put_peers: "\<forall>p\<in>set ps. wf_peer nfc p \<Longrightarrow> db_putPeers sql now ps db = (db', e) \<Longrightarrow> storage_step nfc sha256 verify db db'"
| announce_peer: "db_updatePeerLastAnnounce sql now i origin db = Inr db' \<Longrightarrow> storage_step nfc sha256 verify db db'"
| remove_peer: "db_removePeer sql i origin db = Inr (db', b) \<Longrightarrow> storage_step nfc sha256 verify db db'"
| expire: "expire sql now db = (db', e) \<Longrightarrow> storage_step nfc sha256 verify db db'"
| init: "init sql opened db = (db', e) \<Longrightarrow> storage_step nfc sha256 verify db db'"

lemma wf_map_values:
  assumes "wf_storage nfc sha256 db"
    "\<And>r. vr_id (f r) = vr_id r" "\<And>r. value_of_row (f r) = value_of_row r"
  shows "wf_storage nfc sha256 (db\<lparr>valores := map f (valores db)\<rparr>)"
  using assms distinct_map_keyed [of vr_id "valores db" f] by (auto simp: wf_storage_def wf_value_row_def)

lemma wf_map_peers:
  assumes "wf_storage nfc sha256 db" "\<And>r. peer_key (f r) = peer_key r" "\<And>r. wf_peer_row nfc (f r) = wf_peer_row nfc r"
  shows "wf_storage nfc sha256 (db\<lparr>peersTable := map f (peersTable db)\<rparr>)"
  using assms distinct_map_keyed [of peer_key "peersTable db" f] by (auto simp: wf_storage_def)

lemma wf_filter:
  assumes "wf_storage nfc sha256 db"
  shows "wf_storage nfc sha256 (db\<lparr>valores := filter P (valores db)\<rparr>)"
    "wf_storage nfc sha256 (db\<lparr>peersTable := filter Q (peersTable db)\<rparr>)"
  using assms by (auto simp: wf_storage_def distinct_map_filter)

lemma wf_transaction [simp]: "wf_storage nfc sha256 (db\<lparr>inTransaction := b\<rparr>) = wf_storage nfc sha256 db"
  "wf_storage nfc sha256 (db\<lparr>user_version := k\<rparr>) = wf_storage nfc sha256 db"
  by (simp_all add: wf_storage_def)

lemma exec_chain_wf: "wf_storage nfc sha256 db \<Longrightarrow> exec_chain ok ss db = (db', b) \<Longrightarrow> wf_storage nfc sha256 db'"
proof (induction ss arbitrary: db)
  case (Cons s ss)
  have "wf_storage nfc sha256 (effect_of s db)"
    using Cons.prems(1) by (cases s) (auto simp: effect_of_def wf_storage_def)
  then show ?case using Cons by (auto split: if_splits)
qed auto

lemma init_wf:
  assumes "wf_storage nfc sha256 db" "init sql opened db = (db', e)"
  shows "wf_storage nfc sha256 db'"
  using assms by (auto simp: init_def simp del: exec_chain.simps dest: exec_chain_wf split: if_splits sum.splits prod.splits bool.splits)

lemma putPeers_wf:
  assumes "wf_storage nfc sha256 db" "\<forall>p\<in>set ps. wf_peer nfc p" "db_putPeers sql now ps db = (db', e)"
  shows "wf_storage nfc sha256 db'"
proof -
  have "wf_storage nfc sha256 (db\<lparr>peersTable := rows, inTransaction := b\<rparr>)"
    if "put_rows (steps sql UPSERT_PEER) 0 now ps (peersTable db) = (rows, x)" for rows x b
    using put_rows_wf [OF assms(1,2) that] by simp
  then show ?thesis using assms(1,3) by (auto simp: db_putPeers_def split: if_splits prod.splits option.splits)
qed

lemma storage_step_wf: "storage_step nfc sha256 verify db db' \<Longrightarrow> wf_storage nfc sha256 db \<Longrightarrow> wf_storage nfc sha256 db'"
proof (induction rule: storage_step.induct)
  case (announce_value sql now i db db')
  then show ?case by (auto simp: db_updateValueLastAnnounce_def intro!: wf_map_values)
next
  case (announce_peer sql now i origin db db')
  then show ?case
    by (auto simp: db_updatePeerLastAnnounce_def peer_key_def wf_peer_row_def if_distrib [of pr_id] intro!: wf_map_peers split: if_splits)
next
  case (remove_value sql i db db' b)
  then show ?case by (auto simp: db_removeValue_def wf_filter split: if_splits)
next
  case (remove_peer sql i origin db db' b)
  then show ?case by (auto simp: db_removePeer_def wf_filter split: if_splits)
next
  case (expire sql now db db' e)
  then show ?case by (auto simp: expire_def wf_storage_def distinct_map_filter Let_def split: if_splits)
next
  case (put_peer p sql now persistent ann db db')
  then show ?case by (auto simp: db_putPeer_def wf_put_peer split: if_splits)
qed (auto intro: db_putValue_wf putPeers_wf init_wf)

section \<open>The abstract store of values\<close>

record Stored =
  s_value :: Value
  s_time :: int
  s_persistent :: bool
  s_announced :: int

definition stored_of_row :: "ValueRow \<Rightarrow> Stored option" where
  "stored_of_row r = (case value_of_row r of
     Inl e \<Rightarrow> None
   | Inr v \<Rightarrow> Some \<lparr>s_value = v, s_time = vr_timestamp r, s_persistent = vr_persistent r, s_announced = vr_announced r\<rparr>)"

definition vmap :: "Storage \<Rightarrow> Id \<rightharpoonup> Stored" where
  "vmap db i = Option.bind (vt.row_of i (valores db)) stored_of_row"

definition horizon :: "u64 \<Rightarrow> int" where
  "horizon now = bind_int64 (now - MAX_VALUE_AGE)"

definition spec_get :: "u64 \<Rightarrow> Id \<Rightarrow> (Id \<rightharpoonup> Stored) \<Rightarrow> Value option" where
  "spec_get now i m = (case m i of None \<Rightarrow> None | Some s \<Rightarrow> if horizon now \<le> s_time s then Some (s_value s) else None)"

text \<open>A version of a mutable value may be replaced by a version that does not step back.\<close>

definition may_replace :: "Value \<Rightarrow> Value \<Rightarrow> int \<Rightarrow> bool" where
  "may_replace old v expectedSeq \<longleftrightarrow> isMutable old \<longrightarrow>
     isMutable v \<and> (hasPrivateKey old \<longrightarrow> hasPrivateKey v) \<and> v_sequenceNumber old \<le> v_sequenceNumber v
     \<and> (expectedSeq \<ge> 0 \<and> v_sequenceNumber old \<ge> 0 \<longrightarrow> v_sequenceNumber old = expectedSeq)"

definition spec_accepts ::
  "(byte list \<Rightarrow> byte list) \<Rightarrow> (byte list \<Rightarrow> byte list \<Rightarrow> Id \<Rightarrow> bool) \<Rightarrow> u64 \<Rightarrow> Value \<Rightarrow> int \<Rightarrow> (Id \<rightharpoonup> Stored) \<Rightarrow> bool" where
  "spec_accepts sha256 verify now v expectedSeq m \<longleftrightarrow> (isMutable v \<longrightarrow> value_isValid verify v)
     \<and> (\<forall>old. spec_get now (value_getId sha256 v) m = Some old \<longrightarrow> may_replace old v expectedSeq)"

definition spec_put :: "(byte list \<Rightarrow> byte list) \<Rightarrow> u64 \<Rightarrow> Value \<Rightarrow> bool \<Rightarrow> bool \<Rightarrow> (Id \<rightharpoonup> Stored) \<Rightarrow> Id \<rightharpoonup> Stored" where
  "spec_put sha256 now v persistent ann m =
     (let i = value_getId sha256 v
      in m(i \<mapsto> \<lparr>s_value = v, s_time = bind_int64 now,
                s_persistent = (case m i of None \<Rightarrow> persistent | Some s \<Rightarrow> s_persistent s),
                s_announced = (case m i of None \<Rightarrow> if ann then bind_int64 now else 0 | Some s \<Rightarrow> s_announced s)\<rparr>))"

lemma wf_row_stored:
  assumes "wf_storage nfc sha256 db" "vt.row_of i (valores db) = Some r"
  obtains v where "value_of_row r = Inr v" "wf_value v" "i = value_getId sha256 v" "vr_id r = i"
    "vmap db i = Some \<lparr>s_value = v, s_time = vr_timestamp r, s_persistent = vr_persistent r, s_announced = vr_announced r\<rparr>"
proof -
  have r: "r \<in> set (valores db)" "vr_id r = i" using vt.row_of_Some [OF assms(2)] by auto
  then obtain v where v: "value_of_row r = Inr v" "wf_value v" "vr_id r = value_getId sha256 v"
    using assms(1) by (auto simp: wf_storage_def wf_value_row_def)
  show thesis
  proof (rule that [OF v(1,2)])
    show "i = value_getId sha256 v" "vr_id r = i" using v(3) r(2) by auto
    show "vmap db i = Some \<lparr>s_value = v, s_time = vr_timestamp r, s_persistent = vr_persistent r, s_announced = vr_announced r\<rparr>"
      by (simp add: vmap_def assms(2) stored_of_row_def v(1))
  qed
qed

lemma vmap_None [simp]: "vt.row_of i (valores db) = None \<Longrightarrow> vmap db i = None"
  by (simp add: vmap_def)

lemma getValue_refines:
  assumes "healthy sql" "wf_storage nfc sha256 db"
  shows "db_getValue sql now i db = Inr (spec_get now i (vmap db))"
proof -
  have "distinct (map vr_id (valores db))" using assms(2) by (simp add: wf_storage_def)
  note f = vt.filter_key [OF this, of i "\<lambda>r. vr_timestamp r \<ge> bind_int64 (now - MAX_VALUE_AGE)"]
  show ?thesis
  proof (cases "vt.row_of i (valores db)")
    case None
    then show ?thesis by (simp add: db_getValue_def assms(1) f spec_get_def)
  next
    case (Some r)
    obtain v where "value_of_row r = Inr v"
      "vmap db i = Some \<lparr>s_value = v, s_time = vr_timestamp r, s_persistent = vr_persistent r, s_announced = vr_announced r\<rparr>"
      by (rule wf_row_stored [OF assms(2) Some])
    then show ?thesis using Some by (auto simp: db_getValue_def assms(1) f spec_get_def horizon_def)
  qed
qed

lemma check_replacement_iff: "check_replacement old v expectedSeq = Inr () \<longleftrightarrow> may_replace old v expectedSeq"
  by (auto simp: check_replacement_def may_replace_def)

lemma vmap_upsert:
  assumes "wf_storage nfc sha256 db" "wf_value v" "v_sequenceNumber v < 2 ^ 31" "mkValueRow sha256 now v persistent ann = Inr r"
  shows "vmap (db\<lparr>valores := upsert_value r (valores db)\<rparr>) = spec_put sha256 now v persistent ann (vmap db)"
proof
  fix i
  note row = value_row_roundtrip [OF assms(2-4)]
  have f: "vr_id r = value_getId sha256 v" "vr_timestamp r = bind_int64 now" "vr_persistent r = persistent"
    "vr_announced r = (if ann then bind_int64 now else 0)"
    using assms(4) by (auto simp: mkValueRow_wf [OF assms(2)])
  show "vmap (db\<lparr>valores := upsert_value r (valores db)\<rparr>) i = spec_put sha256 now v persistent ann (vmap db) i"
  proof (cases "vt.row_of i (valores db)")
    case None
    then show ?thesis
      using row f by (auto simp: vmap_def vt.upsert_row_of spec_put_def Let_def stored_of_row_def)
  next
    case (Some x)
    obtain w where "value_of_row x = Inr w"
      "vmap db i = Some \<lparr>s_value = w, s_time = vr_timestamp x, s_persistent = vr_persistent x, s_announced = vr_announced x\<rparr>"
      by (rule wf_row_stored [OF assms(1) Some])
    with Some row f show ?thesis
      by (auto simp: vmap_def vt.upsert_row_of spec_put_def Let_def stored_of_row_def merge_value_def)
  qed
qed

lemma putValue_refines:
  assumes "healthy sql" "wf_storage nfc sha256 db" "wf_value v" "v_sequenceNumber v < 2 ^ 31"
  shows "if spec_accepts sha256 verify now v expectedSeq (vmap db)
    then \<exists>db'. db_putValue sha256 verify sql now v expectedSeq persistent ann db = Inr (db', spec_get now (value_getId sha256 v) (vmap db))
      \<and> vmap db' = spec_put sha256 now v persistent ann (vmap db) \<and> peersTable db' = peersTable db
    else \<exists>msg. db_putValue sha256 verify sql now v expectedSeq persistent ann db = Inl (InvalidArgument msg)"
proof -
  let ?old = "spec_get now (value_getId sha256 v) (vmap db)"
  obtain r where r: "mkValueRow sha256 now v persistent ann = Inr r" by (simp add: mkValueRow_wf [OF assms(3)])
  note get = getValue_refines [OF assms(1,2), of now "value_getId sha256 v"]
  have check: "(case ?old of Some o' \<Rightarrow> check_replacement o' v expectedSeq | None \<Rightarrow> Inr ()) = Inr ()
      \<longleftrightarrow> (\<forall>old. ?old = Some old \<longrightarrow> may_replace old v expectedSeq)"
    by (cases ?old) (auto simp: check_replacement_iff)
  have err: "\<exists>msg. c = Inl (InvalidArgument msg)" if "c \<noteq> Inr ()"
    "c = (case ?old of Some o' \<Rightarrow> check_replacement o' v expectedSeq | None \<Rightarrow> Inr ())" for c
    using that by (auto simp: check_replacement_def throw_if_def bind_result_def split: option.splits if_splits)
  show ?thesis
  proof (cases "isMutable v \<and> \<not> value_isValid verify v")
    case True
    then show ?thesis by (simp add: db_putValue_def spec_accepts_def)
  next
    case valid: False
    then have acc: "spec_accepts sha256 verify now v expectedSeq (vmap db)
        \<longleftrightarrow> (case ?old of Some o' \<Rightarrow> check_replacement o' v expectedSeq | None \<Rightarrow> Inr ()) = Inr ()"
      using check by (auto simp: spec_accepts_def)
    show ?thesis
    proof (cases "(case ?old of Some o' \<Rightarrow> check_replacement o' v expectedSeq | None \<Rightarrow> Inr ()) = Inr ()")
      case True
      then show ?thesis using valid acc vmap_upsert [OF assms(2-4) r]
        by (simp add: db_putValue_def get r assms(1))
    next
      case False
      with err obtain msg where "(case ?old of Some o' \<Rightarrow> check_replacement o' v expectedSeq | None \<Rightarrow> Inr ()) = Inl (InvalidArgument msg)"
        by blast
      then show ?thesis using valid acc False by (auto simp: db_putValue_def get throw_if_def)
    qed
  qed
qed

lemma vmap_map:
  assumes "\<And>r. vr_id (f r) = vr_id r" "\<And>r. stored_of_row (f r) = map_option (g (vr_id r)) (stored_of_row r)"
  shows "vmap (db\<lparr>valores := map f (valores db)\<rparr>) i = map_option (g i) (vmap db i)"
  by (cases "vt.row_of i (valores db)") (auto simp: vmap_def vt.row_of_map [OF assms(1)] assms(2) dest: vt.row_of_Some)

lemma vmap_filter:
  assumes "wf_storage nfc sha256 db" "\<And>r s. stored_of_row r = Some s \<Longrightarrow> P r = Q (vr_id r) s"
  shows "vmap (db\<lparr>valores := filter P (valores db)\<rparr>) i =
    (case vmap db i of None \<Rightarrow> None | Some s \<Rightarrow> if Q i s then Some s else None)"
proof -
  have "distinct (map vr_id (valores db))" using assms(1) by (simp add: wf_storage_def)
  note f = vt.row_of_filter [OF this, of i P]
  show ?thesis
  proof (cases "vt.row_of i (valores db)")
    case (Some r)
    obtain v where "value_of_row r = Inr v" "vr_id r = i" by (rule wf_row_stored [OF assms(1) Some])
    then show ?thesis using Some assms(2) [of r] by (simp add: vmap_def f stored_of_row_def)
  qed (simp add: vmap_def f)
qed

definition spec_announce :: "u64 \<Rightarrow> Id \<Rightarrow> (Id \<rightharpoonup> Stored) \<Rightarrow> Id \<rightharpoonup> Stored" where
  "spec_announce now i m = m(i := map_option (\<lambda>s. s\<lparr>s_time := bind_int64 now, s_announced := bind_int64 now\<rparr>) (m i))"

definition spec_expire :: "u64 \<Rightarrow> (Id \<rightharpoonup> Stored) \<Rightarrow> Id \<rightharpoonup> Stored" where
  "spec_expire now m i = (case m i of None \<Rightarrow> None | Some s \<Rightarrow> if s_persistent s \<or> horizon now \<le> s_time s then Some s else None)"

lemma announce_refines:
  assumes "healthy sql"
  shows "\<exists>db'. db_updateValueLastAnnounce sql now i db = Inr db' \<and> vmap db' = spec_announce now i (vmap db)"
proof -
  define f where "f r = (if vr_id r = i then r\<lparr>vr_timestamp := bind_int64 now, vr_announced := bind_int64 now\<rparr> else r)" for r :: ValueRow
  define g where "g j s = (if j = i then s\<lparr>s_time := bind_int64 now, s_announced := bind_int64 now\<rparr> else s)" for j and s :: Stored
  have "vmap (db\<lparr>valores := map f (valores db)\<rparr>) j = map_option (g j) (vmap db j)" for j
    by (rule vmap_map) (auto simp: f_def g_def stored_of_row_def option.map_id0 [unfolded id_def] split: sum.splits)
  then have "vmap (db\<lparr>valores := map f (valores db)\<rparr>) j = spec_announce now i (vmap db) j" for j
    by (cases "vmap db j") (auto simp: spec_announce_def g_def)
  then show ?thesis by (auto simp: db_updateValueLastAnnounce_def assms f_def [abs_def] fun_eq_iff)
qed

lemma remove_refines:
  assumes "healthy sql" "wf_storage nfc sha256 db"
  shows "\<exists>db'. db_removeValue sql i db = Inr (db', vmap db i \<noteq> None) \<and> vmap db' = (vmap db)(i := None)"
proof -
  have "vmap (db\<lparr>valores := filter (\<lambda>r. vr_id r \<noteq> i) (valores db)\<rparr>) j = ((vmap db)(i := None)) j" for j
    using vmap_filter [OF assms(2), of "\<lambda>r. vr_id r \<noteq> i" "\<lambda>j s. j \<noteq> i" j] by (auto split: option.splits)
  moreover have "(\<exists>r\<in>set (valores db). vr_id r = i) \<longleftrightarrow> vmap db i \<noteq> None"
  proof (cases "vt.row_of i (valores db)")
    case None
    then show ?thesis by (auto simp: vt.row_of_None)
  next
    case (Some r)
    then show ?thesis using vt.row_of_Some [OF Some] wf_row_stored [OF assms(2) Some] by blast
  qed
  ultimately show ?thesis by (auto simp: db_removeValue_def assms(1) fun_eq_iff)
qed

lemma expire_refines:
  assumes "healthy sql" "wf_storage nfc sha256 db"
  shows "\<exists>db'. expire sql now db = (db', None) \<and> vmap db' = spec_expire now (vmap db)"
proof -
  have "vmap (db\<lparr>valores := filter (\<lambda>r. \<not> (\<not> vr_persistent r \<and> vr_timestamp r < bind_int64 (now - MAX_VALUE_AGE))) (valores db)\<rparr>) j
      = spec_expire now (vmap db) j" for j
    using vmap_filter [OF assms(2), of "\<lambda>r. \<not> (\<not> vr_persistent r \<and> vr_timestamp r < bind_int64 (now - MAX_VALUE_AGE))"
        "\<lambda>j s. s_persistent s \<or> horizon now \<le> s_time s" j]
    by (force simp: stored_of_row_def spec_expire_def horizon_def split: sum.splits option.splits)
  moreover have "vmap (db\<lparr>peersTable := ps\<rparr>) = vmap db" for db ps by (simp add: vmap_def fun_eq_iff)
  ultimately show ?thesis by (simp add: expire_def Let_def assms(1) fun_eq_iff)
qed

section \<open>Ages\<close>

lemma sint_small: "uint w < 2 ^ 63 \<Longrightarrow> sint w = uint w" for w :: u64
  by (simp add: sint_uint signed_take_bit_int_eq_self order.trans [OF _ uint_nonnegative])

lemma sub_uint: "(b :: u64) \<le> a \<Longrightarrow> uint (a - b) = uint a - uint b"
  using uint_minus_simple_alt by blast

lemma age_sint:
  assumes "(age :: u64) \<le> now" "now < 2 ^ 63"
  shows "sint (now - age) = uint now - uint age"
proof -
  have "uint now < 2 ^ 63" using assms(2) by (simp add: word_less_def)
  then have "uint (now - age) < 2 ^ 63" using sub_uint [OF assms(1)] uint_nonnegative [of age] by linarith
  then show ?thesis using sint_small [of "now - age"] sub_uint [OF assms(1)] by simp
qed

lemma age_compare:
  assumes "(age :: u64) \<le> now'" "now' < 2 ^ 63" "now \<le> now'"
  shows "sint (now' - age) \<le> sint now \<longleftrightarrow> now' - now \<le> age"
proof -
  have "now < 2 ^ 63" using assms(2,3) by (rule order.strict_trans1 [rotated])
  then have "sint now = uint now" using age_sint [of 0 now] by simp
  moreover have "now' - now \<le> age \<longleftrightarrow> uint now' - uint now \<le> uint age"
    using sub_uint [OF assms(3)] by (simp add: word_le_def)
  ultimately show ?thesis using age_sint [OF assms(1,2)] by linarith
qed

section \<open>Peers\<close>

lemma map_result_Inr: "\<forall>x\<in>set xs. \<exists>y. f x = Inr y \<Longrightarrow> \<exists>ys. map_result f xs = Inr ys \<and> list_all2 (\<lambda>x y. f x = Inr y) xs ys"
proof (induction xs)
  case (Cons x xs)
  then obtain y ys where "f x = Inr y" "map_result f xs = Inr ys" "list_all2 (\<lambda>x y. f x = Inr y) xs ys" by auto
  then show ?case by (intro exI [of _ "y # ys"]) simp
qed simp

lemma list_all2_members:
  "list_all2 P xs ys \<Longrightarrow> x \<in> set xs \<Longrightarrow> \<exists>y\<in>set ys. P x y"
  "list_all2 P xs ys \<Longrightarrow> y \<in> set ys \<Longrightarrow> \<exists>x\<in>set xs. P x y"
  by (induction rule: list_all2_induct) auto

text \<open>The peers of an id that are young enough, in the order SQLite visits them and cut at the limit.\<close>

definition fresh_peers :: "u64 \<Rightarrow> Id \<Rightarrow> Storage \<Rightarrow> PeerRow list" where
  "fresh_peers now i db = filter (\<lambda>r. pr_id r = i \<and> pr_timestamp r \<ge> bind_int64 (now - MAX_PEER_AGE)) (peersTable db)"

lemma getPeers_rows:
  assumes "healthy sql" "wf_storage nfc sha256 db" "nfc_ok nfc"
  obtains ps rs where "db_getPeers nfc sql now i limit db = Inr ps"
    "rs = take (nat (if limit \<le> 0 then 0x7fffffff else limit)) (peer_order sql (fresh_peers now i db))"
    "list_all2 (\<lambda>r p. peer_of_row nfc i (pr_origin r) r = Inr p \<and> wf_peer nfc p \<and> peer_key r = (p_publicKey p, p_nodeId p, p_origin p)) rs ps"
proof -
  let ?rs = "take (nat (if limit \<le> 0 then 0x7fffffff else limit)) (peer_order sql (fresh_peers now i db))"
  have order: "set (peer_order sql (fresh_peers now i db)) = set (fresh_peers now i db)" using assms(1) healthyD(4) mset_eq_setD by blast
  have wf: "\<exists>p. peer_of_row nfc i (pr_origin r) r = Inr p \<and> wf_peer nfc p \<and> peer_key r = (p_publicKey p, p_nodeId p, p_origin p)"
    if "r \<in> set ?rs" for r
  proof -
    have "r \<in> set (fresh_peers now i db)" using in_set_takeD [OF that] order by simp
    then have "wf_peer_row nfc r" "pr_id r = i" using assms(2) by (auto simp: fresh_peers_def wf_storage_def)
    then show ?thesis using wf_peer_row_decodes [of nfc r] assms(3) by metis
  qed
  then obtain ps where ps: "map_result (\<lambda>r. peer_of_row nfc i (pr_origin r) r) ?rs = Inr ps"
    "list_all2 (\<lambda>r p. peer_of_row nfc i (pr_origin r) r = Inr p) ?rs ps"
    using map_result_Inr [of ?rs "\<lambda>r. peer_of_row nfc i (pr_origin r) r"] by blast
  show thesis
  proof (rule that [OF _ refl])
    show "db_getPeers nfc sql now i limit db = Inr ps"
      using ps(1) by (simp add: db_getPeers_def Let_def assms(1) fresh_peers_def)
    show "list_all2 (\<lambda>r p. peer_of_row nfc i (pr_origin r) r = Inr p \<and> wf_peer nfc p
        \<and> peer_key r = (p_publicKey p, p_nodeId p, p_origin p)) ?rs ps"
      using ps(2)
    proof (rule list.rel_mono_strong)
      fix r p assume "r \<in> set ?rs" "peer_of_row nfc i (pr_origin r) r = Inr p"
      with wf [of r] show "peer_of_row nfc i (pr_origin r) r = Inr p \<and> wf_peer nfc p
        \<and> peer_key r = (p_publicKey p, p_nodeId p, p_origin p)" by auto
    qed
  qed
qed

lemma putPeer_row:
  assumes "healthy sql"
  obtains db' where "db_putPeer sql now p persistent ann db = Inr db'"
    "mkPeerRow now p persistent ann \<in> set (peersTable db')"
proof (rule that)
  show "db_putPeer sql now p persistent ann db = Inr (db\<lparr>peersTable := upsert_peer (mkPeerRow now p persistent ann) (peersTable db)\<rparr>)"
    by (simp add: db_putPeer_def assms)
  show "mkPeerRow now p persistent ann \<in> set (peersTable (db\<lparr>peersTable := upsert_peer (mkPeerRow now p persistent ann) (peersTable db)\<rparr>))"
    by (auto simp: upsert_peer_def)
qed

text \<open>The query for the persistent peers leaves out the origin: a peer that another node announced for its owner comes back as
  announced by the node that serves it, with a signature that was made for other data.\<close>

lemma persistent_peer_loses_origin:
  assumes "healthy sql" "wf_peer nfc p" "plain_url nfc p" "peersTable db = []" "db_putPeer sql now p True False db = Inr db'"
    "0 \<le> bind_int64 lastAnnounceBefore"
  shows "db_getPersistentPeers nfc sql lastAnnounceBefore db' = Inr [p\<lparr>p_origin := p_nodeId p\<rparr>]"
proof -
  let ?r = "mkPeerRow now p True False"
  have "peersTable db' = [?r]" using assms(1,4,5) by (auto simp: db_putPeer_def upsert_peer_def)
  moreover have "peer_order sql [?r] = [?r]" using healthyD(4) [OF assms(1), of "[?r]"] by simp
  ultimately show ?thesis
    using peer_of_row_mk [OF assms(2,3), of "[]" now True False] assms(1,6)
    by (simp add: db_getPersistentPeers_def mkPeerRow_def)
qed

text \<open>The checks on a new version read the old one through \<^verbatim>\<open>getValue\<close>, which does not see a row older than two hours. A
  persistent value that was not announced for so long is overwritten by any version, also an older one without the
  private key, and the row stays persistent.\<close>

lemma stale_value_rolled_back:
  assumes "healthy sql" "wf_storage nfc sha256 db" "wf_value v" "v_sequenceNumber v < 2 ^ 31" "isMutable v \<longrightarrow> value_isValid verify v"
    "vmap db (value_getId sha256 v) = Some s" "s_time s < horizon now" "s_persistent s"
  shows "\<exists>db' s'. db_putValue sha256 verify sql now v expectedSeq persistent ann db = Inr (db', None)
    \<and> vmap db' (value_getId sha256 v) = Some s' \<and> s_value s' = v \<and> s_persistent s'"
proof -
  have g: "spec_get now (value_getId sha256 v) (vmap db) = None" using assms(6,7) by (simp add: spec_get_def)
  then have "spec_accepts sha256 verify now v expectedSeq (vmap db)" using assms(5) by (simp add: spec_accepts_def)
  then show ?thesis
    using putValue_refines [OF assms(1-4), of verify now expectedSeq persistent ann] g assms(6,8)
    by (auto simp: spec_put_def Let_def)
qed

text \<open>A list of peers whose transaction fails leaves the transaction open, and no list can be put any more.\<close>

lemma failed_transaction_blocks:
  assumes "db_putPeers sql now ps db = (db', Some e)" "steps sql BEGIN_TRANSACTION 0"
  shows "db_putPeers sql' now' ps' db' = (db', Some (RuntimeError ''Open auto commit mode failed.''))"
  using assms by (auto simp: db_putPeers_def split: if_splits prod.splits option.splits)

end
