(* ===== verification/Dht_Invariants.thy ===== *)
theory Dht_Invariants
  imports Dht Storage_Contract Routing_Reachability
begin

text \<open>
  The invariant of the node while it handles messages: the routing table stays one that its operations
  can reach, the stored rows stay readable, pending calls keep their timers and the queues of tasks stay
  consistent; and no handler runs into undefined behaviour as long as the DHTs that a request asks for
  exist.
\<close>

section \<open>Errors\<close>

lemma bind_result_Inl [simp]: "bind_result r f = Inl e \<longleftrightarrow> r = Inl e \<or> (\<exists>x. r = Inr x \<and> f x = Inl e)"
  by (cases r) auto

lemma throw_if_Inl [simp]: "throw_if c e = Inl e' \<longleftrightarrow> c \<and> e' = e"
  by (auto simp: throw_if_def)

lemma Value_of_error: "Value_of pk sk rec n seq sig data = Inl e \<Longrightarrow> \<exists>msg. e = InvalidArgument msg"
  by (auto simp: Value_of_def mk_mutable_def mkId_def mkNonce_def split: if_splits sum.splits)

lemma PeerInfo_of_error:
  "PeerInfo_of nfc i sk n o' port u sig = Inl e \<Longrightarrow> u = [] \<or> nfc (c_str u) \<noteq> None \<Longrightarrow> \<exists>msg. e = InvalidArgument msg"
  by (auto simp: PeerInfo_of_def normal_url_def split: if_splits)

lemma getValue_error: "db_getValue sql now i db = Inl e \<Longrightarrow> e = prepare_failed \<or> (\<exists>msg. e = InvalidArgument msg)"
  by (auto simp: db_getValue_def value_of_row_def Let_def dest!: Value_of_error split: list.splits)

lemma map_result_Inl: "map_result f xs = Inl e \<Longrightarrow> \<exists>x\<in>set xs. f x = Inl e"
  by (induction xs) auto

text \<open>What the handlers rely on in the libraries: normalised strings are C strings and stay as they are, and SQLite
  returns the selected rows in some order.\<close>

definition libraries_ok :: "(string \<Rightarrow> string option) \<Rightarrow> Sqlite \<Rightarrow> bool" where
  "libraries_ok nfc sql \<longleftrightarrow> nfc_ok nfc \<and> (\<forall>rs. set (peer_order sql rs) \<subseteq> set rs)"

lemma set_fetch: "set (fetch ok k xs) \<subseteq> set xs"
  by (induction xs arbitrary: k) auto

lemma getPeers_error:
  assumes "db_getPeers nfc sql now i n db = Inl e" "wf_storage nfc sha256 db" "libraries_ok nfc sql"
  shows "e = prepare_failed"
proof (rule ccontr)
  let ?rs = "filter (\<lambda>r. pr_id r = i \<and> pr_timestamp r \<ge> bind_int64 (now - MAX_PEER_AGE)) (peersTable db)"
  assume "e \<noteq> prepare_failed"
  then obtain m k r where r: "r \<in> set (fetch k 0 (take m (peer_order sql ?rs)))" "peer_of_row nfc i (pr_origin r) r = Inl e"
    using assms(1) by (auto simp: db_getPeers_def Let_def dest!: map_result_Inl)
  have "set (peer_order sql ?rs) \<subseteq> set ?rs" using assms(3) unfolding libraries_ok_def by blast
  then have "r \<in> set ?rs" using subsetD [OF set_fetch r(1)] by (auto dest!: in_set_takeD)
  then have "wf_peer_row nfc r" "pr_id r = i" using assms(2) by (auto simp: wf_storage_def)
  with r(2) wf_peer_row_decodes [of nfc r] assms(3) show False by (auto simp: libraries_ok_def)
qed

lemma putValue_error:
  assumes "wf_value v" "db_putValue sha256 verify sql now v x p a db = Inl e"
  shows "e = prepare_failed \<or> (\<exists>msg. e = InvalidArgument msg)"
  using assms(2) getValue_error
  by (auto simp: db_putValue_def check_replacement_def mkValueRow_wf [OF assms(1)] split: option.splits if_splits)

lemma putPeer_error: "db_putPeer sql now p x a db = Inl e \<Longrightarrow> e = prepare_failed"
  by (auto simp: db_putPeer_def)

section \<open>The server as the DHT uses it\<close>

text \<open>An operation of the RPC server that a handler may call: it keeps the timers of the calls in flight,
  notifies the DHT only of sends to known targets, and fails only when sending fails.\<close>

locale server_operation =
  fixes f :: "RPCServer \<Rightarrow> server_step" and targets :: "Id set" and env :: Env
  assumes keeps_calls: "pending_ok s \<Longrightarrow> pending_ok (fst (f s))"
    and notified: "OnSend i \<in> set (fst (snd (f s))) \<Longrightarrow> i \<in> targets"
    and error_source: "snd (snd (f s)) = Some e \<Longrightarrow> (\<exists>msg. e = RuntimeError msg) \<or> (\<exists>m. sendto env m = Throws e)"

lemma and_then_error: "snd (snd (and_then r f)) = Some e \<Longrightarrow> snd (snd r) = Some e \<or> snd (snd (f (fst r))) = Some e"
  by (cases r) (auto simp: and_then_def split: option.splits prod.splits)

lemma sendData_outcome:
  "OnSend i \<notin> set (fst (snd (sendData env m s)))"
  "snd (snd (sendData env m s)) = Some e \<Longrightarrow> (\<exists>msg. e = RuntimeError msg) \<or> (\<exists>m. sendto env m = Throws e)"
  by (auto simp: sendData_def split: SocketAddress.splits SendOutcome.splits if_splits)

lemma sendMessage_error:
  "snd (snd (sendMessage env now m s)) = Some e \<Longrightarrow> (\<exists>msg. e = RuntimeError msg) \<or> (\<exists>m. sendto env m = Throws e)"
  unfolding sendMessage_def Let_def
  by (drule and_then_error) (auto dest: sendData_outcome(2) split: option.splits prod.splits)

lemma plain_message:
  assumes "associatedCall m = None"
  shows "server_operation (sendMessage env now m) {} env"
proof
  show "pending_ok (fst (sendMessage env now m s))" if "pending_ok s" for s
    using that sendMessage_plain_calls [OF assms] by (rule pending_ok_calls)
  show "i \<in> {}" if "OnSend i \<in> set (fst (snd (sendMessage env now m s)))" for i s
    using that assms sendData_outcome(1) by (simp add: sendMessage_def Let_def effects_and_then)
qed (rule sendMessage_error)

interpretation srv_reply: server_operation
  "sendMessage env now ((mkMessage b t)\<lparr>remoteId := i, remoteAddr := a\<rparr>)" "{}" env for env now b t i a
  by (rule plain_message) simp

interpretation srv_error: server_operation "sendError env now q code msg" "{}" env for env now q code msg
  using plain_message [of "(mkMessage (ErrorBody (getMethod q) code msg) (txid q))\<lparr>remoteId := mid q, remoteAddr := morigin q\<rparr>" env now]
  by (simp add: sendError_def [abs_def])

interpretation srv_call: server_operation "sendCall env now call" "{targetId call}" env for env now call
proof
  show "pending_ok (fst (sendCall env now call s))" if "pending_ok s" for s
    using that by (rule sendCall_pending)
  show "i \<in> {targetId call}" if "OnSend i \<in> set (fst (snd (sendCall env now call s)))" for i s
    using that sendData_outcome(1)
    by (auto simp: sendCall_def sendMessage_def Let_def effects_and_then split: prod.splits if_splits option.splits)
  show "(\<exists>msg. e = RuntimeError msg) \<or> (\<exists>m. sendto env m = Throws e)" if "snd (snd (sendCall env now call s)) = Some e" for e s
    using that by (auto simp: sendCall_def Let_def dest: sendMessage_error split: prod.splits if_splits)
qed

section \<open>The table as the DHT uses it\<close>

text \<open>No entry object appears from nowhere.\<close>

definition no_new :: "RoutingTable \<Rightarrow> RoutingTable \<Rightarrow> bool" where
  "no_new rt rt' \<longleftrightarrow> (\<forall>e\<in>set (rt_entries rt'). \<exists>e'\<in>set (rt_entries rt). same_node e e')"

lemma no_new_refl [simp]: "no_new rt rt"
  by (auto simp: no_new_def intro: same_node_in)

lemma on_bucket_no_new:
  assumes "\<And>b. \<exists>es. f b = b\<lparr>entries := es\<rparr> \<and> (\<forall>x\<in>set es. \<exists>y\<in>set (entries b). same_node x y)"
  shows "no_new rt (on_bucket r f rt)"
  unfolding no_new_def
proof
  fix e assume "e \<in> set (rt_entries (on_bucket r f rt))"
  then consider "e \<in> set (rt_entries rt)" | b where "b \<in> set (buckets rt)" "e \<in> set (entries (f b))"
    using on_bucket_entries by blast
  then show "\<exists>e'\<in>set (rt_entries rt). same_node e e'"
  proof cases
    case 1
    then show ?thesis using same_node_refl by blast
  next
    case 2
    from assms [of b] obtain es where "f b = b\<lparr>entries := es\<rparr>" "\<forall>x\<in>set es. \<exists>y\<in>set (entries b). same_node x y" by blast
    with 2(2) obtain y where "y \<in> set (entries b)" "same_node e y" by auto
    then show ?thesis using 2(1) set_rt_entries by metis
  qed
qed

text \<open>An operation that every reachable table allows.\<close>

definition table_step :: "(RoutingTable \<Rightarrow> RoutingTable option) \<Rightarrow> bool" where
  "table_step f \<longleftrightarrow> (\<forall>rt. rt_inv rt \<longrightarrow> (\<exists>rt'. f rt = Some rt' \<and> rt_inv rt' \<and> localId rt' = localId rt \<and> no_new rt rt'))"

lemma table_steps:
  assumes "wf_id i"
  shows "table_step (rt_onSend now i)" "table_step (rt_onTimeout now i)" "table_step (rt_remove now i)"
proof -
  have n: "rt_onSend now i rt = Some rt' \<Longrightarrow> localId rt' = localId rt \<and> no_new rt rt'"
    "rt_onTimeout now i rt = Some rt' \<Longrightarrow> localId rt' = localId rt \<and> no_new rt rt'"
    "rt_remove now i rt = Some rt' \<Longrightarrow> localId rt' = localId rt \<and> no_new rt rt'" for rt rt'
    using on_bucket_no_new [OF upd_send.same_nodes] on_bucket_no_new [OF upd_timeout.same_nodes]
      on_bucket_no_new [OF upd_remove.same_nodes]
    by (auto simp: rt_onSend_def rt_onTimeout_def rt_remove_def bind_eq_Some_conv split: option.splits)
  show "table_step (rt_onSend now i)" unfolding table_step_def using rt_update_total(3) [OF _ assms] n(1) by blast
  show "table_step (rt_onTimeout now i)" unfolding table_step_def using rt_update_total(2) [OF _ assms] n(2) by blast
  show "table_step (rt_remove now i)" unfolding table_step_def using rt_update_total(1) [OF _ assms] n(3) by blast
qed

lemma getEntry_defined: "rt_inv rt \<Longrightarrow> wf_id i \<Longrightarrow> \<exists>old. getEntry rt i = Some old"
  using getBucket_covers by (fastforce simp: getEntry_def)

section \<open>The invariant\<close>

definition table_ok :: "DHT \<Rightarrow> nat \<Rightarrow> bool" where
  "table_ok d n \<longleftrightarrow> rt_inv (rtable d) \<and> localId (rtable d) = dnode d \<and> (\<forall>e\<in>set (rt_entries (rtable d)). eref e < n)
     \<and> (\<forall>x\<in>set (knownNodes d). wf_id (snd x))"

definition world_ok :: "Config \<Rightarrow> World \<Rightarrow> bool" where
  "world_ok cfg w \<longleftrightarrow> table_ok (dht w) (entryNames w) \<and> (\<forall>d. otherDht w = Some d \<longrightarrow> rt_inv (rtable d))
     \<and> wf_storage (unf_nfc cfg) (sha_256 cfg) (storage w) \<and> pending_ok (server w)
     \<and> tm_inv (taskMan w) \<and> (\<forall>i t. tasks (taskMan w) i = Some t \<longrightarrow> i < taskNames w)"

definition config_ok :: "Config \<Rightarrow> bool" where
  "config_ok cfg \<longleftrightarrow> (\<forall>m. sendto (rpcEnv cfg) m \<noteq> Throws Undefined) \<and> length (configBootstraps cfg) < 2 ^ 29"

text \<open>A step that keeps the invariant, is defined, and leaves the node running under the same id.\<close>

definition step_ok :: "Config \<Rightarrow> World \<Rightarrow> step \<Rightarrow> bool" where
  "step_ok cfg w r \<longleftrightarrow> world_ok cfg (fst r) \<and> snd r \<noteq> Some Undefined \<and> dnode (dht (fst r)) = dnode (dht w)
     \<and> dtype4 (dht (fst r)) = dtype4 (dht w) \<and> drunning (dht (fst r)) = drunning (dht w) \<and> otherDht (fst r) = otherDht w"

lemma step_okD: "step_ok cfg w (w', e) \<Longrightarrow> world_ok cfg w'"
  by (simp add: step_ok_def)

lemma step_ok_done: "world_ok cfg w \<Longrightarrow> step_ok cfg w (w, None)"
  by (simp add: step_ok_def)

lemma step_ok_error: "world_ok cfg w \<Longrightarrow> e \<noteq> Undefined \<Longrightarrow> step_ok cfg w (w, Some e)"
  by (simp add: step_ok_def)

lemma step_ok_proceed:
  assumes "step_ok cfg w r" "\<And>w'. step_ok cfg w (w', None) \<Longrightarrow> r = (w', None) \<Longrightarrow> step_ok cfg w' (f w')"
  shows "step_ok cfg w (proceed r f)"
proof (cases r)
  case (Pair w' e)
  with assms show ?thesis by (cases e) (auto simp: proceed_def step_ok_def)
qed

lemma step_ok_trans: "step_ok cfg w (w', None) \<Longrightarrow> step_ok cfg w' r \<Longrightarrow> step_ok cfg w r"
  by (simp add: step_ok_def)

lemma on_table_ok:
  assumes "world_ok cfg w" "table_step f"
  shows "step_ok cfg w (on_table f w)"
proof -
  have "rt_inv (rtable (dht w))" using assms(1) by (simp add: world_ok_def table_ok_def)
  then obtain rt where "f (rtable (dht w)) = Some rt" "rt_inv rt" "localId rt = localId (rtable (dht w))" "no_new (rtable (dht w)) rt"
    using assms(2) unfolding table_step_def by blast
  moreover have "\<forall>e\<in>set (rt_entries rt). eref e < entryNames w"
    using assms(1) \<open>no_new (rtable (dht w)) rt\<close> by (fastforce simp: world_ok_def table_ok_def no_new_def same_node_def)
  ultimately show ?thesis using assms(1) by (simp add: on_table_def step_ok_def world_ok_def table_ok_def)
qed

lemma onSend_ok: "world_ok cfg w \<Longrightarrow> wf_id i \<Longrightarrow> step_ok cfg w (onSend now i w)"
  by (simp add: onSend_def step_ok_done on_table_ok table_steps)

lemma onTimeout_ok: "world_ok cfg w \<Longrightarrow> wf_id i \<Longrightarrow> step_ok cfg w (onTimeout now i w)"
  by (simp add: onTimeout_def step_ok_done on_table_ok table_steps)

lemma notify_all_ok:
  "world_ok cfg w \<Longrightarrow> \<forall>i. OnSend i \<in> set es \<longrightarrow> wf_id i \<Longrightarrow> step_ok cfg w (notify_all now es w)"
proof (induction now es w rule: notify_all.induct)
  case (2 now i es w)
  show ?case
    unfolding notify_all.simps
    by (rule step_ok_proceed) (use 2 onSend_ok in \<open>auto simp: step_ok_def\<close>)
qed (auto intro: step_ok_done)

lemma world_ok_server: "world_ok cfg w \<Longrightarrow> pending_ok s \<Longrightarrow> world_ok cfg (w\<lparr>server := s, out := es\<rparr>)"
  by (simp add: world_ok_def)

context server_operation
begin

lemma serve_ok:
  assumes "world_ok cfg w" "config_ok cfg" "env = rpcEnv cfg" "\<forall>i\<in>targets. wf_id i"
  shows "step_ok cfg w (serve now f w)"
proof -
  obtain s es err where fs: "f (server w) = (s, es, err)" by (cases "f (server w)")
  have w1: "world_ok cfg (w\<lparr>server := s, out := out w @ es\<rparr>)"
    using assms(1) keeps_calls [of "server w"] fs by (intro world_ok_server) (auto simp: world_ok_def)
  have ids: "\<forall>i. OnSend i \<in> set es \<longrightarrow> wf_id i" using notified [of _ "server w"] fs assms(4) by auto
  have err: "err \<noteq> Some Undefined"
    using error_source [of "server w" Undefined] fs assms(2,3) by (auto simp: config_ok_def)
  have "step_ok cfg w (notify_all now es (w\<lparr>server := s, out := out w @ es\<rparr>))"
    using notify_all_ok [OF w1 ids] by (simp add: step_ok_def)
  then show ?thesis
    unfolding serve_def fs prod.case by (rule step_ok_proceed) (use err in \<open>auto simp: step_ok_def\<close>)
qed

end

lemma reply_ok: "world_ok cfg w \<Longrightarrow> config_ok cfg \<Longrightarrow> step_ok cfg w (reply cfg now q b w)"
  unfolding reply_def by (rule srv_reply.serve_ok) simp_all

lemma sendError_ok: "world_ok cfg w \<Longrightarrow> config_ok cfg \<Longrightarrow> step_ok cfg w (dht_sendError cfg now q code msg w)"
  unfolding dht_sendError_def by (rule srv_error.serve_ok) simp_all

section \<open>Requests\<close>

lemma world_ok_tokens: "world_ok cfg w \<Longrightarrow> world_ok cfg (w\<lparr>tokenMan := tm\<rparr>)"
  by (simp add: world_ok_def)

lemma new_token_ok: "new_token cfg now q target w = (tok, w') \<Longrightarrow> world_ok cfg w \<Longrightarrow> step_ok cfg w (w', None) \<and> w' = w\<lparr>tokenMan := tokenMan w'\<rparr>"
  by (auto simp: new_token_def step_ok_def intro: world_ok_tokens split: prod.splits)

lemma check_token_ok: "check_token cfg now q tok target w = (b, w') \<Longrightarrow> world_ok cfg w \<Longrightarrow> step_ok cfg w (w', None) \<and> w' = w\<lparr>tokenMan := tokenMan w'\<rparr>"
  by (auto simp: check_token_def step_ok_def intro: world_ok_tokens split: prod.splits)

text \<open>The request does not ask for the nodes of an address family without a DHT.\<close>

definition served :: "World \<Rightarrow> LookupRequest \<Rightarrow> bool" where
  "served w q \<longleftrightarrow> wf_id (lq_target q) \<and> (otherDht w = None \<longrightarrow> (if dtype4 (dht w) then \<not> want6 q else \<not> want4 q))"

lemma closest_nodes_total:
  assumes "rt_inv (rtable d)" "config_ok cfg" "wf_id target"
  shows "\<exists>ns. closest_nodes cfg now d target 8 includeSelf = Some ns \<and> length ns \<le> 8"
proof -
  have bs: "length (configBootstraps cfg) < 2 ^ 29" using assms(2) by (simp add: config_ok_def)
  let ?k = "defaultKClosestNodes target 8"
  have k: "wf_id (ktarget ?k)" "kentries ?k = []" "0 \<le> maxEntries ?k" "maxEntries ?k < 2 ^ 30"
    using assms(3) by (simp_all add: defaultKClosestNodes_def mkKClosestNodes_def)
  have m8: "maxEntries ?k = 8" by (simp add: defaultKClosestNodes_def mkKClosestNodes_def)
  note total = kcn_fill_total [OF assms(1) k bs, unfolded m8]
  obtain k3 where k3: "kcn_fill (configBootstraps cfg) (canUseSocketAddress (dtype4 d))
      (mkKBucketEntry 0 now (dnode d) (daddr d) 0) includeSelf (rtable d) ?k = Some (shave k3)"
    "maxEntries k3 = 8" "length (kentries k3) < 2 ^ 31"
    by (rule total) blast
  have "int (length (kentries (shave k3))) \<le> 8" using shave_bound(1) [of k3] k3(2,3) by simp
  then show ?thesis using k3(1) by (simp add: closest_nodes_def asNodeList_def)
qed

lemma populate_total:
  assumes "world_ok cfg w" "config_ok cfg" "served w q"
  shows "\<exists>r'. populateClosestNodes cfg now w (lq_target q) (wanted (want4 q)) (wanted (want6 q)) r = Some r'
    \<and> ltoken r' = ltoken r \<and> (nodes4 r = [] \<longrightarrow> length (nodes4 r') \<le> 8) \<and> (nodes6 r = [] \<longrightarrow> length (nodes6 r') \<le> 8)"
proof -
  have t: "rt_inv (rtable (dht w))" "\<And>d. otherDht w = Some d \<Longrightarrow> rt_inv (rtable d)"
    using assms(1) by (auto simp: world_ok_def table_ok_def)
  have target: "wf_id (lq_target q)" using assms(3) by (simp add: served_def)
  have this4: "\<exists>ns. closest_nodes cfg now (dht w) (lq_target q) 8 b = Some ns \<and> length ns \<le> 8" for b
    by (rule closest_nodes_total [OF t(1) assms(2) target])
  have other: "\<exists>ns. closest_nodes cfg now d (lq_target q) 8 b = Some ns \<and> length ns \<le> 8" if "otherDht w = Some d" for d b
    by (rule closest_nodes_total [OF t(2) [OF that] assms(2) target])
  have w8: "wanted b = (if b then 8 else 0)" for b by (simp add: wanted_def MAX_ENTRIES_PER_BUCKET_def)
  show ?thesis
  proof (cases "otherDht w")
    case None
    then have "if dtype4 (dht w) then \<not> want6 q else \<not> want4 q" using assms(3) by (simp add: served_def)
    then show ?thesis
      using this4 [of True] by (cases "dtype4 (dht w)") (auto simp: populateClosestNodes_def w8 Let_def)
  next
    case (Some d)
    then show ?thesis
      using this4 [of True] other [OF Some, of False] by (auto simp: populateClosestNodes_def w8 Let_def)
  qed
qed

lemma served_token: "served (w\<lparr>tokenMan := tm\<rparr>) q = served w q"
  by (simp add: served_def)

lemma populated_ok:
  assumes "world_ok cfg w" "config_ok cfg" "served w q" "\<And>r'. step_ok cfg w (f r' w)"
  shows "step_ok cfg w (populated cfg now q r w f)"
  using populate_total [OF assms(1-3), of now r] assms(4) by (auto simp: populated_def)

lemma onFindNode_ok:
  assumes "world_ok cfg w" "config_ok cfg" "served w q"
  shows "step_ok cfg w (onFindNode cfg now msg q w)"
  unfolding onFindNode_def
proof (rule populated_ok [OF assms])
  fix r :: LookupResponse
  obtain tok w1 where t: "(if wantToken q then new_token cfg now msg (lq_target q) w else (ltoken r, w)) = (tok, w1)"
    by (cases "if wantToken q then new_token cfg now msg (lq_target q) w else (ltoken r, w)")
  then have "step_ok cfg w (w1, None)" using new_token_ok assms(1) step_ok_done by (auto split: if_splits)
  moreover from this have "step_ok cfg w1 (reply cfg now msg b w1)" for b
    using reply_ok assms(2) by (simp add: step_ok_def)
  ultimately show "step_ok cfg w (let (tok, w1) = (if wantToken q then new_token cfg now msg (lq_target q) w else (ltoken r, w))
      in reply cfg now msg (FindNodeResponse (r\<lparr>ltoken := tok\<rparr>)) w1)"
    using t step_ok_trans by auto
qed

lemma onFindValue_ok:
  assumes "world_ok cfg w" "config_ok cfg" "served w q"
  shows "step_ok cfg w (onFindValue cfg now msg q seq w)"
proof -
  obtain tok w1 where t: "new_token cfg now msg (dnode (dht w)) w = (tok, w1)" by (cases "new_token cfg now msg (dnode (dht w)) w")
  have s: "step_ok cfg w (w1, None)" "w1 = w\<lparr>tokenMan := tokenMan w1\<rparr>" using new_token_ok [OF t assms(1)] by auto
  then have w1: "world_ok cfg w1" by (simp add: step_ok_def)
  have sv: "served w1 q" using assms(3) s(2) served_token by metis
  have p: "step_ok cfg w1 (populated cfg now q r w1 (\<lambda>r' w. reply cfg now msg (b r') w))" for r b
    by (rule populated_ok [OF w1 assms(2) sv]) (rule reply_ok [OF w1 assms(2)])
  show ?thesis
  proof (rule step_ok_trans [OF s(1)])
    show "step_ok cfg w1 (onFindValue cfg now msg q seq w)"
    proof (cases "db_getValue (sqlite cfg) now (lq_target q) (storage w1)")
      case (Inl e)
      then show ?thesis using getValue_error [OF Inl] w1
        by (auto simp: onFindValue_def t from_result_def prepare_failed_def intro: step_ok_error)
    next
      case (Inr v)
      then show ?thesis using p reply_ok [OF w1 assms(2)]
        by (auto simp: onFindValue_def t from_result_def Let_def split: option.splits)
    qed
  qed
qed

lemma onFindPeers_ok:
  assumes "world_ok cfg w" "config_ok cfg" "served w q" "libraries_ok (unf_nfc cfg) (sqlite cfg)"
  shows "step_ok cfg w (onFindPeers cfg now msg q w)"
proof -
  obtain tok w1 where t: "new_token cfg now msg (lq_target q) w = (tok, w1)" by (cases "new_token cfg now msg (lq_target q) w")
  have s: "step_ok cfg w (w1, None)" "w1 = w\<lparr>tokenMan := tokenMan w1\<rparr>" using new_token_ok [OF t assms(1)] by auto
  then have w1: "world_ok cfg w1" by (simp add: step_ok_def)
  have sv: "served w1 q" using assms(3) s(2) served_token by metis
  have p: "step_ok cfg w1 (populated cfg now q r w1 (\<lambda>r' w. reply cfg now msg (b r') w))" for r b
    by (rule populated_ok [OF w1 assms(2) sv]) (rule reply_ok [OF w1 assms(2)])
  show ?thesis
  proof (rule step_ok_trans [OF s(1)])
    show "step_ok cfg w1 (onFindPeers cfg now msg q w)"
    proof (cases "db_getPeers (unf_nfc cfg) (sqlite cfg) now (lq_target q) 8 (storage w1)")
      case (Inl e)
      then have "e = prepare_failed" using w1 assms(4) by (auto simp: world_ok_def intro: getPeers_error)
      then show ?thesis using Inl w1
        by (auto simp: onFindPeers_def t from_result_def prepare_failed_def intro: step_ok_error)
    next
      case (Inr ps)
      then show ?thesis using p reply_ok [OF w1 assms(2)]
        by (auto simp: onFindPeers_def t from_result_def Let_def)
    qed
  qed
qed

lemma world_ok_storage: "world_ok cfg w \<Longrightarrow> wf_storage (unf_nfc cfg) (sha_256 cfg) db \<Longrightarrow> world_ok cfg (w\<lparr>storage := db\<rparr>)"
  by (simp add: world_ok_def)

lemma step_ok_storage: "step_ok cfg (w\<lparr>storage := db\<rparr>) r \<Longrightarrow> step_ok cfg w r"
  by (simp add: step_ok_def)

lemma getValue_bound:
  assumes "getValue q = Inr v" "vf_sequenceNumber q < 2 ^ 31"
  shows "wf_value v \<and> v_sequenceNumber v < 2 ^ 31"
proof -
  from assms(1) have v: "Value_of (opt_blob (vf_publicKey q)) [] (opt_blob (vf_recipient q)) (opt_blob (vf_nonce q))
      (vf_sequenceNumber q) (opt_blob (vf_signature q)) (vf_value q) = Inr v" by (simp add: getValue_def)
  then have "v_sequenceNumber v = vf_sequenceNumber q \<or> v_sequenceNumber v = 0"
    by (auto simp: Value_of_def mk_mutable_def Value_default_def split: if_splits)
  then show ?thesis using Value_of_wf [OF v] assms(2) by auto
qed

lemma from_result_simps [simp]: "from_result (Inl e) w f = (w, Some e)" "from_result (Inr x) w f = f x w"
  by (simp_all add: from_result_def)

lemma onStoreValue_ok:
  assumes "world_ok cfg w" "config_ok cfg" "vf_sequenceNumber q < 2 ^ 31"
  shows "step_ok cfg w (onStoreValue cfg now msg q w)"
proof (cases "getValue q")
  case (Inl e)
  then have "\<exists>msg. e = InvalidArgument msg" using Value_of_error by (auto simp: getValue_def)
  with Inl show ?thesis using assms(1) by (auto simp: onStoreValue_def from_result_def intro: step_ok_error)
next
  case (Inr v)
  note v = getValue_bound [OF Inr assms(3)]
  obtain ok w1 where c: "check_token cfg now msg (sv_token q) (value_getId (sha_256 cfg) v) w = (ok, w1)"
    by (cases "check_token cfg now msg (sv_token q) (value_getId (sha_256 cfg) v) w")
  have s: "step_ok cfg w (w1, None)" using check_token_ok [OF c assms(1)] by simp
  then have w1: "world_ok cfg w1" by (simp add: step_ok_def)
  let ?put = "db_putValue (sha_256 cfg) (verify_sign cfg) (sqlite cfg) now v (expectedSequenceNumber q) False False (storage w1)"
  have put: "step_ok cfg w1 (from_result ?put w1 (\<lambda>(db, old) w. reply cfg now msg StoreValueResponse (w\<lparr>storage := db\<rparr>)))"
  proof (cases ?put)
    case (Inl e)
    then show ?thesis using putValue_error [OF conjunct1 [OF v] Inl] w1
      by (auto simp: from_result_def prepare_failed_def intro: step_ok_error)
  next
    case put: (Inr x)
    obtain db old where x: "x = (db, old)" by (cases x)
    have "wf_storage (unf_nfc cfg) (sha_256 cfg) db"
      by (rule db_putValue_wf [OF _ conjunct1 [OF v] conjunct2 [OF v] put [unfolded x]]) (use w1 in \<open>simp add: world_ok_def\<close>)
    then have "step_ok cfg w1 (reply cfg now msg StoreValueResponse (w1\<lparr>storage := db\<rparr>))"
      by (intro step_ok_storage [OF reply_ok] world_ok_storage w1 assms(2))
    then show ?thesis by (simp add: from_result_def put x)
  qed
  show ?thesis
    using put sendError_ok [OF w1 assms(2)]
    by (intro step_ok_trans [OF s]) (simp add: onStoreValue_def Inr c Let_def)
qed

lemma onAnnouncePeer_ok:
  assumes "world_ok cfg w" "config_ok cfg" "libraries_ok (unf_nfc cfg) (sqlite cfg)"
    and url: "ap_alternativeURL q = [] \<or> unf_nfc cfg (c_str (ap_alternativeURL q)) \<noteq> None"
  shows "step_ok cfg w (onAnnouncePeer cfg now msg q w)"
proof (cases "isBogon (morigin msg) = Some False")
  case False
  then show ?thesis using assms(1) by (simp add: onAnnouncePeer_def step_ok_done)
next
  case True
  obtain ok w1 where c: "check_token cfg now msg (ap_token q) (ap_peerId q) w = (ok, w1)"
    by (cases "check_token cfg now msg (ap_token q) (ap_peerId q) w")
  have s: "step_ok cfg w (w1, None)" using check_token_ok [OF c assms(1)] by simp
  then have w1: "world_ok cfg w1" by (simp add: step_ok_def)
  have "step_ok cfg w1 (from_result (getPeer (unf_nfc cfg) (mid msg) q) w1 (\<lambda>p w.
      from_result (db_putPeer (sqlite cfg) now p False False (storage w)) w (\<lambda>db w.
        reply cfg now msg AnnouncePeerResponse (w\<lparr>storage := db\<rparr>))))"
  proof (cases "getPeer (unf_nfc cfg) (mid msg) q")
    case (Inl e)
    then have "\<exists>msg. e = InvalidArgument msg" using PeerInfo_of_error url unfolding getPeer_def by blast
    then show ?thesis using w1 Inl by (auto simp: from_result_def intro: step_ok_error)
  next
    case p: (Inr p)
    then have wf: "wf_peer (unf_nfc cfg) p" using assms(3) by (auto simp: getPeer_def libraries_ok_def intro: PeerInfo_of_wf)
    show ?thesis
    proof (cases "db_putPeer (sqlite cfg) now p False False (storage w1)")
      case (Inl e)
      then show ?thesis using putPeer_error [OF Inl] w1 p by (auto simp: from_result_def prepare_failed_def intro: step_ok_error)
    next
      case (Inr db)
      have "wf_storage (unf_nfc cfg) (sha_256 cfg) db"
        by (rule storage_step_wf [OF storage_step.put_peer [OF wf Inr]]) (use w1 in \<open>simp add: world_ok_def\<close>)
      then have "step_ok cfg w1 (reply cfg now msg AnnouncePeerResponse (w1\<lparr>storage := db\<rparr>))"
        by (intro step_ok_storage [OF reply_ok] world_ok_storage w1 assms(2))
      then show ?thesis by (simp add: from_result_def p Inr)
    qed
  qed
  then show ?thesis
    using sendError_ok [OF w1 assms(2)] True
    by (intro step_ok_trans [OF s]) (simp add: onAnnouncePeer_def c)
qed

text \<open>What a request has to satisfy: the DHTs it asks for exist, the sequence number of a value fits an
  \<^verbatim>\<open>int\<close>, and the URL of a peer is text that can be normalised.\<close>

definition wf_request :: "Config \<Rightarrow> World \<Rightarrow> Body \<Rightarrow> bool" where
  "wf_request cfg w b \<longleftrightarrow> (case b of
     FindNodeRequest q \<Rightarrow> served w q
   | FindPeerRequest q \<Rightarrow> served w q
   | FindValueRequest q seq \<Rightarrow> served w q
   | StoreRequest q \<Rightarrow> vf_sequenceNumber q < 2 ^ 31
   | AnnounceRequest q \<Rightarrow> ap_alternativeURL q = [] \<or> unf_nfc cfg (c_str (ap_alternativeURL q)) \<noteq> None
   | _ \<Rightarrow> True)"

lemma onRequest_ok:
  assumes "world_ok cfg w" "config_ok cfg" "libraries_ok (unf_nfc cfg) (sqlite cfg)" "wf_request cfg w (body msg)"
  shows "step_ok cfg w (onRequest cfg now msg w)"
  using assms
  by (cases "body msg")
    (simp_all add: onRequest_def wf_request_def onPing_def reply_ok onFindNode_ok onFindValue_ok onFindPeers_ok onStoreValue_ok
      onAnnouncePeer_ok step_ok_done)

section \<open>Received messages\<close>

lemma on_known_ok:
  assumes "world_ok cfg w" "\<forall>x\<in>set (f (knownNodes (dht w))). wf_id (snd x)"
  shows "step_ok cfg w (on_known f w, None)"
  using assms by (simp add: on_known_def step_ok_def world_ok_def table_ok_def)

lemma known_set_wf: "\<forall>x\<in>set m. wf_id (snd x) \<Longrightarrow> wf_id i \<Longrightarrow> \<forall>x\<in>set (known_set a i m). wf_id (snd x)"
  by (auto simp: known_set_def)

lemma known_ids: "world_ok cfg w \<Longrightarrow> \<forall>x\<in>set (knownNodes (dht w)). wf_id (snd x)"
  by (simp add: world_ok_def table_ok_def)

lemma known_find_wf: "\<forall>x\<in>set m. wf_id (snd x) \<Longrightarrow> known_find a m = Some i \<Longrightarrow> wf_id i"
  by (fastforce simp: known_find_def dest: findD)

lemma submit_ok:
  assumes "world_ok cfg w"
  shows "step_ok cfg w (submit k ls w, None)"
proof -
  let ?i = "taskNames w"
  have fresh: "tasks (taskMan w) ?i = None" using assms by (cases "tasks (taskMan w) ?i") (auto simp: world_ok_def)
  moreover have "\<forall>i\<in>set (queued (taskMan w) @ running (taskMan w)). tasks (taskMan w) i \<noteq> None"
    using assms by (auto simp: world_ok_def tm_inv_def task_ok_def)
  ultimately have q: "?i \<notin> set (queued (taskMan w) @ running (taskMan w))" by blast
  show ?thesis
    using assms q
    by (auto simp: step_ok_def world_ok_def submit_def Let_def add_task_def setState_def newTask_def tm_inv_def task_ok_def less_Suc_eq
        split: if_splits)
qed

lemma notify_all_names: "entryNames (fst (notify_all now es w)) = entryNames w"
  by (induction now es w rule: notify_all.induct)
    (auto simp: proceed_def onSend_def on_table_def split: prod.splits option.splits if_splits)

lemma serve_names: "entryNames (fst (serve now f w)) = entryNames w"
proof -
  obtain s es err where fs: "f (server w) = (s, es, err)" by (cases "f (server w)")
  have "entryNames (fst (notify_all now es (w\<lparr>server := s, out := out w @ es\<rparr>))) = entryNames w"
    by (simp add: notify_all_names)
  then show ?thesis
    by (cases "notify_all now es (w\<lparr>server := s, out := out w @ es\<rparr>)") (auto simp: serve_def fs proceed_def split: option.split)
qed

lemma put_entry_ok:
  assumes "world_ok cfg w" "wf_node e" "eref e = entryNames w"
  shows "step_ok cfg w (on_table (rt_put now e) (w\<lparr>entryNames := entryNames w + 1\<rparr>))"
proof -
  have rt: "rt_inv (rtable (dht w))" "\<forall>x\<in>set (rt_entries (rtable (dht w))). eref x < entryNames w"
    using assms(1) by (auto simp: world_ok_def table_ok_def)
  have fresh: "fresh_for e (rt_entries (rtable (dht w)))" using rt(2) assms(3) by (auto simp: fresh_for_def)
  obtain rt' where put: "rt_put now e (rtable (dht w)) = Some rt'" "put_outcome now e (rtable (dht w)) rt'" "rt_inv rt'"
    using rt_put_total [OF rt(1) assms(2) fresh, of now] by blast
  have "localId rt' = localId (rtable (dht w))" by (rule put_outcome_local [OF put(2)])
  moreover have "\<forall>x\<in>set (rt_entries rt'). eref x < entryNames w + 1"
    using put_outcome_entries [OF put(2) assms(2)] rt(2) assms(3) by (fastforce simp: same_node_def)
  ultimately show ?thesis using assms(1) put(1,3) by (simp add: on_table_def step_ok_def world_ok_def table_ok_def)
qed

lemma enter_node_ok:
  assumes "world_ok cfg w" "config_ok cfg" "wf_id (mid msg)" "wf_addr (morigin msg)"
  shows "step_ok cfg w (enter_node cfg now msg call isNew w)"
proof -
  define e0 where "e0 = mkKBucketEntry (entryNames w) now (mid msg) (morigin msg) (mversion msg)"
  define e where "e = (case call of Some c \<Rightarrow> mergeRequestTime (sentTime c) (signalResponse now e0) | None \<Rightarrow> e0)"
  define w1 where "w1 = on_known (known_set (morigin msg) (mid msg)) w"
  define n where "n = callSupply (taskMan w1)"
  have e: "nodeId e = mid msg" "sockaddr e = morigin msg" "eref e = entryNames w"
    by (auto simp: e_def e0_def mkKBucketEntry_def mergeRequestTime_def signalResponse_def split: option.split)
  have wf: "wf_node e" using assms(3,4) e by (simp add: wf_node_def)
  have w1: "step_ok cfg w (w1, None)"
    unfolding w1_def by (rule on_known_ok [OF assms(1)], rule known_set_wf [OF known_ids [OF assms(1)] assms(3)])
  then have ok1: "world_ok cfg w1" by (simp add: step_ok_def)
  have sup: "world_ok cfg (w1\<lparr>taskMan := (taskMan w1)\<lparr>callSupply := n + 1\<rparr>\<rparr>)"
    using ok1 by (simp add: world_ok_def tm_inv_def task_ok_def)
  let ?call = "mkRPCCall n (node_of e) (Some (reachable e)) (mkMessage PingRequest 0)"
  let ?first = "if call = None \<and> isNew then serve now (sendCall (rpcEnv cfg) now ?call) (w1\<lparr>taskMan := (taskMan w1)\<lparr>callSupply := n + 1\<rparr>\<rparr>)
    else (w1, None)"
  have "step_ok cfg w1 (serve now (sendCall (rpcEnv cfg) now ?call) (w1\<lparr>taskMan := (taskMan w1)\<lparr>callSupply := n + 1\<rparr>\<rparr>))"
    using srv_call.serve_ok [OF sup assms(2) refl, of ?call now] e(1) assms(3)
    by (simp add: step_ok_def mkRPCCall_def node_of_def)
  then have first: "step_ok cfg w ?first" using step_ok_trans [OF w1] step_ok_done [OF ok1] by auto
  have names: "entryNames (fst ?first) = entryNames w" by (simp add: serve_names w1_def on_known_def)
  have "step_ok cfg w (proceed ?first (\<lambda>w. on_table (rt_put now e) (w\<lparr>entryNames := entryNames w + 1\<rparr>)))"
  proof (rule step_ok_proceed [OF first])
    fix w' assume "step_ok cfg w (w', None)" and r: "?first = (w', None)"
    then have "world_ok cfg w'" by (simp add: step_ok_def)
    moreover have "eref e = entryNames w'" using names unfolding r by (simp add: e(3))
    ultimately show "step_ok cfg w' (on_table (rt_put now e) (w'\<lparr>entryNames := entryNames w' + 1\<rparr>))"
      using put_entry_ok wf by blast
  qed
  then show ?thesis unfolding enter_node_def Let_def e0_def [symmetric] e_def [symmetric] w1_def [symmetric] n_def [symmetric] .
qed

lemma tryPingMaintenance_entries: "tryPingMaintenance now b options rt = (rt', t) \<Longrightarrow> rt_entries rt' = rt_entries rt"
proof -
  assume p: "tryPingMaintenance now b options rt = (rt', t)"
  have "map entries (buckets rt') = map entries (buckets rt)"
    using p by (auto simp: tryPingMaintenance_def on_bucket_def updateRefreshTimer_def split: if_splits)
  then show ?thesis by (simp add: rt_entries_def)
qed

lemma ping_bucket_ok:
  assumes "world_ok cfg w" "wf_id i"
  shows "step_ok cfg w (ping_bucket now i options w)"
proof -
  have rt: "rt_inv (rtable (dht w))" using assms(1) by (simp add: world_ok_def table_ok_def)
  obtain b where b: "getBucket (rtable (dht w)) i = Some b" "b \<in> set (buckets (rtable (dht w)))"
    using getBucket_covers [OF rt assms(2)] by metis
  obtain rt' t where p: "tryPingMaintenance now b options (rtable (dht w)) = (rt', t)"
    by (cases "tryPingMaintenance now b options (rtable (dht w))")
  have r: "rt_inv rt'" using tryPingMaintenance_inv [OF rt, of now b options] p by simp
  have "rt_entries rt' = rt_entries (rtable (dht w))" by (rule tryPingMaintenance_entries [OF p])
  moreover have "localId rt' = localId (rtable (dht w))" using p by (auto simp: tryPingMaintenance_def split: if_splits)
  ultimately have ok: "step_ok cfg w (w\<lparr>dht := (dht w)\<lparr>rtable := rt'\<rparr>\<rparr>, None)"
    using assms(1) r by (simp add: step_ok_def world_ok_def table_ok_def)
  then have "step_ok cfg w (submit k ls (w\<lparr>dht := (dht w)\<lparr>rtable := rt'\<rparr>\<rparr>), None)" for k ls
    by (intro step_ok_trans [OF ok] submit_ok) (simp add: step_ok_def)
  with ok show ?thesis by (simp add: ping_bucket_def b(1) p Let_def split: option.split)
qed

lemma received_ok:
  assumes "world_ok cfg w" "config_ok cfg" "wf_id (mid msg)" "wf_addr (morigin msg)"
  shows "step_ok cfg w (received cfg now msg call w)"
proof -
  have rt: "rt_inv (rtable (dht w))" using assms(1) by (simp add: world_ok_def table_ok_def)
  have enter: "step_ok cfg w (enter_node cfg now msg call isNew w)" for isNew by (rule enter_node_ok [OF assms])
  have erase: "step_ok cfg w (enter_node cfg now msg call isNew (on_known (known_erase (morigin msg)) w))" for isNew
  proof -
    have "step_ok cfg w (on_known (known_erase (morigin msg)) w, None)"
      using known_ids [OF assms(1)] by (intro on_known_ok [OF assms(1)]) (auto simp: known_erase_def)
    then show ?thesis using enter_node_ok assms(2-4) step_ok_trans by (metis fst_conv step_ok_def)
  qed
  have evict: "step_ok cfg w (proceed (on_table (rt_remove now i) w) (\<lambda>w. proceed (ping_bucket now i [CheckAll] w)
      (\<lambda>w. (on_known (known_set (morigin msg) (mid msg)) w, None))))" if "wf_id i" for i
  proof (intro step_ok_proceed)
    show "step_ok cfg w (on_table (rt_remove now i) w)" by (rule on_table_ok [OF assms(1) table_steps(3) [OF that]])
    show "step_ok cfg w1 (ping_bucket now i [CheckAll] w1)" if "step_ok cfg w (w1, None)" for w1
      by (rule ping_bucket_ok [OF step_okD [OF that] \<open>wf_id i\<close>])
    show "step_ok cfg w2 (on_known (known_set (morigin msg) (mid msg)) w2, None)" if "step_ok cfg w1 (w2, None)" for w1 w2
      by (rule on_known_ok [OF step_okD [OF that]], rule known_set_wf [OF known_ids [OF step_okD [OF that]] assms(3)])
  qed
  obtain old where old: "getEntry (rtable (dht w)) (mid msg) = Some old" using getEntry_defined [OF rt assms(3)] by blast
  show ?thesis
  proof (cases "known_find (morigin msg) (knownNodes (dht w))")
    case None
    then show ?thesis using enter step_ok_done [OF assms(1)] by (auto simp: received_def old split: option.split)
  next
    case (Some i)
    have wf: "wf_id i" by (rule known_find_wf [OF known_ids [OF assms(1)] Some])
    obtain k where "getEntry (rtable (dht w)) i = Some k" using getEntry_defined [OF rt wf] by blast
    then show ?thesis
      using Some enter erase evict [OF wf] step_ok_done [OF assms(1)] by (auto simp: received_def old split: option.splits)
  qed
qed

lemma onMessage_ok:
  assumes "world_ok cfg w" "config_ok cfg" "libraries_ok (unf_nfc cfg) (sqlite cfg)"
    "wf_id (mid msg)" "wf_addr (morigin msg)" "wf_request cfg w (body msg)"
  shows "step_ok cfg w (onMessage cfg now msg call w)"
proof -
  have "step_ok cfg w (proceed (if getType msg = REQUEST then onRequest cfg now msg w else (w, None)) (received cfg now msg call))"
  proof (rule step_ok_proceed)
    show "step_ok cfg w (if getType msg = REQUEST then onRequest cfg now msg w else (w, None))"
      using onRequest_ok [OF assms(1-3,6)] step_ok_done [OF assms(1)] by simp
    show "step_ok cfg w' (received cfg now msg call w')" if "step_ok cfg w (w', None)" for w'
      using that by (intro received_ok assms(2,4,5)) (simp add: step_ok_def)
  qed
  then show ?thesis using step_ok_done [OF assms(1)] by (simp add: onMessage_def)
qed

end
