(* ===== verification/Dht_Service.thy ===== *)
theory Dht_Service
  imports Dht_Invariants
begin

text \<open>
  What the handlers of a node do for others: every request is answered once and to its sender, the
  store changes only for a valid token, and what was stored is found again. The lemmas follow the
  messages through the server, which sends at once when its socket takes them.
\<close>

section \<open>Answers\<close>

definition can_send :: "RPCServer \<Rightarrow> SocketAddress \<Rightarrow> bool" where
  "can_send s a \<longleftrightarrow> (case a of Unspec \<Rightarrow> False | Inet4 _ _ \<Rightarrow> hasSock4 s | Inet6 _ _ _ _ \<Rightarrow> hasSock6 s)"

definition sends :: "Config \<Rightarrow> World \<Rightarrow> Message \<Rightarrow> bool" where
  "sends cfg w msg \<longleftrightarrow> (\<forall>m. sendto (rpcEnv cfg) m = Sent) \<and> can_send (server w) (morigin msg)"

definition answer :: "Config \<Rightarrow> World \<Rightarrow> Message \<Rightarrow> Body \<Rightarrow> Message" where
  "answer cfg w q b = (mkMessage b (txid q))\<lparr>remoteId := mid q, remoteAddr := morigin q, mid := self (server w),
     mversion := nodeVersion (rpcEnv cfg)\<rparr>"

lemma sendMessage_sent:
  assumes "sends cfg w q" "remoteAddr m = morigin q" "associatedCall m = None"
  shows "sendMessage (rpcEnv cfg) now m (server w)
    = (server w, [Datagram (m\<lparr>mid := self (server w), mversion := nodeVersion (rpcEnv cfg)\<rparr>)], None)"
  using assms by (cases "morigin q") (simp_all add: sends_def can_send_def sendMessage_def and_then_def sendData_def Let_def)

lemma reply_sent:
  assumes "sends cfg w q"
  shows "reply cfg now q b w = (w\<lparr>out := out w @ [Datagram (answer cfg w q b)]\<rparr>, None)"
  using sendMessage_sent [OF assms, of "(mkMessage b (txid q))\<lparr>remoteId := mid q, remoteAddr := morigin q\<rparr>" now]
  by (simp add: reply_def serve_def proceed_def answer_def mkMessage_def)

lemma sendError_sent:
  assumes "sends cfg w q"
  shows "dht_sendError cfg now q code msg w = (w\<lparr>out := out w @ [Datagram (answer cfg w q (ErrorBody (getMethod q) code msg))]\<rparr>, None)"
  using sendMessage_sent [OF assms, of "(mkMessage (ErrorBody (getMethod q) code msg) (txid q))\<lparr>remoteId := mid q, remoteAddr := morigin q\<rparr>" now]
  by (simp add: dht_sendError_def serve_def proceed_def sendError_def answer_def mkMessage_def)

text \<open>The handlers touch the token manager and the storage before they answer.\<close>

definition touched :: "World \<Rightarrow> World \<Rightarrow> bool" where
  "touched w w' \<longleftrightarrow> w' = w\<lparr>tokenMan := tokenMan w', storage := storage w'\<rparr>"

lemma touched_refl [simp]: "touched w w"
  by (simp add: touched_def)

lemma touched_storage: "touched w w' \<Longrightarrow> touched w (w'\<lparr>storage := db\<rparr>)"
  by (cases w; cases w') (simp add: touched_def)

lemma touched_sends: "touched w w' \<Longrightarrow> sends cfg w' q = sends cfg w q" "touched w w' \<Longrightarrow> answer cfg w' q b = answer cfg w q b"
  by (cases w; cases w'; simp add: touched_def sends_def answer_def)+

lemma touched_token:
  "new_token cfg now q target w = (tok, w') \<Longrightarrow> touched w w' \<and> storage w' = storage w"
  "check_token cfg now q tk target w = (ok, w') \<Longrightarrow> touched w w' \<and> storage w' = storage w"
  by (cases w; auto simp: touched_def new_token_def check_token_def Let_def split: prod.splits)+

text \<open>One datagram, to the sender of the request, with its transaction id and its method.\<close>

definition answered :: "Config \<Rightarrow> Message \<Rightarrow> World \<Rightarrow> World \<Rightarrow> bool" where
  "answered cfg q w w' \<longleftrightarrow> (\<exists>w1 b. touched w w1 \<and> w' = w1\<lparr>out := out w @ [Datagram (answer cfg w q b)]\<rparr>
     \<and> body_type b \<noteq> REQUEST \<and> body_method b = getMethod q)"

lemma touched_out: "touched w w' \<Longrightarrow> out w' = out w"
  by (cases w; cases w') (simp add: touched_def)

lemma reply_answered:
  assumes "sends cfg w q" "touched w w1" "reply cfg now q b w1 = (w', None)" "body_type b \<noteq> REQUEST" "body_method b = getMethod q"
  shows "answered cfg q w w'"
  using assms reply_sent [of cfg w1 q now b] unfolding answered_def
  by (intro exI [of _ w1] exI [of _ b]) (simp add: touched_sends touched_out)

lemma error_answered:
  assumes "sends cfg w q" "touched w w1" "dht_sendError cfg now q code msg w1 = (w', None)"
  shows "answered cfg q w w'"
  using assms sendError_sent [of cfg w1 q now code msg] unfolding answered_def
  by (intro exI [of _ w1] exI [of _ "ErrorBody (getMethod q) code msg"]) (simp add: touched_sends touched_out)

lemma populated_answered:
  assumes "sends cfg w msg" "touched w w1" "\<And>r. body_type (b r) \<noteq> REQUEST \<and> body_method (b r) = getMethod msg"
    "populated cfg now q r w1 (\<lambda>r' w. reply cfg now msg (b r') w) = (w', None)"
  shows "answered cfg msg w w'"
proof -
  from assms(4) obtain r' where "reply cfg now msg (b r') w1 = (w', None)" by (auto simp: populated_def split: option.splits)
  then show ?thesis using reply_answered [OF assms(1,2)] assms(3) by blast
qed

lemma onFindNode_answered:
  assumes "sends cfg w msg" "body msg = FindNodeRequest q" "onFindNode cfg now msg q w = (w', None)"
  shows "answered cfg msg w w'"
proof -
  from assms(3) obtain r tok w1 where r: "reply cfg now msg (FindNodeResponse (r\<lparr>ltoken := tok\<rparr>)) w1 = (w', None)"
    "(if wantToken q then new_token cfg now msg (lq_target q) w else (ltoken r, w)) = (tok, w1)"
    by (auto simp: onFindNode_def populated_def Let_def split: option.splits prod.splits)
  have "touched w w1" using r(2) touched_token(1) by (auto split: if_splits)
  then show ?thesis using reply_answered [OF assms(1) _ r(1)] assms(2) by simp
qed

lemma onFindValue_answered:
  assumes "sends cfg w msg" "body msg = FindValueRequest q seq" "onFindValue cfg now msg q seq w = (w', None)"
  shows "answered cfg msg w w'"
proof -
  obtain tok w1 where t: "new_token cfg now msg (dnode (dht w)) w = (tok, w1)" by (cases "new_token cfg now msg (dnode (dht w)) w")
  note w1 = conjunct1 [OF touched_token(1) [OF t]]
  let ?r = "default_response\<lparr>ltoken := tok\<rparr>"
  from assms(3) consider v where "reply cfg now msg (FindValueResponse ?r (setValue v default_fields)) w1 = (w', None)"
    | "populated cfg now q ?r w1 (\<lambda>r' w. reply cfg now msg (FindValueResponse r' default_fields) w) = (w', None)"
    by (auto simp: onFindValue_def t from_result_def Let_def split: sum.splits option.splits if_splits)
  then show ?thesis
    by cases (use reply_answered [OF assms(1) w1] populated_answered [OF assms(1) w1, of "\<lambda>r. FindValueResponse r default_fields"]
      assms(2) in auto)
qed

lemma onFindPeers_answered:
  assumes "sends cfg w msg" "body msg = FindPeerRequest q" "onFindPeers cfg now msg q w = (w', None)"
  shows "answered cfg msg w w'"
proof -
  obtain tok w1 where t: "new_token cfg now msg (lq_target q) w = (tok, w1)" by (cases "new_token cfg now msg (lq_target q) w")
  note w1 = conjunct1 [OF touched_token(1) [OF t]]
  let ?r = "default_response\<lparr>ltoken := tok\<rparr>"
  from assms(3) consider ps where "reply cfg now msg (FindPeerResponse ?r ps) w1 = (w', None)"
    | "populated cfg now q ?r w1 (\<lambda>r' w. reply cfg now msg (FindPeerResponse r' []) w) = (w', None)"
    by (auto simp: onFindPeers_def t from_result_def Let_def split: sum.splits if_splits)
  then show ?thesis
    by cases (use reply_answered [OF assms(1) w1] populated_answered [OF assms(1) w1, of "\<lambda>r. FindPeerResponse r []"]
      assms(2) in auto)
qed

text \<open>The store changes in one place of \<open>onStoreValue\<close>, behind the token and the check of the value.\<close>

lemma onStoreValue_put:
  assumes "getValue q = Inr v" "check_token cfg now msg (sv_token q) (value_getId (sha_256 cfg) v) w = (True, w1)"
    "value_isValid (verify_sign cfg) v"
  shows "onStoreValue cfg now msg q w =
    from_result (db_putValue (sha_256 cfg) (verify_sign cfg) (sqlite cfg) now v (expectedSequenceNumber q) False False (storage w)) w1
      (\<lambda>(db, old) w. reply cfg now msg StoreValueResponse (w\<lparr>storage := db\<rparr>))"
  using touched_token(2) [OF assms(2)] by (simp add: onStoreValue_def assms Let_def)

lemma onStoreValue_answered:
  assumes "sends cfg w msg" "body msg = StoreRequest q" "onStoreValue cfg now msg q w = (w', None)"
  shows "answered cfg msg w w'"
proof -
  from assms(3) obtain v where v: "getValue q = Inr v" by (auto simp: onStoreValue_def from_result_def split: sum.splits)
  obtain ok w1 where c: "check_token cfg now msg (sv_token q) (value_getId (sha_256 cfg) v) w = (ok, w1)"
    by (cases "check_token cfg now msg (sv_token q) (value_getId (sha_256 cfg) v) w")
  note w1 = conjunct1 [OF touched_token(2) [OF c]]
  show ?thesis
  proof (cases "ok \<and> value_isValid (verify_sign cfg) v")
    case False
    then show ?thesis using assms(3) error_answered [OF assms(1) w1] by (auto simp: onStoreValue_def v c Let_def split: if_splits)
  next
    case True
    with assms(3) onStoreValue_put [OF v, of cfg now msg w w1] c
    obtain db where "reply cfg now msg StoreValueResponse (w1\<lparr>storage := db\<rparr>) = (w', None)"
      by (auto simp: from_result_def split: sum.splits)
    then show ?thesis using reply_answered [OF assms(1) touched_storage [OF w1]] assms(2) by simp
  qed
qed

lemma onAnnouncePeer_answered:
  assumes "sends cfg w msg" "body msg = AnnounceRequest q" "isBogon (morigin msg) = Some False" "onAnnouncePeer cfg now msg q w = (w', None)"
  shows "answered cfg msg w w'"
proof -
  obtain ok w1 where c: "check_token cfg now msg (ap_token q) (ap_peerId q) w = (ok, w1)"
    by (cases "check_token cfg now msg (ap_token q) (ap_peerId q) w")
  note w1 = conjunct1 [OF touched_token(2) [OF c]]
  show ?thesis
  proof (cases ok)
    case False
    then show ?thesis using assms(3,4) error_answered [OF assms(1) w1] by (simp add: onAnnouncePeer_def c)
  next
    case True
    with assms(3,4) c obtain db where "reply cfg now msg AnnouncePeerResponse (w1\<lparr>storage := db\<rparr>) = (w', None)"
      by (auto simp: onAnnouncePeer_def from_result_def split: sum.splits)
    then show ?thesis using reply_answered [OF assms(1) touched_storage [OF w1]] assms(2) by simp
  qed
qed

lemma onRequest_answered:
  assumes "sends cfg w msg" "getType msg = REQUEST" "onRequest cfg now msg w = (w', None)"
    "getMethod msg = ANNOUNCE_PEER \<longrightarrow> isBogon (morigin msg) = Some False"
  shows "answered cfg msg w w'"
proof (cases "body msg")
  case PingRequest
  then show ?thesis
    using assms(3) reply_answered [OF assms(1) touched_refl] by (simp add: onRequest_def onPing_def)
next
  case (FindNodeRequest q)
  then show ?thesis using assms(3) onFindNode_answered [OF assms(1) FindNodeRequest] by (simp add: onRequest_def)
next
  case (AnnounceRequest q)
  then show ?thesis using assms(3,4) onAnnouncePeer_answered [OF assms(1) AnnounceRequest] by (simp add: onRequest_def)
next
  case (FindPeerRequest q)
  then show ?thesis using assms(3) onFindPeers_answered [OF assms(1) FindPeerRequest] by (simp add: onRequest_def)
next
  case (StoreRequest q)
  then show ?thesis using assms(3) onStoreValue_answered [OF assms(1) StoreRequest] by (simp add: onRequest_def)
next
  case (FindValueRequest q s)
  then show ?thesis using assms(3) onFindValue_answered [OF assms(1) FindValueRequest] by (simp add: onRequest_def)
qed (use assms(2) in simp_all)

section \<open>What may change the store\<close>

lemma fst_proceed: "fst (proceed r f) = (case snd r of None \<Rightarrow> fst (f (fst r)) | Some _ \<Rightarrow> fst r)"
  by (cases r) (simp add: proceed_def split: option.split)

lemma on_table_storage [simp]: "storage (fst (on_table f w)) = storage w"
  by (simp add: on_table_def split: option.split)

lemma notify_all_storage: "storage (fst (notify_all now es w)) = storage w"
  by (induction now es w rule: notify_all.induct) (auto simp: fst_proceed onSend_def split: option.split)

lemma serve_storage [simp]: "storage (fst (serve now f w)) = storage w"
  by (simp add: serve_def fst_proceed notify_all_storage split: prod.split option.split)

lemma reply_storage [simp]:
  "storage (fst (reply cfg now q b w)) = storage w" "storage (fst (dht_sendError cfg now q code msg w)) = storage w"
  by (simp_all add: reply_def dht_sendError_def)

lemma on_known_storage [simp]: "storage (on_known f w) = storage w"
  by (simp add: on_known_def)

lemma enter_node_storage [simp]: "storage (fst (enter_node cfg now msg call isNew w)) = storage w"
  by (simp add: enter_node_def Let_def fst_proceed split: option.split)

lemma submit_storage [simp]: "storage (submit k ls w) = storage w"
  by (simp add: submit_def Let_def)

lemma ping_bucket_storage [simp]: "storage (fst (ping_bucket now i options w)) = storage w"
  by (simp add: ping_bucket_def Let_def split: option.split prod.split)

lemma received_storage: "storage (fst (received cfg now msg call w)) = storage w"
  by (simp add: received_def fst_proceed split: option.split)

lemma populated_storage: "(\<And>r' w. storage (fst (f r' w)) = storage w) \<Longrightarrow> storage (fst (populated cfg now q r w f)) = storage w"
  by (simp add: populated_def split: option.split)

lemma lookup_storage:
  "storage (fst (onFindNode cfg now msg q w)) = storage w" "storage (fst (onFindValue cfg now msg q seq w)) = storage w"
  "storage (fst (onFindPeers cfg now msg q w)) = storage w"
proof -
  have t: "storage (snd (new_token cfg now msg target w)) = storage w" for target w
    by (simp add: new_token_def Let_def split: prod.split)
  show "storage (fst (onFindNode cfg now msg q w)) = storage w"
    unfolding onFindNode_def by (rule populated_storage) (auto simp: Let_def case_prod_beta t)
  have p: "storage (fst (populated cfg now q r w (\<lambda>r' w. reply cfg now msg (b r') w))) = storage w" for r w and b :: "LookupResponse \<Rightarrow> Body"
    by (rule populated_storage) simp
  show "storage (fst (onFindValue cfg now msg q seq w)) = storage w" "storage (fst (onFindPeers cfg now msg q w)) = storage w"
    by (auto simp: onFindValue_def onFindPeers_def from_result_def Let_def case_prod_beta t p split: sum.split option.split)
qed

lemma onStoreValue_storage:
  assumes "storage (fst (onStoreValue cfg now msg q w)) \<noteq> storage w"
  shows "\<exists>v old. getValue q = Inr v \<and> fst (verifyToken (sha_256 cfg) now (sv_token q) (mid msg) (morigin msg) (value_getId (sha_256 cfg) v) (tokenMan w))
    \<and> value_isValid (verify_sign cfg) v
    \<and> db_putValue (sha_256 cfg) (verify_sign cfg) (sqlite cfg) now v (expectedSequenceNumber q) False False (storage w)
      = Inr (storage (fst (onStoreValue cfg now msg q w)), old)"
proof -
  from assms obtain v where v: "getValue q = Inr v" by (auto simp: onStoreValue_def from_result_def split: sum.splits)
  obtain ok w1 where c: "check_token cfg now msg (sv_token q) (value_getId (sha_256 cfg) v) w = (ok, w1)"
    by (cases "check_token cfg now msg (sv_token q) (value_getId (sha_256 cfg) v) w")
  have w1: "storage w1 = storage w" using touched_token(2) [OF c] by simp
  have ok: "ok" "value_isValid (verify_sign cfg) v"
    using assms w1 by (auto simp: onStoreValue_def v c Let_def split: if_splits)
  note put = onStoreValue_put [OF v c [unfolded eqTrueI [OF ok(1)]] ok(2)]
  have "fst (verifyToken (sha_256 cfg) now (sv_token q) (mid msg) (morigin msg) (value_getId (sha_256 cfg) v) (tokenMan w))"
    using c ok(1) by (auto simp: check_token_def split: prod.splits)
  then show ?thesis
    using v ok assms w1 unfolding put by (auto simp: from_result_def split: sum.splits)
qed

lemma onAnnouncePeer_storage:
  assumes "storage (fst (onAnnouncePeer cfg now msg q w)) \<noteq> storage w"
  shows "\<exists>p. getPeer (unf_nfc cfg) (mid msg) q = Inr p
    \<and> fst (verifyToken (sha_256 cfg) now (ap_token q) (mid msg) (morigin msg) (ap_peerId q) (tokenMan w))
    \<and> db_putPeer (sqlite cfg) now p False False (storage w) = Inr (storage (fst (onAnnouncePeer cfg now msg q w)))"
proof -
  obtain ok w1 where c: "check_token cfg now msg (ap_token q) (ap_peerId q) w = (ok, w1)"
    by (cases "check_token cfg now msg (ap_token q) (ap_peerId q) w")
  have w1: "storage w1 = storage w" using touched_token(2) [OF c] by simp
  have ok: "ok" using assms w1 by (auto simp: onAnnouncePeer_def c split: if_splits)
  then have "fst (verifyToken (sha_256 cfg) now (ap_token q) (mid msg) (morigin msg) (ap_peerId q) (tokenMan w))"
    using c by (auto simp: check_token_def split: prod.splits)
  then show ?thesis
    using ok assms w1 by (auto simp: onAnnouncePeer_def c from_result_def split: sum.splits if_splits)
qed

lemma onMessage_storage:
  "storage (fst (onMessage cfg now msg call w)) = storage w
   \<or> (getType msg = REQUEST \<and> storage (fst (onMessage cfg now msg call w)) = storage (fst (onRequest cfg now msg w)))"
  by (auto simp: onMessage_def fst_proceed received_storage split: option.splits if_splits)

section \<open>What was stored is found\<close>

lemma onFindValue_found:
  assumes "sends cfg w msg" "db_getValue (sqlite cfg) now (lq_target q) (storage w) = Inr (Some v)"
    "seq < 0 \<or> seq \<le> v_sequenceNumber v"
  obtains w' tok where "onFindValue cfg now msg q seq w = (w', None)" "storage w' = storage w"
    "out w' = out w @ [Datagram (answer cfg w msg (FindValueResponse (default_response\<lparr>ltoken := tok\<rparr>) (setValue v default_fields)))]"
proof -
  obtain tok w1 where t: "new_token cfg now msg (dnode (dht w)) w = (tok, w1)" by (cases "new_token cfg now msg (dnode (dht w)) w")
  note w1 = touched_token(1) [OF t]
  have s: "sends cfg w1 msg" using w1 touched_sends assms(1) by blast
  let ?b = "FindValueResponse (default_response\<lparr>ltoken := tok\<rparr>) (setValue v default_fields)"
  have "onFindValue cfg now msg q seq w = reply cfg now msg ?b w1"
    using assms(2,3) w1 by (auto simp: onFindValue_def t)
  also have "\<dots> = (w1\<lparr>out := out w @ [Datagram (answer cfg w msg ?b)]\<rparr>, None)"
    using reply_sent [OF s] w1 by (simp add: touched_out touched_sends)
  finally show thesis by (rule that) (use w1 in simp_all)
qed

lemma onStoreValue_stored:
  assumes "sends cfg w msg" "getValue q = Inr v"
    "fst (verifyToken (sha_256 cfg) now (sv_token q) (mid msg) (morigin msg) (value_getId (sha_256 cfg) v) (tokenMan w))"
    "value_isValid (verify_sign cfg) v"
    "db_putValue (sha_256 cfg) (verify_sign cfg) (sqlite cfg) now v (expectedSequenceNumber q) False False (storage w) = Inr (db, old)"
  obtains w' where "onStoreValue cfg now msg q w = (w', None)" "storage w' = db" "server w' = server w"
    "out w' = out w @ [Datagram (answer cfg w msg StoreValueResponse)]"
proof -
  obtain ok w1 where c: "check_token cfg now msg (sv_token q) (value_getId (sha_256 cfg) v) w = (ok, w1)"
    by (cases "check_token cfg now msg (sv_token q) (value_getId (sha_256 cfg) v) w")
  have ok: "ok" using c assms(3) by (auto simp: check_token_def split: prod.splits)
  note w1 = touched_token(2) [OF c]
  have w2: "touched w (w1\<lparr>storage := db\<rparr>)" using w1 touched_storage by blast
  have "onStoreValue cfg now msg q w = reply cfg now msg StoreValueResponse (w1\<lparr>storage := db\<rparr>)"
    using onStoreValue_put [OF assms(2) c [unfolded eqTrueI [OF ok]] assms(4)] assms(5) by simp
  also have "\<dots> = (w1\<lparr>storage := db, out := out w @ [Datagram (answer cfg w msg StoreValueResponse)]\<rparr>, None)"
    using reply_sent [of cfg "w1\<lparr>storage := db\<rparr>" msg now StoreValueResponse] touched_sends [OF w2] touched_out [OF w2] assms(1) by simp
  finally show thesis
  proof (rule that)
    show "server (w1\<lparr>storage := db, out := out w @ [Datagram (answer cfg w msg StoreValueResponse)]\<rparr>) = server w"
      using w1 by (cases w; cases w1) (simp add: touched_def)
  qed simp_all
qed

lemma get_after_put:
  assumes "healthy sql" "wf_storage nfc sha256 db" "wf_value v" "v_sequenceNumber v < 2 ^ 31"
    "db_putValue sha256 verify sql now v x p a db = Inr (db', old)"
    "MAX_VALUE_AGE \<le> now'" "now' < 2 ^ 63" "now \<le> now'" "now' - now \<le> MAX_VALUE_AGE"
  shows "db_getValue sql now' (value_getId sha256 v) db' = Inr (Some v)"
proof -
  have wf: "wf_storage nfc sha256 db'" by (rule db_putValue_wf [OF assms(2-5)])
  have m: "vmap db' = spec_put sha256 now v p a (vmap db)"
    using putValue_refines [OF assms(1-4), of verify now x p a] assms(5) by (auto split: if_splits)
  have "horizon now' \<le> bind_int64 now"
    using age_compare [OF assms(6-8)] assms(9) by (simp add: horizon_def bind_int64_def)
  then show ?thesis by (simp add: getValue_refines [OF assms(1) wf] m spec_get_def spec_put_def Let_def)
qed

section \<open>Nodes that change their id\<close>

lemma rt_remove_gone:
  assumes "rt_inv rt" "wf_id k" "rt_remove now k rt = Some rt'" "x \<in> set (rt_entries rt')"
  shows "nodeId x \<noteq> k"
proof
  assume k: "nodeId x = k"
  obtain b where b: "getBucket rt k = Some b" "b \<in> set (buckets rt)" "isPrefixOf (bprefix b) k" using getBucket_covers [OF assms(1,2)] .
  note inv = rt_invD(6) [OF assms(1)]
  have only: "c = b" if "c \<in> set (buckets rt)" "y \<in> set (entries c)" "nodeId y = k" for c y
    using covering_unique [OF assms(1) that(1) b(2) assms(2) _ b(3)] bucket_invD(4) [OF inv [OF that(1)] that(2)] that(3) by simp
  have wf: "wf_id (nodeId y)" if "y \<in> set (entries b)" for y
    using bucket_invD(5) [OF inv [OF b(2)] that] by (simp add: wf_node_def)
  show False
  proof (cases "bucket_get b k")
    case None
    then have "x \<in> set (rt_entries rt)" using assms(3,4) b(1) by (simp add: rt_remove_def)
    then obtain c where c: "c \<in> set (buckets rt)" "x \<in> set (entries c)" by (auto simp: set_rt_entries)
    then have "x \<in> set (entries b)" using only k by metis
    then show False using None k wf assms(2) by (auto simp: bucket_get_def findAny_def find_None_iff)
  next
    case (Some e)
    then have e: "e \<in> set (entries b)" "nodeId e = k"
      using wf assms(2) by (auto simp: bucket_get_def findAny_def dest!: findD)
    have rt': "rt' = on_bucket (bref b) (removeIfBad now e True) rt" using assms(3) b(1) Some by (simp add: rt_remove_def)
    have f: "removeIfBad now e True b = keep_entries (\<lambda>y. y \<noteq> e) b"
      using bucket_invD(3) [OF inv [OF b(2)]] e(1) by (intro removeIfBad_force) auto
    from assms(4) obtain c where c: "c \<in> set (buckets rt)" "x \<in> set (entries (if bref c = bref b then removeIfBad now e True c else c))"
      unfolding rt' by (auto simp: set_rt_entries on_bucket_def)
    show False
    proof (cases "bref c = bref b")
      case True
      then have "c = b" using bucket_by_ref [OF assms(1) c(1) b(2)] by simp
      then have "x \<in> set (entries b)" "x \<noteq> e" using c(2) f by (auto simp: keep_entries_def)
      then show False using k e bucket_invD(3) [OF inv [OF b(2)]] by (auto simp: entries_ok_def distinct_map inj_on_def)
    next
      case False
      then show False using c only [OF c(1), of x] k by auto
    qed
  qed
qed

lemma known_find_set: "known_find a m = Some k \<Longrightarrow> known_find a (known_set a i m) = Some i"
proof -
  have "find (\<lambda>x. same_addr (fst x) a) m = Some y \<Longrightarrow>
      known_find a (map (\<lambda>x. if same_addr (fst x) a then (fst x, i) else x) m) = Some i" for y
    by (induction m) (auto simp: known_find_def split: if_splits)
  then show "known_find a m = Some k \<Longrightarrow> known_find a (known_set a i m) = Some i"
    by (auto simp: known_set_def known_find_def [of a m])
qed

section \<open>A request for the other address family\<close>

lemma missing_family_undefined:
  assumes "otherDht w = None" "if dtype4 (dht w) then want6 q else want4 q"
  shows "populateClosestNodes cfg now w (lq_target q) (wanted (want4 q)) (wanted (want6 q)) r = None"
  using assms by (cases "dtype4 (dht w)") (auto simp: populateClosestNodes_def wanted_def MAX_ENTRIES_PER_BUCKET_def Let_def)

end
