(* ===== verification/Samples.thy ===== *)
theory Samples
  imports Routing_Reachability Dht_Service
begin

text \<open>
  Concrete data at which the properties are applied: ids that differ in their last byte, a routing table
  with one entry, and a value lookup in that table that has asked the entry and got a reply.
\<close>

unbundle bit_operations_syntax

section \<open>Nodes and tables\<close>

text \<open>Ids that differ in the last byte, a public address and a bucket entry.\<close>

definition sample_id :: "byte \<Rightarrow> Id" where
  "sample_id b = replicate 31 0 @ [b]"

definition sample_addr :: "byte \<Rightarrow> SocketAddress" where
  "sample_addr b = Inet4 [8, 8, 8, b] 39001"

definition sample_entry :: "nat \<Rightarrow> byte \<Rightarrow> KBucketEntry" where
  "sample_entry r b = (mkKBucketEntry r 1000 (sample_id b) (sample_addr b) 0)\<lparr>reachable := True\<rparr>"

definition sample_bucket :: KBucket where
  "sample_bucket = (mkKBucket 0 prefix_all True)\<lparr>entries := [sample_entry 1 1]\<rparr>"

definition sample_table :: RoutingTable where
  "sample_table = (newRoutingTable MIN_ID)\<lparr>buckets := [sample_bucket]\<rparr>"

lemma wf_sample [simp]:
  "wf_id (sample_id b)" "wf_addr (sample_addr b)" "wf_node (sample_entry r b)" "wf_node (mkKBucketEntry r t (sample_id b) (sample_addr c) v)"
  by (simp_all add: wf_id_def sample_id_def sample_addr_def wf_node_def sample_entry_def mkKBucketEntry_def)

lemma sample_entry_simps [simp]:
  "nodeId (sample_entry r b) = sample_id b" "sockaddr (sample_entry r b) = sample_addr b" "eref (sample_entry r b) = r"
  "reachable (sample_entry r b)" "sample_id b = sample_id c \<longleftrightarrow> b = c" "sample_addr b = sample_addr c \<longleftrightarrow> b = c"
  by (simp_all add: sample_entry_def mkKBucketEntry_def sample_id_def sample_addr_def)

lemma id_val_sample [simp]: "id_val (sample_id b) = unat b"
proof -
  have "id_val (replicate n 0) = 0" for n by (induction n) (simp_all add: id_val_Cons)
  then show ?thesis by (simp add: sample_id_def id_val_snoc)
qed

lemma sample_id_MIN: "b \<noteq> 0 \<Longrightarrow> MIN_ID \<noteq> sample_id b"
  using id_val_sample [of b] by (metis id_val_MIN_ID unat_eq_0)

lemma sample_bucket_simps [simp]:
  "entries sample_bucket = [sample_entry 1 1]" "bprefix sample_bucket = prefix_all" "bref sample_bucket = 0"
  "homeBucket sample_bucket = True"
  using prefix_all_val by (simp_all add: sample_bucket_def mkKBucket_simps)

lemma sample_bucket_inv [simp]: "bucket_inv sample_bucket"
  using prefix_all_val by (simp add: bucket_inv_def entries_ok_def prefix_all_covers MAX_ENTRIES_PER_BUCKET_def)

lemma sample_table_inv [simp]: "rt_inv sample_table"
proof -
  have "tiles 0 [prefix_all] (2 ^ 256)" unfolding tiles.simps prefix_all_val by simp
  then show ?thesis
    by (simp add: rt_inv_def sample_table_def newRoutingTable_def bucket_ok_def isHomeBucket_def prefix_all_covers
        rt_entries_def refs_ok_def fresh_for_def del: tiles.simps)
qed

lemma sample_table_simps [simp]:
  "buckets sample_table = [sample_bucket]" "rt_entries sample_table = [sample_entry 1 1]" "timeOfLastPingCheck sample_table = 0"
  "localId sample_table = MIN_ID" "isSplittable prefix_all"
  using prefix_all_val by (simp_all add: sample_table_def newRoutingTable_def rt_entries_def isSplittable_def)

section \<open>A lookup\<close>

definition sample_ctx :: TaskCtx where
  "sample_ctx = \<lparr>tnow = 1000, myEntry = mkKBucketEntry 0 1000 MIN_ID (sample_addr 9) 0, isIPv4 = True, table = sample_table, bootstraps = [],
     entryAt = \<lambda>_. sample_entry 1 1, hash256 = id, verify_sig = \<lambda>_ _ _. True\<rparr>"

lemma sample_closest:
  "closest_list sample_ctx (defaultKClosestNodes (sample_id 5) 16) = Some [(node_of (sample_entry 1 1), Some True)]"
proof -
  from indexOf_finds [OF sample_table_inv wf_sample(1)] have ix: "indexOf [sample_bucket] (sample_id 5) = Some 0" by auto
  let ?k = "insertEntries sample_bucket (defaultKClosestNodes (sample_id 5) 16)"
  have el: "isEligibleForNodesList (sample_entry 1 1)"
    by (simp add: isEligibleForNodesList_def sample_entry_def mkKBucketEntry_def)
  have k: "kentries ?k = [Own (sample_entry 1 1)]" "maxEntries ?k = 16"
    using el by (simp_all add: insertEntries_def defaultKClosestNodes_def mkKClosestNodes_def)
  have "fill_loop [sample_bucket] 0 0 ?k = Some ?k" by (subst fill_loop.simps) simp
  then have "kcn_collect sample_table (defaultKClosestNodes (sample_id 5) 16) = Some ?k"
    by (simp add: kcn_collect_def ix list_get_def defaultKClosestNodes_def mkKClosestNodes_def del: fill_loop.simps)
  moreover have "shave ?k = ?k" by (rule shave_noop) (simp_all add: k)
  ultimately have "kcn_fill [] u e False sample_table (defaultKClosestNodes (sample_id 5) 16) = Some ?k" for u e
    by (simp add: kcn_fill_def)
  then show ?thesis by (simp add: closest_list_def sample_ctx_def k node_of_def)
qed

text \<open>A lookup of a value in a table with one entry.\<close>

definition sample_lookup :: "nat Run" where
  "sample_lookup = \<lparr>task = newTask 1 (ValueLookup (mkLookupTask (sample_id 5)) (-1) \<lparr>vh_option = CONSERVATIVE, vh_value = None\<rparr>),
     nextCall = 3, emitted = [], fault = None\<rparr>"

lemma sample_ctx_ok: "ctx_ok sample_ctx"
  by (simp add: ctx_ok_def sample_ctx_def)

lemma sample_addr_ok: "isBogon (sample_addr 1) = Some False" "MIN_ID \<noteq> sample_id 1"
proof -
  have "replicate 4 x = [x, x, x, x]" for x :: byte by (simp add: eval_nat_numeral)
  then show "isBogon (sample_addr 1) = Some False" by (simp add: isBogon_def isGlobalUnicast_Inet4 sample_addr_def)
  show "MIN_ID \<noteq> sample_id 1" using id_val_MIN_ID id_val_sample [of 1] by force
qed

text \<open>The candidate that the entry of the table becomes, and a lookup that knows only this candidate.\<close>

definition cand1 :: CandidateNode where
  "cand1 = mkCandidateNode (node_of (sample_entry 1 1)) (Some True)"

definition lookup1 :: "CandidateNode \<Rightarrow> LookupTask" where
  "lookup1 c = \<lparr>lt_target = sample_id 5, closestSet = mkClosestSet (sample_id 5) 8,
     closestCandidates = \<lparr>cc_target = sample_id 5, cc_capacity = 24, dedup_ids = [sample_id 1], dedups_addrs = [sample_addr 1], cc_closest = [c]\<rparr>\<rparr>"

lemma lookup1_simps:
  "addCandidates sample_ctx [(node_of (sample_entry 1 1), Some True)] (mkLookupTask (sample_id 5)) = lookup1 cand1"
  "\<not> lookup_isDone (lookup1 c)" "cisEligible c \<Longrightarrow> cc_next (closestCandidates (lookup1 c)) = Some c"
  "\<not> cisEligible c \<Longrightarrow> cc_next (closestCandidates (lookup1 c)) = None"
  "nodeId c = sample_id 1 \<Longrightarrow> on_candidate (sample_id 1) f (lookup1 c) = lookup1 (f c)" "lt_target (lookup1 c) = sample_id 5"
  using sample_addr_ok
  by (simp_all add: addCandidates_def mkLookupTask_def lookup1_def cc_add_def mkClosestCandidates_def set_insert_def cc_trim_def list_sort_def
     sample_ctx_def node_of_def cs_contains_def mkClosestSet_def MAX_ENTRIES_PER_BUCKET_def mkKBucketEntry_def lookup_isDone_def
     cs_isEligible_def cs_reachedCapacity_def cc_next_def on_candidate_def cand1_def)


lemma cand1_simps [simp]: "nodeId cand1 = sample_id 1" "cisEligible cand1" "\<not> cisEligible (setSent 1000 c)" "nodeId (setSent 1000 c) = nodeId c" "creachable cand1"
  by (simp_all add: cand1_def mkCandidateNode_def Let_def NodeInfo_copy_def cisEligible_def node_of_def setSent_def)

text \<open>The lookup once it is started: the candidate has been asked.\<close>

definition asked1 :: "nat Run" where
  "asked1 = \<lparr>task = (newTask 1 (ValueLookup (lookup1 (setSent 1000 cand1)) (-1) \<lparr>vh_option = CONSERVATIVE, vh_value = None\<rparr>))
       \<lparr>taskState := RUNNING, tstart := 1000, inFlight := [(3, sample_id 1)]\<rparr>,
     nextCall = 4, emitted = [SubmitCall (mkRPCCall 3 (node_of cand1) (Some True)
        (mkMessage (FindValueRequest (want True (mkFindValueRequest (sample_id 5))) (-1)) 0))], fault = None\<rparr>"

lemma sample_start: "start sample_ctx sample_lookup = Some asked1"
proof -
  let ?t = "newTask 1 (ValueLookup (mkLookupTask (sample_id 5)) (-1) \<lparr>vh_option = CONSERVATIVE, vh_value = None\<rparr>) :: nat Task"
  let ?r = "\<lparr>task = ?t\<lparr>taskState := RUNNING, tstart := 1000\<rparr>, nextCall = 3, emitted = [], fault = None\<rparr> :: nat Run"
  let ?p = "set_kind (ValueLookup (lookup1 cand1) (-1) \<lparr>vh_option = CONSERVATIVE, vh_value = None\<rparr>) ?r"
  have t: "tnow sample_ctx = 1000" "isIPv4 sample_ctx" by (simp_all add: sample_ctx_def)
  have "kind_closest (ValueLookup (mkLookupTask (sample_id 5)) s h) = Some (defaultKClosestNodes (sample_id 5) 16)" for s h
    by (simp add: mkLookupTask_def MAX_ENTRIES_PER_BUCKET_def)
  then have "prepare sample_ctx ?r = ?p"
    by (simp add: prepare_def newTask_def sample_closest lookup1_simps(1) del: One_nat_def)
  then have "start sample_ctx sample_lookup = serializedUpdate sample_ctx ?p"
    by (simp add: start_def sample_lookup_def setState_def newTask_def t)
  also have "\<dots> = Some (one_update sample_ctx ?p)" by (rule serializedUpdate_once) (simp add: run_defs newTask_def)
  also have "one_update sample_ctx ?p = asked1"
    by (simp add: one_update_def update_round_def isDone_def run_defs newTask_def lookup1_simps update_def canDoRequest_def MAX_CONCURRENT_TASK_REQUESTS_def
      isTerminal_def lookup_update.simps task_sendCall_def t asked1_def Let_def)
  finally show ?thesis .
qed

text \<open>The call when a reply came that carries another id.\<close>

definition spoofed_call :: RPCCall where
  "spoofed_call = (mkRPCCall 3 (node_of cand1) (Some True) (mkMessage PingRequest 1))
     \<lparr>cstate := RESPONDED, response := Some ((mkMessage (FindValueResponse default_response default_fields) 1)
        \<lparr>mid := sample_id 2, morigin := sample_addr 1\<rparr>)\<rparr>"

lemma spoofed_call_simps [simp]:
  "call_ref spoofed_call = 3" "targetId spoofed_call = sample_id 1" "matchesId spoofed_call = Some False"
  by (simp_all add: spoofed_call_def mkRPCCall_def node_of_def [of cand1] matchesId_def mkMessage_def)

lemma spoofed_response:
  "\<exists>msg. response spoofed_call = Some msg \<and> body msg = FindValueResponse default_response default_fields \<and> msg_ok msg"
  by (simp add: spoofed_call_def mkMessage_def msg_ok_def default_response_def)

lemma sample_stall: "\<exists>r. callStateChanged sample_ctx spoofed_call RESPONDED asked1 = Some r \<and> taskState (task r) = RUNNING
    \<and> inFlight (task r) = [] \<and> fault r = None \<and> (\<exists>lt s h. kind (task r) = ValueLookup lt s h)"
proof -
  from spoofed_response obtain msg where m: "response spoofed_call = Some msg" "body msg = FindValueResponse default_response default_fields"
    by blast
  let ?d = "on_task (removeCall 3) asked1"
  have "task_callResponsed sample_ctx spoofed_call msg ?d = ?d"
    using m(2) by (simp add: task_callResponsed_def value_callResponsed_def asked1_def on_task_def removeCall_def newTask_def)
  then have "callStateChanged sample_ctx spoofed_call RESPONDED asked1 = serializedUpdate sample_ctx ?d"
    using m(1) by (simp add: callStateChanged_def asked1_def isTerminal_def on_task_def)
  also have "\<dots> = Some (one_update sample_ctx ?d)" by (rule serializedUpdate_once) (simp add: run_defs asked1_def newTask_def removeCall_def)
  finally show ?thesis
    by (simp add: one_update_def update_round_def isDone_def run_defs newTask_def lookup1_simps update_def canDoRequest_def MAX_CONCURRENT_TASK_REQUESTS_def
      isTerminal_def lookup_update.simps asked1_def Let_def removeCall_def)
qed

lemma asked1_reachable: "task_reachable P asked1"
proof -
  have "task_reachable P sample_lookup"
    unfolding sample_lookup_def by (rule task_reachable.new) (auto intro!: exI [of _ "sample_id 5"])
  then show ?thesis by (rule task_reachable.start [OF _ _ sample_ctx_ok sample_start]) (simp add: sample_lookup_def)
qed

definition sample_manager :: "nat TaskManager" where
  "sample_manager = (newTaskManager 3)\<lparr>tasks := [1 \<mapsto> (task sample_lookup)\<lparr>taskState := QUEUED\<rparr>], queued := [1]\<rparr>"

lemma sample_manager_inv: "tm_inv sample_manager" "nested_ok sample_manager 2"
  by (auto simp: tm_inv_def task_ok_def nested_ok_def sample_manager_def newTaskManager_def sample_lookup_def newTask_def split: if_splits)

section \<open>A node\<close>

definition sample_value :: Value where
  "sample_value = Value_default\<lparr>v_publicKey := Some (sample_id 1), v_nonce := Some (replicate 24 7),
     v_signature := Some (replicate 64 9), v_sequenceNumber := 70000, v_data := [1, 2, 3]\<rparr>"

definition sample_peer :: PeerInfo where
  "sample_peer = \<lparr>p_publicKey = sample_id 1, p_privateKey = None, p_nodeId = sample_id 2, p_origin = sample_id 3,
     p_port = 8080, p_alternativeURL = Some ''http://example.com'', p_signature = replicate 64 1\<rparr>"

definition sample_env :: Env where
  "sample_env = \<lparr>sendto = \<lambda>_. Sent, nodeVersion = 1, addr_string = \<lambda>_. ''''\<rparr>"

definition sample_server :: RPCServer where
  "sample_server = \<lparr>self = MIN_ID, hasSock4 = True, hasSock6 = False, hasDht4 = True, hasDht6 = False, calls = Map.empty, nextTxid = 1,
     isReachable = False, messagesAtLastReachableCheck = 0, lastReachableCheck = 0, startTime = 0, receivedMessages = 0, messageQueue = []\<rparr>"

definition sample_sqlite :: Sqlite where
  "sample_sqlite = \<lparr>prepares = \<lambda>_. True, steps = \<lambda>_ _. True, value_order = id, peer_order = id\<rparr>"

definition sample_storage :: Storage where
  "sample_storage = \<lparr>valores = [], peersTable = [], user_version = 4, inTransaction = False\<rparr>"

definition sample_config :: Config where
  "sample_config = \<lparr>rpcEnv = sample_env, sqlite = sample_sqlite, sha_256 = \<lambda>_. replicate 32 0, verify_sign = \<lambda>_ _ _. True,
     unf_nfc = Some, configBootstraps = [], lostEntry = \<lambda>r. mkKBucketEntry r 0 MIN_ID Unspec 0\<rparr>"

definition sample_dht :: DHT where
  "sample_dht = \<lparr>dtype4 = True, dnode = MIN_ID, daddr = sample_addr 9, rtable = sample_table, bootstrapNodes = [],
     knownNodes = [(sample_addr 1, sample_id 1)], bootstrapping = False, lastBootstrap = 0, lastSave = 0, drunning = True,
     persistFile = []\<rparr>"

definition sample_world :: World where
  "sample_world = \<lparr>dht = sample_dht, otherDht = None, server = sample_server, tokenMan = newTokenManager 0 [], storage = sample_storage,
     taskMan = newTaskManager 0, taskNames = 0, entryNames = 2, boot_round = \<lparr>rcalls = [], rnodes = [], rcount = 0, rlen = 0\<rparr>, out = [],
     completions = [], saved = [], sched = newScheduler 0\<rparr>"

lemmas sample_world_defs = sample_world_def sample_dht_def sample_config_def sample_env_def sample_server_def sample_storage_def sample_sqlite_def

lemma sample_healthy [simp]: "healthy sample_sqlite"
  by (simp add: healthy_def sample_sqlite_def)

lemma sample_storage_wf [simp]: "wf_storage nfc sha256 sample_storage"
  by (simp add: wf_storage_def sample_storage_def)

lemma sample_world_ok [simp]: "world_ok sample_config sample_world" "config_ok sample_config"
  by (simp_all add: world_ok_def table_ok_def config_ok_def sample_world_def sample_dht_def sample_config_def sample_env_def
      sample_server_def pending_ok_def tm_inv_def newTaskManager_def)

text \<open>A message from the node with the last byte \<open>b\<close> at the address with the last byte \<open>a\<close>.\<close>

definition sample_message :: "byte \<Rightarrow> byte \<Rightarrow> Body \<Rightarrow> Message" where
  "sample_message b a bd = (mkMessage bd 7)\<lparr>mid := sample_id b, morigin := sample_addr a\<rparr>"

lemma sample_message_simps [simp]:
  "mid (sample_message b a bd) = sample_id b" "morigin (sample_message b a bd) = sample_addr a" "body (sample_message b a bd) = bd"
  "txid (sample_message b a bd) = 7"
  by (simp_all add: sample_message_def mkMessage_def)

lemma sample_sends [simp]: "sends sample_config sample_world (sample_message b a bd)"
  by (simp add: sends_def can_send_def sample_world_defs sample_addr_def)

lemma sample_libraries [simp]: "nfc_ok Some" "libraries_ok (unf_nfc sample_config) (sqlite sample_config)"
proof -
  show n: "nfc_ok Some" by (auto simp: nfc_ok_def c_str_def dest: set_takeWhileD)
  show "libraries_ok (unf_nfc sample_config) (sqlite sample_config)"
    using n by (simp add: libraries_ok_def sample_config_def sample_sqlite_def)
qed

lemma sample_addr_public [simp]: "isBogon (sample_addr b) = Some False"
proof -
  have "replicate 4 c = [c, c, c, c]" for c :: byte by (simp add: numeral_eq_Suc)
  then show ?thesis by (simp add: isBogon_def sample_addr_def isGlobalUnicast_Inet4)
qed

end
