(* ===== verification/Message_Roundtrips.thy ===== *)
theory Message_Roundtrips
  imports Messages
begin

text \<open>
  What a node writes another node reads back: parsing the serialized form of a well-formed message
  gives the message, for every kind of message, apart from what the wire format loses. That is \<open>received_body\<close>: the
  version of a node, the flow and scope of its address, the private key of a peer, and the sequence number of a store
  request beyond 16 bits. The codec need only be faithful on the JSON values of \<open>codec_json\<close>, which the messages are shown to
  be.
\<close>

section \<open>Well-formed messages\<close>

definition int_range :: "int \<Rightarrow> bool" where
  "int_range n \<longleftrightarrow> - (2 ^ 31) \<le> n \<and> n < 2 ^ 31"

definition seq_range :: "int \<Rightarrow> int \<Rightarrow> bool" where
  "seq_range bound n \<longleftrightarrow> n = -1 \<or> (0 \<le> n \<and> n < bound)"

fun wire_addr :: "SocketAddress \<Rightarrow> bool" where
  "wire_addr Unspec = False"
| "wire_addr (Inet4 ip port) = (length ip = 4)"
| "wire_addr (Inet6 ip port flow scope) = (length ip = 16)"

definition wire_node :: "NodeInfo \<Rightarrow> bool" where
  "wire_node n \<longleftrightarrow> wf_id (nodeId n) \<and> wire_addr (sockaddr n)"

definition wire_response :: "LookupResponse \<Rightarrow> bool" where
  "wire_response r \<longleftrightarrow> (\<forall>n\<in>set (nodes4 r). wire_node n) \<and> (\<forall>n\<in>set (nodes6 r). wire_node n) \<and> int_range (ltoken r)"

definition wire_fields :: "int \<Rightarrow> 'a ValueFields_scheme \<Rightarrow> bool" where
  "wire_fields bound f \<longleftrightarrow>
     (case vf_publicKey f of
        None \<Rightarrow> vf_recipient f = None \<and> vf_nonce f = None \<and> vf_signature f = None \<and> vf_sequenceNumber f = -1
      | Some pk \<Rightarrow> wf_id pk \<and> (\<forall>r. vf_recipient f = Some r \<longrightarrow> wf_id r) \<and> (\<exists>n. vf_nonce f = Some n \<and> length n = NONCE_BYTES)
          \<and> (\<exists>s. vf_signature f = Some s) \<and> seq_range bound (vf_sequenceNumber f))"

text \<open>A text in UTF-8: one that can be normalised.\<close>

definition utf8 :: "(string \<Rightarrow> string option) \<Rightarrow> string \<Rightarrow> bool" where
  "utf8 nfc s \<longleftrightarrow> s = [] \<or> nfc s \<noteq> None"

definition wire_peer :: "(string \<Rightarrow> string option) \<Rightarrow> PeerInfo \<Rightarrow> bool" where
  "wire_peer nfc p \<longleftrightarrow> wf_id (p_publicKey p) \<and> wf_id (p_nodeId p) \<and> wf_id (p_origin p)
     \<and> p_port p \<noteq> 0 \<and> (\<forall>u. p_alternativeURL p = Some u \<longrightarrow> normalised nfc u) \<and> length (p_signature p) = SIGNATURE_BYTES"

fun wire_body :: "(string \<Rightarrow> string option) \<Rightarrow> Body \<Rightarrow> bool" where
  "wire_body nfc (FindNodeRequest q) = wf_id (lq_target q)"
| "wire_body nfc (FindPeerRequest q) = wf_id (lq_target q)"
| "wire_body nfc (FindValueRequest q n) = (wf_id (lq_target q) \<and> seq_range (2 ^ 31) n)"
| "wire_body nfc (AnnounceRequest q) = (int_range (ap_token q) \<and> wf_id (ap_peerId q) \<and> (\<forall>i. ap_nodeId q = Some i \<longrightarrow> wf_id i)
      \<and> utf8 nfc (ap_alternativeURL q))"
| "wire_body nfc (StoreRequest q) = (int_range (sv_token q) \<and> wire_fields (2 ^ 31) q
      \<and> seq_range (2 ^ 31) (expectedSequenceNumber q) \<and> (vf_publicKey q = None \<longrightarrow> expectedSequenceNumber q = -1))"
| "wire_body nfc (FindNodeResponse r) = wire_response r"
| "wire_body nfc (FindPeerResponse r ps) = (wire_response r \<and> (\<forall>p\<in>set ps. wire_peer nfc p))"
| "wire_body nfc (FindValueResponse r f) = (wire_response r \<and> wire_fields (2 ^ 31) f)"
| "wire_body nfc (ErrorBody m c s) = (int_range c \<and> utf8 nfc s)"
| "wire_body nfc _ = True"

definition wire_message :: "(string \<Rightarrow> string option) \<Rightarrow> Message \<Rightarrow> bool" where
  "wire_message nfc m \<longleftrightarrow> wire_body nfc (body m) \<and> int_range (txid m) \<and> int_range (mversion m)"

text \<open>What arrives.\<close>

fun received_addr :: "SocketAddress \<Rightarrow> SocketAddress" where
  "received_addr (Inet6 ip port flow scope) = Inet6 ip port [0, 0, 0, 0] [0, 0, 0, 0]"
| "received_addr a = a"

definition received_node :: "NodeInfo \<Rightarrow> NodeInfo" where
  "received_node n = \<lparr>nodeId = nodeId n, sockaddr = received_addr (sockaddr n), version = 0\<rparr>"

definition received_response :: "LookupResponse \<Rightarrow> LookupResponse" where
  "received_response r = r\<lparr>nodes4 := map received_node (nodes4 r), nodes6 := map received_node (nodes6 r)\<rparr>"

fun received_body :: "Body \<Rightarrow> Body" where
  "received_body (StoreRequest q) =
     StoreRequest (if vf_sequenceNumber q \<ge> 0 then q\<lparr>vf_sequenceNumber := vf_sequenceNumber q mod 2 ^ 16\<rparr> else q)"
| "received_body (FindNodeResponse r) = FindNodeResponse (received_response r)"
| "received_body (FindPeerResponse r ps) =
     FindPeerResponse (received_response r) (map (\<lambda>p. p\<lparr>p_publicKey := p_publicKey (hd ps), p_privateKey := None\<rparr>) ps)"
| "received_body (FindValueResponse r f) = FindValueResponse (received_response r) f"
| "received_body b = b"

section \<open>The parts\<close>

lemma int32_range: "int_range n \<Longrightarrow> int32 n = n"
  by (simp add: int_range_def int32_id)

lemma int32_seq: "seq_range b n \<Longrightarrow> b \<le> 2 ^ 31 \<Longrightarrow> int32 n = n"
  by (intro int32_id) (auto simp: seq_range_def)

lemma id_json_roundtrip [simp]: "wf_id i \<Longrightarrow> id_from_json (id_to_json i) = Inr i"
  by (simp add: id_from_json_def id_to_json_def)

lemma node_json_roundtrip:
  assumes "wire_node n"
  shows "node_from_json (node_to_json n) = Inr (received_node n)"
proof -
  have p: "int32 (uint (p :: u16)) = uint p" for p
  proof -
    have "0 \<le> uint p" "uint p < 65536" using uint_bounded [of p] by simp_all
    then have "- (2 ^ 31) \<le> uint p" "uint p < 2 ^ 31" by (auto intro: order_trans [of _ 0])
    then show ?thesis by (rule int32_id)
  qed
  obtain i a v where n: "n = \<lparr>nodeId = i, sockaddr = a, version = v\<rparr>" by (cases n)
  with assms show ?thesis
    by (cases a) (auto simp: wire_node_def received_node_def node_from_json_def node_to_json_def id_to_json_def mkSocketAddress_def p)
qed

lemma nodes_json_roundtrip:
  "\<forall>n\<in>set ns. wire_node n \<Longrightarrow> parse_nodes (JArr (map node_to_json ns)) [] = Inr (map received_node ns)"
proof -
  assume "\<forall>n\<in>set ns. wire_node n"
  then have "map_result node_from_json (map node_to_json ns) = Inr (map received_node ns)"
    by (induction ns) (auto simp: node_json_roundtrip)
  then show ?thesis by (simp add: parse_nodes_def)
qed

lemma want_roundtrip: "setWant (int32 (getWant q)) q' = q'\<lparr>want4 := want4 q, want6 := want6 q, wantToken := wantToken q\<rparr>"
  by (cases "want4 q"; cases "want6 q"; cases "wantToken q") (simp_all add: getWant_def setWant_def int32_id)

lemma lookup_roundtrip:
  "wf_id (lq_target q) \<Longrightarrow> fold_items parse_lookup_item default_lookup (serialize_lookup q) = Inr q"
  by (simp add: serialize_lookup_def obj_of_def parse_lookup_item_def want_roundtrip default_lookup_def)

lemma find_value_roundtrip:
  "wf_id (lq_target q) \<Longrightarrow> seq_range (2 ^ 31) n \<Longrightarrow>
    fold_items parse_find_value_item (default_lookup, -1) (put_if (n \<ge> 0) ''seq'' (JInt n) (serialize_lookup q)) = Inr (q, n)"
  using int32_seq [of "2 ^ 31" n]
  by (auto simp: serialize_lookup_def obj_of_def put_if_def parse_find_value_item_def parse_lookup_item_def want_roundtrip
      default_lookup_def seq_range_def)

lemma response_roundtrip:
  assumes "wire_response r"
  shows "fold_items (parse_response_item extra) (default_response, a) (serialize_response r) = Inr (received_response r, a)"
  using assms nodes_json_roundtrip [of "nodes4 r"] nodes_json_roundtrip [of "nodes6 r"] int32_range [of "ltoken r"]
  by (cases "nodes4 r = []"; cases "nodes6 r = []"; cases "ltoken r = 0")
    (auto simp: wire_response_def serialize_response_def serialize_nodes_def put_if_def parse_response_item_def
      default_response_def received_response_def Let_def)

lemma u16_roundtrip [simp]: "word_of_int (uint (p :: u16)) = p"
  by simp

lemma announce_roundtrip:
  assumes "int_range (ap_token q)" "wf_id (ap_peerId q)" "\<forall>i. ap_nodeId q = Some i \<longrightarrow> wf_id i"
  shows "fold_items parse_announce_item default_announce (serialize_announce q) = Inr q"
  using assms int32_range [of "ap_token q"]
  by (cases q; cases "ap_nodeId q"; cases "ap_alternativeURL q = []")
    (auto simp: serialize_announce_def obj_of_def put_if_def parse_announce_item_def default_announce_def Let_def)

lemma peer_roundtrip:
  assumes "wire_peer nfc p" "wf_id pk"
  shows "parse_peer nfc pk (peer_to_json p) = Inr (p\<lparr>p_publicKey := pk, p_privateKey := None\<rparr>)"
  using assms
  by (cases p; cases "p_alternativeURL p")
    (auto simp: wire_peer_def parse_peer_def peer_to_json_def id_to_json_def PeerInfo_of_def isDelegated_def wf_id_def normal_url_same)

lemma peers_roundtrip:
  assumes "\<forall>p\<in>set ps. wire_peer nfc p" "wf_id pk"
  shows "parse_peers_loop nfc pk acc (map peer_to_json ps) = Inr (acc @ map (\<lambda>p. p\<lparr>p_publicKey := pk, p_privateKey := None\<rparr>) ps)"
  using assms
proof (induction ps arbitrary: acc)
  case (Cons p ps)
  have "is_array (peer_to_json p)" by (simp add: peer_to_json_def)
  with Cons show ?case by (simp add: peer_roundtrip)
qed simp

text \<open>The keys of the lookup response in the order in which the object keeps them.\<close>

lemma serialize_response_items:
  "serialize_response r =
    (if nodes4 r = [] then [] else [(''n4'', JArr (map node_to_json (nodes4 r)))])
    @ (if nodes6 r = [] then [] else [(''n6'', JArr (map node_to_json (nodes6 r)))])
    @ (if ltoken r = 0 then [] else [(''tok'', JInt (ltoken r))])"
  by (simp add: serialize_response_def serialize_nodes_def put_if_def)

lemma find_peer_roundtrip:
  assumes "wire_response r" "\<forall>p\<in>set ps. wire_peer nfc p"
  shows "fold_items (parse_response_item (parse_peers nfc)) (default_response, []) (serialize_peers ps (serialize_response r)) =
    Inr (received_response r, map (\<lambda>p. p\<lparr>p_publicKey := p_publicKey (hd ps), p_privateKey := None\<rparr>) ps)"
proof (cases ps)
  case Nil
  then show ?thesis using response_roundtrip [OF assms(1)] by (simp add: serialize_peers_def)
next
  case (Cons p qs)
  have pk: "wf_id (p_publicKey p)" using assms(2) Cons by (auto simp: wire_peer_def)
  have "parse_peers nfc [] ''p'' (JArr (id_to_json (p_publicKey p) # map peer_to_json ps)) =
      Inr (map (\<lambda>q. q\<lparr>p_publicKey := p_publicKey p, p_privateKey := None\<rparr>) ps)"
    using peers_roundtrip [OF assms(2) pk, of "[]"] pk by (simp add: parse_peers_def id_to_json_def)
  with Cons assms(1) nodes_json_roundtrip [of "nodes4 r"] nodes_json_roundtrip [of "nodes6 r"] int32_range [of "ltoken r"]
  show ?thesis
    by (cases "nodes4 r = []"; cases "nodes6 r = []"; cases "ltoken r = 0")
      (auto simp: wire_response_def serialize_response_items serialize_peers_def parse_response_item_def default_response_def received_response_def Let_def)
qed

lemma store_roundtrip:
  assumes "int_range (sv_token q)" "wire_fields (2 ^ 31) q" "seq_range (2 ^ 31) (expectedSequenceNumber q)"
    "vf_publicKey q = None \<longrightarrow> expectedSequenceNumber q = -1"
  defines "q' \<equiv> if vf_sequenceNumber q \<ge> 0 then q\<lparr>vf_sequenceNumber := vf_sequenceNumber q mod 2 ^ 16\<rparr> else q"
  obtains obj where "serialize_store q = Inr obj" "fold_items parse_store_item default_store obj = Inr q'"
proof -
  have u: "uint (word_of_int n :: u16) = n mod 2 ^ 16" for n
    by (simp add: uint_word_of_int)
  have i: "int32 (sv_token q) = sv_token q" "int32 (expectedSequenceNumber q) = expectedSequenceNumber q"
    using assms int32_range int32_seq by auto
  have "\<exists>obj. serialize_store q = Inr obj \<and> fold_items parse_store_item default_store obj = Inr q'"
    using assms(1-4) i u
    by (cases q; cases "vf_publicKey q"; cases "vf_recipient q"; cases "vf_sequenceNumber q \<ge> 0"; cases "expectedSequenceNumber q \<ge> 0")
      (auto simp: serialize_store_def put_if_def parse_store_item_def default_store_def wire_fields_def seq_range_def Let_def opt_value_def q'_def)
  then show ?thesis using that by blast
qed

text \<open>A parser of the fields of a value does not look at the keys of the lookup response.\<close>

lemma parse_response_extra:
  "key \<notin> {''n4'', ''n6'', ''tok''} \<Longrightarrow>
    parse_response_item extra (r, a) key v = bind_result (extra a key v) (\<lambda>a. Inr (r, a))"
  by (auto simp: parse_response_item_def Let_def)

lemma value_fields_roundtrip:
  assumes r: "wire_response r" and f: "wire_fields (2 ^ 31) f"
  obtains obj where "serialize_value_fields f (serialize_response r) = Inr obj"
    "fold_items (parse_response_item parse_value_field) (default_response, default_fields) obj = Inr (received_response r, f)"
proof -
  have n: "parse_nodes (JArr (map node_to_json (nodes4 r))) [] = Inr (map received_node (nodes4 r))"
    "parse_nodes (JArr (map node_to_json (nodes6 r))) [] = Inr (map received_node (nodes6 r))" "int32 (ltoken r) = ltoken r"
    using r nodes_json_roundtrip int32_range by (auto simp: wire_response_def)
  have i: "int32 (vf_sequenceNumber f) = vf_sequenceNumber f" if "vf_publicKey f \<noteq> None"
    using f that int32_seq by (auto simp: wire_fields_def)
  have "\<exists>obj. serialize_value_fields f (serialize_response r) = Inr obj \<and>
    fold_items (parse_response_item parse_value_field) (default_response, default_fields) obj = Inr (received_response r, f)"
    using f n i
    by (cases f; cases "nodes4 r = []"; cases "nodes6 r = []"; cases "ltoken r = 0"; cases "vf_publicKey f";
        cases "vf_recipient f"; cases "vf_sequenceNumber f \<ge> 0"; cases "vf_value f = []")
      (auto simp: serialize_value_fields_def serialize_response_items put_if_def parse_response_item_def parse_value_field_def
        default_fields_def default_response_def received_response_def wire_fields_def seq_range_def Let_def opt_value_def)
  then show ?thesis using that by blast
qed

section \<open>Whole messages\<close>

lemma type_roundtrip: "ofType (message_type t m) = Inr t" "ofMethod (message_type t m) = Inr m"
  by (cases t; cases m; simp add: ofType_def ofMethod_def message_type_def)+

text \<open>The body with the contents its default constructor gives it.\<close>

fun default_body :: "Body \<Rightarrow> Body" where
  "default_body (FindNodeRequest _) = FindNodeRequest default_lookup"
| "default_body (AnnounceRequest _) = AnnounceRequest default_announce"
| "default_body (FindPeerRequest _) = FindPeerRequest default_lookup"
| "default_body (StoreRequest _) = StoreRequest default_store"
| "default_body (FindValueRequest _ _) = FindValueRequest default_lookup (-1)"
| "default_body (FindNodeResponse _) = FindNodeResponse default_response"
| "default_body (FindPeerResponse _ _) = FindPeerResponse default_response []"
| "default_body (FindValueResponse _ _) = FindValueResponse default_response default_fields"
| "default_body (ErrorBody m _ _) = ErrorBody m 0 ''''"
| "default_body b = b"

lemma createMessage_default: "createMessage (message_type (body_type b) (body_method b)) = Inr (default_body b)"
  by (cases b) (simp_all add: createMessage_def type_roundtrip)

lemma body_roundtrip:
  assumes "wire_body nfc b"
  obtains (none) "serialize_body b = Inr None" "default_body b = b" "received_body b = b"
  | (some) obj where "serialize_body b = Inr (Some obj)"
      "parse_body nfc (key_of_type (body_type b)) (JObj obj) (default_body b) = Inr (received_body b)"
proof (cases b)
  case (StoreRequest q)
  then obtain obj where "serialize_store q = Inr obj" "fold_items parse_store_item default_store obj
      = Inr (if vf_sequenceNumber q \<ge> 0 then q\<lparr>vf_sequenceNumber := vf_sequenceNumber q mod 2 ^ 16\<rparr> else q)"
    using assms by (auto intro: store_roundtrip [of q])
  with StoreRequest show ?thesis by (intro some [of obj]) (simp_all add: parse_object_def)
next
  case (FindPeerResponse r ps)
  then have "wire_response r" "\<forall>p\<in>set ps. wire_peer nfc p" using assms by auto
  from find_peer_roundtrip [OF this] FindPeerResponse show ?thesis by (intro some) (simp_all add: parse_object_def)
next
  case (FindValueResponse r f)
  then obtain obj where "serialize_value_fields f (serialize_response r) = Inr obj"
    "fold_items (parse_response_item parse_value_field) (default_response, default_fields) obj = Inr (received_response r, f)"
    using assms value_fields_roundtrip [of r f] by auto
  with FindValueResponse show ?thesis by (intro some [of obj]) (simp_all add: parse_object_def)
next
  case (FindNodeResponse r)
  with assms response_roundtrip [of r] show ?thesis by (intro some) (auto simp: parse_object_def)
next
  case (ErrorBody m c s)
  with assms int32_range [of c] show ?thesis by (intro some) (auto simp: parse_object_def obj_of_def parse_error_item_def)
next
  case (FindNodeRequest q)
  with assms lookup_roundtrip [of q] show ?thesis by (intro some) (auto simp: parse_object_def)
next
  case (FindPeerRequest q)
  with assms lookup_roundtrip [of q] show ?thesis by (intro some) (auto simp: parse_object_def)
next
  case (FindValueRequest q n)
  with assms find_value_roundtrip [of q n] show ?thesis by (intro some) (auto simp: parse_object_def)
next
  case (AnnounceRequest q)
  with assms announce_roundtrip [of q] show ?thesis by (intro some) (auto simp: parse_object_def)
qed (auto intro: none)

section \<open>What the codec is given\<close>

text \<open>The JSON values that nlohmann::json keeps through CBOR: numbers of 64 bits, texts in UTF-8, objects as its map holds them, with the keys in
  strictly increasing order.\<close>

fun codec_json :: "(string \<Rightarrow> string option) \<Rightarrow> json \<Rightarrow> bool" where
  "codec_json nfc (JInt n) = (- (2 ^ 63) \<le> n \<and> n < 2 ^ 64)"
| "codec_json nfc (JStr s) = utf8 nfc s"
| "codec_json nfc (JArr xs) = (\<forall>x\<in>set xs. codec_json nfc x)"
| "codec_json nfc (JObj m) = (sorted_wrt str_less (map fst m) \<and> (\<forall>x\<in>set m. codec_json nfc (snd x)))"
| "codec_json nfc _ = True"

abbreviation codec_obj :: "(string \<Rightarrow> string option) \<Rightarrow> (string \<times> json) list \<Rightarrow> bool" where
  "codec_obj nfc m \<equiv> codec_json nfc (JObj m)"

lemma str_less_trans: "str_less a b \<Longrightarrow> str_less b c \<Longrightarrow> str_less a c"
  by (induction a b arbitrary: c rule: str_less.induct; case_tac c) auto

lemma str_less_total: "a \<noteq> b \<Longrightarrow> \<not> str_less a b \<Longrightarrow> str_less b a"
proof (induction a b rule: str_less.induct)
  case (1 a)
  then show ?case by (cases a) auto
qed auto

lemma obj_put_keys: "fst ` set (obj_put k v m) = insert k (fst ` set m)"
  by (induction k v m rule: obj_put.induct) auto

lemma obj_put_items: "x \<in> set (obj_put k v m) \<Longrightarrow> x = (k, v) \<or> x \<in> set m"
  by (induction k v m rule: obj_put.induct) (auto split: if_splits)

lemma obj_put_sorted: "sorted_wrt str_less (map fst m) \<Longrightarrow> sorted_wrt str_less (map fst (obj_put k v m))"
proof (induction k v m rule: obj_put.induct)
  case (2 k v k' v' m)
  have "\<forall>x\<in>set (map fst (obj_put k v m)). str_less k' x" if "k \<noteq> k'" "\<not> str_less k k'"
    using 2(2) str_less_total [OF that] obj_put_keys [of k v m] by (auto simp: image_iff)
  moreover have "\<forall>x\<in>fst ` set m. str_less k x" if "str_less k k'"
    using 2(2) str_less_trans [OF that] by auto
  ultimately show ?case using 2 by auto
qed simp

lemma obj_put_codec [simp]: "codec_obj nfc m \<Longrightarrow> codec_json nfc v \<Longrightarrow> codec_obj nfc (obj_put k v m)"
  using obj_put_sorted [of m k v] obj_put_items [of _ k v m] by fastforce

lemma put_if_codec [simp]: "codec_obj nfc m \<Longrightarrow> (c \<Longrightarrow> codec_json nfc v) \<Longrightarrow> codec_obj nfc (put_if c k v m)"
  using obj_put_codec by (simp add: put_if_def del: codec_json.simps)

lemma obj_of_codec: "\<forall>x\<in>set items. codec_json nfc (snd x) \<Longrightarrow> codec_obj nfc m \<Longrightarrow> codec_obj nfc (foldl (\<lambda>m (k, v). obj_put k v m) m items)"
proof (induction items arbitrary: m)
  case (Cons x items)
  have "codec_obj nfc (case x of (k, v) \<Rightarrow> obj_put k v m)" using Cons.prems by (cases x) (simp del: codec_json.simps)
  with Cons show ?case by (simp del: codec_json.simps)
qed simp

lemma int_codec: "int_range n \<Longrightarrow> codec_json nfc (JInt n)" "seq_range (2 ^ 31) n \<Longrightarrow> codec_json nfc (JInt n)"
  "codec_json nfc (JInt (uint (p :: u16)))" "codec_json nfc (JInt (uint (b :: byte)))"
proof -
  have "0 \<le> uint p" "uint p < 2 ^ 16" "0 \<le> uint b" "uint b < 2 ^ 8" using uint_bounded [of p] uint_bounded [of b] by simp_all
  then show "codec_json nfc (JInt (uint p))" "codec_json nfc (JInt (uint b))"
    using order_trans [of "- (2 ^ 63)" 0 "uint p"] order_trans [of "- (2 ^ 63)" 0 "uint b"] by simp_all
qed (auto simp: int_range_def seq_range_def)

lemma id_codec [simp]: "codec_json nfc (id_to_json i)"
  by (simp add: id_to_json_def)

lemma node_codec [simp]: "codec_json nfc (node_to_json n)"
  using int_codec(3) by (simp add: node_to_json_def)

lemma peer_codec: "wire_peer nfc p \<Longrightarrow> codec_json nfc (peer_to_json p)"
  using int_codec(3) by (auto simp: peer_to_json_def wire_peer_def normalised_def utf8_def split: option.split)

lemma response_codec: "wire_response r \<Longrightarrow> codec_obj nfc (serialize_response r)"
  unfolding serialize_response_def serialize_nodes_def
  by (intro put_if_codec) (auto simp: wire_response_def int_codec simp del: codec_json.simps(1))

lemma lookup_codec: "codec_obj nfc (serialize_lookup q)"
proof -
  have "codec_json nfc (JInt (getWant q))"
    by (cases "want4 q"; cases "want6 q"; cases "wantToken q") (simp_all add: getWant_def)
  then show ?thesis unfolding serialize_lookup_def obj_of_def by (intro obj_of_codec) (auto simp del: codec_json.simps(1))
qed

lemma store_codec:
  assumes "int_range (sv_token q)" "wire_fields (2 ^ 31) q" "seq_range (2 ^ 31) (expectedSequenceNumber q)" "serialize_store q = Inr obj"
  shows "codec_obj nfc obj"
proof -
  have "codec_obj nfc (obj_put ''tok'' (JInt (sv_token q)) [])" using int_codec(1) [OF assms(1)] by (intro obj_put_codec) simp_all
  moreover have "codec_json nfc (JInt (vf_sequenceNumber q))" if "vf_publicKey q \<noteq> None"
    using assms(2) that int_codec(2) by (auto simp: wire_fields_def)
  moreover note int_codec(2) [OF assms(3)]
  ultimately show ?thesis
    using assms(4) by (auto simp: serialize_store_def Let_def opt_value_def simp del: codec_json.simps(1,4) obj_put.simps split: option.splits)
qed

lemma value_codec:
  assumes "wire_response r" "wire_fields (2 ^ 31) f" "serialize_value_fields f (serialize_response r) = Inr obj"
  shows "codec_obj nfc obj"
proof -
  have "codec_json nfc (JInt (vf_sequenceNumber f))" if "vf_publicKey f \<noteq> None"
    using assms(2) that int_codec(2) by (auto simp: wire_fields_def)
  with response_codec [OF assms(1)] show ?thesis
    using assms(3) by (auto simp: serialize_value_fields_def Let_def opt_value_def simp del: codec_json.simps(1,4) obj_put.simps split: option.splits)
qed

lemma body_codec:
  assumes "wire_body nfc b" "serialize_body b = Inr (Some obj)"
  shows "codec_obj nfc obj"
proof (cases b)
  case (AnnounceRequest q)
  have "codec_obj nfc (obj_of [(''tok'', JInt (ap_token q)), (''t'', id_to_json (ap_peerId q)),
      (''p'', JInt (uint (ap_port q))), (''sig'', JBin (ap_signature q))])"
    unfolding obj_of_def using assms(1) AnnounceRequest int_codec by (intro obj_of_codec) (auto simp del: codec_json.simps(1))
  then show ?thesis using assms AnnounceRequest
    by (auto simp: serialize_announce_def Let_def simp del: codec_json.simps(4) split: option.splits)
next
  case (FindPeerResponse r ps)
  have "codec_obj nfc (serialize_peers ps (serialize_response r))"
    using assms(1) FindPeerResponse response_codec [of r nfc] peer_codec
    by (cases ps) (auto simp: serialize_peers_def simp del: codec_json.simps(4))
  then show ?thesis using assms(2) FindPeerResponse by simp
next
  case (FindValueRequest q n)
  have "codec_obj nfc (put_if (n \<ge> 0) ''seq'' (JInt n) (serialize_lookup q))"
    using assms(1) FindValueRequest int_codec(2) [of n nfc] by (intro put_if_codec lookup_codec) auto
  then show ?thesis using assms(2) FindValueRequest by simp
next
  case (ErrorBody m c e)
  have "codec_obj nfc (obj_of [(''c'', JInt c), (''m'', JStr e)])"
    unfolding obj_of_def using assms(1) ErrorBody int_codec by (intro obj_of_codec) (auto simp del: codec_json.simps(1))
  then show ?thesis using assms(2) ErrorBody by simp
next
  case (StoreRequest q)
  then show ?thesis using assms store_codec [of q obj nfc] by (cases "serialize_store q") (auto simp del: codec_json.simps(4))
next
  case (FindValueResponse r f)
  then show ?thesis using assms value_codec [of r f obj nfc]
    by (cases "serialize_value_fields f (serialize_response r)") (auto simp del: codec_json.simps(4))
qed (use assms lookup_codec response_codec in \<open>auto simp del: codec_json.simps(4)\<close>)

lemma message_codec:
  assumes "wire_message nfc m" "message_to_json m = Inr j"
  shows "codec_json nfc j"
proof -
  let ?root = "obj_of [(''y'', JInt (uint (message_type (getType m) (getMethod m)))), (''t'', JInt (txid m)), (''v'', JInt (mversion m))]"
  have "codec_obj nfc ?root"
    unfolding obj_of_def using assms(1) int_codec by (intro obj_of_codec) (auto simp: wire_message_def simp del: codec_json.simps(1))
  moreover obtain b where "serialize_body (body m) = Inr b" "j = JObj (case b of None \<Rightarrow> ?root | Some obj \<Rightarrow> obj_put (key_of_type (getType m)) (JObj obj) ?root)"
    using assms(2) by (cases "serialize_body (body m)") (auto simp: message_to_json_def Let_def)
  moreover have "codec_obj nfc obj" if "b = Some obj" for obj
    using body_codec [of nfc "body m" obj] assms(1) that calculation(2) by (simp add: wire_message_def del: codec_json.simps(4))
  ultimately show ?thesis by (cases b) (simp_all del: codec_json.simps(4))
qed

section \<open>The round trip\<close>

lemma message_roundtrip:
  assumes m: "wire_message nfc m" and cbor: "\<And>j. codec_json nfc j \<Longrightarrow> from_cbor (to_cbor j) = Inr j"
  obtains buf m' where "serialize to_cbor m = Inr buf" "message_parse nfc from_cbor buf = Inr m'"
    "body m' = received_body (body m)" "txid m' = txid m" "mversion m' = mversion m"
proof -
  let ?t = "message_type (getType m) (getMethod m)"
  have i: "int32 (txid m) = txid m" "int32 (mversion m) = mversion m" and b: "wire_body nfc (body m)"
    using m int32_range by (auto simp: wire_message_def)
  have k: "key_of_type (getType m) = ''q'' \<or> key_of_type (getType m) = ''r'' \<or> key_of_type (getType m) = ''e''"
    by (cases "getType m") auto
  have w: "word_of_int (uint ?t) = ?t" by simp
  note result = that
  have parsed: thesis if "message_to_json m = Inr (JObj root)"
    "bind_result (get_u8 (JInt (uint ?t))) (\<lambda>t. bind_result (createMessage t) (\<lambda>b. fold_items (parse_item nfc) (mkMessage b 0) root))
      = Inr ((mkMessage (received_body (body m)) 0)\<lparr>txid := txid m, mversion := mversion m\<rparr>)"
    "map_of root ''y'' = Some (JInt (uint ?t))" for root
  proof (rule result)
    show "serialize to_cbor m = Inr (to_cbor (JObj root))" using \<open>message_to_json m = Inr (JObj root)\<close> by (simp add: serialize_def)
    have "from_cbor (to_cbor (JObj root)) = Inr (JObj root)" by (rule cbor [OF message_codec [OF m that(1)]])
    with that(2,3) show "message_parse nfc from_cbor (to_cbor (JObj root))
        = Inr ((mkMessage (received_body (body m)) 0)\<lparr>txid := txid m, mversion := mversion m\<rparr>)" by (simp add: message_parse_def)
  qed (simp_all add: mkMessage_def)
  from b show ?thesis
  proof (cases rule: body_roundtrip)
    case none
    show ?thesis
      by (rule parsed [of "[(''t'', JInt (txid m)), (''v'', JInt (mversion m)), (''y'', JInt (uint ?t))]"])
        (use none i createMessage_default [of "body m"] in \<open>simp_all add: message_to_json_def obj_of_def parse_item_def\<close>)
  next
    case (some obj)
    show ?thesis
      by (rule parsed [of "[(key_of_type (getType m), JObj obj), (''t'', JInt (txid m)), (''v'', JInt (mversion m)), (''y'', JInt (uint ?t))]"])
        (use some i k createMessage_default [of "body m"] in \<open>auto simp: message_to_json_def obj_of_def parse_item_def mkMessage_def\<close>)
  qed
qed

end
