(* ===== verification/Dht_Tasks.thy ===== *)
theory Dht_Tasks
  imports Dht
begin

text \<open>
  The DHT node, the part that acts on its own: \<^verbatim>\<open>bootstrap\<close>, \<^verbatim>\<open>fillHomeBucket\<close>, \<^verbatim>\<open>update\<close>, \<^verbatim>\<open>start\<close>, \<^verbatim>\<open>stop\<close> and the user
  operations of \<^verbatim>\<open>src/core/dht.cc\<close>, with the listeners they add to tasks. The effects of a task (calls, completed
  listeners, entries to remove) are carried out by \<open>drain\<close> in the order in which the task produced them,
  once the operation of the task has returned. (The code performs them inside the operation; \<open>drain\<close> translates no function of it.) \<open>rnd\<close> is the random id drawn for the object of that name, \<open>file\<close>
  the entries of the routing table file as its parser reads them. The atomic exchange of the flag
  \<^verbatim>\<open>bootstrapping\<close> is taken never to fail spuriously.
\<close>

section \<open>Definitions\<close>

definition BOOTSTRAP_MIN_INTERVAL :: u64 where "BOOTSTRAP_MIN_INTERVAL = 4 * 60 * 1000"
definition BOOTSTRAP_IF_LESS_THAN_X_PEERS :: nat where "BOOTSTRAP_IF_LESS_THAN_X_PEERS = 30"
definition SELF_LOOKUP_INTERVAL :: u64 where "SELF_LOOKUP_INTERVAL = 30 * 60 * 1000"
definition ROUTING_TABLE_PERSIST_INTERVAL :: u64 where "ROUTING_TABLE_PERSIST_INTERVAL = 10 * 60 * 1000"
definition DHT_UPDATE_INTERVAL :: int where "DHT_UPDATE_INTERVAL = 1000"
definition RANDOM_LOOKUP_INTERVAL :: int where "RANDOM_LOOKUP_INTERVAL = 10 * 60 * 1000"
definition RANDOM_PING_INTERVAL :: int where "RANDOM_PING_INTERVAL = 10 * 1000"

definition on_dht :: "(DHT \<Rightarrow> DHT) \<Rightarrow> World \<Rightarrow> World" where
  "on_dht f w = w\<lparr>dht := f (dht w)\<rparr>"

text \<open>What a task reads of the node.\<close>

definition ctx_of :: "Config \<Rightarrow> u64 \<Rightarrow> World \<Rightarrow> TaskCtx" where
  "ctx_of cfg now w =
     \<lparr>tnow = now, myEntry = mkKBucketEntry 0 now (dnode (dht w)) (daddr (dht w)) 0, isIPv4 = dtype4 (dht w),
      table = rtable (dht w), bootstraps = configBootstraps cfg,
      entryAt = (\<lambda>r. case find (\<lambda>e. eref e = r) (rt_entries (rtable (dht w))) of Some e \<Rightarrow> e | None \<Rightarrow> lostEntry cfg r),
      hash256 = sha_256 cfg, verify_sig = verify_sign cfg\<rparr>"

text \<open>A call that is not made by a task.\<close>

definition send_call :: "Config \<Rightarrow> u64 \<Rightarrow> NodeInfo \<Rightarrow> bool option \<Rightarrow> Body \<Rightarrow> World \<Rightarrow> step" where
  "send_call cfg now n reach b w =
     (let c = callSupply (taskMan w)
      in serve now (sendCall (rpcEnv cfg) now (mkRPCCall c n reach (mkMessage b 0)))
           (w\<lparr>taskMan := (taskMan w)\<lparr>callSupply := c + 1\<rparr>\<rparr>))"

subsection \<open>Bootstrap\<close>

fun bootstrap_calls :: "Config \<Rightarrow> u64 \<Rightarrow> (nat \<Rightarrow> Id) \<Rightarrow> NodeInfo list \<Rightarrow> World \<Rightarrow> step" where
  "bootstrap_calls cfg now rnd [] w = (w, None)"
| "bootstrap_calls cfg now rnd (n # ns) w =
     (let c = callSupply (taskMan w); q = want (dtype4 (dht w)) (mkFindNodeRequest (rnd c) False)
      in proceed (send_call cfg now n None (FindNodeRequest q) (w\<lparr>boot_round := (boot_round w)\<lparr>rcalls := rcalls (boot_round w) @ [c]\<rparr>\<rparr>))
           (bootstrap_calls cfg now rnd ns))"

definition dht_bootstrap :: "Config \<Rightarrow> u64 \<Rightarrow> (nat \<Rightarrow> Id) \<Rightarrow> World \<Rightarrow> step" where
  "dht_bootstrap cfg now rnd w =
     (let d = dht w
      in if \<not> drunning d \<or> bootstrapNodes d = [] \<or> now - lastBootstrap d < BOOTSTRAP_MIN_INTERVAL then (w, None)
         else if bootstrapping d then (w, None)
         else bootstrap_calls cfg now rnd (bootstrapNodes d)
                (w\<lparr>dht := d\<lparr>bootstrapping := True\<rparr>,
                   boot_round := \<lparr>rcalls = [], rnodes = [], rcount = 0, rlen = int (length (bootstrapNodes d))\<rparr>\<rparr>))"

definition bootstrap_node :: "Config \<Rightarrow> u64 \<Rightarrow> (nat \<Rightarrow> Id) \<Rightarrow> NodeInfo \<Rightarrow> World \<Rightarrow> step" where
  "bootstrap_node cfg now rnd ni w =
     (let d = dht w
      in if \<not> canUseSocketAddress (dtype4 d) (sockaddr ni) \<or> id_eq (nodeId ni) (dnode d) then (w, None)
         else if find (\<lambda>item. equals item ni) (bootstrapNodes d) = None
         then dht_bootstrap cfg now rnd
                (w\<lparr>dht := d\<lparr>bootstrapNodes := bootstrapNodes d @ [NodeInfo_copy ni], lastBootstrap := 0\<rparr>\<rparr>)
         else (w, None))"

definition fillHomeBucket :: "Config \<Rightarrow> u64 \<Rightarrow> NodeInfo list \<Rightarrow> World \<Rightarrow> World" where
  "fillHomeBucket cfg now nodes w =
     (if getNumBucketEntries (rtable (dht w)) = 0 \<and> nodes = [] then on_dht (\<lambda>d. d\<lparr>bootstrapping := False\<rparr>) w
      else submit (NodeLookup (addCandidates (ctx_of cfg now w) (plain_nodes nodes) (mkLookupTask (dnode (dht w)))) True False)
             [BootstrapDone] w)"

text \<open>The state change handler of a bootstrap call.\<close>

definition bootstrap_nodes_of :: "bool \<Rightarrow> RPCCall \<Rightarrow> NodeInfo list" where
  "bootstrap_nodes_of ipv4 c =
     (case map_option body (response c) of Some (FindNodeResponse r) \<Rightarrow> getNodes ipv4 r | _ \<Rightarrow> [])"

definition bootstrap_callback :: "Config \<Rightarrow> u64 \<Rightarrow> RPCCall \<Rightarrow> CallState \<Rightarrow> World \<Rightarrow> World" where
  "bootstrap_callback cfg now c current w =
     (if current = RESPONDED \<or> current = CERR \<or> current = TIMEOUT then
        let r = (boot_round w)\<lparr>rnodes := rnodes (boot_round w) @ bootstrap_nodes_of (dtype4 (dht w)) c, rcount := rcount (boot_round w) + 1\<rparr>;
            w1 = w\<lparr>boot_round := r\<rparr>
        in if rcount r = rlen r
           then fillHomeBucket cfg now (rnodes r) (on_dht (\<lambda>d. d\<lparr>lastBootstrap := now\<rparr>) w1)
           else w1
      else w)"

subsection \<open>Listeners and effects of tasks\<close>

definition complete :: "nat \<Rightarrow> Completion \<Rightarrow> World \<Rightarrow> World" where
  "complete h x w = w\<lparr>completions := completions w @ [(h, x)]\<rparr>"

fun submit_all :: "Kind list \<Rightarrow> Listener list list \<Rightarrow> World \<Rightarrow> World" where
  "submit_all (k # ks) (l # ls) w = submit_all ks ls (submit k l w)"
| "submit_all _ _ w = w"

text \<open>\<^verbatim>\<open>routingTable.fillBuckets()\<close> with the lookups it starts through \<^verbatim>\<open>dht.findNode\<close>.\<close>

definition fill_buckets :: "u64 \<Rightarrow> (nat \<Rightarrow> Id) \<Rightarrow> World \<Rightarrow> World" where
  "fill_buckets now rnd w =
     (case fillBuckets now rnd (rtable (dht w)) of (rt, ids) \<Rightarrow>
        submit_all (map (\<lambda>i. NodeLookup (mkLookupTask i) False False) ids) (map (\<lambda>i. [FindNodeDone None i]) ids)
          (on_dht (\<lambda>d. d\<lparr>rtable := rt\<rparr>) w))"

text \<open>The end of the lookup of a store or an announce: the task \<open>i\<close> gets the announce as its nested task.\<close>

definition announce_to_closest ::
  "(CandidateNode list \<Rightarrow> Kind) \<Rightarrow> (NodeInfo list \<Rightarrow> Listener) \<Rightarrow> nat \<Rightarrow> nat \<Rightarrow> World \<Rightarrow> step" where
  "announce_to_closest mk fin h i w =
     (case tasks (taskMan w) i of
        None \<Rightarrow> (w, Some Undefined)
      | Some t \<Rightarrow>
          if taskState t \<noteq> FINISHED then (w, None)
          else (case lookup_of (kind t) of
                  None \<Rightarrow> (w, Some Undefined)
                | Some lt \<Rightarrow>
                    let closest = cs_getEntries (closestSet lt)
                    in if closest = [] then (complete h (NodesResult []) w, None)
                       else let tm = taskMan w;
                                w1 = w\<lparr>taskMan := tm\<lparr>tasks := (tasks tm)(i \<mapsto> t\<lparr>nested := Some (taskNames w)\<rparr>)\<rparr>\<rparr>
                            in (submit (mk closest) [fin (map node_of closest)] w1, None)))"

text \<open>The listener \<open>l\<close> of the task \<open>i\<close>. The handlers of value and peer lookups share the result variables with
  the task.\<close>

definition run_listener :: "Config \<Rightarrow> u64 \<Rightarrow> (nat \<Rightarrow> Id) \<Rightarrow> nat \<Rightarrow> Listener \<Rightarrow> World \<Rightarrow> step" where
  "run_listener cfg now rnd i l w =
     (case l of
        MaintenanceDone r \<Rightarrow> (on_dht (\<lambda>d. d\<lparr>rtable := maintenanceTaskDone r (rtable d)\<rparr>) w, None)
      | BootstrapDone \<Rightarrow>
          (let w1 = on_dht (\<lambda>d. d\<lparr>bootstrapping := False\<rparr>) w
           in if drunning (dht w1) \<and> getNumBucketEntries (rtable (dht w1)) > MAX_ENTRIES_PER_BUCKET + 2
              then (fill_buckets now rnd w1, None) else (w1, None))
      | RandomLookupDone \<Rightarrow> (w, None)
      | FindNodeDone h target \<Rightarrow>
          (case getEntry (rtable (dht w)) target of
             None \<Rightarrow> (w, Some Undefined)
           | Some e \<Rightarrow> (case h of None \<Rightarrow> w | Some h \<Rightarrow> complete h (NodeResult (map_option node_of e)) w, None))
      | FindValueDone h \<Rightarrow>
          (case map_option kind (tasks (taskMan w) i) of
             Some (ValueLookup _ _ vh) \<Rightarrow> (complete h (ValueResult (vh_value vh)) w, None)
           | _ \<Rightarrow> (w, Some Undefined))
      | FindPeerDone h \<Rightarrow>
          (case map_option kind (tasks (taskMan w) i) of
             Some (PeerLookup _ ph) \<Rightarrow> (complete h (PeersResult (ph_peers ph)) w, None)
           | _ \<Rightarrow> (w, Some Undefined))
      | StoreLookupDone h v \<Rightarrow> announce_to_closest (\<lambda>td. ValueAnnounce td v) (StoreDone h) h i w
      | AnnounceLookupDone h p \<Rightarrow> announce_to_closest (\<lambda>td. PeerAnnounce td p) (AnnounceDone h) h i w
      | StoreDone h ns \<Rightarrow> (complete h (NodesResult ns) w, None)
      | AnnounceDone h ns \<Rightarrow> (complete h (NodesResult ns) w, None))"

text \<open>One effect of the task \<open>i\<close>. An exception of the server is caught by the task that makes the call; what a cancelled
  nested task asks for comes before the rest; the task manager itself has removed finished tasks.\<close>

definition perform_effect :: "Config \<Rightarrow> u64 \<Rightarrow> (nat \<Rightarrow> Id) \<Rightarrow> nat \<Rightarrow> Listener TaskEffect \<Rightarrow> World \<Rightarrow> step" where
  "perform_effect cfg now rnd i e w =
     (case e of
        Notify l \<Rightarrow> run_listener cfg now rnd i l w
      | SubmitCall c \<Rightarrow>
          (case serve now (sendCall (rpcEnv cfg) now c) w of
             (w1, Some Undefined) \<Rightarrow> (w1, Some Undefined)
           | (w1, _) \<Rightarrow> (w1, None))
      | RemoveTask \<Rightarrow> (w, None)
      | RemoveEntry n \<Rightarrow> on_table (rt_remove now n) w
      | CancelTask n \<Rightarrow>
          (case tasks (taskMan w) n of
             None \<Rightarrow> (w, None)
           | Some t \<Rightarrow>
               let tm = taskMan w; tm' = store n (cancel now (run_of t tm)) (tm\<lparr>trace := []\<rparr>)
               in (w\<lparr>taskMan := tm'\<lparr>trace := trace tm' @ trace tm\<rparr>\<rparr>, None)))"

partial_function (option) drain :: "Config \<Rightarrow> u64 \<Rightarrow> (nat \<Rightarrow> Id) \<Rightarrow> World \<Rightarrow> step option" where
  "drain cfg now rnd w =
     (case trace (taskMan w) of
        [] \<Rightarrow> Some (w, None)
      | (i, e) # es \<Rightarrow>
          (case perform_effect cfg now rnd i e (w\<lparr>taskMan := (taskMan w)\<lparr>trace := es\<rparr>\<rparr>) of
             (w1, Some err) \<Rightarrow> Some (w1, Some err)
           | (w1, None) \<Rightarrow> drain cfg now rnd w1))"

subsection \<open>The periodic jobs\<close>

definition save :: "World \<Rightarrow> World" where
  "save w = w\<lparr>saved := saved w @ [(persistFile (dht w), save_entries (rtable (dht w)))]\<rparr>"

definition bootstrap_if_needed :: "Config \<Rightarrow> u64 \<Rightarrow> (nat \<Rightarrow> Id) \<Rightarrow> World \<Rightarrow> step" where
  "bootstrap_if_needed cfg now rnd w =
     (if getNumBucketEntries (rtable (dht w)) < BOOTSTRAP_IF_LESS_THAN_X_PEERS
         \<or> now - lastBootstrap (dht w) > SELF_LOOKUP_INTERVAL
      then dht_bootstrap cfg now rnd w else (w, None))"

definition save_if_due :: "u64 \<Rightarrow> World \<Rightarrow> World" where
  "save_if_due now w =
     (if persistFile (dht w) \<noteq> [] \<and> now - lastSave (dht w) > ROUTING_TABLE_PERSIST_INTERVAL
      then on_dht (\<lambda>d. d\<lparr>lastSave := now\<rparr>) (save w) else w)"

definition update_dht :: "Config \<Rightarrow> u64 \<Rightarrow> (nat \<Rightarrow> Id) \<Rightarrow> World \<Rightarrow> step" where
  "update_dht cfg now rnd w0 =
     (if \<not> drunning (dht w0) then (w0, None)
      else let w = w0\<lparr>server := updateReachability now (server w0)\<rparr>
           in case maintenance now (map nodeId (bootstrapNodes (dht w))) (rtable (dht w)) of
                None \<Rightarrow> (w, Some Undefined)
              | Some (rt, ts) \<Rightarrow>
                  proceed
                    (bootstrap_if_needed cfg now rnd
                      (submit_all (map PingRefresh ts) (map (\<lambda>p. [MaintenanceDone (pr_bucket p)]) ts) (on_dht (\<lambda>d. d\<lparr>rtable := rt\<rparr>) w)))
                    (\<lambda>w. (save_if_due now w, None)))"

text \<open>\<open>r1\<close> and \<open>r2\<close> are the numbers drawn for a random entry.\<close>

definition active_calls :: "RPCServer \<Rightarrow> bool" where
  "active_calls s \<longleftrightarrow> (\<exists>t. calls s t \<noteq> None)"

definition random_ping :: "Config \<Rightarrow> u64 \<Rightarrow> int \<Rightarrow> int \<Rightarrow> World \<Rightarrow> step" where
  "random_ping cfg now r1 r2 w =
     (if active_calls (server w) then (w, None)
      else case getRandomEntry r1 r2 (rtable (dht w)) of
             None \<Rightarrow> (w, None)
           | Some e \<Rightarrow> send_call cfg now (node_of e) (Some (reachable e)) PingRequest w)"

definition run_job :: "Config \<Rightarrow> u64 \<Rightarrow> (nat \<Rightarrow> Id) \<Rightarrow> int \<Rightarrow> int \<Rightarrow> DhtJob \<Rightarrow> World \<Rightarrow> step" where
  "run_job cfg now rnd r1 r2 j w =
     (case j of
        DequeueJob \<Rightarrow>
          (case dequeue (ctx_of cfg now w) (taskMan w) of
             None \<Rightarrow> (w, Some Undefined)
           | Some tm \<Rightarrow>
               (case drain cfg now rnd (w\<lparr>taskMan := tm\<rparr>) of None \<Rightarrow> (w, Some Undefined) | Some r \<Rightarrow> r))
      | UpdateJob \<Rightarrow> update_dht cfg now rnd w
      | RandomPingJob \<Rightarrow> random_ping cfg now r1 r2 w
      | RandomLookupJob \<Rightarrow>
          (submit (NodeLookup (mkLookupTask (rnd (taskNames w))) False False) [RandomLookupDone] w, None))"

subsection \<open>Start and stop\<close>

text \<open>The parser makes a new object for every entry of the file.\<close>

fun name_entries :: "nat \<Rightarrow> KBucketEntry option list \<Rightarrow> KBucketEntry option list" where
  "name_entries n [] = []"
| "name_entries n (e # es) = map_option (\<lambda>e. e\<lparr>eref := n\<rparr>) e # name_entries (n + 1) es"

definition load :: "u64 \<Rightarrow> KBucketEntry option list \<Rightarrow> World \<Rightarrow> step" where
  "load now file w =
     on_table (load_entries now (name_entries (entryNames w) file)) (w\<lparr>entryNames := entryNames w + length file\<rparr>)"

fun ping_cached :: "u64 \<Rightarrow> KBucket list \<Rightarrow> World \<Rightarrow> World" where
  "ping_cached now [] w = w"
| "ping_cached now (b # bs) w =
     ping_cached now bs
       (if length (entries b) = 0 then w
        else submit (PingRefresh (newPingRefreshTask now b [RemoveOnTimeout])) []
               (on_dht (\<lambda>d. d\<lparr>rtable := on_bucket (bref b) (updateRefreshTimer now) (rtable d)\<rparr>) w))"

definition add_job :: "u64 \<Rightarrow> DhtJob \<Rightarrow> int \<Rightarrow> int \<Rightarrow> World \<Rightarrow> World" where
  "add_job now j delay fixed w = w\<lparr>sched := fst (sched_add now (Some j) delay fixed (sched w))\<rparr>"

definition dht_start :: "Config \<Rightarrow> u64 \<Rightarrow> (nat \<Rightarrow> Id) \<Rightarrow> KBucketEntry option list \<Rightarrow> NodeInfo list \<Rightarrow> World \<Rightarrow> step" where
  "dht_start cfg now rnd file nodes w0 =
     (if drunning (dht w0) then (w0, None)
      else proceed (if persistFile (dht w0) \<noteq> [] then load now file w0 else (w0, None)) (\<lambda>w.
           let w1 = add_job now DequeueJob 5000 DHT_UPDATE_INTERVAL
                      (on_dht (\<lambda>d. d\<lparr>bootstrapNodes := bootstrapNodes d @ filter (\<lambda>n. canUseSocketAddress (dtype4 d) (sockaddr n)) nodes,
                                     drunning := True\<rparr>) w);
               w2 = ping_cached now (buckets (rtable (dht w1))) w1
           in proceed (dht_bootstrap cfg now rnd w2) (\<lambda>w.
                (add_job now RandomLookupJob RANDOM_LOOKUP_INTERVAL RANDOM_LOOKUP_INTERVAL
                  (add_job now RandomPingJob RANDOM_PING_INTERVAL RANDOM_PING_INTERVAL
                    (add_job now UpdateJob 5000 DHT_UPDATE_INTERVAL
                      (on_dht (\<lambda>d. d\<lparr>lastSave := now - ROUTING_TABLE_PERSIST_INTERVAL + 120 * 1000\<rparr>) w))), None))))"

definition dht_stop :: "Config \<Rightarrow> u64 \<Rightarrow> (nat \<Rightarrow> Id) \<Rightarrow> World \<Rightarrow> step" where
  "dht_stop cfg now rnd w0 =
     (if \<not> drunning (dht w0) then (w0, None)
      else let w = on_dht (\<lambda>d. d\<lparr>drunning := False\<rparr>) w0; w1 = (if persistFile (dht w) \<noteq> [] then save w else w)
           in case cancelAll now (taskMan w1) of
                None \<Rightarrow> (w1, Some Undefined)
              | Some tm \<Rightarrow> (case drain cfg now rnd (w1\<lparr>taskMan := tm\<rparr>) of None \<Rightarrow> (w1, Some Undefined) | Some r \<Rightarrow> r))"

subsection \<open>The operations of the user\<close>

text \<open>\<open>h\<close> names the completion handler. The task that the code returns is the one with the name \<^term>\<open>taskNames w\<close>.\<close>

definition findNode :: "nat \<Rightarrow> Id \<Rightarrow> World \<Rightarrow> World" where
  "findNode h i w = submit (NodeLookup (mkLookupTask i) False False) [FindNodeDone (Some h) i] w"

definition findValue :: "nat \<Rightarrow> LookupOption \<Rightarrow> Id \<Rightarrow> World \<Rightarrow> World" where
  "findValue h opt i w = submit (ValueLookup (mkLookupTask i) (- 1) \<lparr>vh_option = opt, vh_value = None\<rparr>) [FindValueDone h] w"

definition storeValue :: "Config \<Rightarrow> nat \<Rightarrow> Value \<Rightarrow> World \<Rightarrow> World" where
  "storeValue cfg h v w = submit (NodeLookup (mkLookupTask (value_getId (sha_256 cfg) v)) False True) [StoreLookupDone h v] w"

definition findPeer :: "nat \<Rightarrow> int \<Rightarrow> LookupOption \<Rightarrow> Id \<Rightarrow> World \<Rightarrow> World" where
  "findPeer h expected opt i w =
     submit (PeerLookup (mkLookupTask i) \<lparr>ph_expected = expected, ph_option = opt, ph_peers = []\<rparr>) [FindPeerDone h] w"

definition announcePeer :: "nat \<Rightarrow> PeerInfo \<Rightarrow> World \<Rightarrow> World" where
  "announcePeer h p w = submit (NodeLookup (mkLookupTask (p_publicKey p)) False True) [AnnounceLookupDone h p] w"

end
