(* ===== verification/Dht_Activity.thy ===== *)
theory Dht_Activity
  imports Dht_Tasks Dht_Service
begin

text \<open>
  Properties of the part of the DHT that acts on its own. The periodic operations keep the invariant of
  the node and are always defined; a bootstrap round ends with the lookup of the own id as soon as the last
  of its calls has ended; the lookup of a store hands the closest nodes to an announce, which sends the
  value to every one of them; and the effects of tasks are carried out in finitely many steps.
\<close>

section \<open>Small steps\<close>

lemma on_dht_ok:
  assumes "world_ok cfg w" "table_ok (f (dht w)) (entryNames w)" "dnode (f (dht w)) = dnode (dht w)"
    "dtype4 (f (dht w)) = dtype4 (dht w)" "drunning (f (dht w)) = drunning (dht w)"
  shows "step_ok cfg w (on_dht f w, None)"
  using assms by (simp add: step_ok_def on_dht_def world_ok_def)

lemma on_dht_table_ok:
  assumes "world_ok cfg w" "rt_inv rt" "localId rt = localId (rtable (dht w))" "no_new (rtable (dht w)) rt"
  shows "step_ok cfg w (on_dht (\<lambda>d. d\<lparr>rtable := rt\<rparr>) w, None)"
proof -
  have "on_table (\<lambda>rt0. Some rt) w = (on_dht (\<lambda>d. d\<lparr>rtable := rt\<rparr>) w, None)" by (simp add: on_table_def on_dht_def)
  moreover have "\<forall>e\<in>set (rt_entries rt). eref e < entryNames w"
    using assms(1,4) by (fastforce simp: world_ok_def table_ok_def no_new_def same_node_def)
  ultimately show ?thesis using assms by (intro on_dht_ok) (simp_all add: world_ok_def table_ok_def)
qed

lemma world_ok_fields [simp]:
  "world_ok cfg (w\<lparr>boot_round := r\<rparr>) = world_ok cfg w" "world_ok cfg (w\<lparr>completions := c\<rparr>) = world_ok cfg w"
  "world_ok cfg (w\<lparr>saved := s\<rparr>) = world_ok cfg w" "world_ok cfg (w\<lparr>sched := d\<rparr>) = world_ok cfg w"
  "world_ok cfg (w\<lparr>taskMan := (taskMan w)\<lparr>callSupply := n\<rparr>\<rparr>) = world_ok cfg w"
  "world_ok cfg (w\<lparr>taskMan := (taskMan w)\<lparr>trace := es\<rparr>\<rparr>) = world_ok cfg w"
  by (simp_all add: world_ok_def tm_inv_def task_ok_def)

lemma complete_ok: "world_ok cfg w \<Longrightarrow> step_ok cfg w (complete h x w, None)"
  by (simp add: step_ok_def complete_def)

lemma send_call_ok:
  assumes "world_ok cfg w" "config_ok cfg" "wf_id (nodeId n)"
  shows "step_ok cfg w (send_call cfg now n reach b w)"
proof -
  let ?w = "w\<lparr>taskMan := (taskMan w)\<lparr>callSupply := callSupply (taskMan w) + 1\<rparr>\<rparr>"
  let ?call = "mkRPCCall (callSupply (taskMan w)) n reach (mkMessage b 0)"
  have "world_ok cfg ?w" using assms(1) by simp
  from srv_call.serve_ok [OF this assms(2) refl, of ?call now] show ?thesis
    using assms(3) by (simp add: send_call_def Let_def step_ok_def mkRPCCall_def)
qed

lemma submit_all_ok: "world_ok cfg w \<Longrightarrow> step_ok cfg w (submit_all ks ls w, None)"
proof (induction ks ls w rule: submit_all.induct)
  case (1 k ks l ls w)
  note s = submit_ok [OF 1(2), of k l]
  show ?case using step_ok_trans [OF s 1(1)] s by (simp add: step_ok_def)
qed (simp_all add: step_ok_done)

section \<open>Bootstrap and update\<close>

definition boot_ok :: "World \<Rightarrow> bool" where
  "boot_ok w \<longleftrightarrow> (\<forall>n\<in>set (bootstrapNodes (dht w)). wf_id (nodeId n))"

lemma bootstrap_calls_ok:
  "world_ok cfg w \<Longrightarrow> config_ok cfg \<Longrightarrow> \<forall>n\<in>set ns. wf_id (nodeId n) \<Longrightarrow> step_ok cfg w (bootstrap_calls cfg now rnd ns w)"
proof (induction ns arbitrary: w)
  case (Cons n ns)
  let ?w = "w\<lparr>boot_round := (boot_round w)\<lparr>rcalls := rcalls (boot_round w) @ [callSupply (taskMan w)]\<rparr>\<rparr>"
  have s: "step_ok cfg w (send_call cfg now n None b ?w)" for b
    using send_call_ok [of cfg ?w n now None b] Cons.prems by (simp add: step_ok_def)
  show ?case unfolding bootstrap_calls.simps Let_def
    by (rule step_ok_proceed [OF s]) (rule Cons.IH, use Cons.prems in \<open>auto dest: step_okD\<close>)
qed (simp add: step_ok_done)

lemma dht_bootstrap_ok:
  assumes "world_ok cfg w" "config_ok cfg" "boot_ok w"
  shows "step_ok cfg w (dht_bootstrap cfg now rnd w)"
proof -
  define w1 where "w1 r = w\<lparr>dht := (dht w)\<lparr>bootstrapping := True\<rparr>, boot_round := r\<rparr>" for r
  have "world_ok cfg (w1 r)" for r using assms(1) by (simp add: w1_def world_ok_def table_ok_def)
  then have "step_ok cfg (w1 r) (bootstrap_calls cfg now rnd (bootstrapNodes (dht w)) (w1 r))" for r
    using assms(2,3) by (intro bootstrap_calls_ok) (simp_all add: boot_ok_def)
  then show ?thesis using step_ok_done [OF assms(1)] by (simp add: dht_bootstrap_def Let_def step_ok_def w1_def)
qed

lemma bootstrap_node_ok:
  assumes "world_ok cfg w" "config_ok cfg" "boot_ok w" "wf_id (nodeId ni)"
  shows "step_ok cfg w (bootstrap_node cfg now rnd ni w)"
proof -
  let ?w = "w\<lparr>dht := (dht w)\<lparr>bootstrapNodes := bootstrapNodes (dht w) @ [NodeInfo_copy ni], lastBootstrap := 0\<rparr>\<rparr>"
  have "world_ok cfg ?w" "boot_ok ?w" using assms by (simp_all add: world_ok_def table_ok_def boot_ok_def NodeInfo_copy_def)
  from dht_bootstrap_ok [OF this(1) assms(2) this(2)] show ?thesis
    using step_ok_done [OF assms(1)] by (simp add: bootstrap_node_def Let_def step_ok_def)
qed

lemma fillHomeBucket_ok:
  assumes "world_ok cfg w"
  shows "step_ok cfg w (fillHomeBucket cfg now nodes w, None)"
  using submit_ok [OF assms] on_dht_ok [OF assms, of "\<lambda>d. d\<lparr>bootstrapping := False\<rparr>"] assms
  by (simp add: fillHomeBucket_def world_ok_def table_ok_def)

lemma bootstrap_callback_ok:
  assumes "world_ok cfg w"
  shows "step_ok cfg w (bootstrap_callback cfg now c current w, None)"
proof -
  have "world_ok cfg (on_dht (\<lambda>d. d\<lparr>lastBootstrap := now\<rparr>) (w\<lparr>boot_round := r\<rparr>))" for r
    using assms by (simp add: on_dht_def world_ok_def table_ok_def)
  from fillHomeBucket_ok [OF this] show ?thesis
    using assms by (simp add: bootstrap_callback_def Let_def step_ok_def on_dht_def)
qed

lemma update_dht_ok:
  assumes "world_ok cfg w" "config_ok cfg" "boot_ok w"
  shows "step_ok cfg w (update_dht cfg now rnd w)"
proof (cases "drunning (dht w)")
  case True
  define w0 where "w0 = w\<lparr>server := updateReachability now (server w)\<rparr>"
  have w0: "step_ok cfg w (w0, None)" "dht w0 = dht w"
    using assms(1) pending_ok_calls [of "server w" "updateReachability now (server w)"]
    by (auto simp: w0_def step_ok_def world_ok_def updateReachability_calls)
  have rt: "rt_inv (rtable (dht w))" using assms(1) by (simp add: world_ok_def table_ok_def)
  let ?boot = "map nodeId (bootstrapNodes (dht w))"
  have "\<exists>rt' ts. maintenance now ?boot (rtable (dht w)) = Some (rt', ts) \<and> rt_inv rt' \<and> localId rt' = localId (rtable (dht w))
      \<and> no_new (rtable (dht w)) rt'"
  proof (cases "now - timeOfLastPingCheck (rtable (dht w)) < ROUTING_TABLE_MAINTENANCE_INTERVAL")
    case True
    then show ?thesis using rt by (simp add: maintenance_def)
  next
    case False
    from maintenance_effect [OF rt False, of ?boot] show ?thesis unfolding no_new_def by metis
  qed
  then obtain rt' ts where m: "maintenance now ?boot (rtable (dht w)) = Some (rt', ts)" "rt_inv rt'"
    "localId rt' = localId (rtable (dht w))" "no_new (rtable (dht w)) rt'" by blast
  define w1 where "w1 = submit_all (map PingRefresh ts) (map (\<lambda>p. [MaintenanceDone (pr_bucket p)]) ts) (on_dht (\<lambda>d. d\<lparr>rtable := rt'\<rparr>) w0)"
  have "step_ok cfg w0 (on_dht (\<lambda>d. d\<lparr>rtable := rt'\<rparr>) w0, None)"
    using m w0 by (intro on_dht_table_ok) (auto dest: step_okD)
  then have w1: "step_ok cfg w (w1, None)"
    using w0(1) submit_all_ok unfolding w1_def by (meson step_okD step_ok_trans)
  have "bootstrapNodes (dht (submit_all ks ls x)) = bootstrapNodes (dht x)" for ks ls x
    by (induction ks ls x rule: submit_all.induct) (simp_all add: submit_def Let_def)
  then have b1: "boot_ok w1" using assms(3) w0(2) by (simp add: w1_def boot_ok_def on_dht_def)
  have ok1: "world_ok cfg w1" by (rule step_okD [OF w1])
  have "step_ok cfg w1 (proceed (bootstrap_if_needed cfg now rnd w1) (\<lambda>w. (save_if_due now w, None)))"
  proof (rule step_ok_proceed)
    show "step_ok cfg w1 (bootstrap_if_needed cfg now rnd w1)"
      using dht_bootstrap_ok [OF ok1 assms(2) b1] step_ok_done [OF ok1] by (simp add: bootstrap_if_needed_def)
    fix w2 assume "step_ok cfg w1 (w2, None)"
    then have "world_ok cfg w2" by (rule step_okD)
    then show "step_ok cfg w2 (save_if_due now w2, None)"
      by (simp add: save_if_due_def step_ok_def save_def on_dht_def world_ok_def table_ok_def)
  qed
  then have "step_ok cfg w1 (update_dht cfg now rnd w)"
    using True m(1) by (simp add: update_dht_def w0_def w1_def)
  then show ?thesis by (rule step_ok_trans [OF w1])
qed (simp add: update_dht_def step_ok_done assms(1))

section \<open>A bootstrap round\<close>

lemma serve_fields:
  "boot_round (fst (serve now f w)) = boot_round w" "bootstrapping (dht (fst (serve now f w))) = bootstrapping (dht w)"
  "lastBootstrap (dht (fst (serve now f w))) = lastBootstrap (dht w)" "taskMan (fst (serve now f w)) = taskMan w"
  "taskNames (fst (serve now f w)) = taskNames w"
  "server (fst (serve now f w)) = fst (f (server w))" "out (fst (serve now f w)) = out w @ fst (snd (f (server w)))"
proof -
  have n: "boot_round (fst (notify_all now es w)) = boot_round w \<and> bootstrapping (dht (fst (notify_all now es w))) = bootstrapping (dht w)
      \<and> lastBootstrap (dht (fst (notify_all now es w))) = lastBootstrap (dht w) \<and> taskMan (fst (notify_all now es w)) = taskMan w
      \<and> taskNames (fst (notify_all now es w)) = taskNames w \<and> server (fst (notify_all now es w)) = server w
      \<and> out (fst (notify_all now es w)) = out w" for es w
    by (induction now es w rule: notify_all.induct)
      (auto simp: proceed_def onSend_def on_table_def split: prod.splits option.splits if_splits)
  obtain s es err where fs: "f (server w) = (s, es, err)" by (cases "f (server w)")
  have "fst (serve now f w) = fst (notify_all now es (w\<lparr>server := s, out := out w @ es\<rparr>))"
    by (simp add: serve_def fs proceed_def split: prod.split option.split)
  with n [of es "w\<lparr>server := s, out := out w @ es\<rparr>"] show "boot_round (fst (serve now f w)) = boot_round w"
    "bootstrapping (dht (fst (serve now f w))) = bootstrapping (dht w)"
    "lastBootstrap (dht (fst (serve now f w))) = lastBootstrap (dht w)" "taskMan (fst (serve now f w)) = taskMan w"
    "taskNames (fst (serve now f w)) = taskNames w" "server (fst (serve now f w)) = fst (f (server w))"
    "out (fst (serve now f w)) = out w @ fst (snd (f (server w)))" by (simp_all add: fs)
qed

text \<open>A message that was given to the socket: it was sent, it waits in the queue, or the socket refused it.\<close>

definition handed_over :: "Env \<Rightarrow> Message \<Rightarrow> Effect list \<Rightarrow> RPCServer \<Rightarrow> bool" where
  "handed_over env m es s \<longleftrightarrow> Datagram m \<in> set es \<or> m \<in> set (messageQueue s) \<or> sendto env m = Failed"

lemma sendData_handed_over:
  "sendData env m s = (s', es, None) \<Longrightarrow> handed_over env m es s' \<and> calls s' = calls s \<and> set (messageQueue s) \<subseteq> set (messageQueue s')"
  by (auto simp: sendData_def handed_over_def split: SocketAddress.splits SendOutcome.splits if_splits)

text \<open>A call that was made without an exception is pending under a new transaction id, and its request was given to the socket.\<close>

lemma sendCall_outcome:
  assumes "sendCall env now call s = (s', es, None)"
  obtains c where "calls s (txid (request c)) = None" "calls s' = (calls s)(txid (request c) \<mapsto> c)" "call_ref c = call_ref call"
    "targetId c = targetId call" "targetAddr c = targetAddr call" "body (request c) = body (request call)"
    "remoteId (request c) = remoteId (request call)" "remoteAddr (request c) = remoteAddr (request call)"
    "handed_over env (request c) es s'" "set (messageQueue s) \<subseteq> set (messageQueue s')"
proof -
  obtain t s1 where t: "alloc_txid s = (t, s1)" by (cases "alloc_txid s")
  then have s1: "calls s1 = calls s" "messageQueue s1 = messageQueue s" by (auto simp: alloc_txid_def Let_def split: if_splits)
  have free: "calls s t = None" using assms t s1 by (auto simp: sendCall_def split: if_splits)
  define m where "m = (request call)\<lparr>txid := t, associatedCall := Some (call_ref call), mid := self s1, mversion := nodeVersion env\<rparr>"
  define c where "c = fst (call_sent now (call\<lparr>request := m\<rparr>))"
  define s2 where "s2 = s1\<lparr>calls := (calls s)(t \<mapsto> c)\<rparr>"
  obtain es1 where r: "sendCall env now call s = and_then (s2, es1, None) (sendData env m)"
    using free t s1 by (auto simp: sendCall_def sendMessage_def m_def c_def s2_def Let_def call_sent_def updateState_def)
  obtain es2 where d: "sendData env m s2 = (s', es2, None)" "es = es1 @ es2"
    using assms unfolding r by (auto simp: and_then_def split: prod.splits)
  have q: "request c = m" "txid m = t" "call_ref c = call_ref call" "targetId c = targetId call" "targetAddr c = targetAddr call"
    "body m = body (request call)" "remoteId m = remoteId (request call)" "remoteAddr m = remoteAddr (request call)"
    by (simp_all add: c_def call_sent_def updateState_def m_def Let_def)
  show ?thesis
    using sendData_handed_over [OF d(1)] d(2) free s1(2) q by (intro that [of c]) (auto simp: s2_def handed_over_def)
qed

text \<open>The calls of a bootstrap round: one pending call for each node, in the order of the nodes, whose request for the
  closest nodes goes to that node.\<close>

definition asks :: "Config \<Rightarrow> NodeInfo list \<Rightarrow> RPCCall list \<Rightarrow> World \<Rightarrow> bool" where
  "asks cfg ns cs w \<longleftrightarrow> map (\<lambda>c. (targetId c, targetAddr c)) cs = map (\<lambda>n. (nodeId n, sockaddr n)) ns
     \<and> (\<forall>c\<in>set cs. calls (server w) (txid (request c)) = Some c
          \<and> remoteId (request c) = targetId c \<and> remoteAddr (request c) = targetAddr c \<and> (\<exists>q. body (request c) = FindNodeRequest q)
          \<and> handed_over (rpcEnv cfg) (request c) (out w) (server w))"

lemma send_call_asks:
  assumes "send_call cfg now n reach (FindNodeRequest q) w = (w1, None)"
  obtains c where "call_ref c = callSupply (taskMan w)" "asks cfg [n] [c] w1"
    "\<forall>ns cs. asks cfg ns cs w \<longrightarrow> asks cfg ns cs w1"
proof -
  let ?call = "mkRPCCall (callSupply (taskMan w)) n reach (mkMessage (FindNodeRequest q) 0)"
  let ?w = "w\<lparr>taskMan := (taskMan w)\<lparr>callSupply := callSupply (taskMan w) + 1\<rparr>\<rparr>"
  have r: "serve now (sendCall (rpcEnv cfg) now ?call) ?w = (w1, None)" using assms by (simp add: send_call_def Let_def)
  obtain s es err where f: "sendCall (rpcEnv cfg) now ?call (server w) = (s, es, err)"
    by (cases "sendCall (rpcEnv cfg) now ?call (server w)")
  have w1: "server w1 = s" "out w1 = out w @ es"
    using serve_fields(6,7) [of now "sendCall (rpcEnv cfg) now ?call" ?w] unfolding r by (simp_all add: f)
  have "err = None" using r f by (auto simp: serve_def proceed_def split: prod.splits option.splits)
  with f have "sendCall (rpcEnv cfg) now ?call (server w) = (s, es, None)" by simp
  then obtain c where c: "calls (server w) (txid (request c)) = None" "calls s = (calls (server w))(txid (request c) \<mapsto> c)"
    "call_ref c = call_ref ?call" "targetId c = targetId ?call" "targetAddr c = targetAddr ?call" "body (request c) = body (request ?call)"
    "remoteId (request c) = remoteId (request ?call)" "remoteAddr (request c) = remoteAddr (request ?call)"
    "handed_over (rpcEnv cfg) (request c) es s" "set (messageQueue (server w)) \<subseteq> set (messageQueue s)"
    by (rule sendCall_outcome)
  show ?thesis
  proof (rule that [of c])
    show "call_ref c = callSupply (taskMan w)" using c(3) by (simp add: mkRPCCall_def)
    show "asks cfg [n] [c] w1" using c(2-9) w1 by (auto simp: asks_def mkRPCCall_def mkMessage_def handed_over_def)
    show "\<forall>ns cs. asks cfg ns cs w \<longrightarrow> asks cfg ns cs w1"
      using c(1,2,10) w1 unfolding asks_def handed_over_def by fastforce
  qed
qed

lemma bootstrap_calls_round:
  assumes "bootstrap_calls cfg now rnd ns w = (w', None)" "asks cfg ms ds w" "map call_ref ds = rcalls (boot_round w)"
  shows "\<exists>cs. asks cfg (ms @ ns) cs w' \<and> map call_ref cs = rcalls (boot_round w')
    \<and> rnodes (boot_round w') = rnodes (boot_round w) \<and> rcount (boot_round w') = rcount (boot_round w) \<and> rlen (boot_round w') = rlen (boot_round w)
    \<and> bootstrapping (dht w') = bootstrapping (dht w)"
  using assms
proof (induction ns arbitrary: w ms ds)
  case (Cons n ns)
  let ?w = "w\<lparr>boot_round := (boot_round w)\<lparr>rcalls := rcalls (boot_round w) @ [callSupply (taskMan w)]\<rparr>\<rparr>"
  let ?r = "send_call cfg now n None (FindNodeRequest (want (dtype4 (dht w)) (mkFindNodeRequest (rnd (callSupply (taskMan w))) False))) ?w"
  obtain w1 where w1: "?r = (w1, None)" "bootstrap_calls cfg now rnd ns w1 = (w', None)"
    using Cons.prems(1) by (cases ?r) (auto simp: proceed_def Let_def split: option.splits)
  have f: "boot_round w1 = boot_round ?w" "bootstrapping (dht w1) = bootstrapping (dht ?w)"
    using w1(1) serve_fields unfolding send_call_def Let_def by (auto simp: prod_eq_iff)
  obtain c where c: "call_ref c = callSupply (taskMan ?w)" "asks cfg [n] [c] w1" "\<forall>ns cs. asks cfg ns cs ?w \<longrightarrow> asks cfg ns cs w1"
    by (rule send_call_asks [OF w1(1)])
  have "asks cfg ms ds ?w" using Cons.prems(2) by (simp add: asks_def)
  then have "asks cfg (ms @ [n]) (ds @ [c]) w1" using c(2,3) unfolding asks_def by fastforce
  moreover have "map call_ref (ds @ [c]) = rcalls (boot_round w1)" using Cons.prems(3) c(1) f(1) by simp
  ultimately show ?case using Cons.IH [OF w1(2), of "ms @ [n]" "ds @ [c]"] f by simp
qed auto

text \<open>A round starts only when none is under way, and then all its calls are made.\<close>

lemma bootstrap_starts_round:
  assumes "dht_bootstrap cfg now rnd w = (w', None)"
  shows "w' = w \<or> (\<not> bootstrapping (dht w) \<and> bootstrapping (dht w') \<and> rcount (boot_round w') = 0 \<and> rnodes (boot_round w') = []
    \<and> rlen (boot_round w') = int (length (bootstrapNodes (dht w))) \<and> rlen (boot_round w') > 0
    \<and> (\<exists>cs. asks cfg (bootstrapNodes (dht w)) cs w' \<and> map call_ref cs = rcalls (boot_round w')))"
proof (cases "w' = w")
  case False
  let ?w = "w\<lparr>dht := (dht w)\<lparr>bootstrapping := True\<rparr>,
    boot_round := \<lparr>rcalls = [], rnodes = [], rcount = 0, rlen = int (length (bootstrapNodes (dht w)))\<rparr>\<rparr>"
  have b: "bootstrapNodes (dht w) \<noteq> []" "\<not> bootstrapping (dht w)" "bootstrap_calls cfg now rnd (bootstrapNodes (dht w)) ?w = (w', None)"
    using assms False by (auto simp: dht_bootstrap_def Let_def split: if_splits)
  from bootstrap_calls_round [OF b(3), of "[]" "[]"] b(1,2) show ?thesis by (auto simp: asks_def)
qed simp

definition ended :: "CallState \<Rightarrow> bool" where
  "ended st \<longleftrightarrow> st = RESPONDED \<or> st = CERR \<or> st = TIMEOUT"

fun bootstrap_events :: "Config \<Rightarrow> (u64 \<times> RPCCall \<times> CallState) list \<Rightarrow> World \<Rightarrow> World" where
  "bootstrap_events cfg [] w = w"
| "bootstrap_events cfg ((now, c, st) # evs) w = bootstrap_events cfg evs (bootstrap_callback cfg now c st w)"

lemma bootstrap_events_append: "bootstrap_events cfg (xs @ ys) w = bootstrap_events cfg ys (bootstrap_events cfg xs w)"
  by (induction xs arbitrary: w) auto

fun event_nodes :: "bool \<Rightarrow> (u64 \<times> RPCCall \<times> CallState) list \<Rightarrow> NodeInfo list" where
  "event_nodes ipv4 [] = []"
| "event_nodes ipv4 ((_, c, st) # evs) = (if ended st then bootstrap_nodes_of ipv4 c else []) @ event_nodes ipv4 evs"

abbreviation ended_events :: "(u64 \<times> RPCCall \<times> CallState) list \<Rightarrow> nat" where
  "ended_events evs \<equiv> length (filter (\<lambda>(_, _, st). ended st) evs)"

text \<open>Before the last call has ended the handlers only collect nodes.\<close>

lemma bootstrap_events_collect:
  assumes "rcount (boot_round w) + int (ended_events evs) < rlen (boot_round w)"
  shows "bootstrap_events cfg evs w = w\<lparr>boot_round := (boot_round w)\<lparr>rnodes := rnodes (boot_round w) @ event_nodes (dtype4 (dht w)) evs,
    rcount := rcount (boot_round w) + int (ended_events evs)\<rparr>\<rparr>"
  using assms
proof (induction evs arbitrary: w)
  case (Cons x evs)
  obtain now c st where x: "x = (now, c, st)" by (cases x)
  show ?case
  proof (cases "ended st")
    case True
    let ?w = "w\<lparr>boot_round := (boot_round w)\<lparr>rnodes := rnodes (boot_round w) @ bootstrap_nodes_of (dtype4 (dht w)) c, rcount := rcount (boot_round w) + 1\<rparr>\<rparr>"
    have "bootstrap_callback cfg now c st w = ?w"
      using Cons.prems True by (auto simp: bootstrap_callback_def Let_def ended_def x)
    with Cons.IH [of ?w] Cons.prems True show ?thesis by (simp add: x add_ac)
  next
    case False
    then have "bootstrap_callback cfg now c st w = w" by (auto simp: bootstrap_callback_def ended_def)
    with Cons False show ?thesis by (simp add: x)
  qed
qed simp

text \<open>When it has ended, the round ends: with the lookup that fills the home bucket, or at once when there is
  nothing to start from.\<close>

lemma bootstrap_round_ends:
  fixes c :: RPCCall
  assumes "rcount (boot_round w) = 0" "rnodes (boot_round w) = []" "int (ended_events evs) + 1 = rlen (boot_round w)" "ended st"
  defines "nodes \<equiv> event_nodes (dtype4 (dht w)) evs @ bootstrap_nodes_of (dtype4 (dht w)) c"
  shows "\<exists>r. bootstrap_events cfg (evs @ [(now, c, st)]) w =
    fillHomeBucket cfg now nodes (on_dht (\<lambda>d. d\<lparr>lastBootstrap := now\<rparr>) (w\<lparr>boot_round := r\<rparr>))"
proof -
  have "bootstrap_events cfg evs w = w\<lparr>boot_round := (boot_round w)\<lparr>rnodes := event_nodes (dtype4 (dht w)) evs, rcount := int (ended_events evs)\<rparr>\<rparr>"
    using bootstrap_events_collect [of w evs cfg] assms(1-3) by simp
  then show ?thesis
    using assms(3,4) by (auto simp: bootstrap_events_append bootstrap_callback_def Let_def ended_def nodes_def)
qed

section \<open>Storing and announcing\<close>

lemma announce_loop_sends:
  assumes "length (inFlight (task r)) + length td \<le> MAX_CONCURRENT_TASK_REQUESTS"
  shows "\<exists>cs. emitted (announce_loop req k td r) = emitted r @ map SubmitCall cs
      \<and> map (\<lambda>c. (targetId c, targetAddr c, body (request c))) cs = map (\<lambda>n. (nodeId n, sockaddr n, req n)) td
      \<and> inFlight (task (announce_loop req k td r)) = inFlight (task r) @ map (\<lambda>c. (call_ref c, targetId c)) cs
      \<and> taskState (task (announce_loop req k td r)) = taskState (task r) \<and> lock (task (announce_loop req k td r)) = lock (task r)
      \<and> kind (task (announce_loop req k td r)) = (if td = [] then kind (task r) else k [])"
  using assms
proof (induction td arbitrary: r)
  case (Cons n td)
  let ?r = "task_sendCall n (creachable n) (req n) (\<lambda>_. k td) r"
  let ?c = "mkRPCCall (nextCall r) (node_of n) (Some (creachable n)) (mkMessage (req n) 0)"
  have can: "canDoRequest (task r)" using Cons.prems by (simp add: canDoRequest_def)
  have f: "emitted ?r = emitted r @ [SubmitCall ?c]" "inFlight (task ?r) = inFlight (task r) @ [(nextCall r, nodeId n)]"
    "taskState (task ?r) = taskState (task r)" "lock (task ?r) = lock (task r)" "kind (task ?r) = k td"
    using can by (simp_all add: task_sendCall_def emit_def Let_def)
  have "length (inFlight (task ?r)) + length td \<le> MAX_CONCURRENT_TASK_REQUESTS" using Cons.prems f(2) by simp
  from Cons.IH [OF this] obtain cs where cs: "emitted (announce_loop req k td ?r) = emitted ?r @ map SubmitCall cs"
    "map (\<lambda>c. (targetId c, targetAddr c, body (request c))) cs = map (\<lambda>n. (nodeId n, sockaddr n, req n)) td"
    "inFlight (task (announce_loop req k td ?r)) = inFlight (task ?r) @ map (\<lambda>c. (call_ref c, targetId c)) cs"
    "taskState (task (announce_loop req k td ?r)) = taskState (task ?r)" "lock (task (announce_loop req k td ?r)) = lock (task ?r)"
    "kind (task (announce_loop req k td ?r)) = (if td = [] then kind (task ?r) else k [])" by blast
  have kd: "kind (task (announce_loop req k td ?r)) = k []" using cs(6) f(5) by (cases td) simp_all
  have c: "targetId ?c = nodeId n" "targetAddr ?c = sockaddr n" "body (request ?c) = req n" "call_ref ?c = nextCall r"
    by (simp_all add: mkRPCCall_def node_of_def mkMessage_def)
  show ?case
    using can cs(1-5) kd f(1-4) c by (intro exI [of _ "?c # cs"]) simp
qed simp

lemma announce_start:
  fixes r :: "'l Run"
  assumes "kind (task r) = ValueAnnounce td v \<or> kind (task r) = PeerAnnounce td p" "td \<noteq> []" "length td \<le> MAX_CONCURRENT_TASK_REQUESTS"
    and "taskState (task r) \<in> {INITIAL, QUEUED}" "lock (task r) = 0" "inFlight (task r) = []" "fault r = None" "emitted r = []"
  defines "req \<equiv> (\<lambda>n. case kind (task r) of ValueAnnounce _ v \<Rightarrow> StoreRequest (mkStoreValueRequest v (ctoken n))
      | PeerAnnounce _ p \<Rightarrow> AnnounceRequest (mkAnnouncePeerRequest p (ctoken n)) | _ \<Rightarrow> PingRequest)"
  shows "\<exists>r' cs rest. start ctx r = Some r' \<and> emitted r' = map SubmitCall cs @ rest
      \<and> map (\<lambda>c. (targetId c, targetAddr c, body (request c))) cs = map (\<lambda>n. (nodeId n, sockaddr n, req n)) td
      \<and> (if \<exists>v. kind (task r) = ValueAnnounce td v then rest = [] \<and> taskState (task r') = RUNNING
         else rest = map Notify (listeners (task r)) @ [RemoveTask] \<and> taskState (task r') = FINISHED)"
proof -
  define r0 where "r0 = r\<lparr>task := (task r)\<lparr>taskState := RUNNING, tstart := tnow ctx, lock := 1\<rparr>\<rparr>"
  have r0: "inFlight (task r0) = []" "kind (task r0) = kind (task r)" "taskState (task r0) = RUNNING" "emitted r0 = []"
    "listeners (task r0) = listeners (task r)" "canDoRequest (task r0)"
    using assms(6,8) by (simp_all add: r0_def canDoRequest_def MAX_CONCURRENT_TASK_REQUESTS_def)
  have st: "start ctx r = Some (let r2 = on_task (\<lambda>t. t\<lparr>lock := 0\<rparr>) (update_round ctx r0) in if isTerminal (task r2) then emit RemoveTask r2 else r2)"
  proof -
    let ?r1 = "r\<lparr>task := (task r)\<lparr>taskState := RUNNING, tstart := tnow ctx\<rparr>\<rparr>"
    have "start ctx r = serializedUpdate ctx ?r1"
      using assms(1,4,7) by (auto simp: start_def setState_def prepare_def Let_def)
    also have "\<dots> = Some (one_update ctx ?r1)" using assms(5) by (intro serializedUpdate_once) simp
    finally show ?thesis by (simp add: one_update_def on_task_def r0_def)
  qed
  define k where "k td = (case kind (task r) of ValueAnnounce _ v \<Rightarrow> ValueAnnounce td v | PeerAnnounce _ p \<Rightarrow> PeerAnnounce td p | q \<Rightarrow> q)" for td
  let ?l = "announce_loop req k td r0"
  have "update ctx r0 = ?l" using assms(1)
    by (rule disjE) (simp_all add: update_def r0 req_def k_def [abs_def])
  moreover have "\<not> isDone (task r0)" using assms(1,2) by (auto simp: isDone_def r0)
  ultimately have ur: "update_round ctx r0 = (if isDone (task ?l) then finish (tnow ctx) ?l else ?l)"
    by (simp add: update_round_def r0 isTerminal_def)
  from announce_loop_sends [of r0 td req k] assms(3) obtain cs where cs: "emitted ?l = map SubmitCall cs"
    "map (\<lambda>c. (targetId c, targetAddr c, body (request c))) cs = map (\<lambda>n. (nodeId n, sockaddr n, req n)) td"
    "inFlight (task ?l) = map (\<lambda>c. (call_ref c, targetId c)) cs" "taskState (task ?l) = RUNNING" "kind (task ?l) = k []"
    using assms(2) by (auto simp: r0)
  have ne: "cs \<noteq> []" using cs(2) assms(2) by auto
  have ls: "listeners (task ?l) = listeners (task r)"
    using quiet_announce_loop [of r0 req k td] by (simp add: quiet_def r0)
  show ?thesis
  proof (cases "\<exists>v. kind (task r) = ValueAnnounce td v")
    case True
    then obtain v where v: "kind (task r) = ValueAnnounce td v" by blast
    have "\<not> isDone (task ?l)" using cs(3-5) ne by (simp add: isDone_def k_def v isTerminal_def)
    then show ?thesis using cs(1,2,4) True by (simp add: st ur on_task_def isTerminal_def) blast
  next
    case False
    then have "\<exists>p. kind (task r) = PeerAnnounce td p" using assms(1) by auto
    then have "isDone (task ?l)" using cs(5) by (auto simp: isDone_def k_def)
    then have "emitted (update_round ctx r0) = map SubmitCall cs @ map Notify (listeners (task r))"
      "taskState (task (update_round ctx r0)) = FINISHED"
      using cs(1,4) ls by (simp_all add: ur finish_def setState_def notifyCompletionListeners_def)
    then show ?thesis using cs(2) False
      by (intro exI [of _ "let r2 = on_task (\<lambda>t. t\<lparr>lock := 0\<rparr>) (update_round ctx r0) in if isTerminal (task r2) then emit RemoveTask r2 else r2"]
          exI [of _ cs]) (simp add: st on_task_def isTerminal_def emit_def)
  qed
qed

text \<open>The announce that follows the lookup of a store or of an announced peer.\<close>

definition announces :: "Kind \<Rightarrow> Listener \<Rightarrow> nat \<Rightarrow> World \<Rightarrow> World \<Rightarrow> bool" where
  "announces k l i w w' \<longleftrightarrow>
     (\<exists>a t. tasks (taskMan w') (taskNames w) = Some a \<and> kind a = k \<and> listeners a = [l] \<and> taskState a = QUEUED \<and> lock a = 0
        \<and> inFlight a = [] \<and> queued (taskMan w') = queued (taskMan w) @ [taskNames w]
        \<and> tasks (taskMan w') i = Some t \<and> nested t = Some (taskNames w) \<and> taskState t = FINISHED)"

lemma tm_inv_task:
  assumes "tm_inv s" "tasks s i = Some t" "lock t' = lock t" "taskState t' = taskState t"
  shows "tm_inv (s\<lparr>tasks := (tasks s)(i \<mapsto> t')\<rparr>)"
proof -
  have "lock t = 0" if "i \<in> set (queued s @ running s)"
    using assms(1,2) that unfolding tm_inv_def task_ok_def by (metis option.inject)
  then show ?thesis
    using assms unfolding tm_inv_def task_ok_def isTerminal_def by (auto split: if_splits)
qed

lemma nested_task_ok:
  assumes "world_ok cfg w" "tasks (taskMan w) i = Some t"
  shows "world_ok cfg (w\<lparr>taskMan := (taskMan w)\<lparr>tasks := (tasks (taskMan w))(i \<mapsto> t\<lparr>nested := n\<rparr>)\<rparr>\<rparr>)"
  using assms tm_inv_task [of "taskMan w" i t "t\<lparr>nested := n\<rparr>"] by (auto simp: world_ok_def)

lemma announce_to_closest_ok:
  assumes "world_ok cfg w" "tasks (taskMan w) i = Some t" "lookup_of (kind t) = Some lt" "\<not> canceling (taskMan w)"
    and "taskState t = FINISHED" "cs_getEntries (closestSet lt) \<noteq> []"
  defines "td \<equiv> cs_getEntries (closestSet lt)"
  shows "\<exists>w'. announce_to_closest mk fin h i w = (w', None) \<and> step_ok cfg w (w', None)
    \<and> announces (mk td) (fin (map node_of td)) i w w'"
proof -
  let ?w1 = "w\<lparr>taskMan := (taskMan w)\<lparr>tasks := (tasks (taskMan w))(i \<mapsto> t\<lparr>nested := Some (taskNames w)\<rparr>)\<rparr>\<rparr>"
  have i: "i < taskNames w" using assms(1,2) by (auto simp: world_ok_def)
  have w1: "world_ok cfg ?w1" by (rule nested_task_ok [OF assms(1,2)])
  have r: "announce_to_closest mk fin h i w = (submit (mk td) [fin (map node_of td)] ?w1, None)"
    using assms(2,3,5,6) by (simp add: announce_to_closest_def td_def Let_def)
  moreover have "step_ok cfg w (submit (mk td) [fin (map node_of td)] ?w1, None)"
    using submit_ok [OF w1, of "mk td" "[fin (map node_of td)]"] by (simp add: step_ok_def)
  moreover have "announces (mk td) (fin (map node_of td)) i w (submit (mk td) [fin (map node_of td)] ?w1)"
    using i assms(4,5)
    by (simp add: announces_def submit_def Let_def add_task_def setState_def newTask_def)
  ultimately show ?thesis by blast
qed

text \<open>Listeners that fit the kind of their task.\<close>

fun fits :: "Listener \<Rightarrow> Kind \<Rightarrow> bool" where
  "fits (FindNodeDone _ i) k = wf_id i"
| "fits (FindValueDone _) k = (\<exists>lt s vh. k = ValueLookup lt s vh)"
| "fits (FindPeerDone _) k = (\<exists>lt ph. k = PeerLookup lt ph)"
| "fits (StoreLookupDone _ _) k = (lookup_of k \<noteq> None)"
| "fits (AnnounceLookupDone _ _) k = (lookup_of k \<noteq> None)"
| "fits _ k = True"

lemma announce_to_closest_safe:
  assumes "world_ok cfg w" "tasks (taskMan w) i = Some t" "lookup_of (kind t) \<noteq> None"
  shows "step_ok cfg w (announce_to_closest mk fin h i w)"
proof -
  obtain lt where lt: "lookup_of (kind t) = Some lt" using assms(3) by blast
  let ?w1 = "w\<lparr>taskMan := (taskMan w)\<lparr>tasks := (tasks (taskMan w))(i \<mapsto> t\<lparr>nested := Some (taskNames w)\<rparr>)\<rparr>\<rparr>"
  have "world_ok cfg ?w1" by (rule nested_task_ok [OF assms(1,2)])
  then have "step_ok cfg w (submit k ls ?w1, None)" for k ls using submit_ok by (simp add: step_ok_def)
  then show ?thesis
    using step_ok_done [OF assms(1)] complete_ok [OF assms(1)] by (simp add: announce_to_closest_def assms(2) lt Let_def)
qed

lemma fillBuckets_fields:
  "rt_entries (fst (fillBuckets now rnd rt)) = rt_entries rt" "localId (fst (fillBuckets now rnd rt)) = localId rt"
proof -
  have "map entries (buckets (fst (fillBuckets now rnd rt))) = map entries (buckets rt)"
    by (simp add: fillBuckets_def updateRefreshTimer_def)
  then show "rt_entries (fst (fillBuckets now rnd rt)) = rt_entries rt" by (simp add: rt_entries_def)
qed (simp add: fillBuckets_def)

lemma fill_buckets_ok:
  assumes "world_ok cfg w"
  shows "step_ok cfg w (fill_buckets now rnd w, None)"
proof -
  obtain rt ids where f: "fillBuckets now rnd (rtable (dht w)) = (rt, ids)" by (cases "fillBuckets now rnd (rtable (dht w))")
  have rt: "rt_inv (rtable (dht w))" using assms by (simp add: world_ok_def table_ok_def)
  have "rt_inv rt" "localId rt = localId (rtable (dht w))" "no_new (rtable (dht w)) rt"
    using fillBuckets_inv [OF rt, of now rnd] fillBuckets_fields [of now rnd "rtable (dht w)"] f
    by (auto simp: no_new_def intro: same_node_in)
  then have s: "step_ok cfg w (on_dht (\<lambda>d. d\<lparr>rtable := rt\<rparr>) w, None)" by (intro on_dht_table_ok assms)
  show ?thesis unfolding fill_buckets_def f prod.case
    by (rule step_ok_trans [OF s submit_all_ok [OF step_okD [OF s]]])
qed

lemma run_listener_ok:
  assumes "world_ok cfg w" "tasks (taskMan w) i = Some t" "fits l (kind t)"
  shows "step_ok cfg w (run_listener cfg now rnd i l w)"
proof (cases l)
  case (MaintenanceDone r)
  have "rt_inv (maintenanceTaskDone r (rtable (dht w)))"
    using assms(1) tasks_inv by (simp add: maintenanceTaskDone_def world_ok_def table_ok_def)
  moreover have "rt_entries (maintenanceTaskDone r rt) = rt_entries rt" "localId (maintenanceTaskDone r rt) = localId rt" for rt
    by (simp_all add: maintenanceTaskDone_def rt_entries_def)
  ultimately show ?thesis
    using assms(1) by (auto simp: MaintenanceDone run_listener_def world_ok_def table_ok_def intro!: on_dht_ok)
next
  case BootstrapDone
  let ?w = "on_dht (\<lambda>d. d\<lparr>bootstrapping := False\<rparr>) w"
  have s: "step_ok cfg w (?w, None)" using assms(1) by (intro on_dht_ok) (simp_all add: world_ok_def table_ok_def)
  show ?thesis
    using s step_ok_trans [OF s fill_buckets_ok [OF step_okD [OF s]]] by (simp add: BootstrapDone run_listener_def Let_def)
next
  case (FindNodeDone h target)
  have "\<exists>e. getEntry (rtable (dht w)) target = Some e"
    using assms(1,3) by (intro getEntry_defined) (simp_all add: world_ok_def table_ok_def FindNodeDone)
  then show ?thesis using complete_ok [OF assms(1)] step_ok_done [OF assms(1)]
    by (auto simp: FindNodeDone run_listener_def split: option.split)
qed (use assms in \<open>auto simp: run_listener_def intro: complete_ok step_ok_done announce_to_closest_safe\<close>)

end
