(* ===== verification/Dht_Effects.thy ===== *)
theory Dht_Effects
  imports Dht_Activity
begin

text \<open>
  The effects of tasks are carried out in finitely many steps: a listener of a store, an announce or a
  bootstrap may start tasks whose listeners start none, a cancelled task passes its listeners on once, and
  a nested task is younger than the task it is nested in.
\<close>

section \<open>The invariant of tasks and their effects\<close>

fun effect_ok :: "World \<Rightarrow> nat \<times> Listener TaskEffect \<Rightarrow> bool" where
  "effect_ok w (i, Notify l) = (\<exists>t. tasks (taskMan w) i = Some t \<and> fits l (kind t))"
| "effect_ok w (i, SubmitCall c) = wf_id (targetId c)"
| "effect_ok w (i, RemoveEntry n) = wf_id n"
| "effect_ok w (i, e) = True"

definition activity_ok :: "Config \<Rightarrow> World \<Rightarrow> bool" where
  "activity_ok cfg w \<longleftrightarrow> world_ok cfg w \<and> nested_ok (taskMan w) (taskNames w)
     \<and> (\<forall>i t. tasks (taskMan w) i = Some t \<longrightarrow> (\<forall>l\<in>set (listeners t). fits l (kind t)))
     \<and> (\<forall>x\<in>set (trace (taskMan w)). effect_ok w x)"

text \<open>Listeners that may start tasks.\<close>

fun starts_tasks :: "Listener \<Rightarrow> bool" where
  "starts_tasks BootstrapDone = True"
| "starts_tasks (StoreLookupDone _ _) = True"
| "starts_tasks (AnnounceLookupDone _ _) = True"
| "starts_tasks _ = False"

text \<open>How many listeners with \<open>p\<close> may still be called.\<close>

definition waiting :: "(Listener \<Rightarrow> bool) \<Rightarrow> Listener Task option \<Rightarrow> nat" where
  "waiting p t = (case t of None \<Rightarrow> 0 | Some t \<Rightarrow> if isTerminal t then 0 else length (filter p (listeners t)))"

fun notifies :: "(Listener \<Rightarrow> bool) \<Rightarrow> nat \<times> Listener TaskEffect \<Rightarrow> bool" where
  "notifies p (i, Notify l) = p l"
| "notifies p (i, e) = False"

definition pending :: "(Listener \<Rightarrow> bool) \<Rightarrow> World \<Rightarrow> nat" where
  "pending p w = (\<Sum>i<taskNames w. waiting p (tasks (taskMan w) i)) + length (filter (notifies p) (trace (taskMan w)))"

fun other_work :: "nat \<Rightarrow> nat \<times> Listener TaskEffect \<Rightarrow> nat" where
  "other_work n (i, Notify l) = 0"
| "other_work n (i, CancelTask j) = n - j + 1"
| "other_work n (i, e) = 1"

definition work :: "World \<Rightarrow> nat" where
  "work w = sum_list (map (other_work (taskNames w)) (trace (taskMan w)))"

lemma activity_okD:
  "activity_ok cfg w \<Longrightarrow> world_ok cfg w" "activity_ok cfg w \<Longrightarrow> nested_ok (taskMan w) (taskNames w)"
  "activity_ok cfg w \<Longrightarrow> tasks (taskMan w) i = Some t \<Longrightarrow> l \<in> set (listeners t) \<Longrightarrow> fits l (kind t)"
  "activity_ok cfg w \<Longrightarrow> x \<in> set (trace (taskMan w)) \<Longrightarrow> effect_ok w x"
  "activity_ok cfg w \<Longrightarrow> tasks (taskMan w) i = Some t \<Longrightarrow> i < taskNames w"
  by (auto simp: activity_ok_def nested_ok_def)

lemma effect_ok_keeps:
  assumes "\<And>i t. tasks (taskMan w) i = Some t \<Longrightarrow> \<exists>t'. tasks (taskMan w') i = Some t' \<and> kind t' = kind t" "effect_ok w x"
  shows "effect_ok w' x"
proof (cases x)
  case (Pair i e)
  with assms(2) show ?thesis by (cases e) (auto dest: assms(1))
qed

text \<open>A step that leaves the task manager alone.\<close>

lemma activity_other:
  assumes "activity_ok cfg w" "taskMan w' = taskMan w" "taskNames w' = taskNames w" "world_ok cfg w'"
  shows "activity_ok cfg w'" "pending p w' = pending p w" "work w' = work w"
proof -
  have "effect_ok w' x" if "effect_ok w x" for x by (rule effect_ok_keeps [OF _ that]) (simp add: assms(2))
  then show "activity_ok cfg w'" using assms unfolding activity_ok_def by auto
qed (simp_all add: assms pending_def work_def)

lemma submit_activity:
  assumes "activity_ok cfg w" "\<forall>l\<in>set ls. fits l k"
  shows "activity_ok cfg (submit k ls w)" "taskNames (submit k ls w) = taskNames w + 1"
    "pending p (submit k ls w) = pending p w + length (filter p ls)" "trace (taskMan (submit k ls w)) = trace (taskMan w)"
proof -
  let ?n = "taskNames w"
  have fresh: "tasks (taskMan w) ?n = None"
    using activity_okD(5) [OF assms(1)] by (cases "tasks (taskMan w) ?n") auto
  obtain a where a: "tasks (taskMan (submit k ls w)) = (tasks (taskMan w))(?n \<mapsto> a)" "kind a = k" "listeners a = ls" "nested a = None"
    "\<not> isTerminal a"
    by (cases "canceling (taskMan w)") (auto simp: submit_def Let_def add_task_def setState_def newTask_def isTerminal_def)
  show tr: "trace (taskMan (submit k ls w)) = trace (taskMan w)"
    by (simp add: submit_def Let_def add_task_def setState_def newTask_def)
  show n: "taskNames (submit k ls w) = ?n + 1" by (simp add: submit_def Let_def)
  have "effect_ok (submit k ls w) x" if "effect_ok w x" for x
    by (rule effect_ok_keeps [OF _ that]) (use fresh in \<open>auto simp: a\<close>)
  moreover have "nested_ok (taskMan (submit k ls w)) (?n + 1)"
    using activity_okD(2) [OF assms(1)] by (auto simp: nested_ok_def a less_Suc_eq)
  ultimately show "activity_ok cfg (submit k ls w)"
    using assms submit_ok [of cfg w k ls] unfolding activity_ok_def n tr by (auto simp: step_ok_def a)
  have "(\<Sum>i<?n. waiting p (((tasks (taskMan w))(?n \<mapsto> a)) i)) = (\<Sum>i<?n. waiting p (tasks (taskMan w) i))"
    by (rule sum.cong) auto
  then show "pending p (submit k ls w) = pending p w + length (filter p ls)"
    using a by (simp add: pending_def n tr waiting_def)
qed

lemma submit_all_activity:
  assumes "activity_ok cfg w" "\<forall>x\<in>set (zip ks ls). \<forall>l\<in>set (snd x). fits l (fst x) \<and> \<not> starts_tasks l"
  shows "activity_ok cfg (submit_all ks ls w) \<and> pending starts_tasks (submit_all ks ls w) = pending starts_tasks w"
  using assms
proof (induction ks ls w rule: submit_all.induct)
  case (1 k ks l ls w)
  have s: "activity_ok cfg (submit k l w)" "pending starts_tasks (submit k l w) = pending starts_tasks w"
    using submit_activity(1,3) [OF 1(2), of l k] 1(3) by auto
  show ?case using 1(1) [OF s(1)] 1(3) s(2) by simp
qed simp_all

section \<open>One listener\<close>

lemma run_listener_quiet:
  assumes "\<not> starts_tasks l"
  shows "taskMan (fst (run_listener cfg now rnd i l w)) = taskMan w" "taskNames (fst (run_listener cfg now rnd i l w)) = taskNames w"
  using assms by (cases l; simp add: run_listener_def on_dht_def complete_def split: option.split Kind.split)+

lemma nest_activity:
  assumes "activity_ok cfg w" "tasks (taskMan w) i = Some t"
  defines "w1 \<equiv> w\<lparr>taskMan := (taskMan w)\<lparr>tasks := (tasks (taskMan w))(i \<mapsto> t\<lparr>nested := Some (taskNames w)\<rparr>)\<rparr>\<rparr>"
  shows "activity_ok cfg w1" "pending p w1 = pending p w"
proof -
  have i: "i < taskNames w" by (rule activity_okD(5) [OF assms(1,2)])
  have "effect_ok w1 x" if "effect_ok w x" for x
    by (rule effect_ok_keeps [OF _ that]) (use assms(2) in \<open>auto simp: w1_def\<close>)
  moreover have "nested_ok (taskMan w1) (taskNames w)"
    using activity_okD(2) [OF assms(1)] i by (auto simp: nested_ok_def w1_def)
  ultimately show "activity_ok cfg w1"
    using assms(1,2) nested_task_ok [OF activity_okD(1) [OF assms(1)] assms(2)] unfolding activity_ok_def
    by (auto simp: w1_def)
  have "waiting p (tasks (taskMan w1) j) = waiting p (tasks (taskMan w) j)" for j
    using assms(2) by (simp add: w1_def waiting_def isTerminal_def)
  then show "pending p w1 = pending p w" by (simp add: pending_def w1_def)
qed

lemma announce_activity:
  assumes "activity_ok cfg w" "tasks (taskMan w) i = Some t" "lookup_of (kind t) \<noteq> None" "\<And>ns k. fits (fin ns) k \<and> \<not> starts_tasks (fin ns)"
  shows "\<exists>w'. announce_to_closest mk fin h i w = (w', None) \<and> activity_ok cfg w' \<and> pending starts_tasks w' = pending starts_tasks w"
proof -
  obtain lt where lt: "lookup_of (kind t) = Some lt" using assms(3) by blast
  let ?w1 = "w\<lparr>taskMan := (taskMan w)\<lparr>tasks := (tasks (taskMan w))(i \<mapsto> t\<lparr>nested := Some (taskNames w)\<rparr>)\<rparr>\<rparr>"
  note n = nest_activity [OF assms(1,2)]
  have s: "activity_ok cfg (submit k [fin ns] ?w1)" "pending starts_tasks (submit k [fin ns] ?w1) = pending starts_tasks w" for k ns
    using submit_activity(1,3) [OF n(1), of "[fin ns]" k] assms(4) n(2) by simp_all
  have c: "activity_ok cfg (complete h x w)" "pending starts_tasks (complete h x w) = pending starts_tasks w" for x
    using activity_other(1,2) [OF assms(1), of "complete h x w"] activity_okD(1) [OF assms(1)] by (simp_all add: complete_def)
  show ?thesis using assms(1) s c by (simp add: announce_to_closest_def assms(2) lt Let_def)
qed

lemma fill_buckets_activity:
  assumes "activity_ok cfg w" "\<forall>n. wf_id (rnd n)"
  shows "activity_ok cfg (fill_buckets now rnd w) \<and> pending starts_tasks (fill_buckets now rnd w) = pending starts_tasks w"
proof -
  obtain rt ids where f: "fillBuckets now rnd (rtable (dht w)) = (rt, ids)" by (cases "fillBuckets now rnd (rtable (dht w))")
  let ?w = "on_dht (\<lambda>d. d\<lparr>rtable := rt\<rparr>) w"
  have inv: "rt_inv (rtable (dht w))" using activity_okD(1) [OF assms(1)] by (simp add: world_ok_def table_ok_def)
  have wf: "wf_id i" if "i \<in> set ids" for i
  proof -
    from that f obtain b where "b \<in> set (buckets (rtable (dht w)))" "i = createRandomId (rnd (bref b)) (bprefix b)"
      by (auto simp: fillBuckets_def)
    then show ?thesis using createRandomId_covered(2) inv assms(2) rt_invD(7) by metis
  qed
  have "rt_inv rt" "localId rt = localId (rtable (dht w))" "no_new (rtable (dht w)) rt"
    using fillBuckets_inv [OF inv, of now rnd] fillBuckets_fields [of now rnd "rtable (dht w)"] f
    by (auto simp: no_new_def intro: same_node_in)
  then have "world_ok cfg ?w" using on_dht_table_ok [OF activity_okD(1) [OF assms(1)]] step_okD by blast
  then have a: "activity_ok cfg ?w" "pending starts_tasks ?w = pending starts_tasks w"
    using activity_other(1,2) [OF assms(1), of ?w] by (simp_all add: on_dht_def)
  have z: "\<forall>x\<in>set (zip (map (\<lambda>i. NodeLookup (mkLookupTask i) False False) ids) (map (\<lambda>i. [FindNodeDone None i]) ids)).
      \<forall>l\<in>set (snd x). fits l (fst x) \<and> \<not> starts_tasks l"
    using wf by (auto simp: zip_map_map dest: set_zip_rightD)
  show ?thesis using submit_all_activity [OF a(1) z] a(2) by (simp add: fill_buckets_def f)
qed

lemma run_listener_starts:
  assumes "activity_ok cfg w" "tasks (taskMan w) i = Some t" "fits l (kind t)" "starts_tasks l" "\<forall>n. wf_id (rnd n)"
  shows "\<exists>w'. run_listener cfg now rnd i l w = (w', None) \<and> activity_ok cfg w' \<and> pending starts_tasks w' = pending starts_tasks w"
proof (cases l)
  case BootstrapDone
  let ?w = "on_dht (\<lambda>d. d\<lparr>bootstrapping := False\<rparr>) w"
  have "world_ok cfg ?w" using activity_okD(1) [OF assms(1)] by (simp add: on_dht_def world_ok_def table_ok_def)
  then have "activity_ok cfg ?w" "pending starts_tasks ?w = pending starts_tasks w"
    using activity_other(1,2) [OF assms(1), of ?w] by (simp_all add: on_dht_def)
  then show ?thesis using fill_buckets_activity [OF _ assms(5)] by (simp add: BootstrapDone run_listener_def Let_def)
next
  case (StoreLookupDone h v)
  then show ?thesis
    using announce_activity [OF assms(1,2), where fin = "StoreDone h"] assms(3) by (simp add: run_listener_def)
next
  case (AnnounceLookupDone h p)
  then show ?thesis
    using announce_activity [OF assms(1,2), where fin = "AnnounceDone h"] assms(3) by (simp add: run_listener_def)
qed (use assms(4) in auto)

section \<open>All effects\<close>

text \<open>The measure of what is left to do, compared lexicographically.\<close>

definition drain_less :: "(World \<times> World) set" where
  "drain_less = measures [pending starts_tasks, pending (\<lambda>_. True), work]"

abbreviation drop_trace :: "(nat \<times> Listener TaskEffect) list \<Rightarrow> World \<Rightarrow> World" where
  "drop_trace es w \<equiv> w\<lparr>taskMan := (taskMan w)\<lparr>trace := es\<rparr>\<rparr>"

lemma drop_trace_activity:
  assumes "activity_ok cfg w" "trace (taskMan w) = x # es"
  shows "activity_ok cfg (drop_trace es w)" "pending p w = pending p (drop_trace es w) + (if notifies p x then 1 else 0)"
    "work w = work (drop_trace es w) + other_work (taskNames w) x" "effect_ok (drop_trace es w) x"
proof -
  have e: "effect_ok (drop_trace es w) y" if "effect_ok w y" for y by (rule effect_ok_keeps [OF _ that]) simp
  show "effect_ok (drop_trace es w) x" by (rule e [OF activity_okD(4) [OF assms(1)]]) (simp add: assms(2))
  show "activity_ok cfg (drop_trace es w)"
    using assms e unfolding activity_ok_def by (auto simp: nested_ok_def)
qed (simp_all add: pending_def work_def assms(2))

lemma cancel_shape:
  fixes t :: "'l Task" and s :: "'l TaskManager" and now :: u64
  defines "r \<equiv> cancel now (run_of t s)"
  shows "emitted r = (if isTerminal t then [] else map Notify (listeners t)) @ (case nested t of None \<Rightarrow> [] | Some n \<Rightarrow> [CancelTask n])"
    "kind (task r) = kind t" "listeners (task r) = listeners t" "nested (task r) = nested t" "lock (task r) = lock t"
    "isTerminal (task r)" "nextCall r = callSupply s"
  unfolding r_def cancel_def run_of_def setState_def notifyCompletionListeners_def emit_def isTerminal_def Let_def
  by (cases "taskState t"; simp split: option.split)+

lemma fold_perform_trace:
  "RemoveTask \<notin> set es \<Longrightarrow> fold (perform i) es s = s\<lparr>trace := trace s @ map (Pair i) es\<rparr>"
proof (induction es arbitrary: s)
  case (Cons e es)
  then have "perform i e s = s\<lparr>trace := trace s @ [(i, e)]\<rparr>" by (cases e) auto
  with Cons show ?case by simp
qed simp

text \<open>Cancelling a task moves its listeners into the list of effects.\<close>

lemma cancel_activity:
  fixes now :: u64
  assumes "activity_ok cfg w" "tasks (taskMan w) n = Some t"
  defines "es \<equiv> emitted (cancel now (run_of t (taskMan w)))"
  defines "w' \<equiv> w\<lparr>taskMan := (taskMan w)\<lparr>tasks := (tasks (taskMan w))(n \<mapsto> task (cancel now (run_of t (taskMan w)))),
    trace := map (Pair n) es @ trace (taskMan w)\<rparr>\<rparr>"
  shows "activity_ok cfg w'" "pending p w' = pending p w" "work w' < work w + other_work (taskNames w) (i, CancelTask n)"
proof -
  let ?r = "cancel now (run_of t (taskMan w))"
  note c = cancel_shape [of now t "taskMan w"]
  have n: "n < taskNames w" by (rule activity_okD(5) [OF assms(1,2)])
  have inv: "tm_inv (taskMan w)" using activity_okD(1) [OF assms(1)] by (simp add: world_ok_def)
  have l: "lock t = 0" if "n \<in> set (queued (taskMan w) @ running (taskMan w))"
    using inv assms(2) that unfolding tm_inv_def task_ok_def by (metis option.inject)
  have tm: "tm_inv (taskMan w')"
    using inv l c(5,6) unfolding tm_inv_def task_ok_def w'_def by auto
  have "effect_ok w' x" if "effect_ok w x" for x
    by (rule effect_ok_keeps [OF _ that]) (use assms(2) c(2) in \<open>auto simp: w'_def\<close>)
  moreover have "effect_ok w' (n, e)" if "e \<in> set es" for e
    using that activity_okD(3) [OF assms(1,2)] c(1,2) by (auto simp: es_def w'_def split: if_splits option.splits)
  moreover have "nested_ok (taskMan w') (taskNames w)"
    using activity_okD(2) [OF assms(1)] assms(2) c(4) by (auto simp: nested_ok_def w'_def)
  ultimately show "activity_ok cfg w'"
    using assms(1,2) tm n c(2,3) unfolding activity_ok_def world_ok_def by (auto simp: w'_def)
  have s: "(\<Sum>i<taskNames w. waiting p (tasks (taskMan w) i)) =
      (\<Sum>i<taskNames w. waiting p (tasks (taskMan w') i)) + waiting p (Some t)"
  proof -
    have f: "n \<in> {..<taskNames w}" using n by simp
    have "waiting p (tasks (taskMan w') n) = 0" using c(6) by (simp add: w'_def waiting_def)
    moreover have "(\<Sum>i\<in>{..<taskNames w} - {n}. waiting p (tasks (taskMan w') i)) = (\<Sum>i\<in>{..<taskNames w} - {n}. waiting p (tasks (taskMan w) i))"
      by (rule sum.cong) (auto simp: w'_def)
    ultimately show ?thesis using assms(2) by (simp add: sum.remove [OF _ f])
  qed
  have "length (filter (notifies p) (map (Pair n) es)) = waiting p (Some t)"
    unfolding es_def c(1) by (cases "nested t") (simp_all add: waiting_def filter_map o_def)
  then show "pending p w' = pending p w" using s by (simp add: pending_def w'_def)
  have "sum_list (map (other_work (taskNames w)) (map (Pair n) es)) < other_work (taskNames w) (i, CancelTask n)"
  proof -
    have z: "sum_list (map (other_work (taskNames w) \<circ> Pair n \<circ> Notify) ls) = 0" for ls by (induction ls) auto
    have "taskNames w - j < taskNames w - n" if "nested t = Some j" for j
      using activity_okD(2) [OF assms(1)] assms(2) that n by (auto simp: nested_ok_def intro!: diff_less_mono2)
    then show ?thesis unfolding es_def c(1) by (cases "nested t") (simp_all add: z)
  qed
  then show "work w' < work w + other_work (taskNames w) (i, CancelTask n)" by (simp add: work_def w'_def)
qed

lemma perform_effect_progress:
  assumes "activity_ok cfg w" "config_ok cfg" "\<forall>n. wf_id (rnd n)" "trace (taskMan w) = (i, e) # es"
  shows "\<exists>w1. perform_effect cfg now rnd i e (drop_trace es w) = (w1, None) \<and> activity_ok cfg w1 \<and> (w1, w) \<in> drain_less
    \<or> (\<exists>err. perform_effect cfg now rnd i e (drop_trace es w) = (w1, Some err) \<and> err \<noteq> Undefined \<and> world_ok cfg w1)"
proof -
  let ?w = "drop_trace es w"
  note d = drop_trace_activity [OF assms(1,4)]
  note ok = activity_okD(1) [OF d(1)]
  have quiet: "activity_ok cfg w1 \<and> (w1, w) \<in> drain_less"
    if "taskMan w1 = taskMan ?w" "taskNames w1 = taskNames ?w" "world_ok cfg w1" for w1
    using activity_other [OF d(1) that] d(2) d(3)
    by (cases e) (auto simp: drain_less_def)
  show ?thesis
  proof (cases e)
    case (Notify l)
    with d(4) obtain t where t: "tasks (taskMan ?w) i = Some t" "fits l (kind t)" by auto
    show ?thesis
    proof (cases "starts_tasks l")
      case True
      from run_listener_starts [OF d(1) t True assms(3)] obtain w1 where
        "run_listener cfg now rnd i l ?w = (w1, None)" "activity_ok cfg w1" "pending starts_tasks w1 = pending starts_tasks ?w" by blast
      then show ?thesis using d(2) [of starts_tasks] True by (auto simp: Notify perform_effect_def drain_less_def)
    next
      case False
      obtain w1 err where r: "run_listener cfg now rnd i l ?w = (w1, err)" by (cases "run_listener cfg now rnd i l ?w")
      have "step_ok cfg ?w (w1, err)" using run_listener_ok [OF ok t, where now = now and rnd = rnd] unfolding r .
      then show ?thesis
        using r quiet [of w1] run_listener_quiet [OF False, of cfg now rnd i ?w]
        by (cases err) (auto simp: Notify perform_effect_def step_ok_def)
    qed
  next
    case (SubmitCall c)
    have wf: "wf_id (targetId c)" using d(4) SubmitCall by simp
    obtain w1 err where r: "serve now (sendCall (rpcEnv cfg) now c) ?w = (w1, err)"
      by (cases "serve now (sendCall (rpcEnv cfg) now c) ?w")
    have s: "step_ok cfg ?w (w1, err)"
      using srv_call.serve_ok [OF ok assms(2) refl, of c now now] wf r by simp
    have "taskNames w1 = taskNames ?w" "taskMan w1 = taskMan ?w"
      using serve_fields(4) [of now "sendCall (rpcEnv cfg) now c" ?w] serve_fields(5) [of now "sendCall (rpcEnv cfg) now c" ?w] r by simp_all
    then show ?thesis using r s quiet [of w1]
      by (auto simp: SubmitCall perform_effect_def step_ok_def split: option.split error.split)
  next
    case RemoveTask
    then show ?thesis using quiet [of ?w] ok by (simp add: perform_effect_def)
  next
    case (RemoveEntry n)
    obtain w1 err where r: "on_table (rt_remove now n) ?w = (w1, err)" by (cases "on_table (rt_remove now n) ?w")
    have s: "step_ok cfg ?w (w1, err)"
      using on_table_ok [OF ok table_steps(3), of n now] d(4) unfolding RemoveEntry r by simp
    have "taskMan w1 = taskMan ?w" "taskNames w1 = taskNames ?w" using r by (auto simp: on_table_def split: option.splits)
    then show ?thesis using r s quiet [of w1] by (cases err) (auto simp: RemoveEntry perform_effect_def step_ok_def)
  next
    case (CancelTask n)
    show ?thesis
    proof (cases "tasks (taskMan ?w) n")
      case None
      then show ?thesis using quiet [of ?w] ok by (simp add: CancelTask perform_effect_def)
    next
      case (Some t)
      let ?r = "cancel now (run_of t (taskMan ?w))"
      let ?w1 = "?w\<lparr>taskMan := (taskMan ?w)\<lparr>tasks := (tasks (taskMan ?w))(n \<mapsto> task ?r),
          trace := map (Pair n) (emitted ?r) @ trace (taskMan ?w)\<rparr>\<rparr>"
      have "RemoveTask \<notin> set (emitted ?r)" using cancel_shape(1) [of now t] by (auto split: option.splits)
      then have "store n ?r (taskMan ?w\<lparr>trace := []\<rparr>) =
          (taskMan ?w)\<lparr>tasks := (tasks (taskMan ?w))(n \<mapsto> task ?r), trace := map (Pair n) (emitted ?r)\<rparr>"
        using cancel_shape(7) [of now t "taskMan ?w"] by (simp add: store_def fold_perform_trace)
      then have "perform_effect cfg now rnd i e ?w = (?w1, None)"
        using Some by (simp add: CancelTask perform_effect_def Let_def)
      moreover note cancel_activity [OF d(1) Some, where now = now]
      ultimately show ?thesis using d(2,3) by (auto simp: CancelTask drain_less_def)
    qed
  qed
qed

lemma drain_returns:
  assumes "activity_ok cfg w" "config_ok cfg" "\<forall>n. wf_id (rnd n)"
  shows "\<exists>w' err. drain cfg now rnd w = Some (w', err) \<and> world_ok cfg w' \<and> err \<noteq> Some Undefined
    \<and> (err = None \<longrightarrow> activity_ok cfg w' \<and> trace (taskMan w') = [])"
proof -
  have "wf drain_less" by (simp add: drain_less_def)
  then show ?thesis using assms(1)
  proof (induction w rule: wf_induct_rule)
    case (less w)
    show ?case
    proof (cases "trace (taskMan w)")
      case Nil
      then show ?thesis using less.prems activity_okD(1) by (subst drain.simps) simp
    next
      case (Cons x es)
      obtain i e where x: "x = (i, e)" by (cases x)
      from perform_effect_progress [OF less.prems assms(2,3) Cons [unfolded x], of now] obtain w1 where
        "perform_effect cfg now rnd i e (drop_trace es w) = (w1, None) \<and> activity_ok cfg w1 \<and> (w1, w) \<in> drain_less
          \<or> (\<exists>err. perform_effect cfg now rnd i e (drop_trace es w) = (w1, Some err) \<and> err \<noteq> Undefined \<and> world_ok cfg w1)" by blast
      then show ?thesis
      proof
        assume p: "perform_effect cfg now rnd i e (drop_trace es w) = (w1, None) \<and> activity_ok cfg w1 \<and> (w1, w) \<in> drain_less"
        then have "drain cfg now rnd w = drain cfg now rnd w1" by (subst drain.simps) (simp add: Cons x)
        then show ?thesis using less.IH [of w1] p by simp
      next
        assume "\<exists>err. perform_effect cfg now rnd i e (drop_trace es w) = (w1, Some err) \<and> err \<noteq> Undefined \<and> world_ok cfg w1"
        then show ?thesis by (subst drain.simps) (auto simp: Cons x)
      qed
    qed
  qed
qed

end
