(* ===== verification/Server_Loop.thy ===== *)
theory Server_Loop
  imports Dht_Effects
begin

text \<open>
  The receive thread of the server: the loop of \<^verbatim>\<open>RPCServer::openSockets\<close> and \<^verbatim>\<open>periodic\<close> in \<^verbatim>\<open>src/core/rpcserver.cc\<close>, which
  puts the components together. A turn of the loop handles at most one packet, then sends the queued
  messages and runs the jobs that are due. Effects of the server are passed on to the DHT and to the
  tasks in the order in which they arise. An exception that nobody catches ends the loop and closes the
  sockets. Messages of the other address family belong to the other DHT, whose world is not this one. The
  timers of calls are kept by the calls; a turn is told which of them are due. The sockets of the system are a
  parameter: whether one can be created and to which address it is bound.
\<close>

section \<open>Definitions\<close>

text \<open>The sockets: \<open>can_create\<close> is the outcome of \<^verbatim>\<open>socket\<close>, \<open>bound\<close> that of \<^verbatim>\<open>bind\<close> and \<^verbatim>\<open>getsockname\<close>. A failure is a
  \<^verbatim>\<open>std::runtime_error\<close>, which a handler of its subclass \<^verbatim>\<open>DhtError\<close> does not catch.\<close>

record Sockets =
  can_create :: "SocketAddress \<Rightarrow> bool"
  bound :: "SocketAddress \<Rightarrow> SocketAddress option"

definition bindSocket :: "Sockets \<Rightarrow> SocketAddress \<Rightarrow> SocketAddress result" where
  "bindSocket k addr =
     (if \<not> can_create k addr then Inl (RuntimeError ''Failed to create socket'')
      else case bound k addr of None \<Rightarrow> Inl (RuntimeError ''Can't bind socket'') | Some b \<Rightarrow> Inr b)"

definition open_socket :: "Sockets \<Rightarrow> SocketAddress \<Rightarrow> SocketAddress option result" where
  "open_socket k addr = bind_result (bindSocket k addr) (\<lambda>b. Inr (Some b))"

text \<open>The result are the addresses of the sockets that are open.\<close>

definition bindSockets :: "Sockets \<Rightarrow> bool \<Rightarrow> SocketAddress \<Rightarrow> SocketAddress \<Rightarrow> (SocketAddress option \<times> SocketAddress option) result" where
  "bindSockets k dht6 bind4 bind6 =
     bind_result (if bind4 \<noteq> Unspec then open_socket k bind4 else Inr None) (\<lambda>b4.
     bind_result
       (if dht6 \<and> bind6 \<noteq> Unspec then
          (let p4 = (case b4 of Some b \<Rightarrow> sa_port b | None \<Rightarrow> 0)
           in if sa_port bind6 = 0 \<and> p4 \<noteq> 0 then
                (case mkSocketAddress (inaddr bind6) p4 of
                   None \<Rightarrow> Inl (InvalidArgument ''invalid ip lenght'')
                 | Some b6 \<Rightarrow> open_socket k b6)
              else open_socket k bind6)
        else Inr None) (\<lambda>b6.
     if b4 = None \<and> b6 = None then Inl (RuntimeError ''DHT error occurred: Can't bind socket'') else Inr (b4, b6)))"

text \<open>The constructor; \<open>txid0\<close> is the random first transaction id, \<open>start0\<close> the start time, which is not initialised.\<close>

definition mkRPCServer :: "Sockets \<Rightarrow> Id \<Rightarrow> int \<Rightarrow> u64 \<Rightarrow> DHT option \<Rightarrow> DHT option \<Rightarrow> (RPCServer \<times> SocketAddress option \<times> SocketAddress option) result" where
  "mkRPCServer k i txid0 start0 dht4 dht6 =
     bind_result
       (bindSockets k (dht6 \<noteq> None) (case dht4 of Some d \<Rightarrow> daddr d | None \<Rightarrow> Unspec) (case dht6 of Some d \<Rightarrow> daddr d | None \<Rightarrow> Unspec))
       (\<lambda>(b4, b6).
         Inr (\<lparr>self = i, hasSock4 = b4 \<noteq> None, hasSock6 = b6 \<noteq> None, hasDht4 = dht4 \<noteq> None, hasDht6 = dht6 \<noteq> None, calls = Map.empty,
               nextTxid = txid0, isReachable = False, messagesAtLastReachableCheck = 0, lastReachableCheck = 0, startTime = start0,
               receivedMessages = 0, messageQueue = []\<rparr>, b4, b6))"

text \<open>The task that waits for the call \<open>c\<close>.\<close>

definition task_of_call :: "nat \<Rightarrow> World \<Rightarrow> nat option" where
  "task_of_call c w =
     find (\<lambda>i. case tasks (taskMan w) i of None \<Rightarrow> False | Some t \<Rightarrow> c \<in> fst ` set (inFlight t)) [0..<taskNames w]"

text \<open>The state change handler of the call \<open>c\<close>: of a bootstrap round, of a task, or of nobody.\<close>

definition call_changed :: "Config \<Rightarrow> u64 \<Rightarrow> (nat \<Rightarrow> Id) \<Rightarrow> RPCCall \<Rightarrow> CallState \<Rightarrow> World \<Rightarrow> step" where
  "call_changed cfg now rnd c current w =
     (if call_ref c \<in> set (rcalls (boot_round w)) then (bootstrap_callback cfg now c current w, None)
      else case task_of_call (call_ref c) w of
             None \<Rightarrow> (w, None)
           | Some i \<Rightarrow>
               (case Option.bind (tasks (taskMan w) i) (\<lambda>t. callStateChanged (ctx_of cfg now w) c current (run_of t (taskMan w))) of
                  None \<Rightarrow> (w, Some Undefined)
                | Some r \<Rightarrow>
                    let w1 = w\<lparr>taskMan := store i r (taskMan w)\<rparr>
                    in (case drain cfg now rnd w1 of
                          None \<Rightarrow> (w1, Some Undefined)
                        | Some (w2, None) \<Rightarrow> (w2, fault r)
                        | Some (w2, Some e) \<Rightarrow> (w2, Some e))))"

text \<open>\<open>c\<close> is the call that an operation of the server is about, if any.\<close>

fun pass_on :: "Config \<Rightarrow> u64 \<Rightarrow> (nat \<Rightarrow> Id) \<Rightarrow> RPCCall option \<Rightarrow> Effect list \<Rightarrow> World \<Rightarrow> step" where
  "pass_on cfg now rnd c [] w = (w, None)"
| "pass_on cfg now rnd c (OnSend i # es) w = proceed (onSend now i w) (pass_on cfg now rnd c es)"
| "pass_on cfg now rnd c (OnTimeout i # es) w = proceed (onTimeout now i w) (pass_on cfg now rnd c es)"
| "pass_on cfg now rnd c (OnMessage ipv4 msg # es) w =
     proceed (if ipv4 = dtype4 (dht w) then onMessage cfg now msg c w else (w, None)) (pass_on cfg now rnd c es)"
| "pass_on cfg now rnd c (CallEvent r (StateChange old current) # es) w =
     proceed (case c of None \<Rightarrow> (w, None) | Some call \<Rightarrow> call_changed cfg now rnd call current w) (pass_on cfg now rnd c es)"
| "pass_on cfg now rnd c (e # es) w = pass_on cfg now rnd c es w"

definition run_server :: "Config \<Rightarrow> u64 \<Rightarrow> (nat \<Rightarrow> Id) \<Rightarrow> RPCCall option \<Rightarrow> server_step \<Rightarrow> World \<Rightarrow> step" where
  "run_server cfg now rnd c r w =
     (case r of (s, es, err) \<Rightarrow> proceed (pass_on cfg now rnd c es (w\<lparr>server := s, out := out w @ es\<rparr>)) (\<lambda>w. (w, err)))"

text \<open>What \<^verbatim>\<open>select\<close> and \<^verbatim>\<open>recvfrom\<close> return: nothing, a packet, or an error; \<open>broken\<close> says that the error is one of those after which the
  sockets are bound again, \<open>locked\<close> that the lock could be taken.\<close>

datatype Incoming =
    NoPacket
  | Packet "byte list" SocketAddress
  | RecvError (broken: bool) (locked: bool)

text \<open>The parameters of a turn: decryption, the parser, random ids and numbers, the outcome of sending, and the clock.\<close>

record Turn =
  turn_now :: u64
  packet :: Incoming
  sockets :: Sockets
  addr4 :: SocketAddress
  addr6 :: SocketAddress
  timers_due :: "int list"
  decryption :: "Id \<Rightarrow> byte list \<Rightarrow> byte list result"
  parser :: "byte list \<Rightarrow> Message result"
  envs :: "nat \<Rightarrow> Env"
  clock :: "nat \<Rightarrow> u64"
  random_id :: "nat \<Rightarrow> Id"
  random1 :: int
  random2 :: int

text \<open>The pending call that a packet answers, with its response when the addresses agree.\<close>

definition answered_call :: "Turn \<Rightarrow> byte list \<Rightarrow> SocketAddress \<Rightarrow> RPCServer \<Rightarrow> RPCCall option" where
  "answered_call t buf from s =
     (case decryption t (take 32 buf) (drop 32 buf) of
        Inl e \<Rightarrow> None
      | Inr b \<Rightarrow>
          (case parser t b of
             Inl e \<Rightarrow> None
           | Inr m \<Rightarrow>
               if getType m = REQUEST then None
               else map_option (\<lambda>c. if sa_eq (remoteAddr (request c)) from
                                    then c\<lparr>response := Some (m\<lparr>mid := take 32 buf, morigin := from, associatedCall := Some (call_ref c)\<rparr>)\<rparr>
                                    else c) (calls s (txid m))))"

definition receive :: "Config \<Rightarrow> Turn \<Rightarrow> byte list \<Rightarrow> SocketAddress \<Rightarrow> World \<Rightarrow> step" where
  "receive cfg t buf from w =
     run_server cfg (turn_now t) (random_id t) (answered_call t buf from (server w))
       (handlePacket (decryption t) (parser t) (rpcEnv cfg) (turn_now t) buf from (server w)) w"

fun fire_timers :: "Config \<Rightarrow> Turn \<Rightarrow> int list \<Rightarrow> World \<Rightarrow> step" where
  "fire_timers cfg t [] w = (w, None)"
| "fire_timers cfg t (x # xs) w =
     proceed (run_server cfg (turn_now t) (random_id t) (calls (server w) x) (fire_timer (turn_now t) x (server w)) w) (fire_timers cfg t xs)"

text \<open>A job of the DHT, which works on the world with the scheduler as it is when the job runs.\<close>

definition exec_job :: "Config \<Rightarrow> Turn \<Rightarrow> DhtJob \<Rightarrow> DhtJob Scheduler \<Rightarrow> World \<Rightarrow> DhtJob Scheduler \<times> World \<times> error option" where
  "exec_job cfg t j s w =
     (case run_job cfg (turn_now t) (random_id t) (random1 t) (random2 t) j (w\<lparr>sched := s\<rparr>) of (w', e) \<Rightarrow> (sched w', w', e))"

text \<open>\<open>None\<close> when the loop over the message queue or over the timers does not end.\<close>

definition periodic :: "Config \<Rightarrow> Turn \<Rightarrow> World \<Rightarrow> step option" where
  "periodic cfg t w =
     (case flush_queue (envs t) 0 (server w) of
        None \<Rightarrow> None
      | Some r \<Rightarrow>
          (case proceed (run_server cfg (turn_now t) (random_id t) None r w) (fire_timers cfg t (timers_due t)) of
             (w1, Some e) \<Rightarrow> Some (w1, Some e)
           | (w1, None) \<Rightarrow>
               (case sched_run (clock t) 0 (exec_job cfg t) (syncTime (turn_now t) (sched w1)) w1 of
                  None \<Rightarrow> None
                | Some (s, w2, err) \<Rightarrow> Some (w2\<lparr>sched := s\<rparr>, err))))"

text \<open>The sockets that are open are closed and bound again to their addresses \<open>a4\<close> and \<open>a6\<close>.\<close>

definition rebind :: "Sockets \<Rightarrow> SocketAddress \<Rightarrow> SocketAddress \<Rightarrow> RPCServer \<Rightarrow> error option" where
  "rebind k a4 a6 s =
     (case (if hasSock4 s then open_socket k a4 else Inr None) of
        Inl e \<Rightarrow> Some e
      | Inr _ \<Rightarrow>
          (case (if hasSock6 s then open_socket k a6 else Inr None) of
             Inl e \<Rightarrow> Some e
           | Inr _ \<Rightarrow> None))"

text \<open>A turn says whether the loop goes on (\<^verbatim>\<open>break\<close> ends it without an exception).\<close>

definition turn :: "Config \<Rightarrow> Turn \<Rightarrow> World \<Rightarrow> (step \<times> bool) option" where
  "turn cfg t w =
     (let after = (\<lambda>w. map_option (\<lambda>r. (r, True)) (periodic cfg t w))
      in case packet t of
           NoPacket \<Rightarrow> after w
         | Packet buf from \<Rightarrow>
             (case receive cfg t buf from w of
                (w1, Some e) \<Rightarrow> Some ((w1, Some e), False)
              | (w1, None) \<Rightarrow> after w1)
         | RecvError lost taken \<Rightarrow>
             if \<not> lost then after w
             else if \<not> taken then Some ((w, None), False)
             else (case rebind (sockets t) (addr4 t) (addr6 t) (server w) of
                     Some e \<Rightarrow> Some ((w, Some e), False)
                   | None \<Rightarrow> if \<not> hasSock4 (server w) \<and> \<not> hasSock6 (server w) then Some ((w, None), False) else after w))"

definition close_sockets :: "World \<Rightarrow> World" where
  "close_sockets w = w\<lparr>server := (server w)\<lparr>hasSock4 := False, hasSock6 := False\<rparr>\<rparr>"

text \<open>The second component says whether the thread still runs.\<close>

fun rx_loop :: "Config \<Rightarrow> Turn list \<Rightarrow> World \<Rightarrow> (World \<times> bool) option" where
  "rx_loop cfg [] w = Some (w, True)"
| "rx_loop cfg (t # ts) w =
     (case turn cfg t w of
        None \<Rightarrow> None
      | Some ((w1, None), True) \<Rightarrow> rx_loop cfg ts w1
      | Some ((w1, _), _) \<Rightarrow> Some (close_sockets w1, False))"

section \<open>The jobs of the DHT\<close>

text \<open>The jobs of the DHT leave the scheduler alone, so that they meet the contract of jobs and a turn of the loop serves them all.\<close>

named_theorems sched_simps

lemma sched_basic [sched_simps]:
  "sched (on_dht f w) = sched w" "sched (complete h x w) = sched w" "sched (save_if_due now w) = sched w"
  "sched (submit k ls w) = sched w" "sched (fst (on_table g w)) = sched w"
  by (simp_all add: on_dht_def complete_def save_if_due_def save_def submit_def on_table_def Let_def split: option.split)

lemma sched_proceed: "sched (fst r) = sched w \<Longrightarrow> (\<And>w1. sched (fst (f w1)) = sched w1) \<Longrightarrow> sched (fst (proceed r f)) = sched w"
  by (cases r) (simp add: proceed_def split: option.split)

lemma sched_notify [sched_simps]: "sched (fst (notify_all now es w)) = sched w"
  by (induction now es w rule: notify_all.induct) (auto simp: proceed_def onSend_def sched_simps on_table_def split: prod.splits option.splits if_splits)

lemma sched_serve [sched_simps]: "sched (fst (serve now f w)) = sched w"
proof -
  have "sched (fst (proceed (notify_all now es (w\<lparr>server := s, out := o'\<rparr>)) (\<lambda>w'. (w', err)))) = sched w" for es s o' err
    using sched_notify [of now es "w\<lparr>server := s, out := o'\<rparr>"] by (intro sched_proceed) simp_all
  then show ?thesis by (simp add: serve_def split: prod.split)
qed

lemma sched_submit_all [sched_simps]: "sched (submit_all ks ls w) = sched w"
  by (induction ks ls w rule: submit_all.induct) (simp_all add: sched_simps)

lemma sched_listener [sched_simps]: "sched (fst (run_listener cfg now rnd i l w)) = sched w"
proof -
  have a: "sched (fst (announce_to_closest mk fin h i w)) = sched w" for mk fin h
    by (simp add: announce_to_closest_def Let_def sched_simps split: option.split)
  have f: "sched (fill_buckets now rnd x) = sched x" for x by (simp add: fill_buckets_def sched_simps split: prod.split)
  show ?thesis
    by (cases l) (simp_all add: run_listener_def a f sched_simps Let_def split: option.split Kind.split)
qed

lemma sched_effect: "perform_effect cfg now rnd i e w = (w1, err) \<Longrightarrow> sched w1 = sched w"
proof (cases e)
  case (SubmitCall c)
  assume "perform_effect cfg now rnd i e w = (w1, err)"
  then have "w1 = fst (serve now (sendCall (rpcEnv cfg) now c) w)"
    by (auto simp: perform_effect_def SubmitCall split: prod.splits option.splits error.splits)
  then show ?thesis by (simp add: sched_simps)
next
  case (Notify l)
  assume "perform_effect cfg now rnd i e w = (w1, err)"
  then show ?thesis using sched_listener [of cfg now rnd i l w] by (simp add: perform_effect_def Notify)
next
  case (RemoveEntry n)
  assume "perform_effect cfg now rnd i e w = (w1, err)"
  then show ?thesis using sched_basic(5) [of "rt_remove now n" w] by (simp add: perform_effect_def RemoveEntry)
qed (auto simp: perform_effect_def Let_def split: option.splits)

lemma sched_drain: "drain cfg now rnd w = Some r \<Longrightarrow> sched (fst r) = sched w"
proof (rule drain.raw_induct [where P = "\<lambda>cfg now rnd w r. sched (fst r) = sched w"])
  fix d cfg now rnd w r
  assume ih: "\<And>cfg now rnd w r. d cfg now rnd w = Some r \<Longrightarrow> sched (fst r) = sched w"
    and d: "(case trace (taskMan w) of [] \<Rightarrow> Some (w, None)
      | (i, e) # es \<Rightarrow>
          (case perform_effect cfg now rnd i e (w\<lparr>taskMan := (taskMan w)\<lparr>trace := es\<rparr>\<rparr>) of
             (w1, Some err) \<Rightarrow> Some (w1, Some err)
           | (w1, None) \<Rightarrow> d cfg now rnd w1)) = Some r"
  show "sched (fst r) = sched w"
  proof (cases "trace (taskMan w)")
    case (Cons x es)
    obtain i e where x: "x = (i, e)" by (cases x)
    obtain w1 err where p: "perform_effect cfg now rnd i e (w\<lparr>taskMan := (taskMan w)\<lparr>trace := es\<rparr>\<rparr>) = (w1, err)" by fastforce
    show ?thesis using d sched_effect [OF p] ih by (auto simp: Cons x p split: option.splits)
  qed (use d in auto)
qed

lemma sched_send_call [sched_simps]: "sched (fst (send_call cfg now n reach b w)) = sched w"
  by (simp add: send_call_def Let_def sched_simps)

lemma sched_bootstrap [sched_simps]: "sched (fst (dht_bootstrap cfg now rnd w)) = sched w"
proof -
  have "sched (fst (bootstrap_calls cfg now rnd ns x)) = sched x" for ns x
  proof (induction ns arbitrary: x)
    case (Cons n ns)
    show ?case unfolding bootstrap_calls.simps Let_def by (intro sched_proceed Cons.IH) (simp add: sched_simps)
  qed simp
  then show ?thesis by (simp add: dht_bootstrap_def Let_def)
qed

lemma sched_update [sched_simps]: "sched (fst (update_dht cfg now rnd w)) = sched w"
proof -
  have "sched (fst (proceed (bootstrap_if_needed cfg now rnd x) (\<lambda>w. (save_if_due now w, None)))) = sched x" for x
    by (intro sched_proceed) (simp_all add: bootstrap_if_needed_def sched_simps)
  then show ?thesis by (simp add: update_dht_def Let_def sched_simps split: option.split prod.split)
qed

lemma sched_job: "sched (fst (run_job cfg now rnd r1 r2 j w)) = sched w"
  by (cases j) (auto simp: run_job_def random_ping_def sched_simps split: option.split dest!: sched_drain)

lemma exec_job_acts: "acts K (exec_job cfg t)"
  unfolding acts_def
proof (intro allI exI [of _ "[]"])
  fix f s w
  show "(\<forall>p\<in>set []. op_ok K (snow s) p) \<and> fst (exec_job cfg t f s w) = fold apply_op [] s"
    using sched_job [of cfg "turn_now t" "random_id t" "random1 t" "random2 t" f "w\<lparr>sched := s\<rparr>"]
    by (auto simp: exec_job_def split: prod.split)
qed

text \<open>The run of the scheduler in a turn returns, and every job that was due and is periodic is scheduled again unless a job throws.\<close>

lemma periodic_jobs_return:
  assumes "wf_sched s" "clock_ok (clock t) s"
  shows "\<exists>s' w' e. sched_run (clock t) n (exec_job cfg t) s w = Some (s', w', e)
    \<and> (e = None \<longrightarrow> (\<forall>r\<in>set (due_refs s). \<forall>job. sjobs s r = Some job \<longrightarrow> 0 < fixedDelay job \<longrightarrow> rescheduled {} s s' r job))"
  using sched_run_outcome [OF assms exec_job_acts [of "{}" cfg t], of n w "[]"] unfolding run_outcome_def by blast

section \<open>Requests through the loop\<close>

text \<open>The packet of the turn carries the request \<open>msg\<close> of another node, for the DHT of this world.\<close>

definition carries :: "Turn \<Rightarrow> World \<Rightarrow> Message \<Rightarrow> bool" where
  "carries t w msg \<longleftrightarrow> (\<exists>buf b m. packet t = Packet buf (morigin msg) \<and> 32 \<le> length buf \<and> decryption t (take 32 buf) (drop 32 buf) = Inr b
     \<and> parser t b = Inr m \<and> msg = m\<lparr>mid := take 32 buf, morigin := morigin msg\<rparr>)
     \<and> getType msg = REQUEST \<and> txid msg \<noteq> 0
     \<and> (if sa_family (morigin msg) = sa_family (Inet4 [] 0) then hasDht4 (server w) \<and> dtype4 (dht w)
        else hasDht6 (server w) \<and> \<not> dtype4 (dht w))"

text \<open>The server counts a packet before it is handled.\<close>

definition counted :: "World \<Rightarrow> Message \<Rightarrow> World" where
  "counted w msg = w\<lparr>server := (server w)\<lparr>receivedMessages := receivedMessages (server w) + 1\<rparr>,
     out := out w @ [OnMessage (dtype4 (dht w)) msg]\<rparr>"

lemma receive_request:
  assumes "carries t w msg" "packet t = Packet buf from" "printable (body msg)"
  shows "receive cfg t buf from w = onMessage cfg (turn_now t) msg None (counted w msg)"
proof -
  from assms obtain b m where p: "from = morigin msg" "32 \<le> length buf" "decryption t (take 32 buf) (drop 32 buf) = Inr b"
    "parser t b = Inr m" "msg = m\<lparr>mid := take 32 buf, morigin := morigin msg\<rparr>" by (auto simp: carries_def)
  have q: "getType msg = REQUEST" "txid msg \<noteq> 0" using assms(1) by (simp_all add: carries_def)
  have "body msg = body m" "txid msg = txid m" by (subst p(5), simp)+
  then have "getType m = getType msg" "txid m = txid msg" by simp_all
  then have a: "answered_call t buf from (server w) = None" using p q by (simp add: answered_call_def)
  let ?s = "(server w)\<lparr>receivedMessages := receivedMessages (server w) + 1\<rparr>"
  have "handlePacket (decryption t) (parser t) (rpcEnv cfg) (turn_now t) buf from (server w) = handleMessage msg ?s"
    using p(1-4) q p(5) [symmetric] assms(3) by (simp add: handlePacket_def and_then_def dispatch_def split: prod.split option.split)
  also have "\<dots> = (?s, [OnMessage (dtype4 (dht w)) msg], None)"
    using assms(1) by (auto simp: handleMessage_def carries_def split: if_splits)
  finally have h: "handlePacket (decryption t) (parser t) (rpcEnv cfg) (turn_now t) buf from (server w) =
      (?s, [OnMessage (dtype4 (dht w)) msg], None)" .
  show ?thesis
    by (cases "onMessage cfg (turn_now t) msg None (counted w msg)")
      (auto simp: receive_def a h run_server_def counted_def [symmetric] proceed_def split: option.split, auto simp: counted_def)
qed

text \<open>A request whose text for the log cannot be made throws before anybody looks at it.\<close>

lemma unprintable_request_stops:
  assumes "carries t w msg" "\<not> printable (body msg)"
  shows "\<exists>w'. rx_loop cfg (t # ts) w = Some (close_sockets w', False)"
proof -
  from assms(1) obtain buf b m where p: "packet t = Packet buf (morigin msg)" "32 \<le> length buf" "decryption t (take 32 buf) (drop 32 buf) = Inr b"
    "parser t b = Inr m" "msg = m\<lparr>mid := take 32 buf, morigin := morigin msg\<rparr>" by (auto simp: carries_def)
  have "body msg = body m" by (subst p(5), simp)
  then have "\<exists>s1. handlePacket (decryption t) (parser t) (rpcEnv cfg) (turn_now t) buf (morigin msg) (server w)
      = (s1, [], Some (RuntimeError ''bad optional access''))"
    using p(2-4) assms(2) by (simp add: handlePacket_def)
  then have "\<exists>w'. receive cfg t buf (morigin msg) w = (w', Some (RuntimeError ''bad optional access''))"
    by (auto simp: receive_def run_server_def proceed_def)
  then show ?thesis by (auto simp: turn_def p(1))
qed

text \<open>A request whose handler throws ends the thread.\<close>

lemma throwing_request_stops:
  assumes "carries t w msg" "drunning (dht w)" "\<not> id_eq (dnode (dht w)) (mid msg)" "\<not> sa_eq (daddr (dht w)) (morigin msg)"
    and "onRequest cfg (turn_now t) msg (counted w msg) = (w', Some e)"
  shows "\<exists>w'. rx_loop cfg (t # ts) w = Some (close_sockets w', False)"
proof (cases "printable (body msg)")
  case False
  then show ?thesis by (rule unprintable_request_stops [OF assms(1)])
next
  case True
  from assms(1) obtain buf where p: "packet t = Packet buf (morigin msg)" and q: "getType msg = REQUEST" by (auto simp: carries_def)
  have "onMessage cfg (turn_now t) msg None (counted w msg) = (w', Some e)"
    using assms(2-5) q by (simp add: onMessage_def proceed_def counted_def)
  then have "turn cfg t w = Some ((w', Some e), False)" using receive_request [OF assms(1) p True, of cfg] by (simp add: turn_def p)
  then show ?thesis by auto
qed

lemma empty_value_throws: "vf_value q = [] \<Longrightarrow> \<exists>e. getValue q = Inl e"
  by (cases "getValue q") (auto simp: getValue_def Value_of_def)

lemma closed_sockets_fail:
  "\<exists>e. sendData env m (server (close_sockets w)) = (server (close_sockets w), [], Some (RuntimeError e))"
  by (simp add: sendData_def close_sockets_def split: SocketAddress.split)

text \<open>A server has a socket, and only sockets of address families with a DHT; a socket that cannot be bound is an exception of the
  constructor, although the code means to go on with the other family.\<close>

lemma new_server_sockets:
  assumes "mkRPCServer k i n st d4 d6 = Inr (s, b4, b6)"
  shows "hasSock4 s \<or> hasSock6 s" "hasSock4 s \<longrightarrow> hasDht4 s" "hasSock6 s \<longrightarrow> hasDht6 s" "calls s = Map.empty"
  using assms by (auto simp: mkRPCServer_def bindSockets_def open_socket_def split: if_splits option.splits prod.splits)

lemma bind_failure_escapes:
  assumes "daddr d \<noteq> Unspec" "bindSocket k (daddr d) = Inl e"
  shows "mkRPCServer k i n st (Some d) d6 = Inl e"
  using assms by (simp add: mkRPCServer_def bindSockets_def open_socket_def)

lemma rebind_failure_stops:
  assumes "packet t = RecvError True True" "hasSock4 (server w)" "bindSocket (sockets t) (addr4 t) = Inl e"
  shows "rx_loop cfg (t # ts) w = Some (close_sockets w, False)"
  using assms by (simp add: turn_def rebind_def open_socket_def)

end
