(* ===== verification/Proxy_Packets.thy ===== *)
theory Proxy_Packets
  imports Values
begin

unbundle bit_operations_syntax

text \<open>
  The packets of the active proxy: \<^verbatim>\<open>PacketType\<close> of \<^verbatim>\<open>src/addons/activeproxy/packettype.h\<close>, \<^verbatim>\<open>ConnectionState\<close> of
  \<^verbatim>\<open>connection.h\<close>, and the part of \<^verbatim>\<open>ProxyConnection::onRelayRead\<close> and \<^verbatim>\<open>sendRelayPacket\<close> in \<^verbatim>\<open>connection.cc\<close> that cuts the byte
  stream of the server into packets and builds packets. Random numbers are a parameter: \<open>rnd n\<close> is the
  number below \<open>n\<close> that \<^verbatim>\<open>Random::uint8(n)\<close> draws. The number of bytes of a chunk stays below \<^verbatim>\<open>INT_MAX\<close>.
\<close>

section \<open>Definitions\<close>

subsection \<open>Packet types\<close>

datatype PacketType =
    AUTH | AUTH_ACK | ATTACH | ATTACH_ACK | PING | PING_ACK | CONNECT | CONNECT_ACK | DISCONNECT | DISCONNECT_ACK | DATA | ERROR

definition ACK_MASK :: byte where "ACK_MASK = 0x80"
definition TYPE_MASK :: byte where "TYPE_MASK = 0x7F"

definition random_byte :: "(byte \<Rightarrow> byte) \<Rightarrow> byte \<Rightarrow> byte \<Rightarrow> byte" where
  "random_byte rnd lo hi = rnd (hi - lo + 1) + lo"

definition packet_value :: "(byte \<Rightarrow> byte) \<Rightarrow> PacketType \<Rightarrow> byte" where
  "packet_value rnd t =
     (case t of
        AUTH \<Rightarrow> random_byte rnd 0x00 0x07
      | AUTH_ACK \<Rightarrow> random_byte rnd 0x00 0x07 OR ACK_MASK
      | ATTACH \<Rightarrow> random_byte rnd 0x08 0x0F
      | ATTACH_ACK \<Rightarrow> random_byte rnd 0x08 0x0F OR ACK_MASK
      | PING \<Rightarrow> random_byte rnd 0x10 0x1F
      | PING_ACK \<Rightarrow> random_byte rnd 0x10 0x1F OR ACK_MASK
      | CONNECT \<Rightarrow> random_byte rnd 0x20 0x2F
      | CONNECT_ACK \<Rightarrow> random_byte rnd 0x20 0x2F OR ACK_MASK
      | DISCONNECT \<Rightarrow> random_byte rnd 0x30 0x3F
      | DISCONNECT_ACK \<Rightarrow> random_byte rnd 0x30 0x3F OR ACK_MASK
      | DATA \<Rightarrow> random_byte rnd 0x40 0x6F
      | ERROR \<Rightarrow> random_byte rnd 0x70 0x7F OR ACK_MASK)"

definition valueOf :: "byte \<Rightarrow> PacketType result" where
  "valueOf v =
     (let ack = v AND ACK_MASK \<noteq> 0; t = v AND TYPE_MASK; k = drop_bit 4 t
      in if k = 0 then
           if t \<le> 0x07 then Inr (if ack then AUTH_ACK else AUTH) else Inr (if ack then ATTACH_ACK else ATTACH)
         else if k = 1 then Inr (if ack then PING_ACK else PING)
         else if k = 2 then Inr (if ack then CONNECT_ACK else CONNECT)
         else if k = 3 then Inr (if ack then DISCONNECT_ACK else DISCONNECT)
         else if k = 4 \<or> k = 5 \<or> k = 6 then
           if ack then Inl (InvalidArgument ''Should never happen: invalid flag'') else Inr DATA
         else if k = 7 then
           if ack then Inl (InvalidArgument ''Should never happen: invalid flag'') else Inr ERROR
         else Inl (InvalidArgument ''Should never happen: invalid flag''))"

subsection \<open>States of a connection\<close>

datatype ConnectionState = Initializing | Authenticating | Attaching | Idling | Relaying | Disconnecting | Closed

fun accept :: "ConnectionState \<Rightarrow> PacketType \<Rightarrow> bool" where
  "accept Initializing t \<longleftrightarrow> False"
| "accept Authenticating t \<longleftrightarrow> t = AUTH_ACK"
| "accept Attaching t \<longleftrightarrow> t = ATTACH_ACK"
| "accept Idling t \<longleftrightarrow> t = PING_ACK \<or> t = CONNECT"
| "accept Relaying t \<longleftrightarrow> t = PING_ACK \<or> t = DATA \<or> t = DISCONNECT"
| "accept Disconnecting t \<longleftrightarrow> t = DISCONNECT \<or> t = DISCONNECT_ACK \<or> t = DATA"
| "accept Closed t \<longleftrightarrow> False"

subsection \<open>The stream of packets\<close>

definition PACKET_HEADER_BYTES :: nat where "PACKET_HEADER_BYTES = 3"
definition MAC_BYTES :: nat where "MAC_BYTES = 16"
definition MAX_DATA_PACKET_SIZE :: nat where "MAX_DATA_PACKET_SIZE = 0x7FFF"
definition MAX_CONTROL_PACKET_SIZE :: nat where "MAX_CONTROL_PACKET_SIZE = 0x1000"
definition MAX_UPSTREAM_READ_BUFFER_SIZE :: nat where
  "MAX_UPSTREAM_READ_BUFFER_SIZE = MAX_DATA_PACKET_SIZE - PACKET_HEADER_BYTES - MAC_BYTES"

definition packetSize :: "byte list \<Rightarrow> nat" where
  "packetSize d = unat (d ! 0) * 256 + unat (d ! 1)"

definition htons :: "nat \<Rightarrow> byte list" where
  "htons n = [word_of_nat (n div 256), word_of_nat n]"

text \<open>A packet that is processed: the bytes that are read at its address, and its size. The size of a
  malformed packet may be smaller than its header.\<close>

type_synonym packet = "byte list \<times> nat"

text \<open>The loop over the packets that lie completely in the data \<open>d\<close> that was read. \<open>f\<close> processes a packet and may fail; the result has
  the bytes that are left for the sticky buffer. A packet of size 0 is processed again and again.\<close>

partial_function (option) relay_loop :: "(packet \<Rightarrow> 's \<Rightarrow> 'f + 's) \<Rightarrow> byte list \<Rightarrow> 's \<Rightarrow> ('f + byte list \<times> 's) option" where
  "relay_loop f d s =
     (if length d < PACKET_HEADER_BYTES then Some (Inr (d, s))
      else if length d < packetSize d then Some (Inr (d, s))
      else case f (take (max PACKET_HEADER_BYTES (packetSize d)) d, packetSize d) s of
             Inl e \<Rightarrow> Some (Inl e)
           | Inr s1 \<Rightarrow> relay_loop f (drop (packetSize d) d) s1)"

declare relay_loop.simps [code]

text \<open>\<open>sticky\<close> is the sticky buffer. A negative number of missing bytes is converted to a \<^verbatim>\<open>size_t\<close> and so exceeds what
  remains.\<close>

definition relay_read :: "(packet \<Rightarrow> 's \<Rightarrow> 'f + 's) \<Rightarrow> byte list \<Rightarrow> byte list \<Rightarrow> 's \<Rightarrow> ('f + byte list \<times> 's) option" where
  "relay_read f sticky d s =
     (if sticky = [] then relay_loop f d s
      else let k = PACKET_HEADER_BYTES - length sticky
           in if length d < k then Some (Inr (sticky @ d, s))
              else let st = sticky @ take k d; d1 = drop k d; n = packetSize st
                   in if n < length st \<or> length d1 < n - length st then Some (Inr (st @ d1, s))
                      else case f (st @ take (n - length st) d1, n) s of
                             Inl e \<Rightarrow> Some (Inl e)
                           | Inr s1 \<Rightarrow> relay_loop f (drop (n - length st) d1) s1)"

text \<open>A sequence of reads, and of packets.\<close>

fun feed :: "(packet \<Rightarrow> 's \<Rightarrow> 'f + 's) \<Rightarrow> byte list \<Rightarrow> byte list list \<Rightarrow> 's \<Rightarrow> ('f + byte list \<times> 's) option" where
  "feed f st [] s = Some (Inr (st, s))"
| "feed f st (c # cs) s =
     (case relay_read f st c s of
        None \<Rightarrow> None
      | Some (Inl e) \<Rightarrow> Some (Inl e)
      | Some (Inr (st1, s1)) \<Rightarrow> feed f st1 cs s1)"

fun run_packets :: "(packet \<Rightarrow> 's \<Rightarrow> 'f + 's) \<Rightarrow> packet list \<Rightarrow> 's \<Rightarrow> 'f + 's" where
  "run_packets f [] s = Inr s"
| "run_packets f (p # ps) s = (case f p s of Inl e \<Rightarrow> Inl e | Inr s1 \<Rightarrow> run_packets f ps s1)"

text \<open>The bytes of a packet that is sent.\<close>

definition relay_packet :: "(byte \<Rightarrow> byte) \<Rightarrow> PacketType \<Rightarrow> byte list \<Rightarrow> byte list \<Rightarrow> byte list" where
  "relay_packet rnd t payload padding =
     htons (PACKET_HEADER_BYTES + length payload + length padding) @ [packet_value rnd t] @ payload @ padding"

section \<open>Packet types survive the wire\<close>

lemma byte_below: "(r :: byte) < n \<Longrightarrow> r \<in> set (map word_of_nat [0..<unat n])"
  by (auto simp: word_less_nat_alt intro!: image_eqI [of _ _ "unat r"])

lemma packet_value_valueOf:
  assumes "\<forall>n > 0. rnd n < n"
  shows "valueOf (packet_value rnd t) = (if t = ERROR then Inl (InvalidArgument ''Should never happen: invalid flag'') else Inr t)"
proof -
  have "rnd 8 \<in> set (map word_of_nat [0..<8])" "rnd 16 \<in> set (map word_of_nat [0..<16])" "rnd 48 \<in> set (map word_of_nat [0..<48])"
    using byte_below [of "rnd 8" 8] byte_below [of "rnd 16" 16] byte_below [of "rnd 48" 48] assms by simp_all
  then have r: "rnd 8 \<in> set (map word_of_nat [0,1,2,3,4,5,6,7])" "rnd 16 \<in> set (map word_of_nat [0,1,2,3,4,5,6,7,8,9,10,11,12,13,14,15])"
    "rnd 48 \<in> set (map word_of_nat [0,1,2,3,4,5,6,7,8,9,10,11,12,13,14,15,16,17,18,19,20,21,22,23,24,25,26,27,28,29,30,31,32,33,34,35,36,37,38,39,
        40,41,42,43,44,45,46,47])"
    by (simp_all add: upt_rec)
  note d = packet_value_def random_byte_def valueOf_def ACK_MASK_def TYPE_MASK_def
  have "t \<in> {AUTH, AUTH_ACK, ATTACH, ATTACH_ACK} \<or> t \<in> {PING, PING_ACK, CONNECT, CONNECT_ACK, DISCONNECT, DISCONNECT_ACK, ERROR} \<or> t = DATA"
    by (cases t) simp_all
  then show ?thesis
  proof (elim disjE)
    assume "t \<in> {AUTH, AUTH_ACK, ATTACH, ATTACH_ACK}"
    with r(1) show ?thesis by (auto simp: d)
  next
    assume "t \<in> {PING, PING_ACK, CONNECT, CONNECT_ACK, DISCONNECT, DISCONNECT_ACK, ERROR}"
    with r(2) show ?thesis by (auto simp: d)
  next
    assume "t = DATA"
    with r(3) show ?thesis by (auto simp: d)
  qed
qed

section \<open>The stream is cut into the packets that were sent\<close>

definition wf_packet :: "byte list \<Rightarrow> bool" where
  "wf_packet b \<longleftrightarrow> PACKET_HEADER_BYTES \<le> length b \<and> packetSize b = length b"

abbreviation whole :: "byte list \<Rightarrow> packet" where
  "whole b \<equiv> (b, length b)"

lemma packetSize_append [simp]: "2 \<le> length b \<Longrightarrow> packetSize (b @ c) = packetSize b"
  by (auto simp: packetSize_def nth_append)

lemma packetSize_prefix: "c @ rest = b @ bs \<Longrightarrow> 2 \<le> length b \<Longrightarrow> 2 \<le> length c \<Longrightarrow> packetSize c = packetSize b"
  using packetSize_append [of c rest] packetSize_append [of b bs] by simp

text \<open>A packet of size 0 that can be processed again and again keeps the loop from returning.\<close>

lemma size_zero_diverges:
  assumes "PACKET_HEADER_BYTES \<le> length d" "packetSize d = 0" "\<And>s. P s \<Longrightarrow> \<exists>s'. f (take PACKET_HEADER_BYTES d, 0) s = Inr s' \<and> P s'" "P s"
  shows "relay_loop f d s = None"
proof -
  define endless where "endless f d s \<longleftrightarrow> PACKET_HEADER_BYTES \<le> length d \<and> packetSize d = 0 \<and> P s
      \<and> (\<forall>s. P s \<longrightarrow> (\<exists>s'. f (take PACKET_HEADER_BYTES d, 0) s = Inr s' \<and> P s'))"
    for f :: "packet \<Rightarrow> 'a \<Rightarrow> 'b + 'a" and d s
  have "\<not> endless f d s" if "relay_loop f d s = Some y" for y
    using that
  proof (rule relay_loop.raw_induct [rotated, where P = "\<lambda>f d s y. \<not> endless f d s"])
    fix g :: "(packet \<Rightarrow> 'a \<Rightarrow> 'b + 'a) \<Rightarrow> byte list \<Rightarrow> 'a \<Rightarrow> ('b + byte list \<times> 'a) option" and f d s y
    assume a: "\<And>f d s y. g f d s = Some y \<Longrightarrow> \<not> endless f d s"
      "(if length d < PACKET_HEADER_BYTES then Some (Inr (d, s)) else if length d < packetSize d then Some (Inr (d, s))
        else case f (take (max PACKET_HEADER_BYTES (packetSize d)) d, packetSize d) s of Inl e \<Rightarrow> Some (Inl e) | Inr s1 \<Rightarrow> g f (drop (packetSize d) d) s1) = Some y"
    show "\<not> endless f d s"
    proof
      assume c: "endless f d s"
      then obtain s1 where s1: "f (take PACKET_HEADER_BYTES d, 0) s = Inr s1" "P s1" by (auto simp: endless_def)
      with a(2) c have "g f d s1 = Some y" by (simp add: endless_def)
      moreover have "endless f d s1" using c s1(2) by (simp add: endless_def)
      ultimately show False using a(1) by blast
    qed
  qed
  then show ?thesis using assms by (cases "relay_loop f d s") (auto simp: endless_def)
qed

text \<open>What processing a packet keeps, a read keeps.\<close>

lemma relay_loop_keeps:
  assumes "\<And>pkt s. P s \<Longrightarrow> case f pkt s of Inl e \<Rightarrow> Q e | Inr s1 \<Rightarrow> P s1" "P s" "relay_loop f d s = Some r"
  shows "case r of Inl e \<Rightarrow> Q e | Inr (st, s1) \<Rightarrow> P s1"
proof -
  define h where "h f \<longleftrightarrow> (\<forall>pkt s. P s \<longrightarrow> (case f pkt s of Inl e \<Rightarrow> Q e | Inr s1 \<Rightarrow> P s1))" for f :: "packet \<Rightarrow> 'a \<Rightarrow> 'b + 'a"
  from assms(3) have "h f \<and> P s \<longrightarrow> (case r of Inl e \<Rightarrow> Q e | Inr (st, s1) \<Rightarrow> P s1)"
  proof (rule relay_loop.raw_induct [rotated, where P = "\<lambda>f d s r. h f \<and> P s \<longrightarrow> (case r of Inl e \<Rightarrow> Q e | Inr (st, s1) \<Rightarrow> P s1)"])
    fix g :: "(packet \<Rightarrow> 'a \<Rightarrow> 'b + 'a) \<Rightarrow> byte list \<Rightarrow> 'a \<Rightarrow> ('b + byte list \<times> 'a) option" and f d s r
    assume a: "\<And>f d s r. g f d s = Some r \<Longrightarrow> h f \<and> P s \<longrightarrow> (case r of Inl e \<Rightarrow> Q e | Inr (st, s1) \<Rightarrow> P s1)"
      "(if length d < PACKET_HEADER_BYTES then Some (Inr (d, s)) else if length d < packetSize d then Some (Inr (d, s))
        else case f (take (max PACKET_HEADER_BYTES (packetSize d)) d, packetSize d) s of Inl e \<Rightarrow> Some (Inl e) | Inr s1 \<Rightarrow> g f (drop (packetSize d) d) s1) = Some r"
    show "h f \<and> P s \<longrightarrow> (case r of Inl e \<Rightarrow> Q e | Inr (st, s1) \<Rightarrow> P s1)"
    proof (intro impI, elim conjE)
      assume b: "h f" "P s"
      have "case f (take (max PACKET_HEADER_BYTES (packetSize d)) d, packetSize d) s of Inl e \<Rightarrow> Q e | Inr s1 \<Rightarrow> P s1"
        using b by (simp add: h_def)
      with a b show "case r of Inl e \<Rightarrow> Q e | Inr (st, s1) \<Rightarrow> P s1"
        by (cases "f (take (max PACKET_HEADER_BYTES (packetSize d)) d, packetSize d) s") (auto split: if_splits)
    qed
  qed
  then show ?thesis using assms(1,2) by (simp add: h_def)
qed

lemma relay_read_keeps:
  assumes "\<And>pkt s. P s \<Longrightarrow> case f pkt s of Inl e \<Rightarrow> Q e | Inr s1 \<Rightarrow> P s1" "P s" "relay_read f st d s = Some r"
  shows "case r of Inl e \<Rightarrow> Q e | Inr (st, s1) \<Rightarrow> P s1"
proof -
  note l = relay_loop_keeps [where P = P and Q = Q and f = f, OF assms(1)]
  have "(\<exists>st'. r = Inr (st', s)) \<or> (\<exists>d'. relay_loop f d' s = Some r)
      \<or> (\<exists>pkt d'. (case f pkt s of Inl e \<Rightarrow> Some (Inl e) | Inr s1 \<Rightarrow> relay_loop f d' s1) = Some r)"
    using assms(3) unfolding relay_read_def Let_def by (simp split: if_splits) blast+
  then show ?thesis
  proof (elim disjE exE)
    fix pkt d'
    assume "(case f pkt s of Inl e \<Rightarrow> Some (Inl e) | Inr s1 \<Rightarrow> relay_loop f d' s1) = Some r"
    then show ?thesis using assms(1) [OF assms(2), of pkt] l by (cases "f pkt s") auto
  qed (use assms(2) l in auto)
qed

text \<open>What is left over is nothing, or the beginning of the next packet.\<close>

definition leftover :: "byte list \<Rightarrow> byte list list \<Rightarrow> bool" where
  "leftover st bs \<longleftrightarrow> st = [] \<or> (\<exists>b bs'. bs = b # bs' \<and> length st < length b)"

lemma append_longer: "x @ r = b @ y \<Longrightarrow> length b \<le> length x \<Longrightarrow> \<exists>d. x = b @ d \<and> d @ r = y"
  by (auto simp: append_eq_append_conv2)

lemma run_packets_append:
  "run_packets f (ps @ qs) s = (case run_packets f ps s of Inl e \<Rightarrow> Inl e | Inr s1 \<Rightarrow> run_packets f qs s1)"
  by (induction ps arbitrary: s) (auto split: sum.split)

definition handled_up_to :: "(packet \<Rightarrow> 's \<Rightarrow> 'f + 's) \<Rightarrow> byte list list \<Rightarrow> byte list \<Rightarrow> 's \<Rightarrow> ('f + byte list \<times> 's) option \<Rightarrow> bool" where
  "handled_up_to f bs rest s r \<longleftrightarrow> (\<exists>e. r = Some (Inl e) \<and> run_packets f (map whole bs) s = Inl e)
     \<or> (\<exists>k st s1. r = Some (Inr (st, s1)) \<and> run_packets f (map whole (take k bs)) s = Inr s1 \<and> st @ rest = concat (drop k bs) \<and> leftover st (drop k bs))"

lemma handled_none: "leftover c bs \<Longrightarrow> c @ rest = concat bs \<Longrightarrow> handled_up_to f bs rest s (Some (Inr (c, s)))"
  unfolding handled_up_to_def by (intro disjI2 exI [of _ 0] exI [of _ c] exI [of _ s]) simp

lemma handled_one:
  assumes "handled_up_to f bs rest s1 r" "f (whole b) s = Inr s1"
  shows "handled_up_to f (b # bs) rest s r"
  using assms(1) unfolding handled_up_to_def
proof (elim disjE exE conjE)
  fix k st s2
  assume "r = Some (Inr (st, s2))" "run_packets f (map whole (take k bs)) s1 = Inr s2" "st @ rest = concat (drop k bs)" "leftover st (drop k bs)"
  with assms(2) show "(\<exists>e. r = Some (Inl e) \<and> run_packets f (map whole (b # bs)) s = Inl e)
     \<or> (\<exists>k st s1. r = Some (Inr (st, s1)) \<and> run_packets f (map whole (take k (b # bs))) s = Inr s1 \<and> st @ rest = concat (drop k (b # bs)) \<and> leftover st (drop k (b # bs)))"
    by (intro disjI2 exI [of _ "Suc k"] exI [of _ st] exI [of _ s2]) simp
qed (simp add: assms(2))

lemma handled_fails: "f (whole b) s = Inl e \<Longrightarrow> handled_up_to f (b # bs) rest s (Some (Inl e))"
  by (simp add: handled_up_to_def)

lemma relay_loop_packets:
  assumes "list_all wf_packet bs" "c @ rest = concat bs"
  shows "handled_up_to f bs rest s (relay_loop f c s)"
  using assms
proof (induction bs arbitrary: c s)
  case Nil
  then show ?case by (subst relay_loop.simps) (simp add: PACKET_HEADER_BYTES_def handled_none leftover_def)
next
  case (Cons b bs)
  have b: "3 \<le> length b" "packetSize b = length b" using Cons.prems(1) by (simp_all add: wf_packet_def PACKET_HEADER_BYTES_def)
  show ?case
  proof (cases "length c < length b")
    case True
    have "relay_loop f c s = Some (Inr (c, s))"
    proof (cases "length c < 3")
      case False
      then have "packetSize c = length b" using packetSize_prefix [of c rest b "concat bs"] Cons.prems(2) b by simp
      with False True show ?thesis by (subst relay_loop.simps) (simp add: PACKET_HEADER_BYTES_def)
    qed (subst relay_loop.simps, simp add: PACKET_HEADER_BYTES_def)
    then show ?thesis using True Cons.prems(2) by (simp add: handled_none leftover_def)
  next
    case False
    then obtain d where c: "c = b @ d" "d @ rest = concat bs" using append_longer [of c rest b "concat bs"] Cons.prems(2) by auto
    have "relay_loop f c s = (case f (whole b) s of Inl e \<Rightarrow> Some (Inl e) | Inr s1 \<Rightarrow> relay_loop f d s1)"
      using b by (subst relay_loop.simps) (auto simp: c(1) PACKET_HEADER_BYTES_def cong: sum.case_cong)
    then show ?thesis using Cons.IH [OF _ c(2)] Cons.prems(1) by (cases "f (whole b) s") (auto intro: handled_fails handled_one)
  qed
qed

lemma relay_read_packets:
  assumes "list_all wf_packet bs" "leftover st bs" "st @ c @ rest = concat bs"
  shows "handled_up_to f bs rest s (relay_read f st c s)"
proof (cases "st = []")
  case True
  then show ?thesis using relay_loop_packets [OF assms(1)] assms(3) by (simp add: relay_read_def)
next
  case False
  then obtain b bs' where bs: "bs = b # bs'" "length st < length b" using assms(2) by (auto simp: leftover_def)
  have b: "3 \<le> length b" "packetSize b = length b" using assms(1) by (simp_all add: bs(1) wf_packet_def PACKET_HEADER_BYTES_def)
  define j where "j = 3 - length st"
  show ?thesis
  proof (cases "length st + length c < length b")
    case True
    have "relay_read f st c s = Some (Inr (st @ c, s))"
    proof (cases "length c < j")
      case False
      have "(st @ take j c) @ (drop j c @ rest) = b @ concat bs'"
        using assms(3) append_take_drop_id [of j c] by (metis append.assoc bs(1) concat.simps(2))
      from packetSize_prefix [OF this] have "packetSize (st @ take j c) = length b" using b False by (simp add: j_def)
      then show ?thesis using False True b \<open>st \<noteq> []\<close> by (simp add: relay_read_def Let_def j_def [symmetric] PACKET_HEADER_BYTES_def) linarith
    qed (simp add: relay_read_def \<open>st \<noteq> []\<close> j_def PACKET_HEADER_BYTES_def)
    then show ?thesis using True assms(3) by (simp add: handled_none leftover_def bs)
  next
    case ge: False
    have "(st @ c) @ rest = b @ concat bs'" using assms(3) by (simp add: bs(1))
    from append_longer [OF this] ge obtain d where d: "st @ c = b @ d" "d @ rest = concat bs'" by auto
    define st1 d1 where "st1 = st @ take j c" and "d1 = drop j c"
    have "length c \<ge> j" using ge b bs(2) unfolding j_def by linarith
    then have l: "length st1 \<le> length b" "2 \<le> length st1" using b bs(2) by (simp_all add: st1_def j_def)
    have e: "st1 @ d1 = b @ d" using d(1) by (simp add: st1_def d1_def)
    then have n: "packetSize st1 = length b" using packetSize_prefix [of st1 d1 b d] l b by simp
    have "drop (length b) (st1 @ d1) = d" "take (length b) (st1 @ d1) = b" "length st1 + length d1 = length b + length d"
      using e by (simp_all flip: length_append)
    with l have c: "drop (length b - length st1) d1 = d" "st1 @ take (length b - length st1) d1 = b" "length d1 \<ge> length b - length st1" by simp_all
    have "relay_read f st c s = (case f (whole b) s of Inl e \<Rightarrow> Some (Inl e) | Inr s1 \<Rightarrow> relay_loop f d s1)"
      using \<open>j \<le> length c\<close> l(1) c n
      by (simp add: relay_read_def Let_def False PACKET_HEADER_BYTES_def j_def [symmetric] st1_def [symmetric] d1_def [symmetric] not_less
          cong: sum.case_cong)
    moreover have "handled_up_to f bs' rest s1 (relay_loop f d s1)" for s1 using relay_loop_packets [OF _ d(2)] assms(1) by (simp add: bs(1))
    ultimately show ?thesis
      unfolding bs(1) using handled_fails [of f b s] handled_one [of f bs' rest _ _ b s] by (cases "f (whole b) s") (simp, metis sum.case(2))
  qed
qed

text \<open>However the stream is cut into reads, the packets are processed one after the other, each once, and nothing is left.\<close>

lemma feed_packets:
  assumes "list_all wf_packet bs" "leftover st bs" "st @ concat cs = concat bs"
  shows "feed f st cs s = Some (case run_packets f (map whole bs) s of Inl e \<Rightarrow> Inl e | Inr s1 \<Rightarrow> Inr ([], s1))"
  using assms
proof (induction cs arbitrary: st bs s)
  case Nil
  show ?case
  proof (cases bs)
    case (Cons b bs')
    then have False using Nil by (auto simp: leftover_def wf_packet_def PACKET_HEADER_BYTES_def)
    then show ?thesis ..
  qed (use Nil in simp)
next
  case (Cons c cs)
  have h: "handled_up_to f bs (concat cs) s (relay_read f st c s)" using relay_read_packets [OF Cons.prems(1,2)] Cons.prems(3) by simp
  then show ?case
    unfolding handled_up_to_def
  proof (elim disjE exE conjE)
    fix k st' s1
    assume k: "relay_read f st c s = Some (Inr (st', s1))" "run_packets f (map whole (take k bs)) s = Inr s1"
      "st' @ concat cs = concat (drop k bs)" "leftover st' (drop k bs)"
    have "list_all wf_packet (drop k bs)" using Cons.prems(1) by (auto simp: list_all_iff dest: in_set_dropD)
    from Cons.IH [OF this k(4,3), of s1] k(1,2) show ?case
      using run_packets_append [of f "map whole (take k bs)" "map whole (drop k bs)" s] by (simp flip: map_append)
  qed simp
qed

section \<open>The packets that are sent\<close>

lemma packetSize_htons: "n < 65536 \<Longrightarrow> packetSize (htons n @ b) = n"
  by (simp add: packetSize_def htons_def unat_of_nat)

lemma relay_packet_wf:
  assumes "PACKET_HEADER_BYTES + length payload + length padding < 65536"
  shows "wf_packet (relay_packet rnd t payload padding)"
    and "length (relay_packet rnd t payload padding) = PACKET_HEADER_BYTES + length payload + length padding"
    and "relay_packet rnd t payload padding ! 2 = packet_value rnd t"
    and "drop PACKET_HEADER_BYTES (relay_packet rnd t payload padding) = payload @ padding"
  using assms packetSize_htons [OF assms]
  by (simp_all add: relay_packet_def wf_packet_def) (simp_all add: htons_def PACKET_HEADER_BYTES_def)

end
