(* ===== verification/Proxy_Connection.thy ===== *)
theory Proxy_Connection
  imports Proxy_Packets
begin

text \<open>
  A connection of the active proxy: \<^verbatim>\<open>src/addons/activeproxy/connection.cc\<close>, with the state of the proxy it belongs to and
  the handlers that \<^verbatim>\<open>ActiveProxy::connect\<close> installs. Connection objects are counted by hand and shared with libuv, so they
  live in an explicit heap: an access to an object that is gone is \<open>UseAfterFree\<close>. All methods are \<^verbatim>\<open>noexcept\<close>: an
  exception that reaches the end of one ends the process (\<open>Uncaught\<close>).

  libuv is a parameter: \<open>uv k n\<close> is the result of the \<open>n\<close>-th call of it, of the kind \<open>k\<close>, \<open>queueSize\<close> the size of a write queue, \<open>uvNow\<close> the
  time of the loop. Requests that libuv has accepted are kept in a list until their callback runs; \<open>maxRequests\<close> is how many
  of them memory can hold. Random numbers, the keys, signatures and encryption of libsodium and of the node are
  parameters as well.
\<close>

section \<open>Data\<close>

text \<open>\<open>hinit\<close> says that libuv uses the handle (from \<^verbatim>\<open>uv_tcp_init\<close> until the close callback), \<open>hdata\<close> that its data
  pointer is set.\<close>

record Handle =
  hinit :: bool
  hdata :: bool
  hclosing :: bool
  hreading :: bool

text \<open>Of the handlers only that for the end of a connection is ever removed.\<close>

record ProxyConnection =
  pc_id :: u32
  refCount :: u32
  pc_state :: ConnectionState
  relay :: Handle
  upstream :: Handle
  upstreamPaused :: bool
  upstreamClosed :: bool
  disconnectConfirms :: u32
  stickyBuffer :: "byte list"
  keepAliveTimestamp :: u64
  closeHandler :: bool
  pc_nonce :: "byte list"

datatype WriteHandler = NoHandler | ConnectResponseSent bool | DataSent

datatype Request =
    RelayConnect
  | UpstreamConnect
  | RelayWrite PacketType WriteHandler
  | UpstreamWrite
  | UpstreamShutdown
  | UpstreamClose
  | RelayClose

datatype ProxyEffect =
    ToRelay nat "byte list"
  | ToUpstream nat "byte list"
  | Announce PeerInfo
  | Started
  | Stopped

record ActiveProxy =
  ap_heap :: "nat \<Rightarrow> ProxyConnection option"
  ap_next :: nat
  lastConnectionId :: u32
  connections :: "nat list"
  maxConnections :: u32
  inFlights :: u32
  serverFails :: u32
  reconnectDelay :: u32
  lastConnectTimestamp :: u64
  idleTimestamp :: u64
  lastIdleCheckTimestamp :: u64
  lastHealthCheckTimestamp :: u64
  lastAnnouncePeerTimestamp :: u64
  sessionKey :: "byte list \<times> byte list"
  serverPk :: "byte list option"
  ap_box :: "(byte list \<times> byte list) option"
  relayPort :: u16
  peerKeypair :: "byte list option"
  ap_peer :: "PeerInfo option"
  ap_running :: bool
  ap_first :: bool
  requests :: "(nat \<times> Request) list"
  uvCalls :: nat
  draws :: nat
  effects :: "ProxyEffect list"

datatype UvCall = TcpInit | TcpConnect | ReadStart | WriteRelay | WriteUpstream | Shutdown

record ProxyEnv =
  uv :: "UvCall \<Rightarrow> nat \<Rightarrow> int"
  maxRequests :: nat
  queueSize :: "nat \<Rightarrow> nat"
  uvNow :: u64
  rand8 :: "nat \<Rightarrow> byte \<Rightarrow> byte"
  rand32 :: "nat \<Rightarrow> u32 \<Rightarrow> u32"
  randBytes :: "nat \<Rightarrow> nat \<Rightarrow> byte list"
  newKeys :: "nat \<Rightarrow> byte list \<times> byte list"
  ownId :: Id
  proxyServerId :: Id
  domainName :: string
  nodeEncrypt :: "byte list \<Rightarrow> byte list result"
  nodeDecrypt :: "byte list \<Rightarrow> byte list result"
  nodeSign :: "byte list \<Rightarrow> byte list"
  newBox :: "byte list \<Rightarrow> byte list \<Rightarrow> unit result"
  boxEncrypt :: "(byte list \<times> byte list) option \<Rightarrow> byte list \<Rightarrow> byte list \<Rightarrow> byte list result"
  boxDecrypt :: "(byte list \<times> byte list) option \<Rightarrow> byte list \<Rightarrow> byte list \<Rightarrow> byte list result"
  createPeer :: "byte list \<Rightarrow> Id \<Rightarrow> Id \<Rightarrow> u16 \<Rightarrow> string \<Rightarrow> PeerInfo result"

text \<open>How the process can go wrong: a use of a freed object, an exception that ends the process, a libuv handle that is
  used while it is not (or still) in use, an invalid iterator, a shift or an access out of bounds, and a loop
  that does not return.\<close>

datatype Fault = UseAfterFree | Uncaught error | BadHandle | BadIterator | OutOfBounds | NeverReturns

type_synonym pstep = "Fault + ActiveProxy"

definition next_step :: "pstep \<Rightarrow> (ActiveProxy \<Rightarrow> pstep) \<Rightarrow> pstep" where
  "next_step r f = (case r of Inl e \<Rightarrow> Inl e | Inr p \<Rightarrow> f p)"

definition do_if :: "bool \<Rightarrow> (ActiveProxy \<Rightarrow> pstep) \<Rightarrow> ActiveProxy \<Rightarrow> pstep" where
  "do_if b f p = (if b then f p else Inr p)"

definition with_conn :: "nat \<Rightarrow> ActiveProxy \<Rightarrow> (ProxyConnection \<Rightarrow> pstep) \<Rightarrow> pstep" where
  "with_conn c p f = (case ap_heap p c of None \<Rightarrow> Inl UseAfterFree | Some x \<Rightarrow> f x)"

definition on_conn :: "nat \<Rightarrow> (ProxyConnection \<Rightarrow> ProxyConnection) \<Rightarrow> ActiveProxy \<Rightarrow> pstep" where
  "on_conn c f p = with_conn c p (\<lambda>x. Inr (p\<lparr>ap_heap := (ap_heap p)(c \<mapsto> f x)\<rparr>))"

definition no_throw :: "'a result \<Rightarrow> ('a \<Rightarrow> pstep) \<Rightarrow> pstep" where
  "no_throw r f = (case r of Inl e \<Rightarrow> Inl (Uncaught e) | Inr y \<Rightarrow> f y)"

text \<open>A call of libuv, with the result \<open>rc\<close>, and random draws.\<close>

definition uv_call :: "ProxyEnv \<Rightarrow> UvCall \<Rightarrow> (int \<Rightarrow> ActiveProxy \<Rightarrow> pstep) \<Rightarrow> ActiveProxy \<Rightarrow> pstep" where
  "uv_call e k f p = f (uv e k (uvCalls p)) (p\<lparr>uvCalls := uvCalls p + 1\<rparr>)"

definition draw :: "(nat \<Rightarrow> 'a) \<Rightarrow> ('a \<Rightarrow> ActiveProxy \<Rightarrow> pstep) \<Rightarrow> ActiveProxy \<Rightarrow> pstep" where
  "draw g f p = f (g (draws p)) (p\<lparr>draws := draws p + 1\<rparr>)"

definition add_request :: "nat \<Rightarrow> Request \<Rightarrow> ActiveProxy \<Rightarrow> ActiveProxy" where
  "add_request c r p = p\<lparr>requests := requests p @ [(c, r)]\<rparr>"

definition emit_effect :: "ProxyEffect \<Rightarrow> ActiveProxy \<Rightarrow> ActiveProxy" where
  "emit_effect x p = p\<lparr>effects := effects p @ [x]\<rparr>"

section \<open>Reference counts\<close>

definition pc_ref :: "nat \<Rightarrow> ActiveProxy \<Rightarrow> pstep" where
  "pc_ref c = on_conn c (\<lambda>x. x\<lparr>refCount := refCount x + 1\<rparr>)"

definition pc_unref :: "nat \<Rightarrow> ActiveProxy \<Rightarrow> pstep" where
  "pc_unref c p =
     with_conn c p (\<lambda>x.
       Inr (p\<lparr>ap_heap := (ap_heap p)(c := if refCount x - 1 = 0 then None else Some (x\<lparr>refCount := refCount x - 1\<rparr>))\<rparr>))"

text \<open>The constructors of the requests hold a reference; \<^verbatim>\<open>new\<close> throws when there is no memory left.\<close>

definition new_request :: "ProxyEnv \<Rightarrow> nat \<Rightarrow> ActiveProxy \<Rightarrow> pstep" where
  "new_request e c p =
     (if length (requests p) < maxRequests e then pc_ref c p else Inl (Uncaught (RuntimeError ''bad_alloc'')))"

definition set_state :: "nat \<Rightarrow> ConnectionState \<Rightarrow> ActiveProxy \<Rightarrow> pstep" where
  "set_state c s = on_conn c (\<lambda>x. x\<lparr>pc_state := s\<rparr>)"

section \<open>The handlers of the proxy\<close>

definition onAuthorized :: "ProxyEnv \<Rightarrow> byte list \<Rightarrow> u16 \<Rightarrow> bool \<Rightarrow> ActiveProxy \<Rightarrow> pstep" where
  "onAuthorized e pk port domainEnabled p =
     no_throw (newBox e pk (snd (sessionKey p))) (\<lambda>_.
       let p1 = p\<lparr>serverPk := Some pk, relayPort := port, ap_box := Some (pk, snd (sessionKey p))\<rparr>
       in case peerKeypair p of
            None \<Rightarrow> Inr p1
          | Some sk \<Rightarrow>
              no_throw (createPeer e sk (proxyServerId e) (ownId e) port (if domainEnabled then domainName e else []))
                (\<lambda>q. Inr (p1\<lparr>ap_peer := Some q\<rparr>)))"

definition onOpened :: "ActiveProxy \<Rightarrow> pstep" where
  "onOpened p = Inr (p\<lparr>serverFails := 0, reconnectDelay := 0\<rparr>)"

text \<open>\<^verbatim>\<open>1 << serverFails\<close> is a shift of an \<^verbatim>\<open>int\<close>.\<close>

definition onOpenFailed :: "ActiveProxy \<Rightarrow> pstep" where
  "onOpenFailed p =
     (let n = serverFails p + 1; p1 = p\<lparr>serverFails := n\<rparr>
      in if reconnectDelay p < 64 then
           if n \<ge> 31 \<or> 2 ^ unat n * 1000 \<ge> (2 ^ 31 :: nat) then Inl OutOfBounds
           else Inr (p1\<lparr>reconnectDelay := word_of_nat (2 ^ unat n * 1000)\<rparr>)
         else Inr p1)"

definition onClosed :: "nat \<Rightarrow> ActiveProxy \<Rightarrow> pstep" where
  "onClosed c p =
     with_conn c p (\<lambda>x.
       if closeHandler x then pc_unref c (p\<lparr>connections := remove1 c (connections p)\<rparr>) else Inr p)"

definition onBusy :: "ActiveProxy \<Rightarrow> pstep" where
  "onBusy p = Inr (p\<lparr>inFlights := inFlights p + 1, idleTimestamp := - 1\<rparr>)"

definition onIdle :: "ProxyEnv \<Rightarrow> ActiveProxy \<Rightarrow> pstep" where
  "onIdle e p =
     (let n = inFlights p - 1
      in Inr (if n = 0 then p\<lparr>inFlights := n, idleTimestamp := uvNow e\<rparr> else p\<lparr>inFlights := n\<rparr>))"

section \<open>Opening and closing\<close>

text \<open>\<^verbatim>\<open>uv_read_stop\<close> and \<^verbatim>\<open>uv_close\<close> on a handle.\<close>

definition close_upstream_handle :: "nat \<Rightarrow> ActiveProxy \<Rightarrow> pstep" where
  "close_upstream_handle c p =
     next_step (on_conn c (\<lambda>x. x\<lparr>upstream := (upstream x)\<lparr>hclosing := True, hreading := False\<rparr>\<rparr>) p)
       (\<lambda>p. Inr (add_request c UpstreamClose p))"

definition close_relay_handle :: "nat \<Rightarrow> ActiveProxy \<Rightarrow> pstep" where
  "close_relay_handle c p =
     next_step (on_conn c (\<lambda>x. x\<lparr>relay := (relay x)\<lparr>hclosing := True, hreading := False\<rparr>\<rparr>) p)
       (\<lambda>p. Inr (add_request c RelayClose p))"

definition stop_upstream :: "nat \<Rightarrow> ActiveProxy \<Rightarrow> pstep" where
  "stop_upstream c = on_conn c (\<lambda>x. x\<lparr>upstream := (upstream x)\<lparr>hreading := False\<rparr>\<rparr>)"

definition stop_relay :: "nat \<Rightarrow> ActiveProxy \<Rightarrow> pstep" where
  "stop_relay c = on_conn c (\<lambda>x. x\<lparr>relay := (relay x)\<lparr>hreading := False\<rparr>\<rparr>)"

definition close_handles :: "nat \<Rightarrow> ActiveProxy \<Rightarrow> pstep" where
  "close_handles c p =
     next_step
       (with_conn c p (\<lambda>x. do_if (hdata (upstream x)) (\<lambda>p.
          next_step (stop_upstream c p) (do_if (\<not> hclosing (upstream x)) (close_upstream_handle c))) p)) (\<lambda>p.
     with_conn c p (\<lambda>x. do_if (hdata (relay x)) (\<lambda>p.
          next_step (stop_relay c p) (do_if (\<not> hclosing (relay x)) (close_relay_handle c))) p))"

definition pc_close :: "ProxyEnv \<Rightarrow> nat \<Rightarrow> ActiveProxy \<Rightarrow> pstep" where
  "pc_close e c p =
     with_conn c p (\<lambda>x.
       let old = pc_state x
       in if old = Closed then Inr p
          else next_step (set_state c Closed p) (\<lambda>p.
               next_step (do_if (old = Initializing \<or> old = Authenticating \<or> old = Attaching) onOpenFailed p) (\<lambda>p.
               next_step (do_if (old = Relaying) (onIdle e) p) (\<lambda>p.
               next_step (close_handles c p) (onClosed c)))))"

text \<open>After a failed \<^verbatim>\<open>uv_tcp_connect\<close> the handle is closed without a callback and without a reference for it; that libuv keeps a pointer to
  the handle until it has finished closing it is not tracked.\<close>

definition connectServer :: "ProxyEnv \<Rightarrow> nat \<Rightarrow> ActiveProxy \<Rightarrow> pstep" where
  "connectServer e c =
     uv_call e TcpInit (\<lambda>rc p.
       if rc < 0 then Inr p
       else next_step (on_conn c (\<lambda>x. x\<lparr>relay := \<lparr>hinit = True, hdata = True, hclosing = False, hreading = False\<rparr>, refCount := refCount x + 1\<rparr>) p) (\<lambda>p.
            next_step (new_request e c p)
              (uv_call e TcpConnect (\<lambda>rc p.
                 if rc < 0 then
                   next_step (pc_unref c p) (\<lambda>p.
                   next_step (pc_unref c p)
                     (on_conn c (\<lambda>x. x\<lparr>relay := (relay x)\<lparr>hclosing := True\<rparr>\<rparr>)))
                 else Inr (add_request c RelayConnect p)))))"

definition establish :: "ProxyEnv \<Rightarrow> nat \<Rightarrow> ActiveProxy \<Rightarrow> pstep" where
  "establish e c =
     uv_call e ReadStart (\<lambda>rc p.
       if rc < 0 then pc_close e c p else on_conn c (\<lambda>x. x\<lparr>relay := (relay x)\<lparr>hreading := True\<rparr>\<rparr>) p)"

section \<open>Sending to the server\<close>

definition sendRelayPacket :: "ProxyEnv \<Rightarrow> nat \<Rightarrow> PacketType \<Rightarrow> byte list \<Rightarrow> WriteHandler \<Rightarrow> ActiveProxy \<Rightarrow> pstep" where
  "sendRelayPacket e c t payload handler p =
     with_conn c p (\<lambda>x.
       if pc_state x = Closed then Inr p
       else draw (\<lambda>n. if t \<noteq> AUTH \<and> t \<noteq> DATA \<and> t \<noteq> ERROR then unat (rand32 e n 256) else 0) (\<lambda>padding p.
            next_step (new_request e c p)
              (draw (rand8 e) (\<lambda>rnd.
               draw (\<lambda>n. randBytes e n padding) (\<lambda>pad.
               uv_call e WriteRelay (\<lambda>rc p.
                 if rc < 0 then next_step (pc_unref c p) (pc_close e c)
                 else Inr (emit_effect (ToRelay c (relay_packet rnd t payload pad)) (add_request c (RelayWrite t handler) p))))))) p)"

definition string_bytes :: "string \<Rightarrow> byte list" where
  "string_bytes s = map of_char s"

definition sendAuthenticateRequest :: "ProxyEnv \<Rightarrow> nat \<Rightarrow> byte list \<Rightarrow> ActiveProxy \<Rightarrow> pstep" where
  "sendAuthenticateRequest e c sig p =
     with_conn c p (\<lambda>x.
       if pc_state x = Closed then Inr p
       else next_step (set_state c Authenticating p)
              (draw (\<lambda>n. randBytes e n NONCE_BYTES) (\<lambda>nonce.
               draw (\<lambda>n. unat (rand32 e n 256)) (\<lambda>padding.
               draw (\<lambda>n. randBytes e n padding) (\<lambda>pad p.
               next_step (on_conn c (\<lambda>x. x\<lparr>pc_nonce := nonce\<rparr>) p) (\<lambda>p.
                 let domain = string_bytes (domainName e);
                     plain = fst (sessionKey p) @ nonce @ sig @ [word_of_nat (length domain)] @ domain @ pad
                 in no_throw (nodeEncrypt e plain) (\<lambda>cipher. sendRelayPacket e c AUTH (ownId e @ cipher) NoHandler p)))))))"

definition sendAttachRequest :: "ProxyEnv \<Rightarrow> nat \<Rightarrow> byte list \<Rightarrow> ActiveProxy \<Rightarrow> pstep" where
  "sendAttachRequest e c sig p =
     with_conn c p (\<lambda>x.
       if pc_state x = Closed then Inr p
       else next_step (set_state c Attaching p)
              (draw (\<lambda>n. randBytes e n NONCE_BYTES) (\<lambda>nonce p.
               next_step (on_conn c (\<lambda>x. x\<lparr>pc_nonce := nonce\<rparr>) p) (\<lambda>p.
                 no_throw (nodeEncrypt e (fst (sessionKey p) @ nonce @ sig))
                   (\<lambda>cipher. sendRelayPacket e c ATTACH (ownId e @ cipher) NoHandler p)))))"

definition sendPingRequest :: "ProxyEnv \<Rightarrow> nat \<Rightarrow> ActiveProxy \<Rightarrow> pstep" where
  "sendPingRequest e c = sendRelayPacket e c PING [] NoHandler"

definition randomBoolean :: "bool \<Rightarrow> byte \<Rightarrow> byte" where
  "randomBoolean v i = (if v then i OR 0x01 else i AND 0xFE)"

definition sendConnectResponse :: "ProxyEnv \<Rightarrow> nat \<Rightarrow> bool \<Rightarrow> ActiveProxy \<Rightarrow> pstep" where
  "sendConnectResponse e c success =
     draw (\<lambda>n. map (randomBoolean success) (randBytes e n 1)) (\<lambda>d. sendRelayPacket e c CONNECT_ACK d (ConnectResponseSent success))"

definition sendDisconnectRequest :: "ProxyEnv \<Rightarrow> nat \<Rightarrow> ActiveProxy \<Rightarrow> pstep" where
  "sendDisconnectRequest e c p =
     with_conn c p (\<lambda>x. if pc_state x = Closed then Inr p else sendRelayPacket e c DISCONNECT [] NoHandler p)"

definition sendDisconnectResponse :: "ProxyEnv \<Rightarrow> nat \<Rightarrow> ActiveProxy \<Rightarrow> pstep" where
  "sendDisconnectResponse e c p =
     with_conn c p (\<lambda>x. if pc_state x = Closed then Inr p else sendRelayPacket e c DISCONNECT_ACK [] NoHandler p)"

definition MAX_RELAY_WRITE_QUEUE_SIZE :: nat where "MAX_RELAY_WRITE_QUEUE_SIZE = 2 * 1024 * 1024"

definition sendDataRequest :: "ProxyEnv \<Rightarrow> nat \<Rightarrow> byte list \<Rightarrow> ActiveProxy \<Rightarrow> pstep" where
  "sendDataRequest e c data p =
     with_conn c p (\<lambda>x.
       no_throw (boxEncrypt e (ap_box p) (pc_nonce x) data) (\<lambda>cipher.
         next_step (sendRelayPacket e c DATA cipher DataSent p)
           (draw (queueSize e) (\<lambda>q.
              do_if (q \<ge> MAX_RELAY_WRITE_QUEUE_SIZE)
                (on_conn c (\<lambda>x. x\<lparr>upstreamPaused := True, upstream := (upstream x)\<lparr>hreading := False\<rparr>\<rparr>))))))"

section \<open>The upstream\<close>

definition closeUpstream2 :: "nat \<Rightarrow> ActiveProxy \<Rightarrow> pstep" where
  "closeUpstream2 c p =
     with_conn c p (\<lambda>x.
       if pc_state x = Closed \<or> pc_state x = Idling \<or> upstreamClosed x then Inr p
       else next_step (on_conn c (\<lambda>x. x\<lparr>upstreamClosed := True\<rparr>) p)
              (do_if (hdata (upstream x) \<and> \<not> hclosing (upstream x)) (close_upstream_handle c)))"

definition closeUpstream :: "ProxyEnv \<Rightarrow> nat \<Rightarrow> ActiveProxy \<Rightarrow> pstep" where
  "closeUpstream e c p =
     with_conn c p (\<lambda>x.
       if pc_state x = Closed \<or> pc_state x = Idling \<or> upstreamClosed x then Inr p
       else next_step (on_conn c (\<lambda>x. x\<lparr>upstreamClosed := True, pc_state := Disconnecting\<rparr>) p) (\<lambda>p.
            next_step (sendDisconnectRequest e c p) (\<lambda>p.
            next_step (stop_upstream c p) (\<lambda>p.
            next_step (new_request e c p)
              (uv_call e Shutdown (\<lambda>rc p.
                 if rc < 0 then next_step (closeUpstream2 c p) (pc_unref c)
                 else Inr (add_request c UpstreamShutdown p)))))))"

definition startReadUpstream :: "ProxyEnv \<Rightarrow> nat \<Rightarrow> ActiveProxy \<Rightarrow> pstep" where
  "startReadUpstream e c =
     uv_call e ReadStart (\<lambda>rc p.
       if rc < 0 then closeUpstream e c p else on_conn c (\<lambda>x. x\<lparr>upstream := (upstream x)\<lparr>hreading := True\<rparr>\<rparr>) p)"

text \<open>\<^verbatim>\<open>uv_tcp_init\<close> must not be given a handle that is in use. When it fails, the code goes on with a handle that is not initialised.\<close>

definition openUpstream :: "ProxyEnv \<Rightarrow> nat \<Rightarrow> ActiveProxy \<Rightarrow> pstep" where
  "openUpstream e c p =
     with_conn c p (\<lambda>x.
       if hinit (upstream x) then Inl BadHandle
       else uv_call e TcpInit (\<lambda>rc p.
         if rc < 0 then
           next_step (sendConnectResponse e c False p) (\<lambda>p.
           next_step (set_state c Idling p) (\<lambda>p.
           next_step (onIdle e p) (\<lambda>p. Inl BadHandle)))
         else
           next_step (on_conn c (\<lambda>x. x\<lparr>upstream := \<lparr>hinit = True, hdata = True, hclosing = False, hreading = False\<rparr>,
                                       refCount := refCount x + 1, upstreamClosed := False\<rparr>) p) (\<lambda>p.
           next_step (new_request e c p)
             (uv_call e TcpConnect (\<lambda>rc p.
                if rc < 0 then
                  next_step (closeUpstream2 c p) (\<lambda>p.
                  next_step (set_state c Idling p) (\<lambda>p.
                  next_step (onIdle e p) (\<lambda>p.
                  next_step (sendConnectResponse e c False p) (pc_unref c))))
                else Inr (add_request c UpstreamConnect p))))) p)"

section \<open>Packets of the server\<close>

definition CHALLENGE_MIN :: nat where "CHALLENGE_MIN = 32"
definition CHALLENGE_MAX :: nat where "CHALLENGE_MAX = 256"

text \<open>\<open>size - sizeof(uint16_t)\<close> wraps around for a packet of fewer than two bytes.\<close>

definition onChallenge :: "ProxyEnv \<Rightarrow> nat \<Rightarrow> packet \<Rightarrow> ActiveProxy \<Rightarrow> pstep" where
  "onChallenge e c pkt p =
     (case pkt of (b, n) \<Rightarrow>
        if n < 2 \<or> n - 2 < CHALLENGE_MIN \<or> n - 2 > CHALLENGE_MAX then Inr p
        else let sig = nodeSign e (take (n - 2) (drop 2 b))
             in if serverPk p \<noteq> None then sendAttachRequest e c sig p else sendAuthenticateRequest e c sig p)"

definition PUBLICKEY_BYTES :: nat where "PUBLICKEY_BYTES = 32"
definition AUTH_ACK_SIZE :: nat where "AUTH_ACK_SIZE = PACKET_HEADER_BYTES + MAC_BYTES + PUBLICKEY_BYTES + 2 + 1"
definition CONNECT_REQ_SIZE :: nat where "CONNECT_REQ_SIZE = PACKET_HEADER_BYTES + MAC_BYTES + 1 + 16 + 2"

definition ntohs :: "byte list \<Rightarrow> u16" where
  "ntohs b = word_of_nat (packetSize b)"

definition onAuthenticateResponse :: "ProxyEnv \<Rightarrow> nat \<Rightarrow> packet \<Rightarrow> ActiveProxy \<Rightarrow> pstep" where
  "onAuthenticateResponse e c pkt p =
     (case pkt of (b, n) \<Rightarrow>
        if n < AUTH_ACK_SIZE then pc_close e c p
        else no_throw (nodeDecrypt e (take (AUTH_ACK_SIZE - PACKET_HEADER_BYTES) (drop PACKET_HEADER_BYTES b))) (\<lambda>plain.
             next_step (onAuthorized e (take PUBLICKEY_BYTES plain) (ntohs (drop PUBLICKEY_BYTES plain)) (plain ! (PUBLICKEY_BYTES + 2) \<noteq> 0) p) (\<lambda>p.
             next_step (set_state c Idling p) onOpened)))"

definition onAttachResponse :: "nat \<Rightarrow> ActiveProxy \<Rightarrow> pstep" where
  "onAttachResponse c p = next_step (set_state c Idling p) onOpened"

definition proxy_allow :: "SocketAddress \<Rightarrow> bool" where
  "proxy_allow client = True"

definition onConnectRequest :: "ProxyEnv \<Rightarrow> nat \<Rightarrow> packet \<Rightarrow> ActiveProxy \<Rightarrow> pstep" where
  "onConnectRequest e c pkt p =
     (case pkt of (b, n) \<Rightarrow>
        if n < CONNECT_REQ_SIZE then pc_close e c p
        else next_step (set_state c Relaying p) (\<lambda>p.
             next_step (onBusy p) (\<lambda>p.
             with_conn c p (\<lambda>x.
             no_throw (boxDecrypt e (ap_box p) (pc_nonce x) (take (CONNECT_REQ_SIZE - PACKET_HEADER_BYTES) (drop PACKET_HEADER_BYTES b))) (\<lambda>plain.
             let addrLen = unat (plain ! 0); port = ntohs (drop 17 plain)
             in case (if addrLen = 4 \<or> addrLen = 16 then mkSocketAddress (take addrLen (drop 1 plain)) port else None) of
                  None \<Rightarrow> Inl (Uncaught (InvalidArgument ''invalid ip lenght''))
                | Some client \<Rightarrow>
                    if proxy_allow client then next_step (set_state c Relaying p) (openUpstream e c)
                    else next_step (sendConnectResponse e c False p) (\<lambda>p.
                         next_step (set_state c Idling p) (onIdle e)))))))"

definition confirm_disconnect :: "ProxyEnv \<Rightarrow> nat \<Rightarrow> ActiveProxy \<Rightarrow> pstep" where
  "confirm_disconnect e c p =
     with_conn c p (\<lambda>x.
       if disconnectConfirms x + 1 = 2
       then next_step (on_conn c (\<lambda>x. x\<lparr>disconnectConfirms := 0, pc_state := Idling\<rparr>) p) (onIdle e)
       else on_conn c (\<lambda>x. x\<lparr>disconnectConfirms := disconnectConfirms x + 1\<rparr>) p)"

definition onDisconnectRequest :: "ProxyEnv \<Rightarrow> nat \<Rightarrow> ActiveProxy \<Rightarrow> pstep" where
  "onDisconnectRequest e c p =
     next_step (closeUpstream e c p) (\<lambda>p.
     next_step (sendDisconnectResponse e c p) (confirm_disconnect e c))"

definition onDisconnectResponse :: "ProxyEnv \<Rightarrow> nat \<Rightarrow> ActiveProxy \<Rightarrow> pstep" where
  "onDisconnectResponse e c = confirm_disconnect e c"

text \<open>The size of the buffer wraps around when the packet is too short for the authentication code; its allocation throws.\<close>

definition onDataRequest :: "ProxyEnv \<Rightarrow> nat \<Rightarrow> packet \<Rightarrow> ActiveProxy \<Rightarrow> pstep" where
  "onDataRequest e c pkt p =
     (case pkt of (b, n) \<Rightarrow>
        if n < PACKET_HEADER_BYTES + MAC_BYTES then Inl (Uncaught (RuntimeError ''bad_array_new_length''))
        else next_step (new_request e c p) (\<lambda>p.
             with_conn c p (\<lambda>x.
             no_throw (boxDecrypt e (ap_box p) (pc_nonce x) (drop PACKET_HEADER_BYTES b)) (\<lambda>plain.
             uv_call e WriteUpstream (\<lambda>rc p.
               if rc < 0 then next_step (closeUpstream e c p) (pc_unref c)
               else Inr (emit_effect (ToUpstream c plain) (add_request c UpstreamWrite p))) p))))"

text \<open>An error packet that is too short makes the length of a stack buffer wrap around, or is read beyond its end.\<close>

definition onErrorPacket :: "ProxyEnv \<Rightarrow> nat \<Rightarrow> packet \<Rightarrow> ActiveProxy \<Rightarrow> pstep" where
  "onErrorPacket e c pkt p =
     (case pkt of (b, n) \<Rightarrow>
        if n < PACKET_HEADER_BYTES + MAC_BYTES then Inl OutOfBounds
        else with_conn c p (\<lambda>x.
             no_throw (boxDecrypt e (ap_box p) (pc_nonce x) (drop PACKET_HEADER_BYTES b)) (\<lambda>plain.
             if length plain < 2 then Inl OutOfBounds else pc_close e c p)))"

definition processRelayPacket :: "ProxyEnv \<Rightarrow> nat \<Rightarrow> packet \<Rightarrow> ActiveProxy \<Rightarrow> pstep" where
  "processRelayPacket e c pkt p =
     with_conn c p (\<lambda>x.
       if pc_state x = Initializing then onChallenge e c pkt p
       else no_throw (valueOf (fst pkt ! 2)) (\<lambda>t.
         if t = ERROR then onErrorPacket e c pkt p
         else if \<not> accept (pc_state x) t then pc_close e c p
         else case t of
                AUTH_ACK \<Rightarrow> onAuthenticateResponse e c pkt p
              | ATTACH_ACK \<Rightarrow> onAttachResponse c p
              | CONNECT \<Rightarrow> onConnectRequest e c pkt p
              | DATA \<Rightarrow> onDataRequest e c pkt p
              | DISCONNECT \<Rightarrow> onDisconnectRequest e c p
              | DISCONNECT_ACK \<Rightarrow> onDisconnectResponse e c p
              | _ \<Rightarrow> Inr p))"

definition onRelayRead :: "ProxyEnv \<Rightarrow> nat \<Rightarrow> byte list \<Rightarrow> ActiveProxy \<Rightarrow> pstep" where
  "onRelayRead e c data p =
     with_conn c p (\<lambda>x.
       next_step (on_conn c (\<lambda>x. x\<lparr>keepAliveTimestamp := uvNow e\<rparr>) p) (\<lambda>p.
         case relay_read (processRelayPacket e c) (stickyBuffer x) data p of
           None \<Rightarrow> Inl NeverReturns
         | Some (Inl f) \<Rightarrow> Inl f
         | Some (Inr (st, p)) \<Rightarrow> on_conn c (\<lambda>x. x\<lparr>stickyBuffer := st\<rparr>) p))"

section \<open>Callbacks of libuv\<close>

definition KEEP_ALIVE_INTERVAL :: u32 where "KEEP_ALIVE_INTERVAL = 60000"
definition MAX_KEEP_ALIVE_RETRY :: u32 where "MAX_KEEP_ALIVE_RETRY = 3"

definition periodicCheck :: "ProxyEnv \<Rightarrow> nat \<Rightarrow> ActiveProxy \<Rightarrow> pstep" where
  "periodicCheck e c p =
     with_conn c p (\<lambda>x.
       if pc_state x = Relaying then Inr p
       else if uvNow e - keepAliveTimestamp x \<ge> ucast (MAX_KEEP_ALIVE_RETRY * KEEP_ALIVE_INTERVAL) then pc_close e c p
       else draw (\<lambda>n. rand32 e n 10000) (\<lambda>shift.
              do_if (pc_state x = Idling \<and> uvNow e - keepAliveTimestamp x \<ge> ucast (KEEP_ALIVE_INTERVAL - shift))
                (sendPingRequest e c)) p)"

definition relayConnected :: "ProxyEnv \<Rightarrow> nat \<Rightarrow> int \<Rightarrow> ActiveProxy \<Rightarrow> pstep" where
  "relayConnected e c status p =
     next_step (if status < 0 then pc_close e c p else establish e c p) (pc_unref c)"

definition upstreamConnected :: "ProxyEnv \<Rightarrow> nat \<Rightarrow> int \<Rightarrow> ActiveProxy \<Rightarrow> pstep" where
  "upstreamConnected e c status p =
     next_step
       (do_if (status < 0) (\<lambda>p.
          next_step (closeUpstream2 c p) (\<lambda>p.
          next_step (set_state c Idling p) (onIdle e))) p) (\<lambda>p.
     next_step (sendConnectResponse e c (status = 0) p) (pc_unref c))"

definition run_handler :: "ProxyEnv \<Rightarrow> nat \<Rightarrow> WriteHandler \<Rightarrow> ActiveProxy \<Rightarrow> pstep" where
  "run_handler e c h p =
     (case h of
        NoHandler \<Rightarrow> Inr p
      | ConnectResponseSent success \<Rightarrow> with_conn c p (\<lambda>x. do_if (success \<and> hdata (upstream x)) (startReadUpstream e c) p)
      | DataSent \<Rightarrow>
          with_conn c p (\<lambda>x.
            draw (queueSize e) (\<lambda>q.
              do_if (upstreamPaused x \<and> q \<le> MAX_RELAY_WRITE_QUEUE_SIZE div 4) (\<lambda>p.
                next_step (on_conn c (\<lambda>x. x\<lparr>upstreamPaused := False\<rparr>) p) (startReadUpstream e c))) p))"

definition relayWritten :: "ProxyEnv \<Rightarrow> nat \<Rightarrow> WriteHandler \<Rightarrow> int \<Rightarrow> ActiveProxy \<Rightarrow> pstep" where
  "relayWritten e c h status p =
     next_step (if status < 0 then pc_close e c p else run_handler e c h p) (pc_unref c)"

definition upstreamWritten :: "ProxyEnv \<Rightarrow> nat \<Rightarrow> int \<Rightarrow> ActiveProxy \<Rightarrow> pstep" where
  "upstreamWritten e c status p = next_step (do_if (status < 0) (closeUpstream e c) p) (pc_unref c)"

definition upstreamShut :: "nat \<Rightarrow> ActiveProxy \<Rightarrow> pstep" where
  "upstreamShut c p = next_step (closeUpstream2 c p) (pc_unref c)"

definition handleClosed :: "nat \<Rightarrow> Request \<Rightarrow> ActiveProxy \<Rightarrow> pstep" where
  "handleClosed c r p =
     next_step
       (on_conn c (\<lambda>x. if r = UpstreamClose then x\<lparr>upstream := (upstream x)\<lparr>hinit := False, hdata := False\<rparr>\<rparr>
                       else x\<lparr>relay := (relay x)\<lparr>hinit := False, hdata := False\<rparr>\<rparr>) p) (pc_unref c)"

text \<open>The callback of a request; libuv forgets the request.\<close>

definition callback :: "ProxyEnv \<Rightarrow> nat \<times> Request \<Rightarrow> int \<Rightarrow> ActiveProxy \<Rightarrow> pstep" where
  "callback e req status p0 =
     (let p = p0\<lparr>requests := remove1 req (requests p0)\<rparr>; c = fst req
      in case snd req of
           RelayConnect \<Rightarrow> relayConnected e c status p
         | UpstreamConnect \<Rightarrow> upstreamConnected e c status p
         | RelayWrite t h \<Rightarrow> relayWritten e c h status p
         | UpstreamWrite \<Rightarrow> upstreamWritten e c status p
         | UpstreamShutdown \<Rightarrow> upstreamShut c p
         | UpstreamClose \<Rightarrow> handleClosed c UpstreamClose p
         | RelayClose \<Rightarrow> handleClosed c RelayClose p)"

text \<open>The callbacks of reads; \<open>None\<close> is the end of the stream or an error.\<close>

definition relayRead :: "ProxyEnv \<Rightarrow> nat \<Rightarrow> byte list option \<Rightarrow> ActiveProxy \<Rightarrow> pstep" where
  "relayRead e c d p =
     (case d of None \<Rightarrow> pc_close e c p | Some [] \<Rightarrow> Inr p | Some b \<Rightarrow> onRelayRead e c b p)"

definition upstreamRead :: "ProxyEnv \<Rightarrow> nat \<Rightarrow> byte list option \<Rightarrow> ActiveProxy \<Rightarrow> pstep" where
  "upstreamRead e c d p =
     (case d of None \<Rightarrow> closeUpstream e c p | Some [] \<Rightarrow> Inr p | Some b \<Rightarrow> sendDataRequest e c b p)"

end
