(* ===== verification/Active_Proxy.thy ===== *)
theory Active_Proxy
  imports Proxy_Connection
begin

text \<open>
  The active proxy: \<^verbatim>\<open>src/addons/activeproxy/activeproxy.cc\<close>, its connections and the event loop. An event is one of those
  libuv delivers: an iteration of the loop (the prepare and the timer handle), the callback of a request, data
  that was read, or the stop signal. \<open>enabled\<close> states what libuv documents about them: a request calls back
  once, a handle that is closed calls back after its requests, which fail, and is not read any more.
  The start of the loop and its thread are not modelled, \<^verbatim>\<open>initialize\<close> only reads the configuration.
\<close>

section \<open>Definitions\<close>

definition IDLE_CHECK_INTERVAL :: u64 where "IDLE_CHECK_INTERVAL = 60000"
definition MAX_IDLE_TIME :: u64 where "MAX_IDLE_TIME = 300000"
definition RE_ANNOUNCE_INTERVAL :: u64 where "RE_ANNOUNCE_INTERVAL = 60 * 60 * 1000"
definition HEALTH_CHECK_INTERVAL :: u64 where "HEALTH_CHECK_INTERVAL = 10000"

definition no_handle :: Handle where
  "no_handle = \<lparr>hinit = False, hdata = False, hclosing = False, hreading = False\<rparr>"

definition newProxyConnection :: "ProxyEnv \<Rightarrow> u32 \<Rightarrow> ProxyConnection" where
  "newProxyConnection e i =
     \<lparr>pc_id = i, refCount = 1, pc_state = Initializing, relay = no_handle, upstream = no_handle, upstreamPaused = False,
      upstreamClosed = True, disconnectConfirms = 0, stickyBuffer = [], keepAliveTimestamp = uvNow e, closeHandler = True,
      pc_nonce = replicate NONCE_BYTES 0\<rparr>"

definition proxy_connect :: "ProxyEnv \<Rightarrow> ActiveProxy \<Rightarrow> pstep" where
  "proxy_connect e p =
     (let c = ap_next p
      in connectServer e c
           (p\<lparr>ap_heap := (ap_heap p)(c \<mapsto> newProxyConnection e (lastConnectionId p)), ap_next := c + 1,
              lastConnectionId := lastConnectionId p + 1, connections := connections p @ [c], lastConnectTimestamp := uvNow e\<rparr>))"

definition proxy_reset :: "ProxyEnv \<Rightarrow> ActiveProxy \<Rightarrow> ActiveProxy" where
  "proxy_reset e p =
     p\<lparr>sessionKey := newKeys e (draws p), draws := draws p + 1, serverPk := None, lastConnectTimestamp := 0, serverFails := 0,
       reconnectDelay := 0, idleTimestamp := - 1, lastIdleCheckTimestamp := 0, lastHealthCheckTimestamp := 0,
       lastAnnouncePeerTimestamp := 0, inFlights := 0\<rparr>"

definition needsNewConnection :: "ProxyEnv \<Rightarrow> ActiveProxy \<Rightarrow> bool \<times> ActiveProxy" where
  "needsNewConnection e p =
     (if length (connections p) \<ge> unat (maxConnections p) then (False, p)
      else if reconnectDelay p \<noteq> 0 \<and> uvNow e - lastConnectTimestamp p < ucast (reconnectDelay p) then (False, p)
      else if connections p = [] then (True, if serverPk p \<noteq> None then proxy_reset e p else p)
      else (unat (inFlights p) = length (connections p), p))"

text \<open>The removal of connections from outside: the handler for the end is removed first.\<close>

fun retire :: "ProxyEnv \<Rightarrow> nat list \<Rightarrow> ActiveProxy \<Rightarrow> pstep" where
  "retire e [] p = Inr p"
| "retire e (c # cs) p =
     next_step (on_conn c (\<lambda>x. x\<lparr>closeHandler := False\<rparr>) p) (\<lambda>p.
     next_step (pc_close e c p) (\<lambda>p.
     next_step (pc_unref c p) (retire e cs)))"

definition idleCheck :: "ProxyEnv \<Rightarrow> ActiveProxy \<Rightarrow> pstep" where
  "idleCheck e p =
     (if idleTimestamp p = - 1 \<or> uvNow e - idleTimestamp p < MAX_IDLE_TIME then Inr p
      else if inFlights p \<noteq> 0 \<or> length (connections p) \<le> 1 then Inr p
      else next_step (retire e (rev (tl (connections p))) p) (\<lambda>p. Inr (p\<lparr>connections := take 1 (connections p)\<rparr>)))"

text \<open>The loop iterates over the vector of connections; a connection that is closed meanwhile removes itself from the vector,
  which invalidates the iterators.\<close>

fun health_loop :: "ProxyEnv \<Rightarrow> nat list \<Rightarrow> ActiveProxy \<Rightarrow> pstep" where
  "health_loop e [] p = Inr p"
| "health_loop e (c # cs) p =
     next_step (periodicCheck e c p) (\<lambda>p1. if connections p1 \<noteq> connections p then Inl BadIterator else health_loop e cs p1)"

definition healthCheck :: "ProxyEnv \<Rightarrow> ActiveProxy \<Rightarrow> pstep" where
  "healthCheck e p = health_loop e (connections p) p"

definition proxy_announcePeer :: "ActiveProxy \<Rightarrow> pstep" where
  "proxy_announcePeer p = Inr (case ap_peer p of None \<Rightarrow> p | Some q \<Rightarrow> emit_effect (Announce q) p)"

definition onIteration :: "ProxyEnv \<Rightarrow> ActiveProxy \<Rightarrow> pstep" where
  "onIteration e p0 =
     (let p1 = (if ap_first p0 then emit_effect Started (p0\<lparr>ap_first := False\<rparr>) else p0)
      in case needsNewConnection e p1 of (needed, p2) \<Rightarrow>
           next_step (do_if needed (proxy_connect e) p2) (\<lambda>p.
           next_step (do_if (uvNow e - lastIdleCheckTimestamp p \<ge> IDLE_CHECK_INTERVAL)
                        (\<lambda>p. idleCheck e (p\<lparr>lastIdleCheckTimestamp := uvNow e\<rparr>)) p) (\<lambda>p.
           next_step (do_if (uvNow e - lastHealthCheckTimestamp p \<ge> HEALTH_CHECK_INTERVAL)
                        (\<lambda>p. healthCheck e (p\<lparr>lastHealthCheckTimestamp := uvNow e\<rparr>)) p) (\<lambda>p.
           do_if (ap_peer p \<noteq> None \<and> uvNow e - lastAnnouncePeerTimestamp p \<ge> RE_ANNOUNCE_INTERVAL)
             (\<lambda>p. proxy_announcePeer (p\<lparr>lastAnnouncePeerTimestamp := uvNow e\<rparr>)) p))))"

definition onStop :: "ProxyEnv \<Rightarrow> ActiveProxy \<Rightarrow> pstep" where
  "onStop e p =
     next_step (retire e (connections p) (p\<lparr>ap_running := False\<rparr>)) (\<lambda>p. Inr (emit_effect Stopped (p\<lparr>connections := []\<rparr>)))"

subsection \<open>The event loop\<close>

text \<open>The buffers that are handed to libuv for reading.\<close>

definition relay_alloc :: "ConnectionState \<Rightarrow> nat \<Rightarrow> nat" where
  "relay_alloc s suggested_size = (if s \<noteq> Relaying then MAX_CONTROL_PACKET_SIZE else min suggested_size MAX_DATA_PACKET_SIZE)"

definition upstream_alloc :: "nat \<Rightarrow> nat" where
  "upstream_alloc suggested_size = min suggested_size MAX_UPSTREAM_READ_BUFFER_SIZE"

datatype Event =
    Iterate
  | Callback "nat \<times> Request" int
  | RelayData nat "byte list option"
  | UpstreamData nat "byte list option"
  | StopSignal

fun of_relay :: "Request \<Rightarrow> bool" where
  "of_relay RelayConnect = True"
| "of_relay (RelayWrite _ _) = True"
| "of_relay RelayClose = True"
| "of_relay _ = False"

definition is_close :: "Request \<Rightarrow> bool" where
  "is_close r \<longleftrightarrow> r = UpstreamClose \<or> r = RelayClose"

fun fits_buffer :: "nat \<Rightarrow> byte list option \<Rightarrow> bool" where
  "fits_buffer n None = True"
| "fits_buffer n (Some b) \<longleftrightarrow> length b \<le> n"

fun enabled :: "Event \<Rightarrow> ActiveProxy \<Rightarrow> bool" where
  "enabled Iterate p \<longleftrightarrow> ap_running p"
| "enabled StopSignal p \<longleftrightarrow> ap_running p"
| "enabled (Callback (c, r) status) p \<longleftrightarrow>
     (c, r) \<in> set (requests p)
     \<and> (if is_close r then \<forall>q\<in>set (requests p). fst q = c \<longrightarrow> of_relay (snd q) = of_relay r \<longrightarrow> is_close (snd q)
        else r = UpstreamConnect \<longrightarrow> (case ap_heap p c of Some x \<Rightarrow> hclosing (upstream x) \<longrightarrow> status < 0 | None \<Rightarrow> True))"
| "enabled (RelayData c d) p \<longleftrightarrow>
     (case ap_heap p c of
        None \<Rightarrow> False
      | Some x \<Rightarrow> hinit (relay x) \<and> hreading (relay x) \<and> \<not> hclosing (relay x) \<and> fits_buffer (relay_alloc (pc_state x) 65536) d)"
| "enabled (UpstreamData c d) p \<longleftrightarrow>
     (case ap_heap p c of
        None \<Rightarrow> False
      | Some x \<Rightarrow> hinit (upstream x) \<and> hreading (upstream x) \<and> \<not> hclosing (upstream x) \<and> fits_buffer (upstream_alloc 65536) d)"

fun handle_event :: "ProxyEnv \<Rightarrow> Event \<Rightarrow> ActiveProxy \<Rightarrow> pstep" where
  "handle_event e Iterate p = onIteration e p"
| "handle_event e (Callback req status) p = callback e req status p"
| "handle_event e (RelayData c d) p = relayRead e c d p"
| "handle_event e (UpstreamData c d) p = upstreamRead e c d p"
| "handle_event e StopSignal p = onStop e p"

text \<open>The proxy before its first iteration, with the key pair \<open>keys\<close>.\<close>

definition newActiveProxy :: "u32 \<Rightarrow> byte list \<times> byte list \<Rightarrow> byte list option \<Rightarrow> u64 \<Rightarrow> ActiveProxy" where
  "newActiveProxy limit keys sk now =
     \<lparr>ap_heap = Map.empty, ap_next = 0, lastConnectionId = 0, connections = [], maxConnections = limit, inFlights = 0, serverFails = 0,
      reconnectDelay = 0, lastConnectTimestamp = 0, idleTimestamp = - 1, lastIdleCheckTimestamp = now, lastHealthCheckTimestamp = now,
      lastAnnouncePeerTimestamp = 0, sessionKey = keys, serverPk = None, ap_box = None, relayPort = 0, peerKeypair = sk,
      ap_peer = None, ap_running = True, ap_first = True, requests = [], uvCalls = 0, draws = 0, effects = []\<rparr>"

text \<open>Runs of the event loop; the environment may change between events.\<close>

inductive proxy_run :: "ActiveProxy \<Rightarrow> ActiveProxy \<Rightarrow> bool" for p where
  start: "proxy_run p p"
| event: "proxy_run p q \<Longrightarrow> enabled ev q \<Longrightarrow> handle_event e ev q = Inr r \<Longrightarrow> proxy_run p r"

end
