(* ===== verification/Proxy_Invariants.thy ===== *)
theory Proxy_Invariants
  imports Active_Proxy
begin

text \<open>
  Invariants of the active proxy that do not look into its connections. The locale \<open>proxy_invariant\<close> asks what such an
  invariant has to tolerate, and shows that every event keeps it; its instance bounds the number of connections and
  the delay between attempts to reach the server.
\<close>

section \<open>Steps that keep a predicate\<close>

definition keeps :: "(ActiveProxy \<Rightarrow> bool) \<Rightarrow> pstep \<Rightarrow> bool" where
  "keeps I r \<longleftrightarrow> (\<forall>p. r = Inr p \<longrightarrow> I p)"

lemma keeps_simps [simp]: "keeps I (Inr p) = I p" "keeps I (Inl f)"
  by (simp_all add: keeps_def)

lemma keeps_next: "keeps I r \<Longrightarrow> (\<And>p. I p \<Longrightarrow> keeps I (f p)) \<Longrightarrow> keeps I (next_step r f)"
  by (cases r) (simp_all add: next_step_def)

lemma keeps_with: "(\<And>x. ap_heap p c = Some x \<Longrightarrow> keeps I (f x)) \<Longrightarrow> keeps I (with_conn c p f)"
  by (simp add: with_conn_def split: option.split)

lemma keeps_throw: "(\<And>y. r = Inr y \<Longrightarrow> keeps I (f y)) \<Longrightarrow> keeps I (no_throw r f)"
  by (simp add: no_throw_def split: sum.split)

lemma keeps_if: "(b \<Longrightarrow> keeps I (f p)) \<Longrightarrow> I p \<Longrightarrow> keeps I (do_if b f p)"
  by (simp add: do_if_def)

locale proxy_invariant =
  fixes I :: "ActiveProxy \<Rightarrow> bool"
  assumes tolerates:
    "I p \<Longrightarrow> I (p\<lparr>ap_heap := h\<rparr>)" "I p \<Longrightarrow> I (p\<lparr>requests := rs\<rparr>)" "I p \<Longrightarrow> I (p\<lparr>uvCalls := n\<rparr>)" "I p \<Longrightarrow> I (p\<lparr>draws := n\<rparr>)"
    "I p \<Longrightarrow> I (p\<lparr>effects := es\<rparr>)" "I p \<Longrightarrow> I (p\<lparr>inFlights := k\<rparr>)" "I p \<Longrightarrow> I (p\<lparr>idleTimestamp := t\<rparr>)"
    "I p \<Longrightarrow> I (p\<lparr>serverPk := pk\<rparr>)" "I p \<Longrightarrow> I (p\<lparr>relayPort := port\<rparr>)" "I p \<Longrightarrow> I (p\<lparr>ap_box := b\<rparr>)" "I p \<Longrightarrow> I (p\<lparr>ap_peer := q\<rparr>)"
    "I p \<Longrightarrow> I (p\<lparr>lastIdleCheckTimestamp := t\<rparr>)" "I p \<Longrightarrow> I (p\<lparr>lastHealthCheckTimestamp := t\<rparr>)"
    "I p \<Longrightarrow> I (p\<lparr>lastAnnouncePeerTimestamp := t\<rparr>)" "I p \<Longrightarrow> I (p\<lparr>lastConnectTimestamp := t\<rparr>)" "I p \<Longrightarrow> I (p\<lparr>sessionKey := key\<rparr>)"
    "I p \<Longrightarrow> I (p\<lparr>ap_running := r\<rparr>)" "I p \<Longrightarrow> I (p\<lparr>ap_first := r\<rparr>)"
    and shrinks: "I p \<Longrightarrow> I (p\<lparr>connections := remove1 c (connections p)\<rparr>)" "I p \<Longrightarrow> I (p\<lparr>connections := take m (connections p)\<rparr>)"
    and opened: "I p \<Longrightarrow> I (p\<lparr>serverFails := 0, reconnectDelay := 0\<rparr>)"
    and failed: "I p \<Longrightarrow> keeps I (onOpenFailed p)"
    and grows: "I p \<Longrightarrow> length (connections p) < unat (maxConnections p) \<Longrightarrow>
      I (p\<lparr>ap_next := a, lastConnectionId := i, connections := connections p @ [c]\<rparr>)"
begin

lemma on_conn_keeps: "I p \<Longrightarrow> keeps I (on_conn c f p)"
  unfolding on_conn_def by (rule keeps_with) (simp add: tolerates)

lemma uv_call_keeps: "I p \<Longrightarrow> (\<And>rc p. I p \<Longrightarrow> keeps I (f rc p)) \<Longrightarrow> keeps I (uv_call e k f p)"
  by (simp add: uv_call_def tolerates)

lemma draw_keeps: "I p \<Longrightarrow> (\<And>y p. I p \<Longrightarrow> keeps I (f y p)) \<Longrightarrow> keeps I (draw g f p)"
  by (simp add: draw_def tolerates)

lemma add_request_keeps: "I p \<Longrightarrow> I (add_request c r p)"
  by (simp add: add_request_def tolerates)

lemma emit_keeps: "I p \<Longrightarrow> I (emit_effect x p)"
  by (simp add: emit_effect_def tolerates)

lemma unref_keeps: "I p \<Longrightarrow> keeps I (pc_unref c p)"
  unfolding pc_unref_def by (rule keeps_with) (simp add: tolerates)

lemma set_state_keeps: "I p \<Longrightarrow> keeps I (set_state c s p)" "I p \<Longrightarrow> keeps I (pc_ref c p)"
  "I p \<Longrightarrow> keeps I (stop_upstream c p)" "I p \<Longrightarrow> keeps I (stop_relay c p)"
  by (simp_all add: set_state_def pc_ref_def stop_upstream_def stop_relay_def on_conn_keeps)

lemma new_request_keeps: "I p \<Longrightarrow> keeps I (new_request e c p)"
  by (simp add: new_request_def set_state_keeps)

lemmas basic_keeps = new_request_keeps on_conn_keeps uv_call_keeps draw_keeps unref_keeps set_state_keeps keeps_next keeps_with keeps_throw keeps_if

lemma onAuthorized_keeps: "I p \<Longrightarrow> keeps I (onAuthorized e pk port b p)"
  unfolding onAuthorized_def Let_def by (auto intro!: basic_keeps simp: tolerates split: option.split)

lemma onClosed_keeps: "I p \<Longrightarrow> keeps I (onClosed c p)"
  unfolding onClosed_def by (auto intro!: basic_keeps simp: shrinks)

lemma onIdle_keeps: "I p \<Longrightarrow> keeps I (onIdle e p)" "I p \<Longrightarrow> keeps I (onBusy p)" "I p \<Longrightarrow> keeps I (onOpened p)"
  using tolerates(7) [OF tolerates(6)] by (simp_all add: onIdle_def onBusy_def onOpened_def opened tolerates Let_def)

lemma close_handles_keeps: "I p \<Longrightarrow> keeps I (close_handles c p)" "I p \<Longrightarrow> keeps I (close_upstream_handle c p)"
proof -
  have u: "I p \<Longrightarrow> keeps I (close_upstream_handle c p)" and r: "I p \<Longrightarrow> keeps I (close_relay_handle c p)" for p
    unfolding close_upstream_handle_def close_relay_handle_def by (auto intro!: basic_keeps add_request_keeps)
  then show "I p \<Longrightarrow> keeps I (close_handles c p)" "I p \<Longrightarrow> keeps I (close_upstream_handle c p)"
    unfolding close_handles_def by (auto intro!: basic_keeps)
qed

lemma close_keeps: "I p \<Longrightarrow> keeps I (pc_close e c p)"
  unfolding pc_close_def Let_def by (auto intro!: basic_keeps close_handles_keeps onIdle_keeps onClosed_keeps failed)

lemma connectServer_keeps: "I p \<Longrightarrow> keeps I (connectServer e c p)"
  unfolding connectServer_def by (auto intro!: basic_keeps add_request_keeps)

lemma establish_keeps: "I p \<Longrightarrow> keeps I (establish e c p)"
  unfolding establish_def by (auto intro!: basic_keeps close_keeps)

lemma sendRelayPacket_keeps: "I p \<Longrightarrow> keeps I (sendRelayPacket e c t b h p)"
  unfolding sendRelayPacket_def by (auto intro!: basic_keeps close_keeps add_request_keeps emit_keeps)

lemma send_keeps:
  "I p \<Longrightarrow> keeps I (sendAuthenticateRequest e c sig p)" "I p \<Longrightarrow> keeps I (sendAttachRequest e c sig p)" "I p \<Longrightarrow> keeps I (sendPingRequest e c p)"
  "I p \<Longrightarrow> keeps I (sendConnectResponse e c s p)" "I p \<Longrightarrow> keeps I (sendDisconnectRequest e c p)"
  "I p \<Longrightarrow> keeps I (sendDisconnectResponse e c p)" "I p \<Longrightarrow> keeps I (sendDataRequest e c d p)"
  unfolding sendAuthenticateRequest_def sendAttachRequest_def sendPingRequest_def sendConnectResponse_def sendDisconnectRequest_def
    sendDisconnectResponse_def sendDataRequest_def Let_def
  by (auto intro!: basic_keeps sendRelayPacket_keeps)

lemma closeUpstream2_keeps: "I p \<Longrightarrow> keeps I (closeUpstream2 c p)"
  unfolding closeUpstream2_def by (auto intro!: basic_keeps close_handles_keeps)

lemma closeUpstream_keeps: "I p \<Longrightarrow> keeps I (closeUpstream e c p)"
  unfolding closeUpstream_def by (auto intro!: basic_keeps closeUpstream2_keeps send_keeps add_request_keeps)

lemma startReadUpstream_keeps: "I p \<Longrightarrow> keeps I (startReadUpstream e c p)"
  unfolding startReadUpstream_def by (auto intro!: basic_keeps closeUpstream_keeps)

lemma openUpstream_keeps: "I p \<Longrightarrow> keeps I (openUpstream e c p)"
  unfolding openUpstream_def by (auto intro!: basic_keeps closeUpstream2_keeps send_keeps onIdle_keeps add_request_keeps)

lemma packet_keeps: "I p \<Longrightarrow> keeps I (processRelayPacket e c pkt p)"
  unfolding processRelayPacket_def onErrorPacket_def onChallenge_def onAuthenticateResponse_def onAttachResponse_def onConnectRequest_def
    onDataRequest_def onDisconnectRequest_def onDisconnectResponse_def confirm_disconnect_def Let_def
  by (auto intro!: basic_keeps close_keeps send_keeps onIdle_keeps onAuthorized_keeps openUpstream_keeps closeUpstream_keeps add_request_keeps emit_keeps
      split: PacketType.split prod.split option.split)

lemma onRelayRead_keeps: "I p \<Longrightarrow> keeps I (onRelayRead e c d p)"
proof -
  have "keeps I (case relay_read (processRelayPacket e c) st d q of None \<Rightarrow> Inl NeverReturns | Some (Inl f) \<Rightarrow> Inl f
      | Some (Inr (st, p)) \<Rightarrow> on_conn c (\<lambda>x. x\<lparr>stickyBuffer := st\<rparr>) p)" if "I q" for q st
  proof (cases "relay_read (processRelayPacket e c) st d q")
    case (Some r)
    have "case processRelayPacket e c pkt s of Inl f \<Rightarrow> True | Inr s1 \<Rightarrow> I s1" if "I s" for pkt s
      using packet_keeps [OF that, of e c pkt] by (simp add: keeps_def split: sum.split)
    from relay_read_keeps [where P = I and Q = "\<lambda>_. True", OF this that Some] Some show ?thesis
      by (auto split: sum.split intro: on_conn_keeps)
  qed simp
  then show "I p \<Longrightarrow> keeps I (onRelayRead e c d p)" unfolding onRelayRead_def by (auto intro!: basic_keeps)
qed

lemma callback_keeps: "I p \<Longrightarrow> keeps I (callback e req status p)"
  unfolding callback_def Let_def relayConnected_def upstreamConnected_def relayWritten_def upstreamWritten_def upstreamShut_def handleClosed_def run_handler_def
  by (auto intro!: basic_keeps close_keeps establish_keeps closeUpstream2_keeps closeUpstream_keeps startReadUpstream_keeps onIdle_keeps send_keeps
      simp: tolerates split: Request.split WriteHandler.split)

lemma read_keeps: "I p \<Longrightarrow> keeps I (relayRead e c d p)" "I p \<Longrightarrow> keeps I (upstreamRead e c d p)"
  unfolding relayRead_def upstreamRead_def
  by (auto intro!: close_keeps onRelayRead_keeps closeUpstream_keeps send_keeps split: option.split list.split)

lemma retire_keeps: "I p \<Longrightarrow> keeps I (retire e cs p)"
  by (induction e cs p rule: retire.induct) (auto intro!: basic_keeps close_keeps)

lemma periodicCheck_keeps: "I p \<Longrightarrow> keeps I (periodicCheck e c p)"
  unfolding periodicCheck_def by (auto intro!: basic_keeps close_keeps send_keeps)

lemma health_keeps: "I p \<Longrightarrow> keeps I (health_loop e cs p)"
  by (induction e cs p rule: health_loop.induct) (auto intro!: basic_keeps periodicCheck_keeps)

lemma connect_keeps:
  assumes "I p" "length (connections p) < unat (maxConnections p)"
  shows "keeps I (proxy_connect e p)"
proof -
  let ?c = "ap_next p"
  let ?p = "p\<lparr>ap_next := ?c + 1, lastConnectionId := lastConnectionId p + 1, connections := connections p @ [?c]\<rparr>"
  let ?h = "(ap_heap p)(?c \<mapsto> newProxyConnection e (lastConnectionId p))"
  have "proxy_connect e p = connectServer e ?c (?p\<lparr>ap_heap := ?h, lastConnectTimestamp := uvNow e\<rparr>)"
    unfolding proxy_connect_def Let_def by (rule arg_cong [where f = "connectServer e ?c"]) simp
  moreover have "I (?p\<lparr>ap_heap := ?h, lastConnectTimestamp := uvNow e\<rparr>)" by (intro tolerates grows assms)
  ultimately show ?thesis by (simp only: connectServer_keeps)
qed

lemma needs_keeps:
  assumes "I p" "needsNewConnection e p = (b, q)"
  shows "I q" "b \<Longrightarrow> length (connections q) < unat (maxConnections q)"
proof -
  let ?p = "p\<lparr>sessionKey := newKeys e (draws p), draws := draws p + 1, serverPk := None, lastConnectTimestamp := 0, idleTimestamp := - 1,
        lastIdleCheckTimestamp := 0, lastHealthCheckTimestamp := 0, lastAnnouncePeerTimestamp := 0, inFlights := 0\<rparr>"
  have "proxy_reset e p = ?p\<lparr>serverFails := 0, reconnectDelay := 0\<rparr>" by (simp add: proxy_reset_def)
  then have "I (proxy_reset e p)" using opened [of ?p] assms(1) by (simp add: tolerates)
  then show "I q" using assms by (auto simp: needsNewConnection_def split: if_splits)
  show "length (connections q) < unat (maxConnections q)" if b
    using assms(2) that by (auto simp: needsNewConnection_def proxy_reset_def split: if_splits)
qed

lemma onIteration_keeps: "I p \<Longrightarrow> keeps I (onIteration e p)"
proof -
  assume p: "I p"
  obtain b q where q: "needsNewConnection e (if ap_first p then emit_effect Started (p\<lparr>ap_first := False\<rparr>) else p) = (b, q)"
    by (cases "needsNewConnection e (if ap_first p then emit_effect Started (p\<lparr>ap_first := False\<rparr>) else p)")
  have "I (if ap_first p then emit_effect Started (p\<lparr>ap_first := False\<rparr>) else p)" using p by (simp add: emit_keeps tolerates)
  note n = needs_keeps [OF this q]
  show ?thesis
    unfolding onIteration_def Let_def q prod.case idleCheck_def healthCheck_def proxy_announcePeer_def
    by (auto intro!: basic_keeps retire_keeps health_keeps connect_keeps emit_keeps n shrinks simp: tolerates split: option.split)
qed

lemma onStop_keeps: "I p \<Longrightarrow> keeps I (onStop e p)"
  using shrinks(2) [where m = 0] unfolding onStop_def by (auto intro!: basic_keeps retire_keeps emit_keeps simp: tolerates)

theorem event_keeps: "I p \<Longrightarrow> keeps I (handle_event e ev p)"
  by (cases ev) (simp_all add: onIteration_keeps callback_keeps read_keeps onStop_keeps)

theorem run_keeps: "proxy_run p q \<Longrightarrow> I p \<Longrightarrow> I q"
proof (induction rule: proxy_run.induct)
  case (event q ev e r)
  then show ?case using event_keeps [of q e ev] by (simp add: keeps_def)
qed

end

section \<open>Bounds\<close>

text \<open>The delay grows only while it is below 64, but is counted in milliseconds: it is 2 seconds after the first failure and stays so.\<close>

definition proxy_bounds :: "ActiveProxy \<Rightarrow> bool" where
  "proxy_bounds p \<longleftrightarrow> length (connections p) \<le> unat (maxConnections p)
     \<and> (reconnectDelay p = 0 \<and> serverFails p = 0 \<or> reconnectDelay p = 2000)"

lemma length_remove1_le: "length (remove1 x xs) \<le> length xs"
  by (simp add: length_remove1)

interpretation bounds: proxy_invariant proxy_bounds
proof unfold_locales
  fix p :: ActiveProxy
  assume "proxy_bounds p"
  then show "keeps proxy_bounds (onOpenFailed p)"
    by (auto simp: proxy_bounds_def onOpenFailed_def Let_def keeps_def split: if_splits)
qed (auto simp: proxy_bounds_def length_remove1 intro: le_trans)

text \<open>So the shift in \<^verbatim>\<open>onOpenFailed\<close> is always defined.\<close>

lemma onOpenFailed_defined: "proxy_bounds p \<Longrightarrow> \<exists>q. onOpenFailed p = Inr q"
  by (auto simp: proxy_bounds_def onOpenFailed_def Let_def word_le_nat_alt)

lemma bounds_start: "proxy_bounds (newActiveProxy limit keys sk now)"
  by (simp add: proxy_bounds_def newActiveProxy_def)

text \<open>The limit never changes.\<close>

interpretation limit: proxy_invariant "\<lambda>p. maxConnections p = n" for n
proof unfold_locales
  fix p :: ActiveProxy
  assume "maxConnections p = n"
  then show "keeps (\<lambda>p. maxConnections p = n) (onOpenFailed p)"
    by (auto simp: onOpenFailed_def Let_def keeps_def split: if_splits)
qed simp_all

end
