(* ===== verification/Proxy_Memory.thy ===== *)
theory Proxy_Memory
  imports Proxy_Invariants
begin

text \<open>
  The reference counts of the connections. An object is referenced by the list of connections, by its two
  libuv handles, by the requests that are pending, and by the code that runs. As long as the count is the number of
  these references no object is used after it is freed. \<open>good M L c k p\<close> says so of the state \<open>p\<close>, where \<open>L\<close> are the
  connections that the list references, \<open>k\<close> the references to \<open>c\<close> that running code holds, and \<open>M\<close> a bound on the requests.
\<close>

section \<open>Counting references\<close>

definition reqs_of :: "ActiveProxy \<Rightarrow> nat \<Rightarrow> Request list" where
  "reqs_of p c = map snd (filter (\<lambda>q. fst q = c) (requests p))"

text \<open>A handle holds a reference until its close callback has run. When the first connect fails, the handle is closed without one.\<close>

definition relay_held :: "Request list \<Rightarrow> ProxyConnection \<Rightarrow> bool" where
  "relay_held rs x \<longleftrightarrow> hdata (relay x) \<and> (\<not> hclosing (relay x) \<or> RelayClose \<in> set rs)"

definition upstream_held :: "Request list \<Rightarrow> ProxyConnection \<Rightarrow> bool" where
  "upstream_held rs x \<longleftrightarrow> hdata (upstream x) \<and> (\<not> hclosing (upstream x) \<or> UpstreamClose \<in> set rs)"

abbreviation pending_refs :: "Request list \<Rightarrow> nat" where
  "pending_refs rs \<equiv> length (filter (\<lambda>r. \<not> is_close r) rs)"

definition references :: "bool \<Rightarrow> nat \<Rightarrow> Request list \<Rightarrow> ProxyConnection \<Rightarrow> nat" where
  "references listed k rs x =
     of_bool listed + of_bool (relay_held rs x) + of_bool (upstream_held rs x) + pending_refs rs + k"

definition shape :: "nat \<Rightarrow> nat \<Rightarrow> Request list \<Rightarrow> ProxyConnection \<Rightarrow> bool" where
  "shape M k rs x \<longleftrightarrow> pending_refs rs + k \<le> M + 3
     \<and> hinit (relay x) = hdata (relay x) \<and> hinit (upstream x) = hdata (upstream x)
     \<and> (RelayClose \<in> set rs \<longrightarrow> hdata (relay x) \<and> hclosing (relay x)) \<and> count_list rs RelayClose \<le> 1
     \<and> (UpstreamClose \<in> set rs \<longrightarrow> hdata (upstream x) \<and> hclosing (upstream x)) \<and> count_list rs UpstreamClose \<le> 1"

definition conn_ok :: "nat \<Rightarrow> bool \<Rightarrow> nat \<Rightarrow> Request list \<Rightarrow> ProxyConnection \<Rightarrow> bool" where
  "conn_ok M l k rs x \<longleftrightarrow> refCount x = word_of_nat (references l k rs x) \<and> 0 < references l k rs x \<and> shape M k rs x"

lemma refCount_irrelevant [simp]:
  "relay_held rs (x\<lparr>refCount := n\<rparr>) = relay_held rs x" "upstream_held rs (x\<lparr>refCount := n\<rparr>) = upstream_held rs x"
  "references l k rs (x\<lparr>refCount := n\<rparr>) = references l k rs x" "shape M k rs (x\<lparr>refCount := n\<rparr>) = shape M k rs x"
  by (simp_all add: references_def relay_held_def upstream_held_def shape_def)

lemma shape_mono: "shape M k rs x \<Longrightarrow> k' \<le> k \<Longrightarrow> shape M k' rs x"
  by (auto simp: shape_def)

fun slot_ok :: "nat \<Rightarrow> bool \<Rightarrow> nat \<Rightarrow> Request list \<Rightarrow> ProxyConnection option \<Rightarrow> bool" where
  "slot_ok M listed k rs None \<longleftrightarrow> \<not> listed \<and> rs = [] \<and> k = 0"
| "slot_ok M listed k rs (Some x) \<longleftrightarrow> conn_ok M listed k rs x"

definition good :: "nat \<Rightarrow> nat list \<Rightarrow> nat \<Rightarrow> nat \<Rightarrow> ActiveProxy \<Rightarrow> bool" where
  "good M L c k p \<longleftrightarrow> distinct L \<and> (\<forall>i\<ge>ap_next p. ap_heap p i = None)
     \<and> (\<forall>i. slot_ok M (i \<in> set L) (if i = c then k else 0) (reqs_of p i) (ap_heap p i))"

lemma good_distinct: "good M L c k p \<Longrightarrow> distinct L"
  by (simp only: good_def)

lemma good_slot: "good M L c k p \<Longrightarrow> slot_ok M (i \<in> set L) (if i = c then k else 0) (reqs_of p i) (ap_heap p i)"
  by (simp only: good_def)

lemma goodD: "good M L c k p \<Longrightarrow> ap_heap p c = Some x \<Longrightarrow> conn_ok M (c \<in> set L) k (reqs_of p c) x"
  using good_slot [of M L c k p c] by simp

lemma good_alive: "good M L c k p \<Longrightarrow> c \<in> set L \<or> reqs_of p c \<noteq> [] \<or> 0 < k \<Longrightarrow> \<exists>x. ap_heap p c = Some x"
  using good_slot [of M L c k p c] by (cases "ap_heap p c") auto

lemma good_idle: "good M L c 0 p \<Longrightarrow> good M L d 0 p"
  by (simp add: good_def if_split_eq1 cong: if_cong)

text \<open>An operation on the connection \<open>c\<close> changes nothing else.\<close>

lemma good_change:
  assumes "good M L c k p" "\<And>i. i \<noteq> c \<Longrightarrow> ap_heap q i = ap_heap p i" "ap_next q = ap_next p" "c < ap_next p \<or> ap_heap q c = None"
    and "\<And>i. i \<noteq> c \<Longrightarrow> reqs_of q i = reqs_of p i" "\<And>i. i \<noteq> c \<Longrightarrow> (i \<in> set L') = (i \<in> set L)" "distinct L'"
    and "slot_ok M (c \<in> set L') k' (reqs_of q c) (ap_heap q c)"
  shows "good M L' c k' q"
proof -
  have "slot_ok M (i \<in> set L') (if i = c then k' else 0) (reqs_of q i) (ap_heap q i)" for i
    using good_slot [OF assms(1), of i] assms(2,5,6,8) by (cases "i = c") simp_all
  moreover have "ap_heap q i = None" if "i \<ge> ap_next q" for i
    using assms(1-4) that by (cases "i = c") (auto simp: good_def)
  ultimately show ?thesis using assms(7) by (simp only: good_def) blast
qed

lemma good_put:
  assumes "good M L c k p" "ap_heap p c = Some x" "ap_heap q = (ap_heap p)(c \<mapsto> y)" "ap_next q = ap_next p"
    and "\<And>i. i \<noteq> c \<Longrightarrow> reqs_of q i = reqs_of p i" "\<And>i. i \<noteq> c \<Longrightarrow> (i \<in> set L') = (i \<in> set L)" "distinct L'"
    and "conn_ok M (c \<in> set L') k' (reqs_of q c) y"
  shows "good M L' c k' q"
proof (rule good_change [OF assms(1) _ assms(4) _ assms(5-7)])
  have "\<not> ap_next p \<le> c" using assms(1,2) by (auto simp: good_def)
  then show "c < ap_next p \<or> ap_heap q c = None" by simp
qed (use assms(3,8) in auto)

lemma good_free:
  assumes "good M L c k p" "ap_heap q = (ap_heap p)(c := None)" "ap_next q = ap_next p" "\<And>i. reqs_of q i = reqs_of p i"
    and "c \<notin> set L" "reqs_of p c = []"
  shows "good M L c 0 q"
  by (rule good_change [OF assms(1) _ assms(3)]) (use assms in \<open>auto simp: good_def\<close>)

lemma reqs_simps [simp]:
  "reqs_of (add_request c r p) i = (if i = c then reqs_of p c @ [r] else reqs_of p i)"
  "reqs_of (p\<lparr>requests := remove1 (c, r) (requests p)\<rparr>) i = (if i = c then remove1 r (reqs_of p c) else reqs_of p i)"
  "reqs_of (p\<lparr>ap_heap := h\<rparr>) i = reqs_of p i" "reqs_of (p\<lparr>connections := cs\<rparr>) i = reqs_of p i"
proof -
  have "map snd (filter (\<lambda>q. fst q = i) (remove1 (c, r) qs)) =
      (if i = c then remove1 r (map snd (filter (\<lambda>q. fst q = c) qs)) else map snd (filter (\<lambda>q. fst q = i) qs))" for qs :: "(nat \<times> Request) list"
    by (induction qs) auto
  then show "reqs_of (p\<lparr>requests := remove1 (c, r) (requests p)\<rparr>) i = (if i = c then remove1 r (reqs_of p c) else reqs_of p i)"
    by (simp add: reqs_of_def)
qed (auto simp: reqs_of_def add_request_def)

lemma add_request_fields [simp]:
  "ap_heap (add_request c r p) = ap_heap p" "ap_next (add_request c r p) = ap_next p" "connections (add_request c r p) = connections p"
  by (simp_all add: add_request_def)

text \<open>Other fields do not matter.\<close>

definition same_memory :: "ActiveProxy \<Rightarrow> ActiveProxy \<Rightarrow> bool" where
  "same_memory p q \<longleftrightarrow> ap_heap q = ap_heap p \<and> ap_next q = ap_next p \<and> requests q = requests p \<and> connections q = connections p"

lemma good_same: "same_memory p q \<Longrightarrow> good M L c k q = good M L c k p"
  by (simp only: same_memory_def good_def reqs_of_def)

section \<open>Steps without a use after free\<close>

definition ok :: "(ActiveProxy \<Rightarrow> bool) \<Rightarrow> pstep \<Rightarrow> bool" where
  "ok I r \<longleftrightarrow> r \<noteq> Inl UseAfterFree \<and> keeps I r"

lemma ok_simps [simp]: "ok I (Inr p) = I p" "ok I (Inl f) \<longleftrightarrow> f \<noteq> UseAfterFree"
  by (simp_all add: ok_def)

lemma ok_next: "ok I r \<Longrightarrow> (\<And>p. I p \<Longrightarrow> ok J (f p)) \<Longrightarrow> ok J (next_step r f)"
  by (cases r) (simp_all add: next_step_def)

lemma ok_throw: "(\<And>y. r = Inr y \<Longrightarrow> ok I (f y)) \<Longrightarrow> ok I (no_throw r f)"
  by (simp add: no_throw_def split: sum.split)

lemma ok_if: "(b \<Longrightarrow> ok I (f p)) \<Longrightarrow> (\<not> b \<Longrightarrow> I p) \<Longrightarrow> ok I (do_if b f p)"
  by (simp add: do_if_def)

lemma ok_weaken: "ok I r \<Longrightarrow> (\<And>p. I p \<Longrightarrow> J p) \<Longrightarrow> ok J r"
  by (auto simp: ok_def keeps_def)

section \<open>The state while a connection is handled\<close>

text \<open>The connections in the list are those that are not closed, and their handlers are in place.\<close>

definition listed :: "nat list \<Rightarrow> ActiveProxy \<Rightarrow> bool" where
  "listed L p \<longleftrightarrow> (\<forall>i x. ap_heap p i = Some x \<longrightarrow> (i \<in> set L \<longleftrightarrow> pc_state x \<noteq> Closed) \<and> (i \<in> set L \<longrightarrow> closeHandler x))"

lemma listedD: "listed L p \<Longrightarrow> ap_heap p i = Some x \<Longrightarrow> (i \<in> set L \<longleftrightarrow> pc_state x \<noteq> Closed) \<and> (i \<in> set L \<longrightarrow> closeHandler x)"
  unfolding listed_def by blast

lemma listed_heap: "ap_heap q = ap_heap p \<Longrightarrow> set D = set L \<Longrightarrow> listed D q = listed L p"
  unfolding listed_def by presburger

lemma listed_put:
  assumes "listed L p" "ap_heap p c = Some x" "ap_heap q = (ap_heap p)(c \<mapsto> y)" "(pc_state y = Closed) = (pc_state x = Closed)"
    and "closeHandler y = closeHandler x"
  shows "listed L q"
  unfolding listed_def
proof (intro allI impI)
  fix i z
  assume z: "ap_heap q i = Some z"
  have i: "ap_heap p i = Some z' \<Longrightarrow> (i \<in> set L \<longleftrightarrow> pc_state z' \<noteq> Closed) \<and> (i \<in> set L \<longrightarrow> closeHandler z')" for z'
    by (rule listedD [OF assms(1)])
  show "(i \<in> set L) = (pc_state z \<noteq> Closed) \<and> (i \<in> set L \<longrightarrow> closeHandler z)"
    using z i assms(2-5) by (cases "i = c") simp_all
qed

text \<open>The connection \<open>c\<close> stays alive because running code holds a reference (\<open>h\<close>) or one of its handles does; with \<open>b\<close> it is
  not closed.\<close>

definition pinned :: "bool \<Rightarrow> Request list \<Rightarrow> ProxyConnection \<Rightarrow> bool" where
  "pinned h rs x \<longleftrightarrow> h \<or> relay_held rs x \<or> upstream_held rs x"

definition handling :: "nat \<Rightarrow> nat \<Rightarrow> bool \<Rightarrow> nat \<Rightarrow> bool \<Rightarrow> ActiveProxy \<Rightarrow> bool" where
  "handling M c h k b p \<longleftrightarrow> good M (connections p) c k p \<and> listed (connections p) p \<and> (h \<longrightarrow> 0 < k)
     \<and> (\<exists>x. ap_heap p c = Some x \<and> pinned h (reqs_of p c) x \<and> (b \<longrightarrow> pc_state x \<noteq> Closed))"

lemma handlingE:
  assumes "handling M c h k b p"
  obtains x where "ap_heap p c = Some x" "conn_ok M (c \<in> set (connections p)) k (reqs_of p c) x" "pinned h (reqs_of p c) x"
    "b \<longrightarrow> pc_state x \<noteq> Closed" "good M (connections p) c k p" "listed (connections p) p" "h \<longrightarrow> 0 < k"
  using assms goodD by (auto simp: handling_def)

lemma handling_same: "same_memory p q \<Longrightarrow> handling M c h k b q = handling M c h k b p"
  by (simp add: handling_def good_same) (simp add: same_memory_def listed_def reqs_of_def)

lemma handling_with:
  assumes "handling M c h k b p" "\<And>x. ap_heap p c = Some x \<Longrightarrow> (b \<longrightarrow> pc_state x \<noteq> Closed) \<Longrightarrow> ok J (f x)"
  shows "ok J (with_conn c p f)"
  using assms by (auto simp: with_conn_def elim: handlingE)

text \<open>The connection and its requests change, the list does not.\<close>

lemma handling_put:
  assumes "handling M c h k b p" "ap_heap p c = Some x" "ap_heap q = (ap_heap p)(c \<mapsto> y)" "ap_next q = ap_next p" "connections q = connections p"
    and "\<And>i. i \<noteq> c \<Longrightarrow> reqs_of q i = reqs_of p i"
    and "conn_ok M (c \<in> set (connections p)) k' (reqs_of q c) y" "pinned h (reqs_of q c) y" "(pc_state y = Closed) = (pc_state x = Closed)"
    and "closeHandler y = closeHandler x" "h \<longrightarrow> 0 < k'"
  shows "handling M c h k' b q"
proof -
  have g: "good M (connections p) c k p" "listed (connections p) p" "b \<longrightarrow> pc_state x \<noteq> Closed" using assms(1,2) by (auto simp: handling_def)
  then have "good M (connections q) c k' q"
    using good_put [OF g(1) assms(2-4,6), of "connections q"] assms(5,7) good_distinct [OF g(1)] by simp
  moreover have "listed (connections q) q" using listed_put [OF g(2) assms(2,3,9,10)] by (simp only: assms(5))
  ultimately show ?thesis using g(3) assms(3,8,9,11) by (simp add: handling_def)
qed

text \<open>A change that leaves alone what counts.\<close>

definition harmless :: "ProxyConnection \<Rightarrow> ProxyConnection \<Rightarrow> bool" where
  "harmless x y \<longleftrightarrow> refCount y = refCount x \<and> (pc_state y = Closed) = (pc_state x = Closed) \<and> closeHandler y = closeHandler x
     \<and> hinit (relay y) = hinit (relay x) \<and> hdata (relay y) = hdata (relay x) \<and> hclosing (relay y) = hclosing (relay x)
     \<and> hinit (upstream y) = hinit (upstream x) \<and> hdata (upstream y) = hdata (upstream x) \<and> hclosing (upstream y) = hclosing (upstream x)"

lemma harmless_keeps:
  assumes "harmless x y"
  shows "conn_ok M l k rs y = conn_ok M l k rs x" "pinned h rs y = pinned h rs x"
  using assms by (simp_all add: harmless_def conn_ok_def shape_def pinned_def references_def relay_held_def upstream_held_def)

lemma handling_harmless:
  assumes "handling M c h k b p" "\<And>x. (b \<longrightarrow> pc_state x \<noteq> Closed) \<Longrightarrow> harmless x (f x)"
  shows "ok (handling M c h k b) (on_conn c f p)"
proof -
  from assms(1) obtain x where x: "ap_heap p c = Some x" "conn_ok M (c \<in> set (connections p)) k (reqs_of p c) x" "pinned h (reqs_of p c) x"
    "b \<longrightarrow> pc_state x \<noteq> Closed" "h \<longrightarrow> 0 < k" by (auto elim: handlingE)
  from assms(2) [OF x(4)] have y: "harmless x (f x)" .
  have "handling M c h k b (p\<lparr>ap_heap := (ap_heap p)(c \<mapsto> f x)\<rparr>)"
  proof (rule handling_put [OF assms(1) x(1), where y = "f x"])
    show "(pc_state (f x) = Closed) = (pc_state x = Closed)" "closeHandler (f x) = closeHandler x" using x(4) y by (simp_all add: harmless_def)
    show "conn_ok M (c \<in> set (connections p)) k (reqs_of (p\<lparr>ap_heap := (ap_heap p)(c \<mapsto> f x)\<rparr>) c) (f x)"
      "pinned h (reqs_of (p\<lparr>ap_heap := (ap_heap p)(c \<mapsto> f x)\<rparr>) c) (f x)" using x(2,3) by (simp_all add: harmless_keeps [OF y])
  qed (use x(5) in simp_all)
  then show ?thesis by (simp add: on_conn_def with_conn_def x(1))
qed

section \<open>References come and go\<close>

lemma handling_new_request:
  assumes "handling M c h k b p" "k \<le> 2" "maxRequests e \<le> M"
  shows "ok (handling M c h (Suc k) b) (new_request e c p)"
proof (cases "length (requests p) < maxRequests e")
  case True
  from assms(1) obtain x where x: "ap_heap p c = Some x" "conn_ok M (c \<in> set (connections p)) k (reqs_of p c) x" "pinned h (reqs_of p c) x"
    by (auto elim: handlingE)
  have "pending_refs (reqs_of p c) \<le> length (reqs_of p c)" by simp
  also have "\<dots> \<le> length (requests p)" by (simp add: reqs_of_def)
  finally have "pending_refs (reqs_of p c) < M" using True assms(3) by simp
  with x(2) assms(2) have "conn_ok M (c \<in> set (connections p)) (Suc k) (reqs_of p c) (x\<lparr>refCount := refCount x + 1\<rparr>)"
    by (simp add: conn_ok_def shape_def references_def)
  moreover have "pinned h (reqs_of p c) (x\<lparr>refCount := refCount x + 1\<rparr>)"
    using x(3) by (simp add: pinned_def)
  ultimately have "handling M c h (Suc k) b (p\<lparr>ap_heap := (ap_heap p)(c \<mapsto> x\<lparr>refCount := refCount x + 1\<rparr>)\<rparr>)"
    by (intro handling_put [OF assms(1) x(1), where y = "x\<lparr>refCount := refCount x + 1\<rparr>"]) simp_all
  then show ?thesis using True by (simp add: new_request_def pc_ref_def on_conn_def with_conn_def x(1))
qed (simp add: new_request_def)

lemma handling_add:
  assumes "handling M c h (Suc k) b p" "\<not> is_close r" "h \<longrightarrow> 0 < k"
  shows "handling M c h k b (add_request c r p)"
proof -
  from assms(1) obtain x where x: "ap_heap p c = Some x" "conn_ok M (c \<in> set (connections p)) (Suc k) (reqs_of p c) x" "pinned h (reqs_of p c) x"
    by (auto elim: handlingE)
  have r: "r \<noteq> RelayClose" "r \<noteq> UpstreamClose" using assms(2) by (auto simp: is_close_def)
  have c: "conn_ok M (c \<in> set (connections p)) k (reqs_of (add_request c r p) c) x" "pinned h (reqs_of (add_request c r p) c) x"
    using x(2,3) r assms(2) by (simp_all add: conn_ok_def shape_def references_def relay_held_def upstream_held_def pinned_def)
  have "ap_heap (add_request c r p) = (ap_heap p)(c \<mapsto> x)" using x(1) by (simp add: add_request_def fun_upd_idem)
  from handling_put [OF assms(1) x(1) this _ _ _ c] show ?thesis using assms(3) by simp
qed

lemma references_bound:
  assumes "conn_ok M l k rs x" "M < 2 ^ 31"
  shows "references l k rs x < 2 ^ 32"
proof -
  have "references l k rs x \<le> 3 + (pending_refs rs + k)" by (simp add: references_def)
  then show ?thesis using assms by (simp add: conn_ok_def shape_def)
qed

text \<open>Without one of the references the count says whether another one is left; when none is, there are no requests.\<close>

lemma conn_ok_drop:
  assumes "conn_ok M l k rs x" "M < 2 ^ 31" "references l k rs x = Suc (references l' k' rs x)" "k' \<le> k"
  shows "if refCount x - 1 = 0 then references l' k' rs x = 0 else conn_ok M l' k' rs (x\<lparr>refCount := refCount x - 1\<rparr>)"
proof -
  let ?n = "references l' k' rs x"
  have n: "?n < 2 ^ 32" using references_bound [OF assms(1,2)] assms(3) by simp
  have "refCount x - 1 = word_of_nat ?n" using assms(1,3) by (simp add: conn_ok_def)
  moreover have "(word_of_nat ?n :: u32) = 0 \<longleftrightarrow> ?n = 0" using n by (simp add: word_eq_iff_unsigned unat_of_nat flip: unat_eq_0)
  ultimately show ?thesis
    using assms(1,4) by (auto simp: conn_ok_def intro: shape_mono)
qed

lemma no_references:
  assumes "conn_ok M l k rs x" "references l' k' rs x = 0"
  shows "rs = []" "\<not> l'" "k' = 0" "\<not> pinned False rs x"
proof -
  have "pending_refs rs = 0" "\<not> relay_held rs x" "\<not> upstream_held rs x" using assms(2) by (simp_all add: references_def)
  moreover have "RelayClose \<notin> set rs" "UpstreamClose \<notin> set rs"
    using calculation assms(1) by (auto simp: conn_ok_def shape_def relay_held_def upstream_held_def)
  ultimately show "rs = []" by (cases rs) (auto simp: is_close_def split: if_splits)
  show "\<not> l'" "k' = 0" "\<not> pinned False rs x" using assms(2) by (simp_all add: references_def pinned_def)
qed

definition dropped :: "nat \<Rightarrow> ProxyConnection \<Rightarrow> ActiveProxy \<Rightarrow> ActiveProxy \<Rightarrow> bool" where
  "dropped c x p q \<longleftrightarrow> connections q = connections p \<and> requests q = requests p \<and> ap_next q = ap_next p
     \<and> (ap_heap q = (ap_heap p)(c := None) \<and> \<not> pinned False (reqs_of p c) x
        \<or> ap_heap q = (ap_heap p)(c \<mapsto> x\<lparr>refCount := refCount x - 1\<rparr>))"

lemma unref_drops:
  assumes "good M L c k p" "ap_heap p c = Some x" "M < 2 ^ 31" "\<And>i. i \<noteq> c \<Longrightarrow> (i \<in> set L') = (i \<in> set L)" "distinct L'"
    and "references (c \<in> set L) k (reqs_of p c) x = Suc (references (c \<in> set L') k' (reqs_of p c) x)" "k' \<le> k"
  shows "\<exists>q. pc_unref c p = Inr q \<and> good M L' c k' q \<and> dropped c x p q \<and> (ap_heap q c = None \<longrightarrow> k' = 0)"
proof -
  note ok = goodD [OF assms(1,2)]
  note d = conn_ok_drop [OF ok assms(3,6,7)]
  define q where "q = p\<lparr>ap_heap := (ap_heap p)(c := if refCount x - 1 = 0 then None else Some (x\<lparr>refCount := refCount x - 1\<rparr>))\<rparr>"
  have u: "pc_unref c p = Inr q" by (simp add: pc_unref_def with_conn_def assms(2) q_def)
  show ?thesis
  proof (cases "refCount x - 1 = 0")
    case True
    with d have z: "references (c \<in> set L') k' (reqs_of p c) x = 0" by simp
    note n = no_references [OF ok z]
    have h: "ap_heap q = (ap_heap p)(c := None)" using True by (simp add: q_def)
    have "good M L' c k' q"
      by (rule good_change [OF assms(1), where L' = L']) (use h n assms(4,5) in \<open>simp_all add: q_def\<close>)
    then show ?thesis using u h n(3,4) by (intro exI [of _ q]) (simp add: dropped_def q_def)
  next
    case False
    with d have c: "conn_ok M (c \<in> set L') k' (reqs_of p c) (x\<lparr>refCount := refCount x - 1\<rparr>)" by simp
    have h: "ap_heap q = (ap_heap p)(c \<mapsto> x\<lparr>refCount := refCount x - 1\<rparr>)" using False by (simp add: q_def)
    have "good M L' c k' q"
      by (rule good_put [OF assms(1,2) h]) (use c assms(4,5) in \<open>simp_all add: q_def\<close>)
    then show ?thesis using u h by (intro exI [of _ q]) (simp add: dropped_def q_def)
  qed
qed

lemma dropped_keeps:
  assumes "dropped c x p q" "ap_heap p c = Some x"
  shows "listed L p \<Longrightarrow> listed L q" "reqs_of q i = reqs_of p i"
proof -
  show "reqs_of q i = reqs_of p i" using assms(1) by (simp add: dropped_def reqs_of_def)
  assume l: "listed L p"
  from assms(1) have "ap_heap q = (ap_heap p)(c := None) \<or> ap_heap q = (ap_heap p)(c \<mapsto> x\<lparr>refCount := refCount x - 1\<rparr>)"
    by (auto simp: dropped_def)
  then show "listed L q"
  proof
    assume "ap_heap q = (ap_heap p)(c := None)"
    then have "ap_heap p i = Some y" if "ap_heap q i = Some y" for i y using that by (simp split: if_splits)
    then show ?thesis using l unfolding listed_def by blast
  next
    assume "ap_heap q = (ap_heap p)(c \<mapsto> x\<lparr>refCount := refCount x - 1\<rparr>)"
    from listed_put [OF l assms(2) this] show ?thesis by simp
  qed
qed

lemma handling_unref:
  assumes "handling M c h (Suc k) b p" "h \<longrightarrow> 0 < k" "M < 2 ^ 31"
  shows "ok (handling M c h k b) (pc_unref c p)"
proof -
  from assms(1) obtain x where x: "ap_heap p c = Some x" "good M (connections p) c (Suc k) p" "pinned h (reqs_of p c) x"
    "listed (connections p) p" "b \<longrightarrow> pc_state x \<noteq> Closed" by (auto elim: handlingE)
  have "distinct (connections p)" using x(2) by (simp add: good_def)
  from unref_drops [OF x(2,1) assms(3) _ this, of k] obtain q where q: "pc_unref c p = Inr q" "good M (connections p) c k q" "dropped c x p q"
    "ap_heap q c = None \<longrightarrow> k = 0" by (auto simp: references_def)
  have "ap_heap q c = Some (x\<lparr>refCount := refCount x - 1\<rparr>)"
    using q(3,4) x(3) assms(2) by (auto simp: dropped_def pinned_def)
  then have "handling M c h k b q"
    using q(2,3) x(3,4,5) assms(2) dropped_keeps [OF q(3) x(1)] by (simp add: handling_def dropped_def pinned_def)
  then show ?thesis by (simp add: q(1))
qed

text \<open>Between two events no code holds references.\<close>

definition settled :: "nat \<Rightarrow> ActiveProxy \<Rightarrow> bool" where
  "settled M p \<longleftrightarrow> good M (connections p) 0 0 p \<and> listed (connections p) p"

lemma handling_last_unref:
  assumes "handling M c h 1 b p" "M < 2 ^ 31"
  shows "ok (settled M) (pc_unref c p)"
proof -
  from assms(1) obtain x where x: "ap_heap p c = Some x" "good M (connections p) c (Suc 0) p" "listed (connections p) p" by (auto elim: handlingE)
  have "distinct (connections p)" using x(2) by (simp add: good_def)
  from unref_drops [OF x(2,1) assms(2) _ this, of 0] obtain q where q: "pc_unref c p = Inr q" "good M (connections p) c 0 q" "dropped c x p q"
    by (auto simp: references_def)
  then show ?thesis
    using dropped_keeps [OF q(3) x(1)] x(3) good_idle [OF q(2)] by (simp add: settled_def dropped_def)
qed

lemma handling_settled: "handling M c h 0 b p \<Longrightarrow> settled M p"
  using good_idle by (auto simp: handling_def settled_def)

lemma handling_forget: "handling M c h k b p \<Longrightarrow> handling M c h k False p"
  by (auto simp: handling_def)

section \<open>Closing\<close>

text \<open>A step on the connection \<open>c\<close> from \<open>x\<close> to \<open>y\<close> that keeps its references.\<close>

definition tended :: "nat \<Rightarrow> ProxyConnection \<Rightarrow> ActiveProxy \<Rightarrow> ProxyConnection \<Rightarrow> ActiveProxy \<Rightarrow> bool" where
  "tended c x p y q \<longleftrightarrow> ap_heap q = (ap_heap p)(c \<mapsto> y) \<and> connections q = connections p \<and> ap_next q = ap_next p
     \<and> (\<forall>i. i \<noteq> c \<longrightarrow> reqs_of q i = reqs_of p i) \<and> pc_state y = pc_state x \<and> closeHandler y = closeHandler x
     \<and> (\<forall>M l k. conn_ok M l k (reqs_of p c) x \<longrightarrow> conn_ok M l k (reqs_of q c) y)
     \<and> (\<forall>h. pinned h (reqs_of p c) x \<longrightarrow> pinned h (reqs_of q c) y)"

lemma tended_refl: "ap_heap p c = Some x \<Longrightarrow> tended c x p x p"
  by (simp add: tended_def fun_upd_idem)

lemma tended_trans: "tended c x p y q \<Longrightarrow> tended c y q z r \<Longrightarrow> tended c x p z r"
  by (simp add: tended_def)

lemma tended_harmless:
  "ap_heap p c = Some x \<Longrightarrow> harmless x y \<Longrightarrow> pc_state y = pc_state x \<Longrightarrow> tended c x p y (p\<lparr>ap_heap := (ap_heap p)(c \<mapsto> y)\<rparr>)"
  by (simp add: tended_def harmless_keeps) (simp add: harmless_def)

lemma tended_close_upstream:
  assumes "ap_heap p c = Some x" "hdata (upstream x)" "\<not> hclosing (upstream x)"
  shows "\<exists>y q. close_upstream_handle c p = Inr q \<and> tended c x p y q \<and> relay y = relay x"
proof -
  let ?y = "x\<lparr>upstream := (upstream x)\<lparr>hclosing := True, hreading := False\<rparr>\<rparr>"
  let ?q = "add_request c UpstreamClose (p\<lparr>ap_heap := (ap_heap p)(c \<mapsto> ?y)\<rparr>)"
  have "conn_ok M l k (rs @ [UpstreamClose]) ?y" if "conn_ok M l k rs x" for M l k rs
    using that assms(2,3) by (auto simp: conn_ok_def shape_def references_def relay_held_def upstream_held_def is_close_def count_list_0_iff)
  moreover have "pinned h (rs @ [UpstreamClose]) ?y" if "pinned h rs x" for h rs
    using that assms(2) by (auto simp: pinned_def relay_held_def upstream_held_def)
  ultimately have "tended c x p ?y ?q" by (simp add: tended_def)
  then show ?thesis by (intro exI [of _ ?y] exI [of _ ?q]) (simp add: close_upstream_handle_def on_conn_def with_conn_def assms(1) next_step_def)
qed

lemma tended_close_relay:
  assumes "ap_heap p c = Some x" "hdata (relay x)" "\<not> hclosing (relay x)"
  shows "\<exists>y q. close_relay_handle c p = Inr q \<and> tended c x p y q"
proof -
  let ?y = "x\<lparr>relay := (relay x)\<lparr>hclosing := True, hreading := False\<rparr>\<rparr>"
  let ?q = "add_request c RelayClose (p\<lparr>ap_heap := (ap_heap p)(c \<mapsto> ?y)\<rparr>)"
  have "conn_ok M l k (rs @ [RelayClose]) ?y" if "conn_ok M l k rs x" for M l k rs
    using that assms(2,3) by (auto simp: conn_ok_def shape_def references_def relay_held_def upstream_held_def is_close_def count_list_0_iff)
  moreover have "pinned h (rs @ [RelayClose]) ?y" if "pinned h rs x" for h rs
    using that assms(2) by (auto simp: pinned_def relay_held_def upstream_held_def)
  ultimately have "tended c x p ?y ?q" by (simp add: tended_def)
  then show ?thesis by (intro exI [of _ ?y] exI [of _ ?q]) (simp add: close_relay_handle_def on_conn_def with_conn_def assms(1) next_step_def)
qed

lemma tended_heap: "tended c x p y q \<Longrightarrow> ap_heap q c = Some y"
  by (simp add: tended_def)

lemma tended_close_handles:
  assumes "ap_heap p c = Some x"
  shows "\<exists>y q. close_handles c p = Inr q \<and> tended c x p y q"
proof -
  define f where "f = with_conn c p (\<lambda>x. do_if (hdata (upstream x)) (\<lambda>p.
      next_step (stop_upstream c p) (do_if (\<not> hclosing (upstream x)) (close_upstream_handle c))) p)"
  have "\<exists>y q. f = Inr q \<and> tended c x p y q"
  proof (cases "hdata (upstream x)")
    case True
    let ?y = "x\<lparr>upstream := (upstream x)\<lparr>hreading := False\<rparr>\<rparr>" and ?q = "p\<lparr>ap_heap := (ap_heap p)(c \<mapsto> x\<lparr>upstream := (upstream x)\<lparr>hreading := False\<rparr>\<rparr>)\<rparr>"
    have t: "tended c x p ?y ?q" by (rule tended_harmless [OF assms]) (simp_all add: harmless_def)
    have f: "f = do_if (\<not> hclosing (upstream x)) (close_upstream_handle c) ?q"
      using True by (simp add: f_def with_conn_def assms do_if_def stop_upstream_def on_conn_def next_step_def)
    show ?thesis
    proof (cases "hclosing (upstream x)")
      case False
      from tended_close_upstream [OF tended_heap [OF t]] True False obtain z r where "close_upstream_handle c ?q = Inr r" "tended c ?y ?q z r" by auto
      then show ?thesis using tended_trans [OF t] False f by (auto simp: do_if_def)
    qed (use t f in \<open>auto simp: do_if_def\<close>)
  qed (use tended_refl [OF assms] assms in \<open>auto simp: f_def with_conn_def do_if_def\<close>)
  then obtain y q where y: "f = Inr q" "tended c x p y q" by blast
  note h = tended_heap [OF y(2)]
  define g where "g = do_if (hdata (relay y)) (\<lambda>p. next_step (stop_relay c p) (do_if (\<not> hclosing (relay y)) (close_relay_handle c))) q"
  have "\<exists>z r. g = Inr r \<and> tended c y q z r"
  proof (cases "hdata (relay y)")
    case True
    let ?y = "y\<lparr>relay := (relay y)\<lparr>hreading := False\<rparr>\<rparr>" and ?q = "q\<lparr>ap_heap := (ap_heap q)(c \<mapsto> y\<lparr>relay := (relay y)\<lparr>hreading := False\<rparr>\<rparr>)\<rparr>"
    have t: "tended c y q ?y ?q" by (rule tended_harmless [OF h]) (simp_all add: harmless_def)
    have g: "g = do_if (\<not> hclosing (relay y)) (close_relay_handle c) ?q"
      using True by (simp add: g_def with_conn_def h do_if_def stop_relay_def on_conn_def next_step_def)
    show ?thesis
    proof (cases "hclosing (relay y)")
      case False
      from tended_close_relay [OF tended_heap [OF t]] True False obtain z r where "close_relay_handle c ?q = Inr r" "tended c ?y ?q z r" by auto
      then show ?thesis using tended_trans [OF t] False g by (auto simp: do_if_def)
    qed (use t g in \<open>auto simp: do_if_def\<close>)
  qed (use tended_refl [OF h] in \<open>auto simp: g_def do_if_def\<close>)
  moreover have "close_handles c p = g"
    by (simp add: close_handles_def f_def [symmetric] y(1)) (simp add: next_step_def with_conn_def h g_def)
  ultimately show ?thesis using tended_trans [OF y(2)] by auto
qed

lemma good_tended: "good M L c k p \<Longrightarrow> ap_heap p c = Some x \<Longrightarrow> tended c x p y q \<Longrightarrow> good M L c k q"
  using goodD [of M L c k p x] good_put [of M L c k p x q y L k] good_distinct [of M L c k p] by (auto simp: tended_def)

lemma memory_handlers:
  "onOpenFailed p = Inl OutOfBounds \<or> (\<exists>q. onOpenFailed p = Inr q \<and> same_memory p q)" "\<exists>q. onIdle e p = Inr q \<and> same_memory p q"
  "\<exists>q. onBusy p = Inr q \<and> same_memory p q" "\<exists>q. onOpened p = Inr q \<and> same_memory p q"
  by (auto simp: onOpenFailed_def onIdle_def onBusy_def onOpened_def Let_def same_memory_def)

lemma tended_same: "tended c x p y q \<Longrightarrow> same_memory q r \<Longrightarrow> tended c x p y r"
  by (simp add: tended_def same_memory_def reqs_of_def)

text \<open>Closing up to the handler for the end.\<close>

lemma close_until_handler:
  assumes "ap_heap p c = Some x" "pc_state x \<noteq> Closed"
  shows "pc_close e c p = Inl OutOfBounds
    \<or> (\<exists>y q. pc_close e c p = onClosed c q \<and> tended c (x\<lparr>pc_state := Closed\<rparr>) (p\<lparr>ap_heap := (ap_heap p)(c \<mapsto> x\<lparr>pc_state := Closed\<rparr>)\<rparr>) y q)"
proof -
  let ?x = "x\<lparr>pc_state := Closed\<rparr>" and ?p = "p\<lparr>ap_heap := (ap_heap p)(c \<mapsto> x\<lparr>pc_state := Closed\<rparr>)\<rparr>"
  define f where "f = do_if (pc_state x = Initializing \<or> pc_state x = Authenticating \<or> pc_state x = Attaching) onOpenFailed ?p"
  have s: "set_state c Closed p = Inr ?p" by (simp add: set_state_def on_conn_def with_conn_def assms(1))
  have e: "pc_close e c p = next_step f (\<lambda>p. next_step (do_if (pc_state x = Relaying) (onIdle e) p) (\<lambda>p. next_step (close_handles c p) (onClosed c)))"
    using assms(2) s by (simp add: pc_close_def Let_def with_conn_def assms(1) f_def next_step_def [of "Inr _"])
  have "f = Inl OutOfBounds \<or> (\<exists>q. f = Inr q \<and> same_memory ?p q)"
    using memory_handlers(1) [of ?p] by (auto simp: f_def do_if_def same_memory_def)
  then show ?thesis
  proof
    assume "\<exists>q. f = Inr q \<and> same_memory ?p q"
    then obtain q1 where q1: "f = Inr q1" "same_memory ?p q1" by blast
    obtain q2 where q2: "do_if (pc_state x = Relaying) (onIdle e) q1 = Inr q2" "same_memory q1 q2"
      using memory_handlers(2) [of e q1] by (cases "pc_state x = Relaying") (auto simp: do_if_def same_memory_def)
    have m: "same_memory ?p q2" using q1(2) q2(2) by (simp add: same_memory_def)
    then have h: "ap_heap q2 c = Some ?x" by (simp add: same_memory_def)
    from tended_close_handles [OF this] obtain y q where y: "close_handles c q2 = Inr q" "tended c ?x q2 y q" by blast
    have "tended c ?x ?p y q" using tended_trans [OF tended_same [OF tended_refl [of ?p c ?x] m] y(2)] by simp
    then show ?thesis using e q1(1) q2(1) y(1) by (auto simp: next_step_def)
  qed (simp add: e next_step_def)
qed

lemma closed_good:
  assumes "good M L c k p" "ap_heap p c = Some x"
    and "tended c (x\<lparr>pc_state := Closed\<rparr>) (p\<lparr>ap_heap := (ap_heap p)(c \<mapsto> x\<lparr>pc_state := Closed\<rparr>)\<rparr>) y q"
  shows "good M L c k q" "ap_heap q = (ap_heap p)(c \<mapsto> y)" "pc_state y = Closed" "closeHandler y = closeHandler x" "connections q = connections p"
    "pinned h (reqs_of p c) x \<Longrightarrow> pinned h (reqs_of q c) y"
proof -
  have "conn_ok M (c \<in> set L) k (reqs_of p c) (x\<lparr>pc_state := Closed\<rparr>)"
    using goodD [OF assms(1,2)] by (simp add: conn_ok_def shape_def references_def relay_held_def upstream_held_def)
  then have "good M L c k (p\<lparr>ap_heap := (ap_heap p)(c \<mapsto> x\<lparr>pc_state := Closed\<rparr>)\<rparr>)"
    using good_put [OF assms(1,2), of "p\<lparr>ap_heap := (ap_heap p)(c \<mapsto> x\<lparr>pc_state := Closed\<rparr>)\<rparr>" "x\<lparr>pc_state := Closed\<rparr>" L k] assms(1)
    by (simp add: good_def)
  from good_tended [OF this _ assms(3)] show "good M L c k q" by simp
  show "ap_heap q = (ap_heap p)(c \<mapsto> y)" "pc_state y = Closed" "closeHandler y = closeHandler x" "connections q = connections p"
    using assms(3) by (simp_all add: tended_def)
  have "pinned h (reqs_of p c) (x\<lparr>pc_state := Closed\<rparr>) = pinned h (reqs_of p c) x" by (simp add: pinned_def relay_held_def upstream_held_def)
  then show "pinned h (reqs_of p c) x \<Longrightarrow> pinned h (reqs_of q c) y" using assms(3) by (simp add: tended_def)
qed

lemma listed_close:
  assumes "listed L p" "distinct L" "ap_heap q = (ap_heap p)(c := v)" "\<And>y. v = Some y \<Longrightarrow> pc_state y = Closed"
  shows "listed (remove1 c L) q"
  unfolding listed_def
proof (intro allI impI)
  fix i z
  assume z: "ap_heap q i = Some z"
  show "(i \<in> set (remove1 c L)) = (pc_state z \<noteq> Closed) \<and> (i \<in> set (remove1 c L) \<longrightarrow> closeHandler z)"
  proof (cases "i = c")
    case True
    then show ?thesis using z assms(2-4) by simp
  next
    case False
    then have "ap_heap p i = Some z" using z assms(3) by simp
    from listedD [OF assms(1) this] have "(i \<in> set L) = (pc_state z \<noteq> Closed) \<and> (i \<in> set L \<longrightarrow> closeHandler z)" .
    with False assms(2) show ?thesis by simp
  qed
qed

text \<open>A connection of the list that is closed leaves the list, which gives its reference back.\<close>

lemma close_listed:
  assumes "good M (connections p) c k p" "listed (connections p) p" "ap_heap p c = Some x" "M < 2 ^ 31"
  shows "ok (\<lambda>q. good M (connections q) c k q \<and> listed (connections q) q
    \<and> (0 < k \<or> pinned False (reqs_of p c) x \<longrightarrow> (\<exists>y. ap_heap q c = Some y \<and> (\<forall>h. pinned h (reqs_of p c) x \<longrightarrow> pinned h (reqs_of q c) y)))) (pc_close e c p)"
proof (cases "pc_state x = Closed")
  case True
  then have "pc_close e c p = Inr p" by (simp add: pc_close_def with_conn_def assms(3) Let_def)
  then show ?thesis using assms(1-3) by simp
next
  case False
  then have l: "c \<in> set (connections p)" "closeHandler x" using listedD [OF assms(2,3)] by simp_all
  have ds: "distinct (connections p)" using assms(1) by (simp add: good_def)
  from close_until_handler [OF assms(3) False, of e] show ?thesis
  proof (elim disjE exE conjE)
    fix y q
    assume q: "pc_close e c p = onClosed c q" "tended c (x\<lparr>pc_state := Closed\<rparr>) (p\<lparr>ap_heap := (ap_heap p)(c \<mapsto> x\<lparr>pc_state := Closed\<rparr>)\<rparr>) y q"
    note g = closed_good [OF assms(1,3) q(2)]
    define q1 where "q1 = q\<lparr>connections := remove1 c (connections q)\<rparr>"
    have h: "ap_heap q1 c = Some y" by (simp add: q1_def g(2))
    have "good M (connections p) c k q1" using g(1) unfolding q1_def by (simp add: good_def)
    moreover have "references (c \<in> set (connections p)) k (reqs_of q1 c) y = Suc (references (c \<in> set (remove1 c (connections p))) k (reqs_of q1 c) y)"
      using l(1) ds by (simp add: references_def)
    ultimately obtain r where r: "pc_unref c q1 = Inr r" "good M (remove1 c (connections p)) c k r" "dropped c y q1 r" "ap_heap r c = None \<longrightarrow> k = 0"
      using unref_drops [of M "connections p" c k q1 y "remove1 c (connections p)" k] h assms(4) ds by (auto simp: in_set_remove1)
    have c: "connections r = remove1 c (connections p)" using r(3) by (simp add: dropped_def q1_def g(5))
    from r(3) have "\<exists>v. ap_heap r = (ap_heap p)(c := v) \<and> (\<forall>y. v = Some y \<longrightarrow> pc_state y = Closed)"
      by (auto simp: dropped_def q1_def g(2,3))
    then have "listed (connections r) r" unfolding c using listed_close [OF assms(2) ds] by blast
    moreover have "\<exists>z. ap_heap r c = Some z \<and> (\<forall>h. pinned h (reqs_of p c) x \<longrightarrow> pinned h (reqs_of r c) z)" if "0 < k \<or> pinned False (reqs_of p c) x"
    proof -
      have n: "ap_heap r c \<noteq> None" using r(3,4) that g(6) [of False] by (auto simp: dropped_def q1_def)
      then have "ap_heap r c = Some (y\<lparr>refCount := refCount y - 1\<rparr>)" using r(3) by (auto simp: dropped_def)
      then show ?thesis using dropped_keeps(2) [OF r(3) h] g(6) by (simp add: pinned_def q1_def)
    qed
    moreover have "pc_close e c p = Inr r" using q(1) r(1) g(2,4) l(2) by (simp add: onClosed_def with_conn_def q1_def)
    ultimately show ?thesis using r(2) c by simp
  qed simp
qed

lemma handling_close:
  assumes "handling M c h k b p" "M < 2 ^ 31"
  shows "ok (handling M c h k False) (pc_close e c p)"
proof -
  from assms(1) obtain x where x: "ap_heap p c = Some x" "good M (connections p) c k p" "listed (connections p) p" "pinned h (reqs_of p c) x" "h \<longrightarrow> 0 < k"
    by (auto elim: handlingE)
  have "0 < k \<or> pinned False (reqs_of p c) x" using x(4,5) by (auto simp: pinned_def)
  with x(4,5) show ?thesis by (intro ok_weaken [OF close_listed [OF x(2,3,1) assms(2), of e]]) (auto simp: handling_def)
qed

end
