(* ===== verification/Proxy_Safety.thy ===== *)
theory Proxy_Safety
  imports Proxy_Memory
begin

text \<open>
  No use after free: as long as libuv accepts writes to the server, and no upstream connect is cancelled because its
  connection was closed, every event keeps the reference counts right. The proofs follow the code: each
  operation keeps \<open>handling\<close>, the state of the memory while a connection is handled.
\<close>

section \<open>Operations of a connection\<close>

definition env_ok :: "nat \<Rightarrow> ProxyEnv \<Rightarrow> bool" where
  "env_ok M e \<longleftrightarrow> M < 2 ^ 30 \<and> maxRequests e \<le> M \<and> (\<forall>n. 0 \<le> uv e WriteRelay n)"

lemma handling_call:
  assumes "handling M c h k b p" "\<And>q. handling M c h k b q \<Longrightarrow> ok J (f (uv e t (uvCalls p)) q)"
  shows "ok J (uv_call e t f p)"
  using assms handling_same [of p "p\<lparr>uvCalls := uvCalls p + 1\<rparr>"] by (simp add: uv_call_def same_memory_def)

lemma handling_draw:
  assumes "handling M c h k b p" "\<And>y q. handling M c h k b q \<Longrightarrow> ok J (f y q)"
  shows "ok J (draw g f p)"
  using assms handling_same [of p "p\<lparr>draws := draws p + 1\<rparr>"] by (simp add: draw_def same_memory_def)

lemma handling_emit: "handling M c h k b (emit_effect x p) = handling M c h k b p"
  by (rule handling_same) (simp add: same_memory_def emit_effect_def)

lemma handling_idle: "handling M c h k b p \<Longrightarrow> ok (handling M c h k b) (onIdle e p)" "handling M c h k b p \<Longrightarrow> ok (handling M c h k b) (onBusy p)"
  "handling M c h k b p \<Longrightarrow> ok (handling M c h k b) (onOpened p)"
  using memory_handlers(2) [of e p] memory_handlers(3,4) [of p] handling_same by auto

lemma handling_tended:
  assumes "handling M c h k b p" "ap_heap p c = Some x" "tended c x p y q"
  shows "handling M c h k b q"
proof -
  from assms(1,2) have "conn_ok M (c \<in> set (connections p)) k (reqs_of p c) x" "pinned h (reqs_of p c) x" "h \<longrightarrow> 0 < k"
    by (auto elim: handlingE)
  with assms(3) show ?thesis by (intro handling_put [OF assms(1,2), of q y]) (simp_all add: tended_def)
qed

lemma handling_change:
  assumes "handling M c h k b p" "ap_heap p c = Some x" "harmless x (f x)"
  shows "ok (handling M c h k b) (on_conn c f p)"
proof -
  have "conn_ok M (c \<in> set (connections p)) k (reqs_of p c) x" "pinned h (reqs_of p c) x" "h \<longrightarrow> 0 < k"
    using assms(1,2) by (auto elim: handlingE)
  then have "handling M c h k b (p\<lparr>ap_heap := (ap_heap p)(c \<mapsto> f x)\<rparr>)"
    using harmless_keeps [OF assms(3)] assms(3) by (intro handling_put [OF assms(1,2), where y = "f x"]) (simp_all add: harmless_def)
  then show ?thesis by (simp add: on_conn_def with_conn_def assms(2))
qed

lemma handling_state:
  assumes "handling M c h k True p" "s \<noteq> Closed"
  shows "ok (handling M c h k True) (set_state c s p)"
  unfolding set_state_def by (rule handling_harmless [OF assms(1)]) (use assms(2) in \<open>simp add: harmless_def\<close>)

lemma handling_live: "handling M c h k b p \<Longrightarrow> ap_heap p c = Some x \<Longrightarrow> pc_state x \<noteq> Closed \<Longrightarrow> handling M c h k True p"
  by (auto simp: handling_def)

lemma handling_with_live:
  assumes "handling M c h k b p" "\<And>x. ap_heap p c = Some x \<Longrightarrow> pc_state x = Closed \<Longrightarrow> ok J (f x)"
    and "\<And>x. ap_heap p c = Some x \<Longrightarrow> pc_state x \<noteq> Closed \<Longrightarrow> handling M c h k True p \<Longrightarrow> ok J (f x)"
  shows "ok J (with_conn c p f)"
proof -
  from assms(1) obtain x where x: "ap_heap p c = Some x" by (auto elim: handlingE)
  then show ?thesis using assms handling_live [OF assms(1) x] by (cases "pc_state x = Closed") (simp_all add: with_conn_def)
qed

lemma ok_bind: "ok I r \<Longrightarrow> (\<And>p. I p \<Longrightarrow> ok I (f p)) \<Longrightarrow> ok I (next_step r f)"
  by (rule ok_next)

lemma handling_base: "handling M c h k b p \<Longrightarrow> h \<longrightarrow> 0 < k"
  by (simp add: handling_def)

text \<open>A request is made, and libuv accepts it or not.\<close>

lemma request_ok:
  assumes "handling M c h k b p" "k \<le> 2" "env_ok M e"
    and "\<And>p. handling M c h (Suc k) b p \<Longrightarrow> ok (handling M c h k b) (f p)"
  shows "ok (handling M c h k b) (next_step (new_request e c p) f)"
  by (rule ok_next [OF handling_new_request [OF assms(1,2)]]) (use assms(3,4) in \<open>simp_all add: env_ok_def\<close>)

lemma sendRelayPacket_ok:
  assumes "handling M c h k b p" "k \<le> 2" "env_ok M e"
  shows "ok (handling M c h k b) (sendRelayPacket e c t payload w p)"
proof -
  have r: "\<not> uv e WriteRelay n < 0" for n using assms(3) by (simp add: env_ok_def not_less)
  have "ok (handling M c h k b) (uv_call e WriteRelay (\<lambda>rc p. if rc < 0 then next_step (pc_unref c p) (pc_close e c)
      else Inr (emit_effect x (add_request c (RelayWrite t w) p))) q)" if "handling M c h (Suc k) b q" for q x
    by (rule handling_call [OF that])
      (simp add: r handling_emit handling_add is_close_def handling_base [OF assms(1)])
  then show ?thesis
    unfolding sendRelayPacket_def
    by (intro handling_with [OF assms(1)]) (auto simp: assms(1) intro!: handling_draw [OF assms(1)] request_ok [OF _ assms(2,3)] elim!: handling_draw)
qed

lemma send_ok:
  assumes "handling M c h k b p" "k \<le> 2" "env_ok M e"
  shows "ok (handling M c h k b) (sendPingRequest e c p)" "ok (handling M c h k b) (sendConnectResponse e c s p)"
    "ok (handling M c h k b) (sendDisconnectRequest e c p)" "ok (handling M c h k b) (sendDisconnectResponse e c p)"
    "ok (handling M c h k b) (sendDataRequest e c d p)"
  unfolding sendPingRequest_def sendConnectResponse_def sendDisconnectRequest_def sendDisconnectResponse_def sendDataRequest_def
  using assms
  by (auto intro!: sendRelayPacket_ok handling_draw [OF assms(1)] handling_with [OF assms(1)] ok_throw ok_next [OF sendRelayPacket_ok [OF assms]]
      handling_draw ok_if handling_harmless simp: harmless_def)

lemma authenticate_ok:
  assumes "handling M c h k b p" "k \<le> 2" "env_ok M e"
  shows "ok (handling M c h k False) (sendAuthenticateRequest e c sig p)" "ok (handling M c h k False) (sendAttachRequest e c sig p)"
proof -
  have n: "ok (handling M c h k True) (on_conn c (\<lambda>x. x\<lparr>pc_nonce := nonce\<rparr>) q)" if "handling M c h k True q" for q nonce
    by (rule handling_harmless [OF that]) (simp add: harmless_def)
  have send: "ok (handling M c h k False) (sendRelayPacket e c t b w q)" if "handling M c h k True q" for t b w q
    by (rule ok_weaken [OF sendRelayPacket_ok [OF that assms(2,3)]]) (rule handling_forget)
  show "ok (handling M c h k False) (sendAuthenticateRequest e c sig p)" "ok (handling M c h k False) (sendAttachRequest e c sig p)"
    unfolding sendAuthenticateRequest_def sendAttachRequest_def Let_def
    by (rule handling_with_live [OF assms(1)];
        auto intro!: ok_next [OF handling_state] ok_next [OF n] ok_throw send elim!: handling_draw simp: handling_forget [OF assms(1)])+
qed

section \<open>The upstream\<close>

lemma closeUpstream2_ok:
  assumes "handling M c h k b p"
  shows "ok (handling M c h k b) (closeUpstream2 c p)"
  unfolding closeUpstream2_def
proof (rule handling_with [OF assms])
  fix x
  assume x: "ap_heap p c = Some x"
  let ?p = "p\<lparr>ap_heap := (ap_heap p)(c \<mapsto> x\<lparr>upstreamClosed := True\<rparr>)\<rparr>"
  have o: "on_conn c (\<lambda>x. x\<lparr>upstreamClosed := True\<rparr>) p = Inr ?p" by (simp add: on_conn_def with_conn_def x)
  have "ok (handling M c h k b) (on_conn c (\<lambda>x. x\<lparr>upstreamClosed := True\<rparr>) p)" by (rule handling_harmless [OF assms]) (simp add: harmless_def)
  then have h: "handling M c h k b ?p" by (simp add: o)
  have "ok (handling M c h k b) (do_if (hdata (upstream x) \<and> \<not> hclosing (upstream x)) (close_upstream_handle c) ?p)"
    using tended_close_upstream [of ?p c "x\<lparr>upstreamClosed := True\<rparr>"] handling_tended [OF h] h by (auto simp: do_if_def)
  then show "ok (handling M c h k b) (if pc_state x = Closed \<or> pc_state x = Idling \<or> upstreamClosed x then Inr p
      else next_step (on_conn c (\<lambda>x. x\<lparr>upstreamClosed := True\<rparr>) p) (do_if (hdata (upstream x) \<and> \<not> hclosing (upstream x)) (close_upstream_handle c)))"
    using assms by (simp add: o next_step_def)
qed

lemma closeUpstream_ok:
  assumes "handling M c h k b p" "k \<le> 2" "env_ok M e"
  shows "ok (handling M c h k b) (closeUpstream e c p)"
  unfolding closeUpstream_def
proof (rule handling_with [OF assms(1)])
  fix x
  assume x: "ap_heap p c = Some x"
  have M: "M < 2 ^ 31" using assms(3) by (simp add: env_ok_def)
  have stop: "ok (handling M c h k b) (stop_upstream c q)" if "handling M c h k b q" for q
    unfolding stop_upstream_def by (rule handling_harmless [OF that]) (simp add: harmless_def)
  have req: "ok (handling M c h k b) (uv_call e Shutdown (\<lambda>rc p. if rc < 0 then next_step (closeUpstream2 c p) (pc_unref c)
      else Inr (add_request c UpstreamShutdown p)) q)" if "handling M c h (Suc k) b q" for q
    by (rule handling_call [OF that])
      (auto intro!: ok_next [OF closeUpstream2_ok] handling_unref [OF _ _ M] handling_add simp: is_close_def handling_base [OF assms(1)])
  have "ok (handling M c h k b) (next_step (on_conn c (\<lambda>x. x\<lparr>upstreamClosed := True, pc_state := Disconnecting\<rparr>) p) (\<lambda>p.
      next_step (sendDisconnectRequest e c p) (\<lambda>p. next_step (stop_upstream c p) (\<lambda>p. next_step (new_request e c p)
        (uv_call e Shutdown (\<lambda>rc p. if rc < 0 then next_step (closeUpstream2 c p) (pc_unref c) else Inr (add_request c UpstreamShutdown p)))))))"
    if "pc_state x \<noteq> Closed"
    by (rule ok_next [OF handling_change [OF assms(1) x]])
      (use that in \<open>auto simp: harmless_def intro!: ok_next [OF send_ok(3) [OF _ assms(2,3)]] ok_next [OF stop] request_ok [OF _ assms(2,3)] req\<close>)
  then show "ok (handling M c h k b) (if pc_state x = Closed \<or> pc_state x = Idling \<or> upstreamClosed x then Inr p
      else next_step (on_conn c (\<lambda>x. x\<lparr>upstreamClosed := True, pc_state := Disconnecting\<rparr>) p) (\<lambda>p.
        next_step (sendDisconnectRequest e c p) (\<lambda>p. next_step (stop_upstream c p) (\<lambda>p. next_step (new_request e c p)
          (uv_call e Shutdown (\<lambda>rc p. if rc < 0 then next_step (closeUpstream2 c p) (pc_unref c) else Inr (add_request c UpstreamShutdown p)))))))"
    using assms(1) by simp
qed

lemma startReadUpstream_ok:
  assumes "handling M c h k b p" "k \<le> 2" "env_ok M e"
  shows "ok (handling M c h k b) (startReadUpstream e c p)"
  unfolding startReadUpstream_def
  by (rule handling_call [OF assms(1)]) (auto intro!: closeUpstream_ok [OF _ assms(2,3)] handling_harmless simp: harmless_def)

text \<open>The handle of a new upstream connection holds a reference.\<close>

lemma handling_open:
  assumes "handling M c h k b p" "ap_heap p c = Some x" "\<not> hinit (upstream x)"
  shows "ok (handling M c h k b) (on_conn c (\<lambda>x. x\<lparr>upstream := \<lparr>hinit = True, hdata = True, hclosing = False, hreading = False\<rparr>,
      refCount := refCount x + 1, upstreamClosed := False\<rparr>) p)"
proof -
  let ?y = "x\<lparr>upstream := \<lparr>hinit = True, hdata = True, hclosing = False, hreading = False\<rparr>, refCount := refCount x + 1, upstreamClosed := False\<rparr>"
  from assms(1,2) have x: "conn_ok M (c \<in> set (connections p)) k (reqs_of p c) x" "pinned h (reqs_of p c) x" "h \<longrightarrow> 0 < k"
    by (auto elim: handlingE)
  have "conn_ok M (c \<in> set (connections p)) k (reqs_of p c) ?y" "pinned h (reqs_of p c) ?y"
    using x(1,2) assms(3) by (auto simp: conn_ok_def shape_def references_def relay_held_def upstream_held_def pinned_def)
  then have "handling M c h k b (p\<lparr>ap_heap := (ap_heap p)(c \<mapsto> ?y)\<rparr>)"
    using x(3) by (intro handling_put [OF assms(1,2), where y = ?y]) simp_all
  then show ?thesis by (simp add: on_conn_def with_conn_def assms(2))
qed

lemma openUpstream_ok:
  assumes "handling M c h k True p" "k \<le> 1" "env_ok M e"
  shows "ok (handling M c h k True) (openUpstream e c p)"
  unfolding openUpstream_def
proof (rule handling_with [OF assms(1)])
  fix x
  assume x: "ap_heap p c = Some x"
  have M: "M < 2 ^ 31" using assms(3) by (simp add: env_ok_def)
  have k: "k \<le> 2" "Suc k \<le> 2" using assms(2) by simp_all
  have req: "ok (handling M c h k True) (uv_call e TcpConnect (\<lambda>rc p. if rc < 0 then
        next_step (closeUpstream2 c p) (\<lambda>p. next_step (set_state c Idling p) (\<lambda>p. next_step (onIdle e p) (\<lambda>p.
        next_step (sendConnectResponse e c False p) (pc_unref c)))) else Inr (add_request c UpstreamConnect p)) q)"
    if "handling M c h (Suc k) True q" for q
    by (rule handling_call [OF that])
      (auto intro!: ok_next [OF closeUpstream2_ok] ok_next [OF handling_state] ok_next [OF handling_idle(1)] ok_next [OF send_ok(2) [OF _ k(2) assms(3)]]
         handling_unref [OF _ _ M] handling_add simp: is_close_def handling_base [OF assms(1)])
  have bad: "ok J (next_step (sendConnectResponse e c False q) (\<lambda>p. next_step (set_state c Idling p) (\<lambda>p. next_step (onIdle e p) (\<lambda>p. Inl BadHandle))))"
    if "handling M c h k True q" for q J
    by (auto intro!: ok_next [OF send_ok(2) [OF that k(1) assms(3)]] ok_next [OF handling_state] ok_next [OF handling_idle(1)])
  show "ok (handling M c h k True) (if hinit (upstream x) then Inl BadHandle
      else uv_call e TcpInit (\<lambda>rc p. if rc < 0 then
          next_step (sendConnectResponse e c False p) (\<lambda>p. next_step (set_state c Idling p) (\<lambda>p. next_step (onIdle e p) (\<lambda>p. Inl BadHandle)))
        else next_step (on_conn c (\<lambda>x. x\<lparr>upstream := \<lparr>hinit = True, hdata = True, hclosing = False, hreading = False\<rparr>,
                refCount := refCount x + 1, upstreamClosed := False\<rparr>) p) (\<lambda>p.
          next_step (new_request e c p) (uv_call e TcpConnect (\<lambda>rc p. if rc < 0 then
            next_step (closeUpstream2 c p) (\<lambda>p. next_step (set_state c Idling p) (\<lambda>p. next_step (onIdle e p) (\<lambda>p.
            next_step (sendConnectResponse e c False p) (pc_unref c)))) else Inr (add_request c UpstreamConnect p))))) p)"
  proof (cases "hinit (upstream x)")
    case False
    have "handling M c h k True (p\<lparr>uvCalls := uvCalls p + 1\<rparr>)" using handling_same [of p "p\<lparr>uvCalls := uvCalls p + 1\<rparr>"] assms(1) by (simp add: same_memory_def)
    then show ?thesis
      using False x bad [of "p\<lparr>uvCalls := uvCalls p + 1\<rparr>"]
      by (auto simp: uv_call_def [of e TcpInit] intro!: ok_next [OF handling_open] request_ok [OF _ k(1) assms(3)] req)
  qed simp
qed

section \<open>Packets\<close>

lemma onAuthorized_ok: "handling M c h k b p \<Longrightarrow> ok (handling M c h k b) (onAuthorized e pk port d p)"
proof -
  assume p: "handling M c h k b p"
  have "handling M c h k b q" if "same_memory p q" for q using p that by (simp add: handling_same)
  then show ?thesis unfolding onAuthorized_def Let_def by (auto intro!: ok_throw simp: same_memory_def split: option.split)
qed

lemma confirm_ok:
  assumes "handling M c h k True p"
  shows "ok (handling M c h k True) (confirm_disconnect e c p)"
  unfolding confirm_disconnect_def
  by (rule handling_with [OF assms]) (auto intro!: ok_next [OF handling_harmless [OF assms]] handling_harmless [OF assms] handling_idle simp: harmless_def)

lemma onDisconnectRequest_ok:
  assumes "handling M c h k True p" "k \<le> 2" "env_ok M e"
  shows "ok (handling M c h k True) (onDisconnectRequest e c p)"
  unfolding onDisconnectRequest_def
  by (intro ok_next [OF closeUpstream_ok [OF assms]] ok_next [OF send_ok(4) [OF _ assms(2,3)]] confirm_ok)

lemma onDataRequest_ok:
  assumes "handling M c h k True p" "k \<le> 1" "env_ok M e"
  shows "ok (handling M c h k True) (onDataRequest e c pkt p)"
proof -
  have M: "M < 2 ^ 31" using assms(3) by (simp add: env_ok_def)
  have k: "k \<le> 2" "Suc k \<le> 2" using assms(2) by simp_all
  have "ok (handling M c h k True) (uv_call e WriteUpstream (\<lambda>rc p. if rc < 0 then next_step (closeUpstream e c p) (pc_unref c)
      else Inr (emit_effect (ToUpstream c b) (add_request c UpstreamWrite p))) q)" if "handling M c h (Suc k) True q" for q b
    by (rule handling_call [OF that])
      (auto intro!: ok_next [OF closeUpstream_ok [OF _ k(2) assms(3)]] handling_unref [OF _ _ M] handling_add
         simp: handling_emit is_close_def handling_base [OF assms(1)])
  then have "ok (handling M c h k True) (with_conn c q (\<lambda>x. no_throw (boxDecrypt e (ap_box q) (pc_nonce x) d) (\<lambda>b.
      uv_call e WriteUpstream (\<lambda>rc p. if rc < 0 then next_step (closeUpstream e c p) (pc_unref c)
      else Inr (emit_effect (ToUpstream c b) (add_request c UpstreamWrite p))) q)))" if "handling M c h (Suc k) True q" for q d
    using that by (intro handling_with [OF that] ok_throw) auto
  then show ?thesis unfolding onDataRequest_def by (auto intro!: request_ok [OF assms(1) k(1) assms(3)] split: prod.split)
qed

lemma onConnectRequest_ok:
  assumes "handling M c h k True p" "k \<le> 1" "env_ok M e"
  shows "ok (handling M c h k False) (onConnectRequest e c pkt p)"
proof -
  have M: "M < 2 ^ 31" using assms(3) by (simp add: env_ok_def)
  have k: "k \<le> 2" using assms(2) by simp
  note weak = ok_weaken [where I = "handling M c h k True" and J = "handling M c h k False", OF _ handling_forget]
  have "ok (handling M c h k False) (next_step (set_state c Relaying q) (openUpstream e c))" if "handling M c h k True q" for q
    by (rule weak, rule ok_next [OF handling_state [OF that]]) (auto intro!: openUpstream_ok [OF _ assms(2,3)])
  moreover have "ok (handling M c h k False) (next_step (sendConnectResponse e c False q) (\<lambda>p. next_step (set_state c Idling p) (onIdle e)))"
    if "handling M c h k True q" for q
    by (rule weak, rule ok_next [OF send_ok(2) [OF that k assms(3)]]) (auto intro!: ok_next [OF handling_state] handling_idle)
  ultimately have "ok (handling M c h k False) (with_conn c q (\<lambda>x. no_throw (f x) (\<lambda>plain.
      case g plain of None \<Rightarrow> Inl (Uncaught (InvalidArgument ''invalid ip lenght''))
      | Some client \<Rightarrow> if proxy_allow client then next_step (set_state c Relaying q) (openUpstream e c)
          else next_step (sendConnectResponse e c False q) (\<lambda>p. next_step (set_state c Idling p) (onIdle e)))))"
    if "handling M c h k True q" for q f g
    using that by (intro handling_with [OF that] ok_throw) (auto split: option.split)
  then show ?thesis
    unfolding onConnectRequest_def Let_def
    by (auto intro!: ok_next [OF handling_state [OF assms(1)]] ok_next [OF handling_idle(2)] handling_close [OF assms(1) M] split: prod.split)
qed

lemma processRelayPacket_ok:
  assumes "handling M c h k b p" "k \<le> 1" "env_ok M e"
  shows "ok (handling M c h k False) (processRelayPacket e c pkt p)"
  unfolding processRelayPacket_def
proof (rule handling_with [OF assms(1)])
  fix x
  assume x: "ap_heap p c = Some x"
  have M: "M < 2 ^ 31" using assms(3) by (simp add: env_ok_def)
  have k: "k \<le> 2" using assms(2) by simp
  note weak = ok_weaken [where I = "handling M c h k True" and J = "handling M c h k False", OF _ handling_forget]
  have p: "handling M c h k False p" by (rule handling_forget [OF assms(1)])
  have close: "ok (handling M c h k False) (pc_close e c p)" by (rule handling_close [OF assms(1) M])
  have auth: "ok (handling M c h k False) (onAuthenticateResponse e c pkt p)" "ok (handling M c h k False) (onAttachResponse c p)" if l: "handling M c h k True p"
    unfolding onAuthenticateResponse_def onAttachResponse_def
    by (auto intro!: close weak [OF ok_next [OF handling_state [OF l] handling_idle(3)]] ok_throw
        weak [OF ok_next [OF onAuthorized_ok [OF l] ok_next [OF handling_state handling_idle(3)]]] split: prod.split)
  have accepted: "ok (handling M c h k False) (case t of AUTH_ACK \<Rightarrow> onAuthenticateResponse e c pkt p | ATTACH_ACK \<Rightarrow> onAttachResponse c p
      | CONNECT \<Rightarrow> onConnectRequest e c pkt p | DATA \<Rightarrow> onDataRequest e c pkt p | DISCONNECT \<Rightarrow> onDisconnectRequest e c p
      | DISCONNECT_ACK \<Rightarrow> onDisconnectResponse e c p | _ \<Rightarrow> Inr p)" if "accept (pc_state x) t" for t
  proof -
    have "pc_state x \<noteq> Closed" using that by auto
    with assms(1) x have l: "handling M c h k True p" by (rule handling_live)
    show ?thesis
      using p auth [OF l] onConnectRequest_ok [OF l assms(2,3)] weak [OF onDataRequest_ok [OF l assms(2,3)]]
        weak [OF onDisconnectRequest_ok [OF l k assms(3)]] weak [OF confirm_ok [OF l]]
      by (cases t) (simp_all add: onDisconnectResponse_def)
  qed
  show "ok (handling M c h k False) (if pc_state x = Initializing then onChallenge e c pkt p
      else no_throw (valueOf (fst pkt ! 2)) (\<lambda>t. if t = ERROR then onErrorPacket e c pkt p else if \<not> accept (pc_state x) t then pc_close e c p
        else case t of AUTH_ACK \<Rightarrow> onAuthenticateResponse e c pkt p | ATTACH_ACK \<Rightarrow> onAttachResponse c p
      | CONNECT \<Rightarrow> onConnectRequest e c pkt p | DATA \<Rightarrow> onDataRequest e c pkt p | DISCONNECT \<Rightarrow> onDisconnectRequest e c p
      | DISCONNECT_ACK \<Rightarrow> onDisconnectResponse e c p | _ \<Rightarrow> Inr p))"
    using p close accepted authenticate_ok [OF assms(1) k assms(3)]
    by (auto intro!: ok_throw handling_with [OF assms(1)] simp: onChallenge_def onErrorPacket_def Let_def split: prod.split)
qed

lemma relayRead_ok:
  assumes "handling M c h k b p" "k \<le> 1" "env_ok M e"
  shows "ok (handling M c h k False) (relayRead e c d p)"
proof -
  have M: "M < 2 ^ 31" using assms(3) by (simp add: env_ok_def)
  have s: "case processRelayPacket e c pkt q of Inl f \<Rightarrow> f \<noteq> UseAfterFree | Inr q1 \<Rightarrow> handling M c h k False q1" if "handling M c h k False q" for pkt q
    using processRelayPacket_ok [OF that assms(2,3), of pkt] by (auto simp: ok_def split: sum.split)
  have r: "ok (handling M c h k False) (case relay_read (processRelayPacket e c) st b q of None \<Rightarrow> Inl NeverReturns | Some (Inl f) \<Rightarrow> Inl f
      | Some (Inr (st, p)) \<Rightarrow> on_conn c (\<lambda>x. x\<lparr>stickyBuffer := st\<rparr>) p)" if "handling M c h k False q" for st b q
  proof (cases "relay_read (processRelayPacket e c) st b q")
    case (Some r)
    from relay_read_keeps [where P = "handling M c h k False" and Q = "\<lambda>f. f \<noteq> UseAfterFree", OF s that Some] Some show ?thesis
      by (auto intro!: handling_harmless simp: harmless_def split: sum.split)
  qed simp
  have "ok (handling M c h k False) (onRelayRead e c b p)" for b
    unfolding onRelayRead_def
    by (auto intro!: handling_with [OF assms(1)] ok_next [OF handling_harmless [OF handling_forget [OF assms(1)]]] r simp: harmless_def)
  then show ?thesis
    using handling_close [OF assms(1) M] handling_forget [OF assms(1)] by (auto simp: relayRead_def split: option.split list.split)
qed

lemma upstreamRead_ok:
  assumes "handling M c h k b p" "k \<le> 2" "env_ok M e"
  shows "ok (handling M c h k b) (upstreamRead e c d p)"
  using closeUpstream_ok [OF assms] send_ok(5) [OF assms] assms(1) by (auto simp: upstreamRead_def split: option.split list.split)

section \<open>Callbacks\<close>

text \<open>While its callback runs, a request holds its reference for the running code.\<close>

lemma request_reference:
  assumes "settled M p" "(c, r) \<in> set (requests p)" "\<not> is_close r" "ap_heap p c = Some x"
  shows "handling M c True 1 (pc_state x \<noteq> Closed) (p\<lparr>requests := remove1 (c, r) (requests p)\<rparr>)"
proof -
  let ?q = "p\<lparr>requests := remove1 (c, r) (requests p)\<rparr>"
  have g: "good M (connections p) c 0 p" "listed (connections p) p" using assms(1) good_idle by (auto simp: settled_def)
  have r: "r \<in> set (reqs_of p c)" using assms(2) by (force simp: reqs_of_def)
  have n: "r \<noteq> RelayClose" "r \<noteq> UpstreamClose" using assms(3) by (auto simp: is_close_def)
  then have cl: "count_list (remove1 r rs) RelayClose = count_list rs RelayClose" "count_list (remove1 r rs) UpstreamClose = count_list rs UpstreamClose" for rs
    by (induction rs) auto
  have "filter (\<lambda>r. \<not> is_close r) (remove1 r rs) = remove1 r (filter (\<lambda>r. \<not> is_close r) rs)" for rs by (induction rs) (use assms(3) in auto)
  moreover have "r \<in> set (filter (\<lambda>r. \<not> is_close r) (reqs_of p c))" using r assms(3) by simp
  ultimately have "pending_refs (reqs_of p c) = Suc (pending_refs (remove1 r (reqs_of p c)))"
    using length_pos_if_in_set [of r "filter (\<lambda>r. \<not> is_close r) (reqs_of p c)"] by (simp add: length_remove1)
  then have "conn_ok M (c \<in> set (connections p)) 1 (remove1 r (reqs_of p c)) x"
    using goodD [OF g(1) assms(4)] n by (simp add: conn_ok_def shape_def references_def relay_held_def upstream_held_def cl in_set_remove1)
  then have "good M (connections p) c 1 ?q"
    using assms(4) good_distinct [OF g(1)] by (intro good_put [OF g(1) assms(4), where y = x]) (simp_all add: fun_upd_idem)
  moreover have "listed (connections p) ?q" using g(2) listed_heap [of ?q p] by simp
  ultimately show ?thesis using assms(4) by (simp add: handling_def pinned_def)
qed

lemma good_weaken: "good M L c k p \<Longrightarrow> M \<le> N \<Longrightarrow> good N L c k p"
proof -
  assume "good M L c k p" "M \<le> N"
  moreover have "slot_ok M l k rs v \<Longrightarrow> slot_ok N l k rs v" for l k rs v
    using \<open>M \<le> N\<close> by (cases v) (auto simp: conn_ok_def shape_def)
  ultimately show ?thesis unfolding good_def by blast
qed

lemma good_strengthen: "good N L c 0 p \<Longrightarrow> (\<And>i. pending_refs (reqs_of p i) \<le> M + 3) \<Longrightarrow> good M L c 0 p"
proof -
  assume g: "good N L c 0 p" and m: "\<And>i. pending_refs (reqs_of p i) \<le> M + 3"
  have "slot_ok N l 0 rs v \<Longrightarrow> pending_refs rs \<le> M + 3 \<Longrightarrow> slot_ok M l 0 rs v" for l rs v
    by (cases v) (auto simp: conn_ok_def shape_def)
  then show ?thesis using g m unfolding good_def by (auto split: if_splits)
qed

lemma good_pending: "good M L c 0 p \<Longrightarrow> pending_refs (reqs_of p i) \<le> M + 3"
  using good_slot [of M L c 0 p i] by (cases "ap_heap p i") (auto simp: conn_ok_def shape_def split: if_splits)

text \<open>The close callback of a handle gives the reference of the handle back.\<close>

lemma handleClosed_ok:
  assumes "settled M p" "(c, r) \<in> set (requests p)" "is_close r" "M < 2 ^ 30"
  shows "ok (settled M) (handleClosed c r (p\<lparr>requests := remove1 (c, r) (requests p)\<rparr>))"
proof -
  have g: "good M (connections p) c 0 p" "listed (connections p) p" using assms(1) good_idle by (auto simp: settled_def)
  have r: "r \<in> set (reqs_of p c)" using assms(2) by (force simp: reqs_of_def)
  then obtain x where x: "ap_heap p c = Some x" using good_alive [OF g(1)] by force
  note ok = goodD [OF g(1) x]
  let ?y = "if r = UpstreamClose then x\<lparr>upstream := (upstream x)\<lparr>hinit := False, hdata := False\<rparr>\<rparr>
    else x\<lparr>relay := (relay x)\<lparr>hinit := False, hdata := False\<rparr>\<rparr>"
  let ?q = "p\<lparr>requests := remove1 (c, r) (requests p), ap_heap := (ap_heap p)(c \<mapsto> ?y)\<rparr>"
  have q: "reqs_of ?q i = (if i = c then remove1 r (reqs_of p c) else reqs_of p i)" for i
    using reqs_simps(2) [where p = p and c = c and r = r and i = i] by (simp add: reqs_of_def)
  have rs: "pending_refs (remove1 r rs) = pending_refs rs" "r \<in> set rs \<Longrightarrow> count_list rs r = Suc (count_list (remove1 r rs) r)"
    "s \<noteq> r \<Longrightarrow> count_list (remove1 r rs) s = count_list rs s" for rs s
    using assms(3) by (induction rs) auto
  have "count_list (reqs_of p c) r \<le> 1" using ok assms(3) by (auto simp: conn_ok_def shape_def is_close_def)
  with rs(2) [OF r] have "count_list (remove1 r (reqs_of p c)) r = 0" by linarith
  then have n: "r \<notin> set (remove1 r (reqs_of p c))" unfolding count_list_0_iff .
  have "conn_ok (M + 1) (c \<in> set (connections p)) 1 (remove1 r (reqs_of p c)) ?y"
  proof (cases "r = UpstreamClose")
    case True
    then show ?thesis using ok r n rs(1,3)
      by (auto simp: conn_ok_def shape_def references_def relay_held_def upstream_held_def in_set_remove1 count_list_0_iff)
  next
    case False
    then have "r = RelayClose" using assms(3) by (simp add: is_close_def)
    then show ?thesis using ok r n rs(1,3)
      by (auto simp: conn_ok_def shape_def references_def relay_held_def upstream_held_def in_set_remove1 count_list_0_iff)
  qed
  then have "good (M + 1) (connections p) c 1 ?q"
    using x good_distinct [OF g(1)] by (intro good_put [OF good_weaken [OF g(1)] x, where y = ?y]) (simp_all add: q)
  moreover have "ap_heap ?q c = Some ?y" by simp
  moreover have "distinct (connections p)" by (rule good_distinct [OF g(1)])
  ultimately obtain s where s: "pc_unref c ?q = Inr s" "good (M + 1) (connections p) c 0 s" "dropped c ?y ?q s"
    using unref_drops [of "M + 1" "connections p" c 1 ?q ?y "connections p" 0] assms(4) by (auto simp: references_def)
  have "listed (connections p) ?q" by (rule listed_put [OF g(2) x, where y = ?y]) simp_all
  then have "listed (connections p) s" using dropped_keeps(1) [OF s(3)] by simp
  moreover have "good M (connections p) c 0 s"
  proof (rule good_strengthen [OF s(2)])
    fix i
    have "reqs_of s i = reqs_of ?q i" using dropped_keeps(2) [OF s(3)] by simp
    then show "pending_refs (reqs_of s i) \<le> M + 3" using good_pending [OF g(1), of i] good_pending [OF g(1), of c] rs(1) by (simp add: q)
  qed
  moreover have "connections s = connections p" using s(3) by (simp add: dropped_def)
  ultimately have "settled M s" using good_idle by (auto simp: settled_def)
  moreover have "handleClosed c r (p\<lparr>requests := remove1 (c, r) (requests p)\<rparr>) = pc_unref c ?q"
    by (simp add: handleClosed_def on_conn_def with_conn_def x next_step_def)
  ultimately show ?thesis by (simp add: s(1))
qed

lemma establish_ok:
  assumes "handling M c h k b p" "M < 2 ^ 31"
  shows "ok (handling M c h k False) (establish e c p)"
  unfolding establish_def
  by (rule handling_call [OF assms(1)]) (auto intro!: handling_close [OF _ assms(2)] handling_harmless [OF handling_forget] simp: harmless_def)

lemma run_handler_ok:
  assumes "handling M c h k b p" "k \<le> 2" "env_ok M e"
  shows "ok (handling M c h k b) (run_handler e c w p)"
proof -
  have "ok (handling M c h k b) (next_step (on_conn c (\<lambda>x. x\<lparr>upstreamPaused := False\<rparr>) q) (startReadUpstream e c))" if "handling M c h k b q" for q
    by (rule ok_next [OF handling_harmless [OF that]]) (simp add: harmless_def, rule startReadUpstream_ok [OF _ assms(2,3)])
  then show ?thesis
    unfolding run_handler_def
    using assms(1)
    by (cases w) (auto intro!: handling_with [OF assms(1)] ok_if startReadUpstream_ok [OF assms] handling_draw [OF assms(1)])
qed

text \<open>A connect that failed makes the connection idle: it must not be closed.\<close>

definition cancels_connect :: "Event \<Rightarrow> ActiveProxy \<Rightarrow> bool" where
  "cancels_connect ev p \<longleftrightarrow>
     (case ev of
        Callback (c, UpstreamConnect) status \<Rightarrow> status < 0 \<and> (case ap_heap p c of None \<Rightarrow> False | Some x \<Rightarrow> pc_state x = Closed)
      | _ \<Rightarrow> False)"

lemma upstreamConnected_ok:
  assumes "handling M c True (Suc 0) b p" "env_ok M e" "status < 0 \<longrightarrow> b"
  shows "ok (settled M) (upstreamConnected e c status p)"
proof -
  have M: "M < 2 ^ 31" using assms(2) by (simp add: env_ok_def)
  have u: "ok (settled M) (pc_unref c s)" if "handling M c True (Suc 0) b s" for s by (rule handling_last_unref [OF _ M]) (use that in simp)
  have "ok (handling M c True (Suc 0) b) (do_if (status < 0) (\<lambda>p. next_step (closeUpstream2 c p) (\<lambda>p. next_step (set_state c Idling p) (onIdle e))) p)"
    using assms(1,3) by (auto intro!: ok_if ok_next [OF closeUpstream2_ok] ok_next [OF handling_state] handling_idle)
  then show ?thesis unfolding upstreamConnected_def
    by (rule ok_next) (auto intro!: ok_next [OF send_ok(2) [OF _ _ assms(2)]] u)
qed

lemma callback_ok:
  assumes "settled M p" "(c, r) \<in> set (requests p)" "env_ok M e" "\<not> cancels_connect (Callback (c, r) status) p"
  shows "ok (settled M) (callback e (c, r) status p)"
proof (cases "is_close r")
  case True
  then show ?thesis using handleClosed_ok [OF assms(1,2)] assms(3) by (auto simp: is_close_def callback_def Let_def env_ok_def)
next
  case False
  have M: "M < 2 ^ 31" using assms(3) by (simp add: env_ok_def)
  have "r \<in> set (reqs_of p c)" using assms(2) by (force simp: reqs_of_def)
  moreover have "good M (connections p) c 0 p" using assms(1) good_idle by (auto simp: settled_def)
  ultimately obtain x where x: "ap_heap p c = Some x" using good_alive by force
  define q where "q = p\<lparr>requests := remove1 (c, r) (requests p)\<rparr>"
  have h: "handling M c True (Suc 0) (pc_state x \<noteq> Closed) q" using request_reference [OF assms(1,2) False x] by (simp add: q_def)
  have f: "handling M c True (Suc 0) False q" by (rule handling_forget [OF h])
  have u: "ok (settled M) (pc_unref c s)" if "handling M c True (Suc 0) False s" for s by (rule handling_last_unref [OF _ M]) (use that in simp)
  note close = handling_close [OF f M]
  have "ok (settled M) (relayConnected e c status q)"
    unfolding relayConnected_def by (rule ok_next [where I = "handling M c True (Suc 0) False"]) (auto intro: u close establish_ok [OF f M])
  moreover have "ok (settled M) (relayWritten e c w status q)" for w
    unfolding relayWritten_def by (rule ok_next [where I = "handling M c True (Suc 0) False"]) (auto intro: u close run_handler_ok [OF f _ assms(3)])
  moreover have "ok (settled M) (upstreamWritten e c status q)" "ok (settled M) (upstreamShut c q)"
    unfolding upstreamWritten_def upstreamShut_def
    by (rule ok_next [where I = "handling M c True (Suc 0) False"]; auto intro!: u ok_if closeUpstream_ok [OF f _ assms(3)] closeUpstream2_ok [OF f] f)+
  moreover have "ok (settled M) (upstreamConnected e c status q)" if "r = UpstreamConnect"
    by (rule upstreamConnected_ok [OF h assms(3)]) (use that assms(4) x in \<open>auto simp: cancels_connect_def\<close>)
  ultimately show ?thesis using False by (cases r) (simp_all add: callback_def Let_def q_def is_close_def)
qed

text \<open>A handle that is read holds a reference.\<close>

lemma open_handle:
  assumes "settled M p" "ap_heap p c = Some x" "hinit (relay x) \<and> \<not> hclosing (relay x) \<or> hinit (upstream x) \<and> \<not> hclosing (upstream x)"
  shows "handling M c False 0 False p"
proof -
  have g: "good M (connections p) c 0 p" "listed (connections p) p" using assms(1) good_idle by (auto simp: settled_def)
  from goodD [OF g(1) assms(2)] assms(3) have "pinned False (reqs_of p c) x"
    by (auto simp: pinned_def relay_held_def upstream_held_def conn_ok_def shape_def)
  then show ?thesis using g assms(2) by (simp add: handling_def)
qed

lemma data_ok:
  assumes "settled M p" "env_ok M e"
  shows "enabled (RelayData c d) p \<Longrightarrow> ok (settled M) (relayRead e c d p)" "enabled (UpstreamData c d) p \<Longrightarrow> ok (settled M) (upstreamRead e c d p)"
  using open_handle [OF assms(1)] assms(2)
  by (auto split: option.splits intro!: ok_weaken [OF relayRead_ok handling_settled] ok_weaken [OF upstreamRead_ok handling_settled])

section \<open>Iterations of the loop\<close>

lemma settled_good: "settled M p \<longleftrightarrow> good M (connections p) c 0 p \<and> listed (connections p) p"
  using good_idle by (auto simp: settled_def)

lemma settled_same: "same_memory p q \<Longrightarrow> settled M q = settled M p"
  using listed_heap [of q p "connections p" "connections p"] by (simp add: settled_def good_same) (simp add: same_memory_def)

lemma settled_emit: "settled M (emit_effect x p) = settled M p"
  by (rule settled_same) (simp add: same_memory_def emit_effect_def)

lemma settled_draw: "settled M p \<Longrightarrow> ap_heap p c = Some x \<Longrightarrow> (\<And>y q. settled M q \<Longrightarrow> ap_heap q c = Some x \<Longrightarrow> ok J (f y q)) \<Longrightarrow> ok J (draw g f p)"
  using settled_same [of p "p\<lparr>draws := draws p + 1\<rparr>"] by (simp add: draw_def same_memory_def)

lemma settled_new:
  assumes "settled M p" "ap_heap q = (ap_heap p)(ap_next p \<mapsto> y)" "ap_next q = Suc (ap_next p)" "connections q = connections p @ [ap_next p]"
    and "\<And>i. i \<noteq> ap_next p \<Longrightarrow> reqs_of q i = reqs_of p i" "conn_ok M True 0 (reqs_of q (ap_next p)) y" "pc_state y \<noteq> Closed" "closeHandler y"
  shows "settled M q"
proof -
  let ?c = "ap_next p"
  have g: "good M (connections p) ?c 0 p" "listed (connections p) p" using assms(1) settled_good by blast+
  have n: "ap_heap p ?c = None" "?c \<notin> set (connections p)" "distinct (connections p)" "\<And>i. ?c \<le> i \<Longrightarrow> ap_heap p i = None"
    using g(1) good_alive [OF g(1)] by (auto simp: good_def)
  have "slot_ok M (i \<in> set (connections q)) 0 (reqs_of q i) (ap_heap q i)" for i
    using good_slot [OF g(1), of i] assms(2,4-6) by (cases "i = ?c") simp_all
  moreover have "ap_heap q i = None" if "ap_next q \<le> i" for i using that assms(2,3) n(4) by simp
  ultimately have "good M (connections q) 0 0 q" using assms(4) n(2,3) unfolding good_def by simp
  moreover have "listed (connections q) q"
    unfolding listed_def
  proof (intro allI impI)
    fix i z
    assume z: "ap_heap q i = Some z"
    show "(i \<in> set (connections q)) = (pc_state z \<noteq> Closed) \<and> (i \<in> set (connections q) \<longrightarrow> closeHandler z)"
    proof (cases "i = ?c")
      case False
      then have "ap_heap p i = Some z" using z assms(2) by simp
      note listedD [OF g(2) this]
      with False show ?thesis by (simp add: assms(4))
    qed (use z assms(2,4,7,8) in simp)
  qed
  ultimately show ?thesis by (simp add: settled_def)
qed

lemma proxy_connect_ok:
  assumes "settled M p"
  shows "ok (settled M) (proxy_connect e p)"
proof -
  let ?c = "ap_next p"
  have "good M (connections p) ?c 0 p" using assms settled_good by blast
  then have r: "reqs_of p ?c = []" using good_alive [of M "connections p" ?c 0 p] by (auto simp: good_def)
  have new: "settled M q" if "ap_heap q = (ap_heap p)(?c \<mapsto> y)" "ap_next q = Suc ?c" "connections q = connections p @ [?c]"
      "pc_state y \<noteq> Closed" "closeHandler y"
      "requests q = requests p \<and> conn_ok M True 0 [] y \<or> requests q = requests p @ [(?c, RelayConnect)] \<and> conn_ok M True 0 [RelayConnect] y" for q y
    by (rule settled_new [OF assms that(1-3) _ _ that(4,5)]) (use that(6) r in \<open>auto simp: reqs_of_def\<close>)
  note ok_defs = conn_ok_def shape_def references_def relay_held_def upstream_held_def is_close_def
  note defs = proxy_connect_def connectServer_def Let_def uv_call_def on_conn_def with_conn_def next_step_def new_request_def
    pc_ref_def pc_unref_def add_request_def newProxyConnection_def no_handle_def
  consider "uv e TcpInit (uvCalls p) < 0" | "0 \<le> uv e TcpInit (uvCalls p)" "maxRequests e \<le> length (requests p)"
    | "0 \<le> uv e TcpInit (uvCalls p)" "length (requests p) < maxRequests e" "uv e TcpConnect (Suc (uvCalls p)) < 0"
    | "0 \<le> uv e TcpInit (uvCalls p)" "length (requests p) < maxRequests e" "0 \<le> uv e TcpConnect (Suc (uvCalls p))" by linarith
  then show ?thesis
  proof cases
    case 1
    then show ?thesis by (simp add: defs) (rule new, simp, simp_all add: ok_defs)
  next
    case 2
    then show ?thesis by (simp add: defs)
  next
    case 3
    then show ?thesis by (simp add: defs) (rule new, simp, simp_all add: ok_defs)
  next
    case 4
    then show ?thesis by (simp add: defs) (rule new, simp, simp_all add: ok_defs)
  qed
qed

text \<open>A packet that is sent between two events.\<close>

lemma settled_request:
  assumes "settled M p" "ap_heap p c = Some x" "maxRequests e \<le> M"
  shows "ok (handling M c True (Suc 0) False) (new_request e c p)"
proof (cases "length (requests p) < maxRequests e")
  case True
  have g: "good M (connections p) c 0 p" "listed (connections p) p" using assms(1) settled_good by blast+
  have "pending_refs (reqs_of p c) \<le> M" using True assms(3) by (auto simp: reqs_of_def intro: order_trans [OF length_filter_le] order_trans [OF _ order_trans [OF length_filter_le [of "\<lambda>q. fst q = c" "requests p"]]])
  then have c: "conn_ok M (c \<in> set (connections p)) (Suc 0) (reqs_of p c) (x\<lparr>refCount := refCount x + 1\<rparr>)"
    using goodD [OF g(1) assms(2)] by (simp add: conn_ok_def shape_def references_def)
  define q where "q = p\<lparr>ap_heap := (ap_heap p)(c \<mapsto> x\<lparr>refCount := refCount x + 1\<rparr>)\<rparr>"
  have "good M (connections p) c (Suc 0) q" unfolding q_def
    by (rule good_put [OF g(1) assms(2)]) (use c good_distinct [OF g(1)] in simp_all)
  moreover have "listed (connections p) q"
    unfolding q_def by (rule listed_put [OF g(2) assms(2), where y = "x\<lparr>refCount := refCount x + 1\<rparr>"]) simp_all
  ultimately have "handling M c True (Suc 0) False q" by (simp add: handling_def q_def pinned_def)
  then show ?thesis using True by (simp add: new_request_def pc_ref_def on_conn_def with_conn_def assms(2) q_def)
qed (simp add: new_request_def)

lemma settled_add:
  assumes "handling M c True (Suc 0) b p" "\<not> is_close r"
  shows "settled M (add_request c r p)"
proof -
  from assms(1) obtain x where x: "ap_heap p c = Some x" "conn_ok M (c \<in> set (connections p)) (Suc 0) (reqs_of p c) x"
    "good M (connections p) c (Suc 0) p" "listed (connections p) p" by (auto elim: handlingE)
  have r: "r \<noteq> RelayClose" "r \<noteq> UpstreamClose" using assms(2) by (auto simp: is_close_def)
  have c: "conn_ok M (c \<in> set (connections p)) 0 (reqs_of (add_request c r p) c) x"
    using x(2) r assms(2) by (simp add: conn_ok_def shape_def references_def relay_held_def upstream_held_def)
  have h: "ap_heap (add_request c r p) = (ap_heap p)(c \<mapsto> x)" using x(1) by (simp add: fun_upd_idem)
  have "good M (connections p) c 0 (add_request c r p)"
    by (rule good_put [OF x(3,1) h]) (use c good_distinct [OF x(3)] in simp_all)
  moreover have "listed (connections p) (add_request c r p)" using x(4) listed_heap [of "add_request c r p" p] by simp
  ultimately show ?thesis by (simp add: settled_good [of _ _ c])
qed

lemma ping_ok:
  assumes "settled M p" "ap_heap p c = Some x" "env_ok M e"
  shows "ok (settled M) (sendPingRequest e c p)"
proof -
  have r: "\<not> uv e WriteRelay n < 0" for n using assms(3) by (simp add: env_ok_def not_less)
  have m: "maxRequests e \<le> M" using assms(3) by (simp add: env_ok_def)
  have "ok (settled M) (uv_call e WriteRelay (\<lambda>rc p. if rc < 0 then next_step (pc_unref c p) (pc_close e c)
      else Inr (emit_effect z (add_request c (RelayWrite PING NoHandler) p))) q)" if "handling M c True (Suc 0) False q" for q z
    by (rule handling_call [OF that]) (auto simp: r settled_emit is_close_def intro!: settled_add)
  then show ?thesis
    using assms(1,2) unfolding sendPingRequest_def sendRelayPacket_def
    by (auto simp: with_conn_def intro!: settled_draw [OF assms(1,2)] ok_next [OF settled_request [OF _ _ m]] elim!: handling_draw)
qed

lemma periodicCheck_ok:
  assumes "settled M p" "c \<in> set (connections p)" "env_ok M e"
  shows "ok (settled M) (periodicCheck e c p)"
proof -
  have g: "good M (connections p) c 0 p" "listed (connections p) p" using assms(1) settled_good by blast+
  then obtain x where x: "ap_heap p c = Some x" using good_alive [OF g(1)] assms(2) by blast
  have M: "M < 2 ^ 31" using assms(3) by (simp add: env_ok_def)
  have "ok (settled M) (pc_close e c p)"
    by (rule ok_weaken [OF close_listed [OF g x M]]) (simp add: settled_good [of _ _ c])
  then show ?thesis
    using assms(1) x by (auto simp: periodicCheck_def with_conn_def intro!: settled_draw [OF assms(1) x] ok_if ping_ok [OF _ _ assms(3)])
qed

lemma health_loop_ok:
  assumes "env_ok M e"
  shows "settled M p \<Longrightarrow> set cs \<subseteq> set (connections p) \<Longrightarrow> ok (settled M) (health_loop e cs p)"
proof (induction cs arbitrary: p)
  case (Cons c cs)
  have "ok (settled M) (periodicCheck e c p)" by (rule periodicCheck_ok [OF Cons.prems(1) _ assms]) (use Cons.prems(2) in simp)
  then show ?case
    unfolding health_loop.simps
    by (rule ok_next) (use Cons.prems(2) in \<open>auto intro!: Cons.IH\<close>)
qed simp

text \<open>Connections are removed from outside. The list keeps them until all of them are closed.\<close>

lemma retire_one:
  assumes "good M L c 0 p" "listed L p" "c \<in> set L" "M < 2 ^ 31"
  shows "ok (\<lambda>q. good M (remove1 c L) c 0 q \<and> listed (remove1 c L) q \<and> connections q = connections p)
    (next_step (on_conn c (\<lambda>x. x\<lparr>closeHandler := False\<rparr>) p) (\<lambda>p. next_step (pc_close e c p) (pc_unref c)))"
proof -
  from good_alive [OF assms(1)] assms(3) obtain x where x: "ap_heap p c = Some x" by blast
  have nc: "pc_state x \<noteq> Closed" using listedD [OF assms(2) x] assms(3) by simp
  have ds: "distinct L" using assms(1) by (simp add: good_def)
  define x1 where "x1 = x\<lparr>closeHandler := False\<rparr>"
  define p1 where "p1 = p\<lparr>ap_heap := (ap_heap p)(c \<mapsto> x1)\<rparr>"
  have h1: "ap_heap p1 c = Some x1" "pc_state x1 \<noteq> Closed" "connections p1 = connections p" using nc by (simp_all add: p1_def x1_def)
  have "conn_ok M (c \<in> set L) 0 (reqs_of p c) x1"
    using goodD [OF assms(1) x] by (simp add: x1_def conn_ok_def shape_def references_def relay_held_def upstream_held_def)
  then have g1: "good M L c 0 p1" unfolding p1_def by (intro good_put [OF assms(1) x]) (use ds in simp_all)
  have o: "on_conn c (\<lambda>x. x\<lparr>closeHandler := False\<rparr>) p = Inr p1" by (simp add: on_conn_def with_conn_def x p1_def x1_def)
  from close_until_handler [OF h1(1,2), of e] show ?thesis
  proof (elim disjE exE conjE)
    fix y q
    assume q: "pc_close e c p1 = onClosed c q"
      "tended c (x1\<lparr>pc_state := Closed\<rparr>) (p1\<lparr>ap_heap := (ap_heap p1)(c \<mapsto> x1\<lparr>pc_state := Closed\<rparr>)\<rparr>) y q"
    note g = closed_good [OF g1 h1(1) q(2)]
    have hq: "ap_heap q c = Some y" by (simp add: g(2))
    have "references (c \<in> set L) 0 (reqs_of q c) y = Suc (references (c \<in> set (remove1 c L)) 0 (reqs_of q c) y)"
      using assms(3) ds by (simp add: references_def)
    then obtain r where r: "pc_unref c q = Inr r" "good M (remove1 c L) c 0 r" "dropped c y q r"
      using unref_drops [OF g(1) hq assms(4), of "remove1 c L" 0] ds by (auto simp: in_set_remove1)
    have "\<exists>v. ap_heap r = (ap_heap p)(c := v) \<and> (\<forall>y. v = Some y \<longrightarrow> pc_state y = Closed)"
      using r(3) by (auto simp: dropped_def g(2,3) p1_def)
    then have "listed (remove1 c L) r" using listed_close [OF assms(2) ds] by blast
    moreover have "connections r = connections p" using r(3) by (simp add: dropped_def g(5) h1(3))
    moreover have "onClosed c q = Inr q" using g(4) by (simp add: onClosed_def with_conn_def hq x1_def)
    ultimately show ?thesis using r(1,2) q(1) by (simp add: o next_step_def)
  qed (simp add: o next_step_def)
qed

lemma retire_ok:
  assumes "M < 2 ^ 31"
  shows "good M L 0 0 p \<Longrightarrow> listed L p \<Longrightarrow> distinct cs \<Longrightarrow> set cs \<subseteq> set L \<Longrightarrow>
    ok (\<lambda>q. \<exists>L'. good M L' 0 0 q \<and> listed L' q \<and> set L' = set L - set cs \<and> connections q = connections p) (retire e cs p)"
proof (induction cs arbitrary: L p)
  case (Cons c cs)
  let ?L = "remove1 c L"
  have ds: "distinct L" using Cons.prems(1) by (simp add: good_def)
  have g: "good M L c 0 p" using Cons.prems(1) good_idle by blast
  have one: "ok (\<lambda>q. good M ?L c 0 q \<and> listed ?L q \<and> connections q = connections p)
      (next_step (on_conn c (\<lambda>x. x\<lparr>closeHandler := False\<rparr>) p) (\<lambda>p. next_step (pc_close e c p) (pc_unref c)))"
    by (rule retire_one [OF g Cons.prems(2) _ assms]) (use Cons.prems(4) in simp)
  have assoc: "retire e (c # cs) p = next_step (next_step (on_conn c (\<lambda>x. x\<lparr>closeHandler := False\<rparr>) p)
      (\<lambda>p. next_step (pc_close e c p) (pc_unref c))) (retire e cs)"
    by (simp add: next_step_def split: sum.split)
  show ?case
    unfolding assoc
  proof (rule ok_next [OF one])
    fix q
    assume q: "good M ?L c 0 q \<and> listed ?L q \<and> connections q = connections p"
    have d: "set ?L - set cs = set L - set (c # cs)" using ds by (simp add: set_remove1_eq) blast
    show "ok (\<lambda>q. \<exists>L'. good M L' 0 0 q \<and> listed L' q \<and> set L' = set L - set (c # cs) \<and> connections q = connections p) (retire e cs q)"
      using Cons.IH [of ?L q] q good_idle [of M ?L c q 0] Cons.prems(3,4) ds
      unfolding d by (auto simp: set_remove1_eq)
  qed
qed auto

lemma good_set: "good M L c k p \<Longrightarrow> set L = set L' \<Longrightarrow> distinct L' \<Longrightarrow> good M L' c k p"
  by (simp add: good_def)

lemma list_irrelevant: "good M L c k (q\<lparr>connections := D\<rparr>) = good M L c k q" "listed L (q\<lparr>connections := D\<rparr>) = listed L q"
  by (simp add: good_def) (rule listed_heap, simp_all)

lemma retire_settled:
  assumes "settled M p" "M < 2 ^ 31" "distinct cs" "set cs \<subseteq> set (connections p)" "distinct D" "set D = set (connections p) - set cs"
  shows "ok (\<lambda>q. connections q = connections p \<and> settled M (q\<lparr>connections := D\<rparr>)) (retire e cs p)"
proof -
  have "settled M (q\<lparr>connections := D\<rparr>)" if "good M L' 0 0 q" "listed L' q" "set L' = set (connections p) - set cs" for q L'
    using that(2) good_set [OF that(1) _ assms(5)] listed_heap [of q q D L'] that(3) assms(6) by (simp add: settled_def list_irrelevant)
  with retire_ok [OF assms(2) _ _ assms(3,4), of p e] assms(1) show ?thesis
    by (auto simp: settled_def elim!: ok_weaken)
qed

lemma idleCheck_ok:
  assumes "settled M p" "M < 2 ^ 31"
  shows "ok (settled M) (idleCheck e p)"
proof (cases "connections p")
  case (Cons c cs)
  have d: "distinct (connections p)" using assms(1) by (simp add: settled_def good_def)
  have "ok (\<lambda>q. connections q = connections p \<and> settled M (q\<lparr>connections := [c]\<rparr>)) (retire e (rev (tl (connections p))) p)"
    by (rule retire_settled [OF assms]) (use d in \<open>auto simp: Cons\<close>)
  then have "ok (settled M) (next_step (retire e (rev (tl (connections p))) p) (\<lambda>p. Inr (p\<lparr>connections := take 1 (connections p)\<rparr>)))"
    by (rule ok_next) (simp add: Cons)
  then show ?thesis using assms(1) by (auto simp: idleCheck_def)
qed (use assms(1) in \<open>auto simp: idleCheck_def\<close>)

lemma onStop_ok:
  assumes "settled M p" "M < 2 ^ 31"
  shows "ok (settled M) (onStop e p)"
proof -
  let ?p = "p\<lparr>ap_running := False\<rparr>"
  have s: "settled M ?p" using settled_same [of p ?p] assms(1) by (simp add: same_memory_def)
  have "distinct (connections p)" using assms(1) by (simp add: settled_def good_def)
  then have "ok (\<lambda>q. connections q = connections ?p \<and> settled M (q\<lparr>connections := []\<rparr>)) (retire e (connections p) ?p)"
    by (intro retire_settled [OF s assms(2)]) simp_all
  then show ?thesis unfolding onStop_def by (rule ok_next) (simp add: settled_emit)
qed

lemma onIteration_ok:
  assumes "settled M p" "env_ok M e"
  shows "ok (settled M) (onIteration e p)"
proof -
  have M: "M < 2 ^ 31" using assms(2) by (simp add: env_ok_def)
  define p1 where "p1 = (if ap_first p then emit_effect Started (p\<lparr>ap_first := False\<rparr>) else p)"
  obtain needed p2 where n: "needsNewConnection e p1 = (needed, p2)" by force
  have "same_memory p p1" by (simp add: p1_def emit_effect_def same_memory_def)
  moreover have "same_memory p1 p2" using n by (auto simp: needsNewConnection_def proxy_reset_def same_memory_def split: if_splits)
  ultimately have s: "settled M p2" using assms(1) by (simp add: settled_same)
  have t: "settled M (q\<lparr>lastIdleCheckTimestamp := a\<rparr>)" "settled M (q\<lparr>lastHealthCheckTimestamp := a\<rparr>)"
    "settled M (q\<lparr>lastAnnouncePeerTimestamp := a\<rparr>)" if "settled M q" for q a
    using settled_same [of q "q\<lparr>lastIdleCheckTimestamp := a\<rparr>"] settled_same [of q "q\<lparr>lastHealthCheckTimestamp := a\<rparr>"]
      settled_same [of q "q\<lparr>lastAnnouncePeerTimestamp := a\<rparr>"] that by (simp_all add: same_memory_def)
  have a: "ok (settled M) (proxy_announcePeer q)" if "settled M q" for q using that by (simp add: proxy_announcePeer_def settled_emit split: option.split)
  have h: "ok (settled M) (healthCheck e q)" if "settled M q" for q
    unfolding healthCheck_def by (rule health_loop_ok [OF assms(2) that]) simp
  show ?thesis
    unfolding onIteration_def Let_def p1_def [symmetric] n prod.case
    by (intro ok_next [where I = "settled M"] ok_if proxy_connect_ok idleCheck_ok [OF _ M] a h t s)
qed

section \<open>Runs\<close>

theorem handle_event_ok:
  assumes "settled M p" "env_ok M e" "enabled ev p" "\<not> cancels_connect ev p"
  shows "ok (settled M) (handle_event e ev p)"
proof -
  have M: "M < 2 ^ 31" using assms(2) by (simp add: env_ok_def)
  show ?thesis
  proof (cases ev)
    case (Callback req status)
    then show ?thesis using callback_ok [OF assms(1) _ assms(2), of "fst req" "snd req" status] assms(3,4) by (cases req) simp
  qed (use assms data_ok [OF assms(1,2)] onIteration_ok [OF assms(1,2)] onStop_ok [OF assms(1) M] in simp_all)
qed

text \<open>Runs in which no upstream connect is cancelled by the close of its connection, and the writes to the server are
  accepted.\<close>

inductive careful_run :: "nat \<Rightarrow> ActiveProxy \<Rightarrow> ActiveProxy \<Rightarrow> bool" for M p where
  start: "careful_run M p p"
| event: "careful_run M p q \<Longrightarrow> enabled ev q \<Longrightarrow> \<not> cancels_connect ev q \<Longrightarrow> env_ok M e \<Longrightarrow> handle_event e ev q = Inr r \<Longrightarrow>
    careful_run M p r"

lemma settled_start: "settled M (newActiveProxy limit keys sk now)"
  by (simp add: settled_def good_def listed_def newActiveProxy_def reqs_of_def)

lemma careful_settled: "careful_run M p q \<Longrightarrow> settled M p \<Longrightarrow> settled M q"
proof (induction rule: careful_run.induct)
  case (event q ev e r)
  then show ?case using handle_event_ok [of M q e ev] by simp
qed

lemma careful_is_run: "careful_run M p q \<Longrightarrow> proxy_run p q"
  by (induction rule: careful_run.induct) (auto intro: proxy_run.intros)

text \<open>A connection object is freed exactly when nothing refers to it any more.\<close>

lemma settled_count:
  assumes "settled M p" "ap_heap p c = Some x" "M < 2 ^ 31"
  shows "unat (refCount x) = references (c \<in> set (connections p)) 0 (reqs_of p c) x" "0 < refCount x"
proof -
  have "conn_ok M (c \<in> set (connections p)) 0 (reqs_of p c) x" using goodD [OF _ assms(2)] assms(1) settled_good by blast
  moreover from this have "references (c \<in> set (connections p)) 0 (reqs_of p c) x < 2 ^ 32" using references_bound assms(3) by blast
  ultimately show "unat (refCount x) = references (c \<in> set (connections p)) 0 (reqs_of p c) x" by (simp add: conn_ok_def unat_of_nat)
  with \<open>conn_ok _ _ _ _ _\<close> show "0 < refCount x" by (auto simp: conn_ok_def word_gt_0 simp flip: unat_eq_0)
qed

end
