(* ===== verification/Proxy_Faults.thy ===== *)
theory Proxy_Faults
  imports Proxy_Safety
begin

text \<open>
  What goes wrong outside the conditions of \<open>careful_run\<close>: a connect that is cancelled because its connection
  was closed brings the connection back to life, which gives the reference of the list back a second time.
  And an upstream that was shut down in an orderly way is never closed.
\<close>

section \<open>A cancelled connect\<close>

text \<open>A connection that waits for its upstream: the list, both handles and the connect request refer to it.\<close>

definition connecting :: "nat \<Rightarrow> ActiveProxy \<Rightarrow> bool" where
  "connecting c p \<longleftrightarrow>
     (case ap_heap p c of
        None \<Rightarrow> False
      | Some x \<Rightarrow> pc_state x = Relaying \<and> refCount x = 4 \<and> closeHandler x
          \<and> hinit (relay x) \<and> hdata (relay x) \<and> hreading (relay x) \<and> \<not> hclosing (relay x) \<and> hdata (upstream x) \<and> \<not> hclosing (upstream x)
          \<and> reqs_of p c = [UpstreamConnect] \<and> c \<in> set (connections p) \<and> distinct (connections p))"

lemmas run_step_defs = next_step_def do_if_def with_conn_def on_conn_def uv_call_def draw_def add_request_def emit_effect_def pc_ref_def pc_unref_def
  new_request_def set_state_def onIdle_def onClosed_def close_upstream_handle_def close_relay_handle_def stop_upstream_def stop_relay_def

lemma reqs_member: "(c, r) \<in> set (requests p) \<longleftrightarrow> r \<in> set (reqs_of p c)"
  by (force simp: reqs_of_def)

lemma connecting_close:
  assumes "connecting c p"
  shows "\<exists>p1 x. relayRead e c None p = Inr p1 \<and> ap_heap p1 c = Some x \<and> pc_state x = Closed \<and> refCount x = 3 \<and> closeHandler x \<and> hdata (relay x)
    \<and> hdata (upstream x) \<and> hclosing (relay x) \<and> hclosing (upstream x) \<and> requests p1 = requests p @ [(c, UpstreamClose), (c, RelayClose)] \<and> c \<notin> set (connections p1)"
proof -
  from assms obtain x where x: "ap_heap p c = Some x" "pc_state x = Relaying" "refCount x = 4" "closeHandler x" "hdata (relay x)" "\<not> hclosing (relay x)"
    "hdata (upstream x)" "\<not> hclosing (upstream x)" "distinct (connections p)" by (auto simp: connecting_def split: option.splits)
  then show ?thesis
    by (simp add: relayRead_def pc_close_def close_handles_def run_step_defs Let_def)
qed

text \<open>The close callback of the relay, the cancelled connect, and the close callback of the upstream.\<close>

lemma after_relay_closed:
  assumes "ap_heap p c = Some x" "refCount x = 3"
  shows "callback e (c, RelayClose) s p = Inr (p\<lparr>requests := remove1 (c, RelayClose) (requests p),
    ap_heap := (ap_heap p)(c \<mapsto> x\<lparr>relay := (relay x)\<lparr>hinit := False, hdata := False\<rparr>, refCount := 2\<rparr>)\<rparr>)"
  using assms by (simp add: callback_def handleClosed_def run_step_defs)

lemma after_cancelled:
  assumes "ap_heap p c = Some x" "refCount x = 2" "pc_state x = Closed" "closeHandler x" "\<not> hdata (relay x)" "hdata (upstream x)" "hclosing (upstream x)"
    and "status < 0" "\<And>n. uv e WriteRelay n < 0" "length (requests p) < maxRequests e"
  shows "\<exists>q. callback e (c, UpstreamConnect) status p = Inr q \<and> ap_heap q c = None \<and> requests q = remove1 (c, UpstreamConnect) (requests p)"
proof -
  have "length (remove1 (c, UpstreamConnect) (requests p)) < maxRequests e" using assms(10) by (auto simp: length_remove1)
  then show ?thesis
    using assms(1-9) by (simp add: callback_def upstreamConnected_def closeUpstream2_def sendConnectResponse_def sendRelayPacket_def pc_close_def close_handles_def run_step_defs Let_def)
qed

section \<open>An orderly end of the upstream\<close>

text \<open>Packets of the given types; the one that asks for a connection names a client address.\<close>

definition flagged :: "PacketType \<Rightarrow> packet \<Rightarrow> bool" where
  "flagged t pkt \<longleftrightarrow> valueOf (fst pkt ! 2) = Inr t"

definition names_client :: "ProxyEnv \<Rightarrow> ActiveProxy \<Rightarrow> ProxyConnection \<Rightarrow> packet \<Rightarrow> bool" where
  "names_client e p x pkt \<longleftrightarrow> CONNECT_REQ_SIZE \<le> snd pkt
     \<and> (\<exists>plain. boxDecrypt e (ap_box p) (pc_nonce x) (take (CONNECT_REQ_SIZE - PACKET_HEADER_BYTES) (drop PACKET_HEADER_BYTES (fst pkt))) = Inr plain
          \<and> unat (plain ! 0) = 4 \<and> 19 \<le> length plain)"

text \<open>The upstream is marked as closed before its shutdown, so the callback of the shutdown does not close it.\<close>

lemma disconnect_leaves_open:
  assumes "ap_heap p c = Some x" "pc_state x = Relaying" "\<not> upstreamClosed x" "disconnectConfirms x = 0" "refCount x < 2 ^ 31"
    and "flagged DISCONNECT pkt" "\<And>k n. 0 \<le> uv e k n" "length (requests p) + 3 \<le> maxRequests e"
  shows "\<exists>q y. processRelayPacket e c pkt p = Inr q \<and> ap_heap q c = Some y \<and> pc_state y = Disconnecting \<and> upstreamClosed y \<and> disconnectConfirms y = 1
    \<and> upstream y = (upstream x)\<lparr>hreading := False\<rparr> \<and> refCount y = refCount x + 3 \<and> ap_box q = ap_box p \<and> pc_nonce y = pc_nonce x \<and> (c, UpstreamShutdown) \<in> set (requests q)
    \<and> length (requests q) = length (requests p) + 3"
proof -
  have u: "(uv e k n < 0) = False" for k n using assms(7) by (simp add: not_less)
  show ?thesis
    using assms(1-4,6,8)
    by (simp add: u flagged_def processRelayPacket_def no_throw_def onDisconnectRequest_def closeUpstream_def sendDisconnectRequest_def
        sendDisconnectResponse_def sendRelayPacket_def confirm_disconnect_def run_step_defs)
qed

lemma shutdown_leaves_open:
  assumes "ap_heap p c = Some y" "upstreamClosed y" "refCount y - 1 \<noteq> 0"
  shows "callback e (c, UpstreamShutdown) status p =
    Inr (p\<lparr>requests := remove1 (c, UpstreamShutdown) (requests p), ap_heap := (ap_heap p)(c \<mapsto> y\<lparr>refCount := refCount y - 1\<rparr>)\<rparr>)"
  using assms by (simp add: callback_def upstreamShut_def closeUpstream2_def run_step_defs)

lemma confirmed_idle:
  assumes "ap_heap p c = Some y" "pc_state y = Disconnecting" "disconnectConfirms y = 1" "flagged DISCONNECT_ACK pkt"
  shows "\<exists>q. processRelayPacket e c pkt p = Inr q \<and> ap_heap q c = Some (y\<lparr>disconnectConfirms := 0, pc_state := Idling\<rparr>) \<and> ap_box q = ap_box p"
  using assms by (simp add: flagged_def processRelayPacket_def no_throw_def onDisconnectResponse_def confirm_disconnect_def run_step_defs Let_def)

lemma reopen_fails:
  assumes "ap_heap p c = Some y" "pc_state y = Idling" "hinit (upstream y)" "flagged CONNECT pkt" "names_client e p y pkt"
  shows "processRelayPacket e c pkt p = Inl BadHandle"
proof -
  obtain b n where pkt: "pkt = (b, n)" by force
  from assms(5) obtain plain where d: "CONNECT_REQ_SIZE \<le> n"
    "boxDecrypt e (ap_box p) (pc_nonce y) (take (CONNECT_REQ_SIZE - PACKET_HEADER_BYTES) (drop PACKET_HEADER_BYTES b)) = Inr plain"
    "unat (plain ! 0) = 4" "19 \<le> length plain" by (auto simp: names_client_def pkt)
  have "mkSocketAddress (take 4 (drop 1 plain)) port = Some (Inet4 (take 4 (drop 1 plain)) port)" for port
    using d(4) by (simp add: mkSocketAddress_def)
  then show ?thesis
    using assms(1-4) d(1-3)
    by (simp add: pkt flagged_def processRelayPacket_def no_throw_def onConnectRequest_def onBusy_def openUpstream_def proxy_allow_def run_step_defs Let_def)
qed

section \<open>A packet of size 0\<close>

text \<open>A connection that waits for the challenge ignores packets that are too short.\<close>

lemma waiting_ignores:
  assumes "ap_heap p c = Some x" "pc_state x = Initializing" "stickyBuffer x = []" "PACKET_HEADER_BYTES \<le> length d" "packetSize d = 0"
  shows "relayRead e c (Some d) p = Inl NeverReturns"
proof -
  let ?P = "\<lambda>p. \<exists>x. ap_heap p c = Some x \<and> pc_state x = Initializing"
  let ?p = "p\<lparr>ap_heap := (ap_heap p)(c \<mapsto> x\<lparr>keepAliveTimestamp := uvNow e\<rparr>)\<rparr>"
  have "processRelayPacket e c (take PACKET_HEADER_BYTES d, 0) q = Inr q" if "?P q" for q
    using that by (auto simp: processRelayPacket_def onChallenge_def with_conn_def)
  then have "relay_loop (processRelayPacket e c) d ?p = None"
    by (intro size_zero_diverges [OF assms(4,5), where P = ?P]) (simp_all add: assms(2))
  moreover obtain a b where "d = a # b" using assms(4) by (cases d) (simp_all add: PACKET_HEADER_BYTES_def)
  ultimately show ?thesis
    using assms(1,3) by (simp add: relayRead_def onRelayRead_def relay_read_def run_step_defs)
qed

end
