(* ===== verification/Proxy_Samples.thy ===== *)
theory Proxy_Samples
  imports Proxy_Faults
begin

text \<open>
  A proxy that serves a connection, for the witnesses of its theorems: an environment with an encryption that only adds
  and removes sixteen bytes, and a run from the start of the proxy to a connection that waits for its upstream.
\<close>

section \<open>Runs as computations\<close>

fun run_events :: "ProxyEnv \<Rightarrow> Event list \<Rightarrow> ActiveProxy \<Rightarrow> ActiveProxy option" where
  "run_events e [] p = Some p"
| "run_events e (ev # evs) p =
     (if enabled ev p \<and> \<not> cancels_connect ev p then case handle_event e ev p of Inl f \<Rightarrow> None | Inr q \<Rightarrow> run_events e evs q else None)"

lemma careful_trans: "careful_run M q r \<Longrightarrow> careful_run M p q \<Longrightarrow> careful_run M p r"
  by (induction rule: careful_run.induct) (auto intro: careful_run.intros)

lemma run_events_careful: "run_events e evs p = Some q \<Longrightarrow> env_ok M e \<Longrightarrow> careful_run M p q"
proof (induction e evs p rule: run_events.induct)
  case (2 e ev evs p)
  then obtain r where r: "enabled ev p" "\<not> cancels_connect ev p" "handle_event e ev p = Inr r" "run_events e evs r = Some q"
    by (auto split: if_splits sum.splits)
  have "careful_run M p r" by (rule careful_run.event [OF careful_run.start r(1,2) 2(3) r(3)])
  moreover have "careful_run M r q" using "2.IH" [OF _ r(3,4) 2(3)] r(1,2) by blast
  ultimately show ?case by (rule careful_trans [rotated])
qed (simp add: careful_run.start)

section \<open>A sample\<close>

definition sample_proxy_env :: ProxyEnv where
  "sample_proxy_env = \<lparr>uv = \<lambda>_ _. 0, maxRequests = 100, queueSize = \<lambda>_. 0, uvNow = 1000, rand8 = \<lambda>_ _. 0, rand32 = \<lambda>_ _. 0,
     randBytes = \<lambda>_ n. replicate n 0, newKeys = \<lambda>_. ([1], [2]), ownId = replicate 32 1, proxyServerId = replicate 32 2, domainName = [],
     nodeEncrypt = \<lambda>b. Inr (replicate 16 0 @ b), nodeDecrypt = \<lambda>b. Inr (drop 16 b), nodeSign = \<lambda>b. replicate 64 0,
     newBox = \<lambda>_ _. Inr (), boxEncrypt = \<lambda>_ _ b. Inr (replicate 16 0 @ b), boxDecrypt = \<lambda>_ _ b. Inr (drop 16 b),
     createPeer = \<lambda>_ _ _ _ _. Inl (RuntimeError [])\<rparr>"

text \<open>An environment in which the server is gone: nothing can be written to it.\<close>

definition broken_env :: ProxyEnv where
  "broken_env = sample_proxy_env\<lparr>uv := \<lambda>k _. if k = WriteRelay then - 32 else 0\<rparr>"

definition challenge_packet :: "byte list" where "challenge_packet = htons 34 @ replicate 32 7"
definition auth_ack_packet :: "byte list" where "auth_ack_packet = htons 54 @ [0x80] @ replicate 16 0 @ replicate 35 3"
definition connect_packet :: "byte list" where "connect_packet = htons 38 @ [0x20] @ replicate 16 0 @ [4, 10, 0, 0, 1] @ replicate 14 9"

definition sample_proxy :: ActiveProxy where
  "sample_proxy = newActiveProxy 2 ([1], [2]) None 0"

definition sample_events :: "Event list" where
  "sample_events = [Iterate, Callback (0, RelayConnect) 0, RelayData 0 (Some challenge_packet), Callback (0, RelayWrite AUTH NoHandler) 0,
     RelayData 0 (Some auth_ack_packet), RelayData 0 (Some connect_packet)]"

lemma sample_proxy_env_ok: "env_ok 100 sample_proxy_env"
  by (simp add: env_ok_def sample_proxy_env_def)

text \<open>The first connection in a given state, with its pending requests, its reference count and its upstream.\<close>

definition first_connection :: "ConnectionState \<Rightarrow> Request list \<Rightarrow> u32 \<Rightarrow> Handle \<Rightarrow> ActiveProxy \<Rightarrow> bool" where
  "first_connection st rs n u p \<longleftrightarrow>
     (case ap_heap p 0 of
        None \<Rightarrow> False
      | Some x \<Rightarrow> pc_state x = st \<and> refCount x = n \<and> closeHandler x \<and> stickyBuffer x = [] \<and> upstream x = u \<and> disconnectConfirms x = 0
          \<and> relay x = \<lparr>hinit = True, hdata = True, hclosing = False, hreading = True\<rparr>)
     \<and> connections p = [0] \<and> requests p = map (Pair 0) rs \<and> serverPk p = None \<and> peerKeypair p = None"

lemma relayRead_whole:
  assumes "wf_packet b" "ap_heap p c = Some x" "stickyBuffer x = []"
  shows "relayRead e c (Some b) p = next_step (processRelayPacket e c (whole b) (p\<lparr>ap_heap := (ap_heap p)(c \<mapsto> x\<lparr>keepAliveTimestamp := uvNow e\<rparr>)\<rparr>))
    (on_conn c (\<lambda>x. x\<lparr>stickyBuffer := []\<rparr>))"
proof -
  have "relay_read f [] b s = Some (case f (whole b) s of Inl e \<Rightarrow> Inl e | Inr s1 \<Rightarrow> Inr ([], s1))" for f :: "packet \<Rightarrow> ActiveProxy \<Rightarrow> Fault + ActiveProxy" and s
    using feed_packets [of "[b]" "[]" "[b]" f s] assms(1)
    by (auto simp: leftover_def split: option.splits sum.splits)
  moreover have "b \<noteq> []" using assms(1) by (auto simp: wf_packet_def PACKET_HEADER_BYTES_def)
  ultimately show ?thesis
    using assms(2,3) by (cases b) (auto simp: relayRead_def onRelayRead_def next_step_def on_conn_def with_conn_def split: sum.split)
qed

abbreviation leads :: "Event list \<Rightarrow> ActiveProxy \<Rightarrow> (ActiveProxy \<Rightarrow> bool) \<Rightarrow> bool" where
  "leads evs p Q \<equiv> case run_events sample_proxy_env evs p of None \<Rightarrow> False | Some q \<Rightarrow> Q q"

lemma run_events_append:
  "run_events e (as @ bs) p = (case run_events e as p of None \<Rightarrow> None | Some q \<Rightarrow> run_events e bs q)"
  by (induction as arbitrary: p) (auto split: sum.split)

lemma leads_trans: "leads as p Q \<Longrightarrow> (\<And>q. Q q \<Longrightarrow> leads bs q R) \<Longrightarrow> leads (as @ bs) p R"
  by (cases "run_events sample_proxy_env as p") (simp_all add: run_events_append)

lemma started: "leads [Iterate, Callback (0, RelayConnect) 0] sample_proxy (first_connection Initializing [] 2 no_handle)"
  by code_simp

lemma sample_packets: "wf_packet challenge_packet" "wf_packet auth_ack_packet" "wf_packet connect_packet"
  "length challenge_packet = 34" "length auth_ack_packet = 54" "length connect_packet = 38"
  by code_simp+

lemma sample_flags: "valueOf (auth_ack_packet ! 2) = Inr AUTH_ACK" "valueOf (connect_packet ! 2) = Inr CONNECT"
  by code_simp+

lemmas sample_step_defs = first_connection_def cancels_connect_def relayRead_whole sample_packets sample_flags processRelayPacket_def no_throw_def
  sendRelayPacket_def run_step_defs sample_proxy_env_def relay_alloc_def MAX_CONTROL_PACKET_SIZE_def PACKET_HEADER_BYTES_def Let_def

lemma challenged:
  "first_connection Initializing [] 2 no_handle p \<Longrightarrow>
    leads [RelayData 0 (Some challenge_packet)] p (first_connection Authenticating [RelayWrite AUTH NoHandler] 3 no_handle)"
  by (cases "ap_heap p 0") (simp_all add: sample_step_defs onChallenge_def CHALLENGE_MIN_def CHALLENGE_MAX_def sendAuthenticateRequest_def)

lemma request_sent:
  "first_connection Authenticating [RelayWrite AUTH NoHandler] 3 no_handle p \<Longrightarrow>
    leads [Callback (0, RelayWrite AUTH NoHandler) 0] p (first_connection Authenticating [] 2 no_handle)"
  by (cases "ap_heap p 0") (simp_all add: sample_step_defs callback_def relayWritten_def run_handler_def is_close_def)

lemma authenticated:
  "first_connection Authenticating [] 2 no_handle p \<Longrightarrow>
    leads [RelayData 0 (Some auth_ack_packet)] p (\<lambda>q. first_connection Idling [] 2 no_handle (q\<lparr>serverPk := None\<rparr>))"
  by (cases "ap_heap p 0") (simp_all add: sample_step_defs onAuthenticateResponse_def AUTH_ACK_SIZE_def MAC_BYTES_def PUBLICKEY_BYTES_def onAuthorized_def onOpened_def)

lemma connect_decrypted: "drop 19 connect_packet = [4, 10, 0, 0, 1] @ replicate 14 9"
  by code_simp

text \<open>The connection that waits for its upstream.\<close>

definition serving :: "ActiveProxy \<Rightarrow> bool" where
  "serving p \<longleftrightarrow> connecting 0 p \<and> requests p = [(0, UpstreamConnect)]
     \<and> (case ap_heap p 0 of None \<Rightarrow> False | Some x \<Rightarrow> \<not> upstreamClosed x \<and> disconnectConfirms x = 0 \<and> hinit (upstream x))"

lemma connection_opened:
  "first_connection Idling [] 2 no_handle (p\<lparr>serverPk := None\<rparr>) \<Longrightarrow> leads [RelayData 0 (Some connect_packet)] p serving"
  by (cases "ap_heap p 0") (simp_all add: sample_step_defs onConnectRequest_def CONNECT_REQ_SIZE_def MAC_BYTES_def connect_decrypted onBusy_def proxy_allow_def
      openUpstream_def no_handle_def serving_def connecting_def reqs_of_def mkSocketAddress_def)

definition waiting_proxy :: ActiveProxy where
  "waiting_proxy = the (run_events sample_proxy_env (take 2 sample_events) sample_proxy)"

definition serving_proxy :: ActiveProxy where
  "serving_proxy = the (run_events sample_proxy_env sample_events sample_proxy)"

lemma waiting_run: "run_events sample_proxy_env (take 2 sample_events) sample_proxy = Some waiting_proxy" "first_connection Initializing [] 2 no_handle waiting_proxy"
  using started by (auto simp: sample_events_def waiting_proxy_def simp del: run_events.simps split: option.splits)

lemma serving_run: "run_events sample_proxy_env sample_events sample_proxy = Some serving_proxy" "serving serving_proxy"
  using leads_trans [OF started leads_trans [OF challenged leads_trans [OF request_sent leads_trans [OF authenticated connection_opened]]]]
  by (auto simp: sample_events_def serving_proxy_def simp del: run_events.simps split: option.splits)

lemma serving_careful: "careful_run 100 sample_proxy serving_proxy"
  by (rule run_events_careful [OF serving_run(1) sample_proxy_env_ok])

end
