(* ===== verification/Node_Api.thy ===== *)
theory Node_Api
  imports Dht_Tasks Storage_Contract
begin

text \<open>
  The node: \<^verbatim>\<open>node.cc\<close>, the interface of the library. It runs one DHT per address family, and every operation of a user asks all of them
  and gathers their answers in a promise. The DHTs are those of \<open>Dht_Tasks\<close>: what the node calls is a list of
  \<open>DhtCall\<close>s, which \<open>dht_call\<close> carries out on the world of a DHT, and what a DHT reports to a handler is a
  \<open>Completion\<close>, which \<open>node_complete\<close> hands to the promise of that name. Outcomes of the set-up of the RPC server and of the
  database file are parameters; the key files and the directory of the node are not modelled.
\<close>

section \<open>Definitions\<close>

definition RE_ANNOUNCE_PERIOD :: u64 where "RE_ANNOUNCE_PERIOD = 5 * 60 * 1000"
definition DEFAULT_DHT_PORT :: int where "DEFAULT_DHT_PORT = 39001"

datatype NodeStatus = NodeStopped | NodeInitializing | NodeRunning

text \<open>What the operations gather, and what their promises are given.\<close>

datatype Gather =
    GatherNodes LookupOption "NodeInfo list"
  | GatherValue LookupOption "Value option"
  | GatherStored
  | GatherPeers "PeerInfo list" "PeerInfo list"

datatype Outcome = FoundNodes "NodeInfo list" | FoundValue "Value option" | Announced | FoundPeers "PeerInfo list" | Failed error

record Query =
  gather :: Gather
  completion :: int
  outcome :: "Outcome option"

datatype DhtCall =
    CallStart "NodeInfo list"
  | CallStop
  | CallBootstrap NodeInfo
  | CallFindNode nat Id
  | CallFindValue nat LookupOption Id
  | CallStoreValue nat Value
  | CallFindPeer nat int LookupOption Id
  | CallAnnouncePeer nat PeerInfo

text \<open>\<open>n_dht4\<close> and \<open>n_dht6\<close> say that the pointers \<^verbatim>\<open>dht4\<close> and \<^verbatim>\<open>dht6\<close> are set, \<open>n_open\<close> that the storage is open; its contents stay in the
  database file. In \<open>dhtCalls\<close> the calls of the DHT for IPv4 are marked with \<open>True\<close>.\<close>

record Node =
  n_status :: NodeStatus
  n_id :: Id
  n_dht4 :: bool
  n_dht6 :: bool
  numDHTs :: int
  n_storage :: Storage
  n_open :: bool
  statusListeners :: nat
  notifications :: "(NodeStatus \<times> NodeStatus) list"
  announceJobs :: nat
  queries :: "nat \<Rightarrow> Query option"
  queryNames :: nat
  dhtCalls :: "(bool \<times> DhtCall) list"

text \<open>The configuration (which addresses it gives, the port, the bootstrap nodes), and the outcomes of constructing and starting the server and
  of opening the database; \<open>n_getNode\<close> is \<^verbatim>\<open>DHT::getNode\<close>, a look into the routing table of a DHT.\<close>

record NodeEnv =
  n_config :: Config
  n_now :: u64
  ipv4Address :: bool
  ipv6Address :: bool
  listeningPort :: int
  bootstrapNodesConf :: "NodeInfo list"
  serverCreated :: "unit result"
  serverStarted :: "unit result"
  databaseOpens :: bool
  n_getNode :: "bool \<Rightarrow> Id \<Rightarrow> NodeInfo option"

type_synonym nstep = "Node \<times> error option"

definition call_dhts :: "DhtCall \<Rightarrow> Node \<Rightarrow> Node" where
  "call_dhts c n = n\<lparr>dhtCalls := dhtCalls n @ (if n_dht4 n then [(True, c)] else []) @ (if n_dht6 n then [(False, c)] else [])\<rparr>"

definition isRunning :: "Node \<Rightarrow> bool" where "isRunning n \<longleftrightarrow> n_status n = NodeRunning"

subsection \<open>Starting and stopping\<close>

definition setStatus :: "NodeStatus \<Rightarrow> NodeStatus \<Rightarrow> Node \<Rightarrow> Node" where
  "setStatus expected new n =
     (if n_status n \<noteq> expected then n
      else n\<lparr>n_status := new, notifications := notifications n @ replicate (statusListeners n) (new, n_status n)\<rparr>)"

definition initialNode :: "Id \<Rightarrow> Storage \<Rightarrow> nat \<Rightarrow> Node" where
  "initialNode i db ls =
     \<lparr>n_status = NodeStopped, n_id = i, n_dht4 = False, n_dht6 = False, numDHTs = 0, n_storage = db, n_open = False, statusListeners = ls,
      notifications = [], announceJobs = 0, queries = Map.empty, queryNames = 0, dhtCalls = []\<rparr>"

definition newNode :: "NodeEnv \<Rightarrow> Id \<Rightarrow> Storage \<Rightarrow> nat \<Rightarrow> Node result" where
  "newNode e i db ls =
     (if \<not> ipv4Address e \<and> \<not> ipv6Address e then Inl (InvalidArgument ''No listening address'') else Inr (initialNode i db ls))"

definition node_bootstrap :: "NodeInfo \<Rightarrow> Node \<Rightarrow> Node" where
  "node_bootstrap ni n = (if id_eq (nodeId ni) (n_id n) then n else call_dhts (CallBootstrap ni) n)"

text \<open>A DHT is started and counted.\<close>

definition start_dht :: "bool \<Rightarrow> NodeInfo list \<Rightarrow> Node \<Rightarrow> Node" where
  "start_dht v4 nodes n =
     (if (if v4 then n_dht4 n else n_dht6 n)
      then n\<lparr>dhtCalls := dhtCalls n @ [(v4, CallStart nodes)], numDHTs := numDHTs n + 1\<rparr> else n)"

definition node_start :: "NodeEnv \<Rightarrow> Node \<Rightarrow> nstep" where
  "node_start e n =
     (if n_status n \<noteq> NodeStopped then (n, None)
      else let n1 = setStatus NodeStopped NodeInitializing n;
               n2 = n1\<lparr>n_dht4 := n_dht4 n1 \<or> ipv4Address e, n_dht6 := n_dht6 n1 \<or> ipv6Address e\<rparr>;
               n3 = setStatus NodeInitializing NodeRunning n2
           in case serverCreated e of
                Inl err \<Rightarrow> (n3, Some err)
              | Inr _ \<Rightarrow>
                  (case init (sqlite (n_config e)) (databaseOpens e) (n_storage n3) of
                     (db, Inl err) \<Rightarrow> (n3\<lparr>n_storage := db\<rparr>, Some err)
                   | (db, Inr _) \<Rightarrow>
                       let n4 = n3\<lparr>n_storage := db, n_open := True\<rparr>
                       in case serverStarted e of
                            Inl err \<Rightarrow> (n4, Some err)
                          | Inr _ \<Rightarrow>
                              let n5 = start_dht False (bootstrapNodesConf e) (start_dht True (bootstrapNodesConf e) n4)
                              in (n5\<lparr>announceJobs := announceJobs n5 + 1\<rparr>, None)))"

definition node_stop :: "Node \<Rightarrow> Node" where
  "node_stop n =
     (if n_status n = NodeStopped then n
      else setStatus NodeRunning NodeStopped
             ((call_dhts CallStop (n\<lparr>announceJobs := 0\<rparr>))\<lparr>n_dht4 := False, n_dht6 := False, n_open := False\<rparr>))"

subsection \<open>Promises\<close>

definition new_query :: "Gather \<Rightarrow> Outcome option \<Rightarrow> Node \<Rightarrow> Node" where
  "new_query g r n =
     n\<lparr>queries := (queries n)(queryNames n \<mapsto> \<lparr>gather = g, completion = 0, outcome = r\<rparr>), queryNames := queryNames n + 1\<rparr>"

text \<open>\<^verbatim>\<open>set_value\<close> throws \<^verbatim>\<open>std::future_error\<close> when the promise has a value; \<open>g\<close> is what remains of the results after they are moved.\<close>

definition already_satisfied :: error where "already_satisfied = RuntimeError ''Promise already satisfied''"

definition set_value :: "nat \<Rightarrow> Query \<Rightarrow> Outcome \<Rightarrow> Gather \<Rightarrow> Node \<Rightarrow> nstep" where
  "set_value h q r g n =
     (case outcome q of
        Some _ \<Rightarrow> (n\<lparr>queries := (queries n)(h \<mapsto> q)\<rparr>, Some already_satisfied)
      | None \<Rightarrow> (n\<lparr>queries := (queries n)(h \<mapsto> q\<lparr>outcome := Some r, gather := g\<rparr>)\<rparr>, None))"

definition keep_query :: "nat \<Rightarrow> Query \<Rightarrow> Node \<Rightarrow> nstep" where
  "keep_query h q n = (n\<lparr>queries := (queries n)(h \<mapsto> q)\<rparr>, None)"

text \<open>\<^verbatim>\<open>std::set<PeerInfo>::insert\<close>: a peer that neither precedes nor follows a member is one.\<close>

definition peer_known :: "PeerInfo \<Rightarrow> PeerInfo list \<Rightarrow> bool" where
  "peer_known p ps \<longleftrightarrow> (\<exists>q\<in>set ps. \<not> peer_less p q \<and> \<not> peer_less q p)"

fun add_peers :: "PeerInfo list \<Rightarrow> PeerInfo list \<times> PeerInfo list \<Rightarrow> PeerInfo list \<times> PeerInfo list" where
  "add_peers [] s = s"
| "add_peers (p # ps) (known, rs) = add_peers ps (if peer_known p known then (known, rs) else (known @ [p], rs @ [p]))"

text \<open>The value that replaces what was found so far.\<close>

definition better_value :: "Value option \<Rightarrow> Value option \<Rightarrow> Value option" where
  "better_value old new =
     (case new of
        None \<Rightarrow> old
      | Some v \<Rightarrow>
          (case old of
             None \<Rightarrow> Some v
           | Some u \<Rightarrow> if \<not> isMutable v \<or> v_sequenceNumber u < v_sequenceNumber v then Some v else Some u))"

text \<open>What was found is put into the storage; exceptions are caught.\<close>

definition keep_value :: "NodeEnv \<Rightarrow> Value option \<Rightarrow> Node \<Rightarrow> Node" where
  "keep_value e v n =
     (case v of
        None \<Rightarrow> n
      | Some x \<Rightarrow>
          (case db_putValue (sha_256 (n_config e)) (verify_sign (n_config e)) (sqlite (n_config e)) (n_now e) x (- 1) False False (n_storage n) of
             Inl _ \<Rightarrow> n
           | Inr (db, _) \<Rightarrow> n\<lparr>n_storage := db\<rparr>))"

text \<open>A DHT calls the handler of the operation \<open>h\<close>. The storage pointer is null when the node has been stopped.\<close>

definition node_complete :: "NodeEnv \<Rightarrow> nat \<Rightarrow> Completion \<Rightarrow> Node \<Rightarrow> nstep" where
  "node_complete e h c n =
     (case queries n h of
        None \<Rightarrow> (n, Some Undefined)
      | Some q0 \<Rightarrow>
          (let q = q0\<lparr>completion := completion q0 + 1\<rparr>; all = completion q \<ge> numDHTs n
           in case (gather q0, c) of
                (GatherNodes opt rs, NodeResult r) \<Rightarrow>
                  (let rs1 = (case r of None \<Rightarrow> rs | Some x \<Rightarrow> rs @ [x]); q1 = q\<lparr>gather := GatherNodes opt rs1\<rparr>
                   in if opt = OPTIMISTIC \<and> rs1 \<noteq> [] \<or> all then set_value h q1 (FoundNodes rs1) (GatherNodes opt []) n else keep_query h q1 n)
              | (GatherValue opt v, ValueResult r) \<Rightarrow>
                  (let v1 = better_value v r; q1 = q\<lparr>gather := GatherValue opt v1\<rparr>
                   in if opt = OPTIMISTIC \<and> r \<noteq> None \<or> all
                      then if v1 \<noteq> None \<and> \<not> n_open n then (n, Some Undefined)
                           else set_value h q1 (FoundValue v1) (GatherValue opt v1) (keep_value e v1 n)
                      else keep_query h q1 n)
              | (GatherStored, NodesResult _) \<Rightarrow> if all then set_value h q Announced GatherStored n else keep_query h q n
              | (GatherPeers known rs, PeersResult ps) \<Rightarrow>
                  (case add_peers ps (known, rs) of (known1, rs1) \<Rightarrow>
                     if \<not> n_open n then (n, Some Undefined)
                     else case db_putPeers (sqlite (n_config e)) (n_now e) rs1 (n_storage n) of
                            (db, Some err) \<Rightarrow>
                              (n\<lparr>n_storage := db, queries := (queries n)(h \<mapsto> q\<lparr>gather := GatherPeers known1 rs1\<rparr>)\<rparr>, Some err)
                          | (db, None) \<Rightarrow>
                              let q1 = q\<lparr>gather := GatherPeers known1 rs1\<rparr>; n1 = n\<lparr>n_storage := db\<rparr>
                              in if all then set_value h q1 (FoundPeers rs1) (GatherPeers known1 []) n1 else keep_query h q1 n1)
              | _ \<Rightarrow> (n, Some Undefined)))"

subsection \<open>The operations of a user\<close>

text \<open>The name of the future an operation returns is that of its query, \<^term>\<open>queryNames n\<close>.\<close>

definition node_findNode :: "NodeEnv \<Rightarrow> LookupOption \<Rightarrow> Id \<Rightarrow> Node \<Rightarrow> nstep" where
  "node_findNode e opt i n =
     (if \<not> isRunning n then (n, Some (StateError ''Node not running''))
      else if id_eq i MIN_ID then (n, Some (InvalidArgument ''Invalid peer id''))
      else let known = (if opt = ARBITRARY
                        then (if n_dht4 n then case n_getNode e True i of None \<Rightarrow> [] | Some x \<Rightarrow> [x] else [])
                           @ (if n_dht6 n then case n_getNode e False i of None \<Rightarrow> [] | Some x \<Rightarrow> [x] else []) else [])
           in if known \<noteq> [] then (new_query (GatherNodes opt []) (Some (FoundNodes known)) n, None)
              else (call_dhts (CallFindNode (queryNames n) i) (new_query (GatherNodes opt []) None n), None))"

definition node_findValue :: "NodeEnv \<Rightarrow> LookupOption \<Rightarrow> Id \<Rightarrow> Node \<Rightarrow> nstep" where
  "node_findValue e opt i n =
     (if \<not> isRunning n then (n, Some (StateError ''Node not running''))
      else if id_eq i MIN_ID then (n, Some (InvalidArgument ''Invalid peer id''))
      else if \<not> n_open n then (n, Some Undefined)
      else case db_getValue (sqlite (n_config e)) (n_now e) i (n_storage n) of
             Inl err \<Rightarrow> (n, Some err)
           | Inr localVal \<Rightarrow>
               if (case localVal of None \<Rightarrow> False | Some v \<Rightarrow> opt = ARBITRARY \<or> \<not> isMutable v)
               then (new_query (GatherValue opt None) (Some (FoundValue localVal)) n, None)
               else (call_dhts (CallFindValue (queryNames n) opt i) (new_query (GatherValue opt localVal) None n), None))"

definition doStoreValue :: "Value \<Rightarrow> Node \<Rightarrow> Node" where
  "doStoreValue v n = call_dhts (CallStoreValue (queryNames n) v) (new_query GatherStored None n)"

definition node_storeValue :: "NodeEnv \<Rightarrow> Value \<Rightarrow> bool \<Rightarrow> Node \<Rightarrow> nstep" where
  "node_storeValue e v persistent n =
     (if \<not> isRunning n then (n, Some (StateError ''Node not running''))
      else if \<not> value_isValid (verify_sign (n_config e)) v then (n, Some (InvalidArgument ''Invalid value''))
      else if \<not> n_open n then (n, Some Undefined)
      else case db_putOwnValue (sha_256 (n_config e)) (verify_sign (n_config e)) (sqlite (n_config e)) (n_now e) v persistent (n_storage n) of
             Inl err \<Rightarrow> (new_query GatherStored (Some (Failed err)) n, None)
           | Inr (db, _) \<Rightarrow> (doStoreValue v (n\<lparr>n_storage := db\<rparr>), None))"

definition node_findPeer :: "NodeEnv \<Rightarrow> int \<Rightarrow> LookupOption \<Rightarrow> Id \<Rightarrow> Node \<Rightarrow> nstep" where
  "node_findPeer e expected opt i n =
     (if \<not> isRunning n then (n, Some (StateError ''Node not running''))
      else if id_eq i MIN_ID then (n, Some (InvalidArgument ''Invalid peer id''))
      else if \<not> n_open n then (n, Some Undefined)
      else case db_getPeers (unf_nfc (n_config e)) (sqlite (n_config e)) (n_now e) i expected (n_storage n) of
             Inl err \<Rightarrow> (n, Some err)
           | Inr ps \<Rightarrow>
               (case add_peers ps ([], []) of (known, rs) \<Rightarrow>
                  if expected > 0 \<and> int (length rs) \<ge> expected \<and> opt = ARBITRARY
                  then (new_query (GatherPeers known []) (Some (FoundPeers rs)) n, None)
                  else (call_dhts (CallFindPeer (queryNames n) expected opt i) (new_query (GatherPeers known rs) None n), None)))"

definition doAnnouncePeer :: "PeerInfo \<Rightarrow> Node \<Rightarrow> Node" where
  "doAnnouncePeer p n = call_dhts (CallAnnouncePeer (queryNames n) p) (new_query GatherStored None n)"

definition node_announcePeer :: "NodeEnv \<Rightarrow> PeerInfo \<Rightarrow> bool \<Rightarrow> Node \<Rightarrow> nstep" where
  "node_announcePeer e p persistent n =
     (if \<not> isRunning n then (n, Some (StateError ''Node not running''))
      else if \<not> id_eq (p_origin p) (n_id n) then (n, Some (InvalidArgument ''Invaid peer: not belongs to current node''))
      else if \<not> peer_isValid (verify_sign (n_config e)) p then (n, Some (InvalidArgument ''Invalid peer''))
      else if \<not> n_open n then (n, Some Undefined)
      else case db_putPeer (sqlite (n_config e)) (n_now e) p persistent True (n_storage n) of
             Inl err \<Rightarrow> (new_query GatherStored (Some (Failed err)) n, None)
           | Inr db \<Rightarrow> (doAnnouncePeer p (n\<lparr>n_storage := db\<rparr>), None))"

text \<open>The job that announces persistent values and peers again. An exception leaves it.\<close>

fun announce_values :: "NodeEnv \<Rightarrow> Value list \<Rightarrow> Node \<Rightarrow> nstep" where
  "announce_values e [] n = (n, None)"
| "announce_values e (v # vs) n =
     (case db_updateValueLastAnnounce (sqlite (n_config e)) (n_now e) (value_getId (sha_256 (n_config e)) v) (n_storage n) of
        Inl err \<Rightarrow> (n, Some err)
      | Inr db \<Rightarrow> announce_values e vs (doStoreValue v (n\<lparr>n_storage := db\<rparr>)))"

fun announce_peers :: "NodeEnv \<Rightarrow> PeerInfo list \<Rightarrow> Node \<Rightarrow> nstep" where
  "announce_peers e [] n = (n, None)"
| "announce_peers e (p # ps) n =
     (case db_updatePeerLastAnnounce (sqlite (n_config e)) (n_now e) (p_publicKey p) (p_origin p) (n_storage n) of
        Inl err \<Rightarrow> (n, Some err)
      | Inr db \<Rightarrow> announce_peers e ps (doAnnouncePeer p (n\<lparr>n_storage := db\<rparr>)))"

definition persistentAnnounce :: "NodeEnv \<Rightarrow> Node \<Rightarrow> nstep" where
  "persistentAnnounce e n =
     (case db_getPersistentValues (sqlite (n_config e)) (n_now e - MAX_VALUE_AGE + RE_ANNOUNCE_PERIOD * 2) (n_storage n) of
        Inl err \<Rightarrow> (n, Some err)
      | Inr vs \<Rightarrow>
          (case announce_values e vs n of
             (n1, Some err) \<Rightarrow> (n1, Some err)
           | (n1, None) \<Rightarrow>
               (case db_getPersistentPeers (unf_nfc (n_config e)) (sqlite (n_config e)) (n_now e - MAX_PEER_AGE + RE_ANNOUNCE_PERIOD * 2) (n_storage n1) of
                  Inl err \<Rightarrow> (n1, Some err)
                | Inr ps \<Rightarrow> announce_peers e ps n1)))"

definition node_getValue :: "NodeEnv \<Rightarrow> Id \<Rightarrow> Node \<Rightarrow> Value option result" where
  "node_getValue e i n =
     (if id_eq i MIN_ID then Inl (InvalidArgument ''Invalid value id'')
      else if \<not> n_open n then Inl Undefined else db_getValue (sqlite (n_config e)) (n_now e) i (n_storage n))"

definition node_removeValue :: "NodeEnv \<Rightarrow> Id \<Rightarrow> Node \<Rightarrow> (Node \<times> bool) result" where
  "node_removeValue e i n =
     (if id_eq i MIN_ID then Inl (InvalidArgument ''Invalid value id'')
      else if \<not> n_open n then Inl Undefined
      else bind_result (db_removeValue (sqlite (n_config e)) i (n_storage n)) (\<lambda>(db, b). Inr (n\<lparr>n_storage := db\<rparr>, b)))"

definition node_getPeer :: "NodeEnv \<Rightarrow> Id \<Rightarrow> Node \<Rightarrow> PeerInfo option result" where
  "node_getPeer e i n =
     (if id_eq i MIN_ID then Inl (InvalidArgument ''Invalid peer id'')
      else if \<not> n_open n then Inl Undefined
      else db_getPeer (unf_nfc (n_config e)) (sqlite (n_config e)) (n_now e) i (n_id n) (n_storage n))"

definition node_removePeer :: "NodeEnv \<Rightarrow> Id \<Rightarrow> Node \<Rightarrow> (Node \<times> bool) result" where
  "node_removePeer e i n =
     (if id_eq i MIN_ID then Inl (InvalidArgument ''Invalid peer id'')
      else if \<not> n_open n then Inl Undefined
      else bind_result (db_removePeer (sqlite (n_config e)) i (n_id n) (n_storage n)) (\<lambda>(db, b). Inr (n\<lparr>n_storage := db\<rparr>, b)))"

definition node_getPort :: "NodeEnv \<Rightarrow> int" where
  "node_getPort e = (if listeningPort e \<le> 0 \<or> listeningPort e > 65535 then DEFAULT_DHT_PORT else listeningPort e)"

subsection \<open>The DHTs behind the node\<close>

text \<open>A lookup or an announce that the node asks of a DHT, on the world of the DHT. The other calls are \<open>dht_start\<close>, \<open>dht_stop\<close> and
  \<open>bootstrap_node\<close>.\<close>

definition dht_call :: "Config \<Rightarrow> DhtCall \<Rightarrow> World \<Rightarrow> World" where
  "dht_call cfg c w =
     (case c of
        CallFindNode h i \<Rightarrow> findNode h i w
      | CallFindValue h opt i \<Rightarrow> findValue h opt i w
      | CallStoreValue h v \<Rightarrow> storeValue cfg h v w
      | CallFindPeer h expected opt i \<Rightarrow> findPeer h expected opt i w
      | CallAnnouncePeer h p \<Rightarrow> announcePeer h p w
      | _ \<Rightarrow> w)"

text \<open>The handlers that are called by the DHTs, one after the other, until one throws.\<close>

fun node_completes :: "NodeEnv \<Rightarrow> nat \<Rightarrow> Completion list \<Rightarrow> Node \<Rightarrow> nstep" where
  "node_completes e h [] n = (n, None)"
| "node_completes e h (c # cs) n =
     (case node_complete e h c n of (n1, Some err) \<Rightarrow> (n1, Some err) | (n1, None) \<Rightarrow> node_completes e h cs n1)"

section \<open>Promises are kept\<close>

fun found :: "'a option list \<Rightarrow> 'a list" where
  "found [] = []"
| "found (None # xs) = found xs"
| "found (Some x # xs) = x # found xs"

definition nodes_with :: "NodeInfo list \<Rightarrow> NodeInfo option \<Rightarrow> NodeInfo list" where
  "nodes_with rs r = (case r of None \<Rightarrow> rs | Some x \<Rightarrow> rs @ [x])"

lemma foldl_nodes_with [simp]: "foldl nodes_with rs xs = rs @ found xs"
  by (induction xs arbitrary: rs rule: found.induct) (simp_all add: nodes_with_def)

lemma keep_value_queries [simp]: "(keep_value e v (n\<lparr>queries := Q\<rparr>))\<lparr>queries := R\<rparr> = (keep_value e v n)\<lparr>queries := R\<rparr>"
  "queries (keep_value e v n) = queries n" "numDHTs (keep_value e v n) = numDHTs n" "n_open (keep_value e v n) = n_open n"
  by (auto simp: keep_value_def split: option.split sum.split)

lemma node_completes_snoc:
  "node_completes e h cs n = (m, None) \<Longrightarrow> node_completes e h (cs @ [c]) n = node_complete e h c m"
  by (induction cs arbitrary: n) (auto split: prod.splits option.splits)

text \<open>What the handlers of the operations have in common: the answer of a DHT is added to what was gathered; as long as a DHT has not answered, nothing
  else happens, and the last answer fulfils the promise, after the effect \<open>keep\<close> on the storage.\<close>

locale gathering =
  fixes mk :: "'s \<Rightarrow> Gather" and add :: "'s \<Rightarrow> 'r \<Rightarrow> 's" and report :: "'r \<Rightarrow> Completion" and result :: "'s \<Rightarrow> Outcome"
    and rest :: "'s \<Rightarrow> Gather" and keep :: "NodeEnv \<Rightarrow> 's \<Rightarrow> Node \<Rightarrow> Node"
  assumes early_answer:
    "queries n h = Some \<lparr>gather = mk s, completion = k, outcome = None\<rparr> \<Longrightarrow> n_open n \<Longrightarrow> k + 1 < numDHTs n \<Longrightarrow>
      node_complete e h (report r) n = (n\<lparr>queries := (queries n)(h \<mapsto> \<lparr>gather = mk (add s r), completion = k + 1, outcome = None\<rparr>)\<rparr>, None)"
    and last_answer:
    "queries n h = Some \<lparr>gather = mk s, completion = k, outcome = None\<rparr> \<Longrightarrow> n_open n \<Longrightarrow> k + 1 = numDHTs n \<Longrightarrow>
      node_complete e h (report r) n = ((keep e (add s r) n)\<lparr>queries := (queries n)(h \<mapsto>
        \<lparr>gather = rest (add s r), completion = k + 1, outcome = Some (result (add s r))\<rparr>)\<rparr>, None)"
    and keep_queries: "(keep e s (n\<lparr>queries := Q\<rparr>))\<lparr>queries := R\<rparr> = (keep e s n)\<lparr>queries := R\<rparr>"
begin

lemma promise_waits:
  "queries n h = Some \<lparr>gather = mk s, completion = k, outcome = None\<rparr> \<Longrightarrow> n_open n \<Longrightarrow> k + int (length xs) < numDHTs n \<Longrightarrow>
    node_completes e h (map report xs) n =
      (n\<lparr>queries := (queries n)(h \<mapsto> \<lparr>gather = mk (foldl add s xs), completion = k + int (length xs), outcome = None\<rparr>)\<rparr>, None)"
proof (induction xs arbitrary: n s k)
  case Nil
  then show ?case by (simp add: fun_upd_idem)
next
  case (Cons x xs)
  let ?n = "n\<lparr>queries := (queries n)(h \<mapsto> \<lparr>gather = mk (add s x), completion = k + 1, outcome = None\<rparr>)\<rparr>"
  have "node_complete e h (report x) n = (?n, None)" using Cons.prems by (intro early_answer) auto
  then show ?case using Cons.IH [of ?n "add s x" "k + 1"] Cons.prems by (simp add: ac_simps fun_upd_def cong: if_cong)
qed

lemma promise_kept:
  assumes "queries n h = Some \<lparr>gather = mk s, completion = k, outcome = None\<rparr>" "n_open n" "xs \<noteq> []" "k + int (length xs) = numDHTs n"
  shows "node_completes e h (map report xs) n = ((keep e (foldl add s xs) n)\<lparr>queries := (queries n)(h \<mapsto>
    \<lparr>gather = rest (foldl add s xs), completion = numDHTs n, outcome = Some (result (foldl add s xs))\<rparr>)\<rparr>, None)"
proof -
  obtain ys y where xs: "xs = ys @ [y]" using assms(3) by (cases xs rule: rev_cases) auto
  let ?q = "\<lparr>gather = mk (foldl add s ys), completion = k + int (length ys), outcome = None\<rparr>"
  have "node_completes e h (map report ys) n = (n\<lparr>queries := (queries n)(h \<mapsto> ?q)\<rparr>, None)"
    using assms xs by (intro promise_waits) auto
  from node_completes_snoc [OF this]
  have "node_completes e h (map report xs) n = node_complete e h (report y) (n\<lparr>queries := (queries n)(h \<mapsto> ?q)\<rparr>)" by (simp add: xs)
  then show ?thesis using last_answer [of "n\<lparr>queries := (queries n)(h \<mapsto> ?q)\<rparr>" h "foldl add s ys" "k + int (length ys)" e y] assms xs
    by (simp add: keep_queries fun_upd_def cong: if_cong)
qed

end

text \<open>Lookups that wait for all DHTs: those that are not optimistic.\<close>

locale exhaustive =
  fixes opt :: LookupOption
  assumes patient: "opt \<noteq> OPTIMISTIC"

sublocale exhaustive \<subseteq> for_nodes: gathering "GatherNodes opt" nodes_with NodeResult FoundNodes "\<lambda>_. GatherNodes opt []" "\<lambda>_ _ n. n"
  by unfold_locales (simp_all add: patient node_complete_def keep_query_def set_value_def nodes_with_def Let_def)

sublocale exhaustive \<subseteq> for_value: gathering "GatherValue opt" better_value ValueResult FoundValue "GatherValue opt" keep_value
  by unfold_locales (simp_all add: patient node_complete_def keep_query_def set_value_def Let_def)

interpretation conservative: exhaustive CONSERVATIVE
  by unfold_locales simp

interpretation arbitrary: exhaustive ARBITRARY
  by unfold_locales simp

interpretation stores: gathering "\<lambda>_. GatherStored" "\<lambda>_ _. ()" NodesResult "\<lambda>_. Announced" "\<lambda>_. GatherStored" "\<lambda>_ _ n. n"
  by unfold_locales (simp_all add: node_complete_def keep_query_def set_value_def Let_def)

text \<open>The value that wins is one of those seen; among mutable values none has a greater sequence number.\<close>

lemma foldl_better_in: "foldl better_value v xs = Some u \<Longrightarrow> v = Some u \<or> Some u \<in> set xs"
proof (induction xs arbitrary: v)
  case (Cons x xs)
  from Cons.IH [of "better_value v x"] Cons.prems show ?case by (auto simp: better_value_def split: option.splits if_splits)
qed simp

lemma foldl_better_none: "foldl better_value v xs = None \<longleftrightarrow> v = None \<and> set xs \<subseteq> {None}"
proof (induction xs arbitrary: v)
  case (Cons x xs)
  from Cons.IH [of "better_value v x"] show ?case by (auto simp: better_value_def split: option.splits if_splits)
qed simp

lemma foldl_better_best:
  "foldl better_value v xs = Some u \<Longrightarrow> (\<forall>w. v = Some w \<or> Some w \<in> set xs \<longrightarrow> isMutable w) \<Longrightarrow> v = Some w \<or> Some w \<in> set xs \<Longrightarrow>
    v_sequenceNumber w \<le> v_sequenceNumber u"
proof (induction xs arbitrary: v w)
  case (Cons x xs)
  let ?v = "better_value v x"
  have m: "\<forall>w. ?v = Some w \<or> Some w \<in> set xs \<longrightarrow> isMutable w"
    using Cons.prems(2) by (auto simp: better_value_def split: option.splits if_splits)
  have "foldl better_value ?v xs = Some u" using Cons.prems(1) by simp
  note IH = Cons.IH [OF this m]
  have "\<exists>w'. (?v = Some w' \<or> Some w' \<in> set xs) \<and> v_sequenceNumber w \<le> v_sequenceNumber w'"
  proof (cases "Some w \<in> set xs")
    case False
    then have "v = Some w \<or> x = Some w" using Cons.prems(3) by auto
    moreover have "isMutable y" if "x = Some y" for y using Cons.prems(2) that by simp
    ultimately show ?thesis by (cases v; cases x) (auto simp: better_value_def)
  qed auto
  then show ?case using IH by force
qed simp

section \<open>Peers\<close>

text \<open>A list that holds no two peers the set takes for the same.\<close>

definition peers_distinct :: "PeerInfo list \<Rightarrow> bool" where
  "peers_distinct ps \<longleftrightarrow> sorted_wrt (\<lambda>q p. peer_less p q \<or> peer_less q p) ps"

lemma memcmp_refl [simp]: "memcmp x x = 0"
  by (induction x) simp_all

lemma peer_less_irrefl [simp]: "\<not> peer_less p p"
  by (simp add: peer_less_def compareTo_def)

lemma add_peers_append: "add_peers (ps @ qs) s = add_peers qs (add_peers ps s)"
  by (induction ps s rule: add_peers.induct) simp_all

lemma peer_known_mono: "peer_known p ks \<Longrightarrow> peer_known p (ks @ new)"
  by (auto simp: peer_known_def)

lemma add_peers_spec:
  "\<exists>new. add_peers ps (ks, rs) = (ks @ new, rs @ new) \<and> set new \<subseteq> set ps \<and> (\<forall>p\<in>set ps. peer_known p (ks @ new))
    \<and> (peers_distinct ks \<longrightarrow> peers_distinct (ks @ new))"
proof (induction ps arbitrary: ks rs)
  case (Cons p ps)
  show ?case
  proof (cases "peer_known p ks")
    case True
    from Cons.IH [of ks rs] show ?thesis using peer_known_mono [OF True] True by auto
  next
    case False
    have "peer_known p (ks @ [p])" by (auto simp: peer_known_def)
    from peer_known_mono [OF this] Cons.IH [of "ks @ [p]" "rs @ [p]"] obtain new where
      "add_peers ps (ks @ [p], rs @ [p]) = (ks @ p # new, rs @ p # new)" "set new \<subseteq> set ps" "\<forall>q\<in>set (p # ps). peer_known q (ks @ p # new)"
      "peers_distinct (ks @ [p]) \<longrightarrow> peers_distinct (ks @ p # new)" by auto
    moreover have "peers_distinct ks \<Longrightarrow> peers_distinct (ks @ [p])"
      using False by (auto simp: peers_distinct_def sorted_wrt_append peer_known_def)
    ultimately show ?thesis using False by (intro exI [of _ "p # new"]) auto
  qed
qed simp
text \<open>While the database works and no transaction is open, the peers are kept after every answer, and the last answer fulfils the promise.\<close>

lemma put_rows_works: "\<forall>k. stp k \<Longrightarrow> snd (put_rows stp i now ps rows) = None"
  by (induction ps arbitrary: i rows) simp_all

lemma putPeers_works:
  assumes "healthy sql" "\<not> inTransaction db"
  shows "\<exists>db'. db_putPeers sql now ps db = (db', None) \<and> \<not> inTransaction db'"
proof -
  have "snd (put_rows (steps sql UPSERT_PEER) 0 now ps (peersTable db)) = None" using assms(1) by (intro put_rows_works) simp
  then obtain rows where "put_rows (steps sql UPSERT_PEER) 0 now ps (peersTable db) = (rows, None)" by (metis prod.collapse)
  then show ?thesis using assms by (simp add: db_putPeers_def)
qed

lemma peers_gathered:
  assumes "healthy (sqlite (n_config e))"
  shows "queries n h = Some \<lparr>gather = GatherPeers ks rs, completion = k, outcome = None\<rparr> \<Longrightarrow> n_open n \<Longrightarrow> \<not> inTransaction (n_storage n) \<Longrightarrow>
    xs \<noteq> [] \<Longrightarrow> k + int (length xs) = numDHTs n \<Longrightarrow>
    \<exists>m q. node_completes e h (map PeersResult xs) n = (m, None) \<and> queries m h = Some q
      \<and> outcome q = Some (FoundPeers (snd (add_peers (concat xs) (ks, rs))))"
proof (induction xs arbitrary: n ks rs k)
  case (Cons x xs)
  obtain ks1 rs1 where a: "add_peers x (ks, rs) = (ks1, rs1)" by fastforce
  obtain db where db: "db_putPeers (sqlite (n_config e)) (n_now e) rs1 (n_storage n) = (db, None)" "\<not> inTransaction db"
    using putPeers_works [OF assms Cons.prems(3)] by blast
  show ?case
  proof (cases "xs = []")
    case True
    then show ?thesis using Cons.prems a db by (simp add: node_complete_def set_value_def Let_def)
  next
    case False
    let ?n = "n\<lparr>n_storage := db, queries := (queries n)(h \<mapsto> \<lparr>gather = GatherPeers ks1 rs1, completion = k + 1, outcome = None\<rparr>)\<rparr>"
    have "node_complete e h (PeersResult x) n = (?n, None)"
      using Cons.prems a db False by (cases xs) (simp_all add: node_complete_def keep_query_def Let_def)
    then show ?thesis using Cons.IH [of ?n ks1 rs1 "k + 1"] Cons.prems(2,5) db(2) False a by (simp add: add_peers_append ac_simps)
  qed
qed simp

section \<open>Starting\<close>

definition running_dhts :: "Node \<Rightarrow> int" where
  "running_dhts n = of_bool (n_dht4 n) + of_bool (n_dht6 n)"

text \<open>Everything that a start needs works.\<close>

definition starts_up :: "NodeEnv \<Rightarrow> Storage \<Rightarrow> bool" where
  "starts_up e db \<longleftrightarrow> serverCreated e = Inr () \<and> serverStarted e = Inr () \<and> (\<exists>p. snd (init (sqlite (n_config e)) (databaseOpens e) db) = Inr p)"

lemma start_counts:
  assumes "n_status n = NodeStopped" "starts_up e (n_storage n)"
  shows "\<exists>n1. node_start e n = (n1, None) \<and> n_status n1 = NodeRunning \<and> n_open n1 \<and> n_dht4 n1 = (n_dht4 n \<or> ipv4Address e) \<and> n_dht6 n1 = (n_dht6 n \<or> ipv6Address e)
    \<and> numDHTs n1 = numDHTs n + running_dhts n1 \<and> queryNames n1 = queryNames n \<and> n_id n1 = n_id n
    \<and> n_storage n1 = fst (init (sqlite (n_config e)) (databaseOpens e) (n_storage n))"
proof -
  obtain db p where "init (sqlite (n_config e)) (databaseOpens e) (n_storage n) = (db, Inr p)" using assms(2) by (auto simp: starts_up_def prod_eq_iff)
  then show ?thesis using assms by (auto simp: node_start_def setStatus_def Let_def starts_up_def start_dht_def running_dhts_def)
qed

lemma stop_forgets:
  "n_status n = NodeRunning \<Longrightarrow> n_status (node_stop n) = NodeStopped \<and> \<not> n_dht4 (node_stop n) \<and> \<not> n_dht6 (node_stop n) \<and> numDHTs (node_stop n) = numDHTs n
    \<and> n_storage (node_stop n) = n_storage n \<and> queryNames (node_stop n) = queryNames n"
  by (simp add: node_stop_def setStatus_def call_dhts_def)

lemma findNode_asks:
  assumes "isRunning n" "\<not> id_eq i MIN_ID" "opt \<noteq> ARBITRARY" "node_findNode e opt i n = (n1, err)"
  shows "err = None" "numDHTs n1 = numDHTs n" "n_open n1 = n_open n"
    "queries n1 (queryNames n) = Some \<lparr>gather = GatherNodes opt [], completion = 0, outcome = None\<rparr>"
    "dhtCalls n1 = dhtCalls n @ (if n_dht4 n then [(True, CallFindNode (queryNames n) i)] else []) @ (if n_dht6 n then [(False, CallFindNode (queryNames n) i)] else [])"
  using assms by (auto simp: node_findNode_def call_dhts_def new_query_def)

lemma findValue_asks:
  assumes "isRunning n" "\<not> id_eq i MIN_ID" "opt \<noteq> ARBITRARY" "n_open n" "\<forall>v. lv = Some v \<longrightarrow> isMutable v"
    and "db_getValue (sqlite (n_config e)) (n_now e) i (n_storage n) = Inr lv" "node_findValue e opt i n = (n1, err)"
  shows "err = None" "numDHTs n1 = numDHTs n" "n_open n1" "n_storage n1 = n_storage n"
    "queries n1 (queryNames n) = Some \<lparr>gather = GatherValue opt lv, completion = 0, outcome = None\<rparr>"
    "dhtCalls n1 = dhtCalls n @ (if n_dht4 n then [(True, CallFindValue (queryNames n) opt i)] else []) @ (if n_dht6 n then [(False, CallFindValue (queryNames n) opt i)] else [])"
  using assms by (auto simp: node_findValue_def call_dhts_def new_query_def split: option.splits)

lemma findPeer_asks:
  assumes "isRunning n" "\<not> id_eq i MIN_ID" "opt \<noteq> ARBITRARY" "n_open n" "node_findPeer e expected opt i n = (n1, err)"
    and "db_getPeers (unf_nfc (n_config e)) (sqlite (n_config e)) (n_now e) i expected (n_storage n) = Inr ps" "add_peers ps ([], []) = (ks, rs)"
  shows "err = None" "numDHTs n1 = numDHTs n" "n_open n1" "n_storage n1 = n_storage n"
    "queries n1 (queryNames n) = Some \<lparr>gather = GatherPeers ks rs, completion = 0, outcome = None\<rparr>"
    "dhtCalls n1 = dhtCalls n @ (if n_dht4 n then [(True, CallFindPeer (queryNames n) expected opt i)] else [])
      @ (if n_dht6 n then [(False, CallFindPeer (queryNames n) expected opt i)] else [])"
  using assms by (auto simp: node_findPeer_def call_dhts_def new_query_def)

end
