(* ===== verification/Spec2Isabelle.thy ===== *)
theory Spec2Isabelle
  imports Samples Routing_Reachability Message_Roundtrips Storage_Contract Server_Loop Proxy_Samples Node_Api "HOL-Library.Countable"
begin

text \<open>
  A verification library for Elastos Carrier, a Kademlia distributed hash table with signed values and
  peers (\<^verbatim>\<open>src/src/core\<close>, \<^verbatim>\<open>src/include/carrier\<close>). Paths below are relative to \<^verbatim>\<open>src/src/core\<close>.

  \<^bold>\<open>The program.\<close> A node runs a DHT per address family (\<^verbatim>\<open>dht.cc\<close>). Each DHT owns a routing table
  (\<^verbatim>\<open>routing_table.cc\<close>) of k-buckets (\<^verbatim>\<open>kbucket.cc\<close>), keyed by 256-bit ids (\<^verbatim>\<open>id.cc\<close>) under prefixes (\<^verbatim>\<open>prefix.cc\<close>),
  and runs tasks (\<^verbatim>\<open>task/\<close>) that look up nodes, values and peers, store them, and refresh buckets. Tasks
  talk to other nodes by RPC calls (\<^verbatim>\<open>rpccall.cc\<close>, \<^verbatim>\<open>rpcserver.cc\<close>), which carry messages (\<^verbatim>\<open>messages/\<close>) in CBOR. A
  token (\<^verbatim>\<open>token_manager.cc\<close>) authorises a store or an announce; values and peers (\<^verbatim>\<open>value.cc\<close>, \<^verbatim>\<open>peer_info.cc\<close>)
  are signed, and kept in an SQLite database (\<^verbatim>\<open>sqlite_storage.cc\<close>). An add-on, the active proxy (\<^verbatim>\<open>../addons/activeproxy\<close>),
  makes a local service reachable: it keeps connections to a relay server and forwards what comes in over them.

  \<^bold>\<open>Conventions.\<close> A class is a record and its methods are functions that return the updated record; the
  fields and functions keep the names of the code, with a prefix where a name would clash. Objects that
  the code shares by pointer have an explicit name (\<open>bref\<close> of a bucket, \<open>eref\<close> of an entry, \<open>call_ref\<close> of a
  call, the id of a task). Machine integers are words (\<^verbatim>\<open>uint8_t\<close>, \<^verbatim>\<open>uint16_t\<close>, \<^verbatim>\<open>uint64_t\<close>) or integers cut to
  32 bits by \<open>int32\<close>; times are 64-bit words. Exceptions are values of the sum type \<open>result\<close> or of an error
  component; undefined behaviour (a read outside an array, through a null pointer or an erased iterator, or of a member that a wrong static cast
  pretends to) is \<open>None\<close> or \<open>Undefined\<close>; the wrong cast of bootstrap nodes itself, of which nothing but the base class is ever read, is the
  constructor \<open>Downcast\<close>. Operations that wait for other components return the list of their effects in order.
  The current time, random numbers, the hash, signatures and encryption of libsodium, the CBOR codec of
  nlohmann::json, the normalisation \<^verbatim>\<open>utf8proc_NFC\<close> (which fails on text that is not UTF-8) and the outcome of \<^verbatim>\<open>sendto\<close> are parameters. Locks are not modelled: an operation is atomic.

  \<^bold>\<open>The theories.\<close>
  \<^item> \<open>Carrier_Prelude\<close>: words, lists and the contract of \<^verbatim>\<open>std::list::sort\<close> as a locale.
  \<^item> \<open>Ids\<close>, \<open>Prefixes\<close>: ids with the XOR distance (\<open>threeWayCompare\<close> is the order of the distances), prefixes as
    intervals of ids.
  \<^item> \<open>Socket_Addresses\<close>: \<^verbatim>\<open>utils/socket_address.cc\<close>; the byte order on addresses is a strict total order.
  \<^item> \<open>Bucket_Entries\<close>, \<open>Buckets\<close>: \<^verbatim>\<open>kbucket_entry.cc\<close>, \<^verbatim>\<open>kbucket.cc\<close>; every operation keeps \<open>bucket_inv\<close>, and \<open>bucket_put\<close>
    refines the replacement policy \<open>put_spec\<close> on multisets of entries.
  \<^item> \<open>Routing_Tables\<close>, \<open>Routing_Invariants\<close>, \<open>Routing_Reachability\<close>: the table, its invariant \<open>rt_inv\<close> (the buckets tile
    the key space), the loops that split and merge buckets with proofs that they end, and the reachable
    tables \<open>rt_reachable\<close>. The locale \<open>bucket_update\<close> is the contract of an operation on one bucket.
  \<^item> \<open>Closest_Nodes\<close>: \<^verbatim>\<open>kclosest_nodes.cc\<close>. \<open>Lookup_Sets\<close>: the candidates and responders of a lookup; a responder too many is undefined, and the runs
    \<open>task_reachable\<close> of a task end there.
  \<^item> \<open>Values\<close>, \<open>Tokens\<close>: values, peers and tokens. \<open>Messages\<close>, \<open>Message_Contents\<close>, \<open>Message_Roundtrips\<close>: every message
    with its JSON form, and that what is sent is received as \<open>received_body\<close>: the same but for what the format loses.
  \<^item> \<open>Rpc\<close>: calls and the server, with the states \<open>rpc_reachable\<close>.
  \<^item> \<open>Tasks\<close>: tasks and their subclasses. \<open>Task_Progress\<close>: the state machine and that updates return.
    \<open>Task_Invariants\<close>, \<open>Task_Reachability\<close>, \<open>Task_Runs\<close>: the invariant of a lookup and the states \<open>task_reachable\<close>.
    \<open>Task_Manager\<close>: the queues.
  \<^item> \<open>Storage\<close>: \<^verbatim>\<open>sqlite_storage.cc\<close>, every statement as an operation on the rows of its two tables, the failures of
    SQLite as a parameter; the locale \<open>keyed_table\<close> is the contract of a table with a primary key.
    \<open>Storage_Contract\<close>: the invariant of the rows, the abstract map from ids to values that the operations
    refine, and \<open>storage_step\<close>.
  \<^item> \<open>Dht\<close>: \<^verbatim>\<open>dht.cc\<close>, the handlers of messages over a \<open>World\<close> of all components. \<open>Dht_Invariants\<close>: every handler
    keeps the world well formed (locale \<open>server_operation\<close> for what it asks of the RPC server). \<open>Dht_Service\<close>: the
    answers, the guards of stores, and that a stored value is found.
  \<^item> \<open>Scheduler\<close>: \<^verbatim>\<open>scheduler.h\<close>, jobs and timers; a run ends, executes what is due and schedules periodic jobs again, although jobs change the scheduler.
    The contract of jobs is \<open>acts\<close>. The timers of calls are not in this scheduler: the calls keep them (\<open>Rpc\<close>).
  \<^item> \<open>Dht_Tasks\<close>: the rest of \<^verbatim>\<open>dht.cc\<close>: bootstrap, periodic update, start and stop, the operations of the user and the
    listeners of tasks. The code performs what a task asks for inside the operation of the task; here the operation returns it and \<open>drain\<close>,
    which translates no code, performs it right afterwards in the same order. \<open>Dht_Activity\<close>: these operations keep the world well
    formed, the course of a bootstrap and of a store. \<open>Dht_Effects\<close>: \<open>drain\<close> returns.
  \<^item> \<open>Server_Loop\<close>: the receive thread of \<^verbatim>\<open>rpcserver.cc\<close>, which puts packets, timers, jobs, tasks and the DHT together; the jobs of
    the DHT meet the contract of the scheduler (\<open>exec_job_acts\<close>).
  \<^item> \<open>Node_Api\<close>: \<^verbatim>\<open>node.cc\<close>, the operations of a user over both DHTs, with the promises their answers fulfil; the locale \<open>gathering\<close>
    is the contract of a handler that collects these answers, and its lemmas say when the promise is kept.
  \<^item> \<open>Proxy_Packets\<close>: the packets of the relay protocol and how a byte stream is cut into them. \<open>Proxy_Connection\<close>: a connection of
    the proxy with its callbacks (\<^verbatim>\<open>connection.cc\<close>), over an explicit heap of counted objects. \<open>Active_Proxy\<close>: the proxy
    (\<^verbatim>\<open>activeproxy.cc\<close>) and its events; \<open>enabled\<close> states what libuv promises about them, \<open>proxy_run\<close> are its runs.
  \<^item> \<open>Proxy_Invariants\<close>: the locale \<open>proxy_invariant\<close> of invariants that every event keeps, with two instances. \<open>Proxy_Memory\<close>,
    \<open>Proxy_Safety\<close>: the reference counts, and that no object is used after it was freed in the runs \<open>careful_run\<close>.
    \<open>Proxy_Faults\<close>: what happens in other runs.
  \<^item> \<open>Samples\<close>, \<open>Proxy_Samples\<close>: concrete data for the witnesses.

  \<^bold>\<open>Loops.\<close> Loops whose end depends on the state are partial functions into \<open>option\<close> (\<open>put_loop\<close>, \<open>flush_queue\<close>,
  \<open>update_loop\<close>, \<open>dequeue\<close>, \<open>cancel_task\<close>, \<open>drain\<close>, \<open>sched_run\<close>, \<open>relay_loop\<close>) or functions with a termination proof (\<open>indexOf_loop\<close>, \<open>merge_loop\<close>,
  \<open>fill_loop\<close>, \<open>lookup_update\<close>); for the partial ones it is proved that they return on well-formed states, and for \<open>relay_loop\<close>
  also when it does not. No
  fuel is used.

  \<^bold>\<open>Not modelled.\<close> The key files and the directory of the node, the start-up of the active proxy (its configuration, event loop and thread), text forms of ids and addresses, configuration, logging,
  threads, the operations for the crawler, and the wrappers of libsodium.
\<close>

unbundle bit_operations_syntax

section \<open>The routing table\<close>

text \<open>C1: Whatever the DHT does with its routing table, the table stays well-formed: its buckets are
  sorted and tile the whole key space, no bucket holds more than eight entries, every entry is reachable,
  lies under the prefix of its bucket and shares neither id nor address with another entry of the bucket,
  and the table stays that of the local node.\<close>

theorem routing_table_wellformed:
  assumes "rt_reachable local rt"
  shows "rt_inv rt \<and> localId rt = local"
  using assms by (rule rt_reachable_inv)

theorem routing_table_wellformed_witness:
  "\<exists>rt. rt_put 2000 (sample_entry 1 1) (newRoutingTable MIN_ID) = Some rt \<and> rt_inv rt \<and> localId rt = MIN_ID"
proof -
  have "rt_reachable MIN_ID (newRoutingTable MIN_ID)" by (rule rt_reachable.new) simp
  moreover have "fresh_for (sample_entry 1 1) (rt_entries (newRoutingTable MIN_ID))"
    by (simp add: fresh_for_def newRoutingTable_def rt_entries_def)
  ultimately obtain rt where "rt_put 2000 (sample_entry 1 1) (newRoutingTable MIN_ID) = Some rt" "rt_reachable MIN_ID rt"
    using rt_reachable_total(1) wf_sample(3) by blast
  then show ?thesis using routing_table_wellformed by blast
qed

text \<open>C2: The binary search of \<^verbatim>\<open>indexOf\<close> returns and finds the one bucket whose prefix covers the id,
  so \<^verbatim>\<open>getBucket\<close> never yields a null bucket for an id of 32 bytes.\<close>

theorem getBucket_correct:
  assumes "rt_inv rt" "wf_id i"
  shows "\<exists>b. getBucket rt i = Some b \<and> b \<in> set (buckets rt) \<and> isPrefixOf (bprefix b) i
    \<and> (\<forall>b'\<in>set (buckets rt). isPrefixOf (bprefix b') i \<longrightarrow> b' = b)"
proof -
  from getBucket_covers [OF assms] obtain b where
    "getBucket rt i = Some b" "b \<in> set (buckets rt)" "isPrefixOf (bprefix b) i" by metis
  with covering_unique [OF assms(1) _ _ assms(2)] show ?thesis by blast
qed

theorem getBucket_correct_witness: "\<exists>b. getBucket sample_table (sample_id 7) = Some b \<and> b \<in> set (buckets sample_table)"
  using getBucket_correct [of sample_table "sample_id 7"] by auto

text \<open>C3: Putting an entry into the table returns, however many times the bucket has to be split. The
  splits keep the entries, the entry is offered to the bucket that covers its id once that bucket needs
  no split, and the table stays well-formed.\<close>

theorem table_put_total:
  assumes "rt_inv rt" "wf_node e" "fresh_for e (rt_entries rt)"
  shows "\<exists>rt'. rt_put now e rt = Some rt' \<and> rt_inv rt' \<and> put_outcome now e rt rt'"
  using rt_put_total [OF assms, of now] by blast

theorem table_put_total_witness: "\<exists>rt'. rt_put 5000 (sample_entry 2 2) sample_table = Some rt' \<and> rt_inv rt'"
  using table_put_total [of sample_table "sample_entry 2 2" 5000]
  by (auto simp: fresh_for_def)

text \<open>Splitting a bucket loses and invents no entry: the table holds the same entries, and the two new
  buckets take the place of the old one.\<close>

lemma split_keeps_entries:
  assumes "rt_inv rt" "b \<in> set (buckets rt)" "isSplittable (bprefix b)"
  shows "rt_inv (split_bucket now b rt) \<and> mset (rt_entries (split_bucket now b rt)) = mset (rt_entries rt)
    \<and> length (buckets (split_bucket now b rt)) = Suc (length (buckets rt))"
proof -
  from split_bucket_effect [OF assms, of now] obtain l h xs ys where
    "rt_inv (split_bucket now b rt)" "buckets rt = xs @ b # ys" "buckets (split_bucket now b rt) = xs @ l # h # ys" by metis
  then show ?thesis using split_bucket_entries [OF assms, of now] by simp
qed

text \<open>\<^verbatim>\<open>_mergeBuckets\<close> returns, keeps the table well-formed, invents no node, and goes on until no two
  neighbouring sibling buckets are left whose effective entries fit into one bucket.\<close>

lemma merge_runs_to_completion:
  assumes "rt_inv rt"
  shows "\<exists>rt'. mergeBuckets now rt = Some rt' \<and> rt_inv rt'
    \<and> (\<forall>k. Suc k < length (buckets rt') \<longrightarrow> \<not> mergeable (buckets rt' ! k) (buckets rt' ! Suc k))
    \<and> (\<forall>e\<in>set (rt_entries rt'). \<exists>e'\<in>set (rt_entries rt). same_node e e')"
proof -
  from mergeBuckets_effect [OF assms, of now] obtain rt' where
    "mergeBuckets now rt = Some rt'" "rt_inv rt'" "not_mergeable_below (int (length (buckets rt'))) (buckets rt')"
    "\<forall>e\<in>set (rt_entries rt'). \<exists>e'\<in>set (rt_entries rt). same_node e e'" by metis
  then show ?thesis by (auto simp: not_mergeable_below_def)
qed

text \<open>C4: When two sibling buckets hold no more than eight entries together and no two of these share an id
  or an address, merging them loses none.\<close>

theorem merge_without_loss:
  assumes "rt_inv rt" "buckets rt = xs @ [b1, b2] @ ys" "isSiblingOf (bprefix b1) (bprefix b2)"
    and "entries_ok (entries b1 @ entries b2)" "length (entries b1 @ entries b2) \<le> MAX_ENTRIES_PER_BUCKET"
  shows "mset (rt_entries (merge_pair now b1 b2 rt)) = mset (rt_entries rt)"
proof -
  from merge_pair_effect [OF assms(1-3), of now] assms(4,5) obtain nb where
    "merge_pair now b1 b2 rt = rt\<lparr>buckets := xs @ [nb] @ ys, nextRef := nextRef rt + 1\<rparr>"
    "mset (entries nb) = mset (entries b1) + mset (entries b2)" by metis
  with assms(2) show ?thesis by (simp add: rt_entries_def)
qed

theorem merge_without_loss_witness:
  "\<exists>b1 b2. mset (rt_entries (merge_pair 3 b1 b2 (split_bucket 1 sample_bucket sample_table))) = {#sample_entry 1 1#}"
proof -
  let ?rt = "split_bucket 1 sample_bucket sample_table"
  have b: "sample_bucket \<in> set (buckets sample_table)" "isSplittable (bprefix sample_bucket)"
    by simp_all
  from split_bucket_effect [OF sample_table_inv b, of 1] obtain l h xs ys where
    s: "rt_inv ?rt" "buckets ?rt = xs @ l # h # ys" "bprefix l = splitBranch prefix_all False"
      "bprefix h = splitBranch prefix_all True" "mset (entries l) + mset (entries h) = {#sample_entry 1 1#}"
    by (metis sample_bucket_simps(1,2) mset.simps)
  have m: "mset (entries l @ entries h) = mset [sample_entry 1 1]" using s(5) by simp
  have "entries_ok (entries l @ entries h)" unfolding entries_ok_mset [OF m] by (simp add: entries_ok_def)
  moreover have "length (entries l @ entries h) = 1" using arg_cong [OF m, of size] by simp
  moreover have "isSiblingOf (bprefix l) (bprefix h)"
    unfolding s(3,4) by (simp add: isSiblingOf_def splitBranch_def bitsEqual_def prefix_copy_def mkPrefix_def prefix_all_def Let_def)
  ultimately have "mset (rt_entries (merge_pair 3 l h ?rt)) = mset (rt_entries ?rt)"
    using s(1,2) by (intro merge_without_loss [of ?rt xs l h ys]) (auto simp: MAX_ENTRIES_PER_BUCKET_def)
  also have "\<dots> = {#sample_entry 1 1#}"
    unfolding split_bucket_entries [OF sample_table_inv b, of 1] by simp
  finally show ?thesis by blast
qed

text \<open>C5: A round of maintenance that is due returns, keeps the table well-formed, leaves no entry with the
  node's own id, brings in no node, and starts ping tasks for buckets of the table only.\<close>

theorem maintenance_cleans:
  assumes "rt_inv rt" "\<not> now - timeOfLastPingCheck rt < ROUTING_TABLE_MAINTENANCE_INTERVAL"
  shows "\<exists>rt' tasks. maintenance now bootstrapIds rt = Some (rt', tasks) \<and> rt_inv rt'
    \<and> (\<forall>e\<in>set (rt_entries rt'). nodeId e \<noteq> localId rt \<and> (\<exists>e'\<in>set (rt_entries rt). same_node e e'))
    \<and> set (map pr_bucket tasks) \<subseteq> set (map bref (buckets rt'))"
  using maintenance_effect [OF assms, of bootstrapIds] by metis

theorem maintenance_cleans_witness:
  "\<exists>rt' tasks. maintenance 300000 [] sample_table = Some (rt', tasks) \<and> rt_inv rt'"
  using maintenance_cleans [of sample_table 300000 "[]"]
  by (auto simp: ROUTING_TABLE_MAINTENANCE_INTERVAL_def)

section \<open>Buckets and entries\<close>

text \<open>C6: Putting an unknown node into a bucket implements the replacement policy: an unreachable node is
  dropped, a bucket with room takes the node, a full one gives up its first bad entry, and otherwise its
  youngest entry if the new one is older.\<close>

theorem bucket_put_refines_policy:
  assumes "bucket_inv b" "wf_node n" "\<forall>e\<in>set (entries b). \<not> matches e n"
  shows "mset (entries (bucket_put now (Some n) b)) = put_spec now n (entries b)"
proof -
  have "entries_ok (entries b)" using bucket_invD(3) [OF assms(1)] .
  then have "\<forall>e\<in>set (entries b). \<not> matches n e" using matches_commute [OF assms(2)] assms(3) by blast
  from put_new_effect [OF assms(1) this, of now] obtain fs where
    "put_new now n b = b\<lparr>entries := fs\<rparr>" "mset fs = put_spec now n (entries b)" by metis
  then show ?thesis by (simp add: bucket_put_new [OF assms(3)])
qed

theorem bucket_put_refines_policy_witness:
  "mset (entries (bucket_put 5000 (Some (sample_entry 2 2)) sample_bucket)) = {#sample_entry 1 1, sample_entry 2 2#}"
proof -
  have "\<forall>e\<in>set (entries sample_bucket). \<not> matches e (sample_entry 2 2)" by (simp add: matches_def)
  from bucket_put_refines_policy [OF sample_bucket_inv wf_sample(3) this, of 5000] show ?thesis
    by (simp add: put_spec_def put_victim_def MAX_ENTRIES_PER_BUCKET_def)
qed

text \<open>Every operation on a bucket keeps its invariant: at most eight entries, all reachable and under the
  prefix of the bucket, with distinct ids and addresses.\<close>

lemma bucket_operations_keep_invariant:
  assumes "bucket_inv b" "wf_node n" "fresh_for n (entries b)" "isPrefixOf (bprefix b) (nodeId n)"
  shows "bucket_inv (bucket_put now (Some n) b) \<and> bucket_inv (removeIfBad now e force b)
    \<and> bucket_inv (update_refresh e b) \<and> bucket_inv (notifyOfResponse now isResponse hasCall i b)
    \<and> bucket_inv (bucket_onTimeout now i b) \<and> bucket_inv (bucket_onSend now i b)
    \<and> bucket_inv (updateRefreshTimer now b)"
  using bucket_put_inv [OF assms] removeIfBad_inv [OF assms(1)] update_refresh_inv [OF assms(1)]
    notifyOfResponse_inv [OF assms(1)] bucket_onTimeout_inv [OF assms(1)] bucket_onSend_inv [OF assms(1)]
    updateRefreshTimer_inv [OF assms(1)] by blast

text \<open>A node that claims the id or the address of a known entry, but not both, changes nothing.\<close>

lemma impersonator_ignored:
  assumes "e \<in> set (entries b)" "matches e n" "\<forall>e\<in>set (entries b). \<not> equals e n"
  shows "bucket_put now (Some n) b = b"
proof -
  have u: "update_first p f xs = xs" if "\<forall>x\<in>set xs. p x \<longrightarrow> f x = x" for p and f :: "KBucketEntry \<Rightarrow> KBucketEntry" and xs
    using that by (induction xs) auto
  have "bucket_put now (Some n) b =
    b\<lparr>entries := update_first (\<lambda>e. matches e n) (\<lambda>e. if equals e n then entry_merge e n else e) (entries b)\<rparr>"
    using assms(1,2) by (intro bucket_put_known) blast
  also have "\<dots> = b" using assms(3) by (subst u) auto
  finally show ?thesis .
qed

text \<open>An entry whose failures were counted after a time-out is pinged again only once its backoff window
  is over, and the window the code uses for that is always at least 32 minutes long, however few requests
  failed: the code takes the maximum of the failure count and the cap where the reported end of the window
  takes the minimum.\<close>

lemma backoff_never_short:
  assumes "0 < failedRequests e" "failedRequests e \<le> 6" "now - lastSend e < 32 * 60 * 1000"
  shows "\<not> needsPing now e"
proof -
  have "max KBUCKET_MAX_TIMEOUTS (max 0 (failedRequests e - 1)) = 5"
    using assms(1,2) by (simp add: KBUCKET_MAX_TIMEOUTS_def)
  moreover have "backoff_shift 5 = 1920000"
    by (simp add: backoff_shift_def KBUCKET_PING_BACKOFF_BASE_INTERVAL_def int32_id)
  ultimately show ?thesis
    using assms by (simp add: needsPing_def withinBackoffWindow_def Let_def)
qed

section \<open>Closest nodes\<close>

text \<open>C7: Collecting the nodes closest to a target from a well-formed table returns at most the requested
  number; each is an eligible entry of the table, a usable bootstrap node or the node itself, and when fewer
  than requested are returned no eligible entry was left out.\<close>

theorem closest_nodes_sound_complete:
  assumes "rt_inv rt" "wf_id t" "0 \<le> n" "n < 2 ^ 30" "length bootstrap < 2 ^ 29"
  shows "\<exists>k. kcn_fill bootstrap usable me includeSelf rt (mkKClosestNodes t n eligible) = Some k
    \<and> int (length (kentries k)) \<le> n
    \<and> (\<forall>x\<in>set (kentries k). x \<in> Own ` {e \<in> set (rt_entries rt). eligible e} \<or> x \<in> kcn_extras bootstrap usable me)
    \<and> (int (length (kentries k)) < n \<longrightarrow> Own ` {e \<in> set (rt_entries rt). eligible e} \<subseteq> set (kentries k))"
proof -
  let ?k = "mkKClosestNodes t n eligible"
  have k: "wf_id (ktarget ?k)" "kentries ?k = []" "0 \<le> maxEntries ?k" "maxEntries ?k < 2 ^ 30" "kfilter ?k = eligible"
    using assms by (simp_all add: mkKClosestNodes_def)
  have n: "maxEntries ?k = n" by (simp add: mkKClosestNodes_def)
  note total = kcn_fill_total [OF assms(1) k(1-4) assms(5), of usable me includeSelf, unfolded k(5) n]
  obtain k3 where
    k3: "kcn_fill bootstrap usable me includeSelf rt ?k = Some (shave k3)" "maxEntries k3 = n" "length (kentries k3) < 2 ^ 31"
      "\<forall>x\<in>set (kentries k3). x \<in> Own ` {e \<in> set (rt_entries rt). eligible e} \<or> x \<in> kcn_extras bootstrap usable me"
      "int (length (kentries k3)) < n \<Longrightarrow> Own ` {e \<in> set (rt_entries rt). eligible e} \<subseteq> set (kentries k3)"
    by (rule total) blast
  have m: "0 \<le> maxEntries k3" "maxEntries k3 < 2 ^ 31" using k3(2) assms(3,4) by simp_all
  note b = shave_bound [OF k3(3) m]
  have "int (length (kentries (shave k3))) < n \<Longrightarrow> shave k3 = k3"
    using b(1) k3(2) by (intro shave_noop [OF k3(3) m]) simp
  with b k3 show ?thesis by (intro exI [of _ "shave k3"]) auto
qed

theorem closest_nodes_sound_complete_witness:
  "\<exists>k. kcn_fill [] (\<lambda>_. True) (sample_entry 9 9) True sample_table (mkKClosestNodes (sample_id 3) 8 isEligibleForNodesList) = Some k
    \<and> int (length (kentries k)) \<le> 8"
  using closest_nodes_sound_complete [of sample_table "sample_id 3" 8 "[]" "\<lambda>_. True" "sample_entry 9 9" True isEligibleForNodesList]
  by auto

text \<open>What \<^verbatim>\<open>shave\<close> keeps of too many entries are the closest ones: no dropped entry is closer to the
  target in the XOR metric than a kept one.\<close>

lemma shave_keeps_closest:
  assumes "length (kentries k) < 2 ^ 31" "0 \<le> maxEntries k" "maxEntries k < 2 ^ 31" "wf_id (ktarget k)"
    and "\<forall>e\<in>set (kentries k). wf_id (nodeId (listed_node e))"
    and "x \<in> set (kentries (shave k))" "y \<in> set (kentries k) - set (kentries (shave k))"
  shows "int (length (kentries (shave k))) = min (maxEntries k) (int (length (kentries k)))
    \<and> id_val (ktarget k) XOR id_val (nodeId (listed_node x)) \<le> id_val (ktarget k) XOR id_val (nodeId (listed_node y))"
proof -
  have y: "y \<in> set (kentries k)" "y \<notin> set (kentries (shave k))" using assms(7) by simp_all
  have "x \<in> set (kentries k)" using shave_bound(2) [OF assms(1-3)] assms(6) by blast
  then have w: "wf_id (nodeId (listed_node x))" "wf_id (nodeId (listed_node y))" using assms(5) y(1) by blast+
  show ?thesis
    using shave_closest [OF assms(1-6) y] shave_bound(1) [OF assms(1-3)] w assms(4) by (simp add: distance_val)
qed

section \<open>The sets of a lookup\<close>

text \<open>Adding nodes to the candidates of a lookup keeps them sorted by their distance to the target,
  without duplicate ids, remembers every id it was given, never drops a candidate that has a request in
  flight, and leaves no more idle candidates than the capacity.\<close>

lemma candidates_add_correct:
  assumes "cc_inv cc" "\<forall>x\<in>set items. wf_node (fst x)"
  shows "cc_inv (cc_add items cc)
    \<and> set (dedup_ids (cc_add items cc)) = set (dedup_ids cc) \<union> (\<lambda>x. nodeId (fst x)) ` set items
    \<and> length (filter (\<lambda>c. \<not> isInFlight c) (cc_closest (cc_add items cc))) \<le> cc_capacity cc
    \<and> (\<forall>c\<in>set (cc_closest cc). isInFlight c \<longrightarrow> c \<in> set (cc_closest (cc_add items cc)))"
  using cc_add_effect(1-4) [OF assms] by blast

text \<open>The candidate asked next is one without a request in flight that failed fewer than three times, the
  least often asked of these and among those the closest to the target; there is none only if no candidate
  is left to ask.\<close>

lemma next_candidate_best:
  assumes "cc_inv cc"
  shows "(cc_next cc = None \<longleftrightarrow> (\<forall>c\<in>set (cc_closest cc). \<not> cisEligible c))
    \<and> (\<forall>m. cc_next cc = Some m \<longrightarrow> m \<in> set (cc_closest cc) \<and> cisEligible m
        \<and> (\<forall>c\<in>set (cc_closest cc). cisEligible c \<longrightarrow> candidate_key (cc_target cc) m \<le> candidate_key (cc_target cc) c))"
  using cc_next_least [OF assms] by blast

text \<open>The set of nodes that answered takes every node that answers, one per id, as long as there is room; a new node that
  answers when the set is full, and only that, makes \<^verbatim>\<open>add\<close> read through an iterator it has erased.\<close>

lemma closest_set_overflow_undefined:
  assumes "cs_inv s" "wf_id (nodeId c)"
  shows "(cs_add c s = None \<longleftrightarrow> cs_reachedCapacity s \<and> nodeId c \<notin> fst ` set (cs_closest s))
    \<and> (\<forall>s'. cs_add c s = Some s' \<longrightarrow> cs_inv s'
         \<and> set (cs_closest s') = insert (nodeId c, c) {p \<in> set (cs_closest s). fst p \<noteq> nodeId c})"
  using cs_add_None_iff [OF assms] cs_add_inv [OF assms] by blast

section \<open>Ids, prefixes and addresses\<close>

text \<open>C8: \<^verbatim>\<open>threeWayCompare\<close>, which looks at one byte only, compares the XOR distances of the two ids to the
  target as 256-bit numbers.\<close>

theorem threeWayCompare_is_xor_order:
  assumes "wf_id t" "wf_id x" "wf_id y"
  shows "threeWayCompare t x y = sgn (int (id_val t XOR id_val x) - int (id_val t XOR id_val y))"
proof -
  have e: "distance t x = distance t y \<longleftrightarrow> id_val (distance t x) = id_val (distance t y)"
    using id_val_inject [of "distance t x" "distance t y"] assms by simp
  have r: "threeWayCompare t x y \<in> {-1, 0, 1}"
    by (simp add: threeWayCompare_def Let_def split: option.split)
  have d: "id_val (distance t x) = id_val t XOR id_val x" "id_val (distance t y) = id_val t XOR id_val y"
    using assms by (simp_all add: distance_val)
  show ?thesis
    using threeWayCompare_val [OF assms, unfolded e d] r
    by (cases "id_val t XOR id_val x" "id_val t XOR id_val y" rule: linorder_cases) (auto simp: sgn_if)
qed

theorem threeWayCompare_is_xor_order_witness:
  "threeWayCompare (sample_id 1) (sample_id 3) (sample_id 5) = -1"
  using threeWayCompare_is_xor_order [of "sample_id 1" "sample_id 3" "sample_id 5"]
  by simp

text \<open>The distance of ids is a metric: symmetric, zero only between equal ids, and the triangle
  inequality holds for the distances as numbers.\<close>

lemma distance_is_metric:
  assumes "wf_id x" "wf_id y" "wf_id z"
  shows "distance x y = distance y x \<and> (distance x y = MIN_ID \<longleftrightarrow> x = y)
    \<and> id_val (distance x z) \<le> id_val (distance x y) + id_val (distance y z)"
proof -
  have "distance x y = MIN_ID \<longleftrightarrow> id_val x XOR id_val y = 0"
    using id_val_inject [of "distance x y" MIN_ID] assms by (simp add: distance_val)
  also have "\<dots> \<longleftrightarrow> id_val x = id_val y"
    using xor.assoc [of "id_val x" "id_val y" "id_val y"] by auto
  also have "\<dots> \<longleftrightarrow> x = y" using id_val_inject assms by simp
  finally have z: "distance x y = MIN_ID \<longleftrightarrow> x = y" .
  have "id_val x XOR id_val z = (id_val x XOR id_val y) XOR (id_val y XOR id_val z)"
    using xor.assoc [of "id_val x" "id_val y" "id_val y"] xor.assoc [of "id_val x XOR id_val y" "id_val y" "id_val z"] by simp
  then have "id_val x XOR id_val z \<le> (id_val x XOR id_val y) + (id_val y XOR id_val z)"
    using xor_le_add by metis
  with z distance_commute assms show ?thesis by (simp add: distance_val)
qed

text \<open>The two branches of a splittable prefix partition the ids it covers, and each has the prefix as its
  parent.\<close>

lemma branches_partition:
  assumes "wf_prefix p" "isSplittable p" "wf_id x"
  shows "(isPrefixOf p x \<longleftrightarrow> (isPrefixOf (splitBranch p False) x \<noteq> isPrefixOf (splitBranch p True) x))
    \<and> (isPrefixOf (splitBranch p h) x \<longrightarrow> isPrefixOf p x) \<and> getParent (splitBranch p h) = p"
  using splitBranch_covers [OF assms] getParent_splitBranch_wf [OF assms(1,2), of h] by (cases h) auto

text \<open>A random id made for a prefix lies under the prefix, whatever was drawn.\<close>

lemma random_id_under_prefix:
  assumes "wf_prefix p" "wf_id rnd"
  shows "isPrefixOf p (createRandomId rnd p) \<and> wf_id (createRandomId rnd p)"
  using createRandomId_covered [OF assms] by blast

text \<open>Printing an id in binary always reads beyond its 32 bytes: the index into the id is the bit number
  divided by three instead of eight.\<close>

lemma toBinaryString_out_of_bounds:
  assumes "wf_id x"
  shows "toBinaryString x = None"
  unfolding toBinaryString_def
  by (rule binary_chars_None [of 255]) (use assms in \<open>simp_all add: wf_id_def\<close>)

text \<open>The order of socket addresses, under which the known nodes are kept, is a strict total order on
  well-formed addresses, and equality of addresses is identity.\<close>

lemma socket_address_order:
  assumes "wf_addr a" "wf_addr b" "wf_addr c"
  shows "\<not> sa_less a a \<and> (sa_less a b \<and> sa_less b c \<longrightarrow> sa_less a c) \<and> (sa_less a b \<or> a = b \<or> sa_less b a)
    \<and> (sa_eq a b \<longleftrightarrow> a = b)"
  using assms sa_key_inj [OF assms(1,2)] by (auto simp: sa_less_key)

section \<open>Messages, values and tokens\<close>

text \<open>A codec for the witnesses: JSON values are countable, so a value can be written as the length of
  the buffer that stands for it.\<close>

instance json :: countable
  by countable_datatype

definition unary_to_cbor :: "json \<Rightarrow> byte list" where
  "unary_to_cbor j = replicate (to_nat j) 0"

definition unary_from_cbor :: "byte list \<Rightarrow> json result" where
  "unary_from_cbor b = Inr (from_nat (length b))"

lemma unary_codec [simp]: "unary_from_cbor (unary_to_cbor j) = Inr j"
  by (simp add: unary_from_cbor_def unary_to_cbor_def)

text \<open>C9: A message of every kind survives the wire up to what the format loses: it serializes without an error, and the receiver
  parses the same transaction id, version and body, but for \<open>received_body\<close>: the nodes of a reply arrive with version 0 and
  without the flow and scope of an IPv6 address, the peers of a reply all have the id of the first one and no private key, and the sequence number of a
  store request arrives modulo 65536. The message has to be well formed: its ids have 32 bytes, its addresses are of a family, its
  numbers fit an \<^verbatim>\<open>int\<close>, its texts are UTF-8 and the URLs of peers are normalised, and a value has the fields of a mutable value or none of
  them. The CBOR codec is assumed to decode what it encodes, for JSON values with 64-bit integers, UTF-8 texts and sorted keys.\<close>

theorem message_survives_wire:
  assumes "wire_message nfc m" "\<forall>j. codec_json nfc j \<longrightarrow> from_cbor (to_cbor j) = Inr j"
  shows "\<exists>buf m'. serialize to_cbor m = Inr buf \<and> message_parse nfc from_cbor buf = Inr m'
    \<and> body m' = received_body (body m) \<and> txid m' = txid m \<and> mversion m' = mversion m"
  using message_roundtrip [OF assms(1), of from_cbor to_cbor] assms(2) by metis

theorem message_survives_wire_witness:
  "\<exists>buf m'. serialize unary_to_cbor (mkMessage (FindNodeRequest (mkFindNodeRequest (sample_id 5) True)) 77) = Inr buf
    \<and> message_parse Some unary_from_cbor buf = Inr m'
    \<and> body m' = FindNodeRequest (mkFindNodeRequest (sample_id 5) True) \<and> txid m' = 77 \<and> mversion m' = 0"
  using message_survives_wire [of Some "mkMessage (FindNodeRequest (mkFindNodeRequest (sample_id 5) True)) 77" unary_from_cbor unary_to_cbor]
  by (simp add: wire_message_def int_range_def mkMessage_def mkFindNodeRequest_def)

text \<open>The value a store request carries is the value it was built from, less the private key, which
  never travels, for immutable, signed and encrypted values alike.\<close>

lemma stored_value_unchanged:
  assumes "wf_value v"
  shows "getValue (mkStoreValueRequest v tok) = Inr (v\<lparr>v_privateKey := None\<rparr>)"
  using getValue_setValue [OF assms, of "default_store\<lparr>sv_token := tok\<rparr>"]
  by (simp add: mkStoreValueRequest_def default_store_def)

text \<open>The peer an announce request carries is the peer it was built from, less the private key,
  when the sender of the request is the origin of the peer; the id of the node travels only for a
  delegated peer and is filled in from the sender otherwise.\<close>

lemma announced_peer_unchanged:
  assumes "length (p_publicKey p) = 32" "length (p_nodeId p) = 32" "length (p_origin p) = 32" "p_port p \<noteq> 0"
    "length (p_signature p) = SIGNATURE_BYTES" "\<forall>u. p_alternativeURL p = Some u \<longrightarrow> normalised nfc u"
  shows "getPeer nfc (p_origin p) (mkAnnouncePeerRequest p tok) = Inr (p\<lparr>p_privateKey := None\<rparr>)"
  using getPeer_setPeer [OF assms(1-5)] assms(6) by blast

text \<open>The sequence number of a store request is read back modulo 65536, so a value that was updated
  more often than that reaches the other node with another sequence number.\<close>

lemma store_sequence_truncated:
  "parse_store_item q ''seq'' (JInt n) = Inr (q\<lparr>vf_sequenceNumber := n mod 65536\<rparr>)"
  by (simp add: parse_store_item_def uint_word_of_int)

text \<open>A signed value is valid and carries the sequence number it was given, and updating a value keeps its
  owner, nonce and recipient, hence its id, raises the sequence number by one and is valid again. The
  signatures are assumed to verify and an encryption of something not to be empty.\<close>

lemma value_update_valid:
  assumes "signed_value sign pub box sk rec nonce seq data = Inr v" "value_update sign pub box v data' = Inr w"
    and "\<forall>m k. verify m (sign m k) (pub k)" "\<forall>d n r k. d \<noteq> [] \<longrightarrow> box d n r k \<noteq> []" "seq < 2 ^ 31 - 1"
  shows "value_isValid verify v \<and> value_isValid verify w \<and> value_getId sha256 w = value_getId sha256 v
    \<and> v_recipient w = v_recipient v \<and> v_sequenceNumber w = v_sequenceNumber v + 1"
proof -
  note f = signed_value_fields [OF assms(1)]
  have "signed_value sign pub box sk rec nonce (int32 (seq + 1)) data' = Inr w"
    using assms(2) f by (simp add: value_update_def split: if_splits)
  moreover have "int32 (seq + 1) = seq + 1" using assms(5) f(4) by (intro int32_id) auto
  ultimately have w: "signed_value sign pub box sk rec nonce (seq + 1) data' = Inr w" by simp
  have "value_isValid verify v" "value_isValid verify w"
    using signed_value_valid [OF assms(1)] signed_value_valid [OF w] assms(3,4) by auto
  with f signed_value_fields [OF w] show ?thesis by (simp add: value_getId_def calculateId_def)
qed

text \<open>C10: A token handed out at \<open>now\<close> is accepted for the same node, address and target for five minutes,
  whatever other requests the token manager serves in the meantime.\<close>

theorem token_valid_five_minutes:
  assumes "timestamp tm \<le> now" "generateToken sha256 now nid addr tid tm = (tok, tm1)"
    and "sorted (now # uses @ [later])" "unat later \<le> unat now + 300000"
  shows "fst (verifyToken sha256 later tok nid addr tid (token_run uses tm1))"
  using assms by (rule token_accepted)

theorem token_valid_five_minutes_witness:
  "fst (verifyToken id 1000300000 (fst (generateToken id 1000000000 (sample_id 1) (sample_addr 1) (sample_id 2) (newTokenManager 5 [1])))
     (sample_id 1) (sample_addr 1) (sample_id 2)
     (token_run [1000200000] (snd (generateToken id 1000000000 (sample_id 1) (sample_addr 1) (sample_id 2) (newTokenManager 5 [1])))))"
  by (rule token_valid_five_minutes [where now = 1000000000 and tm = "newTokenManager 5 [1]"])
    (simp_all add: newTokenManager_def prod.collapse)

section \<open>Remote procedure calls\<close>

text \<open>C11: Whatever calls are made, packets arrive and timers fire, every pending call of the server is
  filed under the non-zero transaction id of its request, waits for its reply, and has a timer that
  fires two or ten seconds after the call was sent, so no call is pending without a time-out.\<close>

theorem pending_calls_have_timers:
  assumes "rpc_reachable s" "calls s t = Some c"
  shows "t \<noteq> 0 \<and> txid (request c) = t \<and> (cstate c = SENT \<or> cstate c = STALLED)
    \<and> (timeoutTimer c = Some (sentTime c + 2000) \<or> timeoutTimer c = Some (sentTime c + 10000))"
  using pending_okD [OF rpc_reachable_pending [OF assms(1)] assms(2)] by (simp add: call_ok_def)

definition sample_call :: RPCCall where
  "sample_call = mkRPCCall 9 \<lparr>nodeId = sample_id 1, sockaddr = sample_addr 1, version = 0\<rparr> None (mkMessage PingRequest 0)"

definition busy_server :: RPCServer where
  "busy_server = fst (sendCall sample_env 5000 sample_call sample_server)"

lemma busy_server_reachable: "rpc_reachable busy_server"
proof -
  have "rpc_reachable sample_server" by (rule rpc_reachable.start) (simp_all add: sample_server_def)
  then show ?thesis unfolding busy_server_def
    by (rule rpc_reachable.sendCall [where es = "fst (snd (sendCall sample_env 5000 sample_call sample_server))"
          and err = "snd (snd (sendCall sample_env 5000 sample_call sample_server))"]) simp
qed

lemmas rpc_sample_defs = sendCall_def alloc_txid_def sample_server_def sample_call_def mkRPCCall_def sendMessage_def Let_def
  and_then_def sendData_def call_sent_def updateState_def mkMessage_def sample_env_def sample_addr_def int32_id

lemma busy_server_calls:
  "\<exists>c. calls busy_server 1 = Some c \<and> sentTime c = 5000 \<and> cstate c = SENT \<and> call_ref c = 9
     \<and> remoteAddr (request c) = sample_addr 1 \<and> targetId c = sample_id 1"
  "hasDht4 busy_server" "startTime busy_server = 0" "calls busy_server 2 = None"
  by (simp_all add: busy_server_def rpc_sample_defs)

theorem pending_calls_have_timers_witness:
  "\<exists>c. calls busy_server 1 = Some c \<and> txid (request c) = 1 \<and> (timeoutTimer c = Some 7000 \<or> timeoutTimer c = Some 15000)"
proof -
  from busy_server_calls(1) obtain c where c: "calls busy_server 1 = Some c" "sentTime c = 5000" by blast
  from pending_calls_have_timers [OF busy_server_reachable c(1)] c show ?thesis by simp
qed

text \<open>C12: When the timer of a pending call fires, the call either stalls, within ten seconds of its
  request, and keeps a timer for the moment the ten seconds are over, or it is over: the call is forgotten, and its
  listeners and the DHT hear of the time-out.\<close>

theorem call_stalls_or_times_out:
  assumes "rpc_reachable s" "calls s t = Some c" "elapsed_ok now c"
  shows "if now - sentTime c < 10000
    then calls (fst (fire_timer now t s)) t = Some (c\<lparr>cstate := STALLED, timeoutTimer := Some (sentTime c + 10000)\<rparr>)
    else calls (fst (fire_timer now t s)) t = None \<and>
         fst (snd (fire_timer now t s)) =
           [CallEvent (call_ref c) (StateChange (cstate c) TIMEOUT), CallEvent (call_ref c) TimeoutHandler, OnTimeout (targetId c)]"
  using fire_timer_outcome [OF rpc_reachable_pending [OF assms(1)] assms(2,3)] .

theorem call_stalls_or_times_out_witness:
  "calls (fst (fire_timer 15000 1 busy_server)) 1 = None \<and> OnTimeout (sample_id 1) \<in> set (fst (snd (fire_timer 15000 1 busy_server)))"
proof -
  from busy_server_calls(1) obtain c where c: "calls busy_server 1 = Some c" "sentTime c = 5000" "targetId c = sample_id 1" by blast
  have "elapsed_ok 15000 c" using c(2) by (simp add: elapsed_ok_def)
  from call_stalls_or_times_out [OF busy_server_reachable c(1) this] c(2,3) show ?thesis by simp
qed

text \<open>A response that comes from the address its request went to completes the pending call: the call
  leaves the table, its listeners see the state change and the response, and the DHT of the family of
  the address receives the message with the call attached, in this order.\<close>

lemma response_completes_call:
  assumes "calls s (txid msg) = Some c" "getType msg = RESPONSE" "sa_eq (remoteAddr (request c)) (morigin msg)"
    "if sa_family (morigin msg) = sa_family (Inet4 [] 0) then hasDht4 s else hasDht6 s"
  shows "dispatch env now msg s =
    (s\<lparr>calls := (calls s)(txid msg := None)\<rparr>,
     [CallEvent (call_ref c) (StateChange (cstate c) RESPONDED), CallEvent (call_ref c) ResponseHandler,
      OnMessage (sa_family (morigin msg) = sa_family (Inet4 [] 0)) (msg\<lparr>associatedCall := Some (call_ref c)\<rparr>)], None)"
  using assms by (rule reply_completes)

definition sample_reply :: "byte \<Rightarrow> int \<Rightarrow> Message" where
  "sample_reply b t = (mkMessage PingResponse t)\<lparr>mid := sample_id b, morigin := sample_addr b\<rparr>"

lemma sample_reply_simps [simp]:
  "txid (sample_reply b t) = t" "body (sample_reply b t) = PingResponse" "morigin (sample_reply b t) = sample_addr b"
  by (simp_all add: sample_reply_def mkMessage_def)



section \<open>Tasks\<close>

text \<open>C14: Whatever happens to a task and whatever replies it gets, each of its listeners is notified exactly
  once, in the order in which they were added: when the task is over, or at once when the listener is
  added after that. Before, none is notified. The number of its calls in flight never exceeds ten, and no two of them are the
  same call. (A run ends where the code has run into undefined behaviour.)\<close>

theorem listeners_notified_once:
  assumes "task_reachable P r"
  shows "notified (emitted r) = (if isTerminal (task r) then listeners (task r) else [])
    \<and> length (inFlight (task r)) \<le> 10 \<and> distinct (map fst (inFlight (task r)))"
  using task_reachable_ok [OF assms] by (simp add: run_ok_def calls_ok_def MAX_CONCURRENT_TASK_REQUESTS_def)

theorem listeners_notified_once_witness:
  "notified (emitted (addListener 8 (cancel 2000 (addListener 7 asked1)))) = [7, 8]"
proof -
  have "task_reachable (\<lambda>_ _. True) (addListener 8 (cancel 2000 (addListener 7 asked1)))"
    by (intro task_reachable.listener task_reachable.cancel asked1_reachable)
  from listeners_notified_once [OF this] cancel_terminal [of 2000 "addListener 7 asked1"] show ?thesis
    using cancel_progress [of "addListener 7 asked1" 2000]
    by (simp add: addListener_fields progress_def isTerminal_def [of "task (addListener 8 _)"] isTerminal_def asked1_def newTask_def)
qed

text \<open>C15: A running task that gets usable replies always has a call in flight, so the time-outs of its calls
  carry it to its end: a node lookup needs no more than responses to lookups, a value or peer lookup needs
  the replies to come from the nodes it asked. The only fault of such a task is undefined behaviour, and it arises only when
  another node answers a lookup whose closest set is full: then \<^verbatim>\<open>ClosestSet::add\<close> reads through an iterator it has erased.\<close>

theorem running_task_has_call:
  assumes "task_reachable answers r"
  shows "(fault r = None \<longrightarrow> taskState (task r) = RUNNING \<longrightarrow> inFlight (task r) \<noteq> [])
    \<and> (\<forall>e. fault r = Some e \<longrightarrow> e = Undefined
         \<and> (\<exists>lt. lookup_of (kind (task r)) = Some lt \<and> length (cs_closest (closestSet lt)) \<ge> cs_capacity (closestSet lt)))"
  using task_reachable_live [OF assms] by (auto simp: run_live_def tail_erased_def cs_reachedCapacity_def)

theorem running_task_has_call_witness: "taskState (task asked1) = RUNNING \<and> inFlight (task asked1) \<noteq> []"
  using running_task_has_call [OF asked1_reachable] by (simp add: asked1_def)

text \<open>C16: A value lookup can be left running with no call in flight, so that nothing will ever finish it: this
  happens when the reply to its last call comes with another id than that of the node it asked.\<close>

theorem value_lookup_can_stall:
  "\<exists>r :: nat Run. task_reachable (\<lambda>_ _. True) r \<and> (\<exists>lt s h. kind (task r) = ValueLookup lt s h) \<and> taskState (task r) = RUNNING
     \<and> inFlight (task r) = [] \<and> fault r = None"
proof -
  note a = asked1_reachable [of "\<lambda>_ _. True"]
  have "event_ok sample_ctx spoofed_call RESPONDED asked1"
    using sample_ctx_ok spoofed_response unfolding event_ok_def by (simp add: asked1_def) blast
  moreover obtain r where r: "callStateChanged sample_ctx spoofed_call RESPONDED asked1 = Some r" "taskState (task r) = RUNNING"
    "inFlight (task r) = []" "fault r = None" "\<exists>lt s h. kind (task r) = ValueLookup lt s h" using sample_stall by blast
  ultimately have "task_reachable (\<lambda>_ _. True) r" by (intro task_reachable.event [OF a _ _ _ r(1)]) (auto simp: asked1_def)
  with r show ?thesis by blast
qed

text \<open>\<^verbatim>\<open>dequeue\<close> returns. It starts tasks in the order of the queue and leaves a task queued only when more
  than sixteen tasks are running, and it never lets more than seventeen run.\<close>

lemma dequeue_starts_tasks:
  assumes "tm_inv s" "\<not> canceling s" "length (running s) \<le> MAX_ACTIVE_TASKS + 1"
  shows "\<exists>s'. dequeue ctx s = Some s' \<and> tm_inv s' \<and> (\<exists>n. queued s' = drop n (queued s))
    \<and> (queued s' \<noteq> [] \<longrightarrow> length (running s') = MAX_ACTIVE_TASKS + 1) \<and> length (running s') \<le> MAX_ACTIVE_TASKS + 1
    \<and> (\<forall>i\<in>set (queued s) - set (queued s'). \<exists>t. tasks s' i = Some t \<and> taskState t \<notin> {INITIAL, QUEUED})"
proof -
  from dequeue_returns [OF assms(1), of ctx] obtain s' where "dequeue ctx s = Some s'" "dequeued s s'" by blast
  with assms(2,3) show ?thesis by (intro exI [of _ s']) (auto simp: dequeued_def canStartTask_def)
qed

text \<open>\<^verbatim>\<open>cancelAll\<close> returns, also for tasks with nested tasks, and every running or queued task is over
  afterwards.\<close>

lemma cancelAll_ends_tasks:
  assumes "nested_ok s n" "i \<in> set (running s @ queued s)" "tasks s i = Some t"
  shows "\<exists>s' t'. cancelAll now s = Some s' \<and> tasks s' i = Some t' \<and> isTerminal t' \<and> \<not> canceling s'"
  using cancelAll_returns [OF assms(1), of now] assms(2,3) by blast

section \<open>Storage\<close>

text \<open>C17: From an empty store, whatever values and peers are put, announced, removed or expired, and however
  often SQLite fails on the way, no two rows have the same key and every row can be read back: the value it
  holds has the id it is filed under. (The URL of a peer is one that can be normalised, which every \<^verbatim>\<open>PeerInfo\<close> has that the code makes.)\<close>

theorem storage_wellformed:
  assumes "(storage_step nfc sha256 verify)\<^sup>*\<^sup>* db db'" "valores db = []" "peersTable db = []" "nfc_ok nfc"
  shows "distinct (map vr_id (valores db')) \<and> (\<forall>r\<in>set (valores db'). \<exists>v. value_of_row r = Inr v \<and> vr_id r = value_getId sha256 v)
    \<and> distinct (map peer_key (peersTable db'))
    \<and> (\<forall>r\<in>set (peersTable db'). \<exists>p. peer_of_row nfc (pr_id r) (pr_origin r) r = Inr p \<and> pr_id r = p_publicKey p)"
proof -
  have "wf_storage nfc sha256 db" using assms(2,3) by (simp add: wf_storage_def)
  with assms(1) have "wf_storage nfc sha256 db'" by (induction rule: rtranclp_induct) (auto intro: storage_step_wf)
  then show ?thesis using wf_peer_row_decodes [OF _ assms(4)] by (fastforce simp: wf_storage_def wf_value_row_def peer_key_def)
qed

lemma sample_put: "\<exists>db'. db_putPeer sample_sqlite 5000 sample_peer False False sample_storage = Inr db' \<and> peersTable db' \<noteq> []"
  by (simp add: db_putPeer_def sample_sqlite_def sample_storage_def upsert_peer_def)

lemma sample_peer_wf [simp]: "wf_peer Some sample_peer" "plain_url Some sample_peer"
  by (simp_all add: wf_peer_def plain_url_def sample_peer_def SIGNATURE_BYTES_def normalised_def)

theorem storage_wellformed_witness:
  "\<exists>db' :: Storage. peersTable db' \<noteq> [] \<and> (\<forall>r\<in>set (peersTable db'). \<exists>p. peer_of_row Some (pr_id r) (pr_origin r) r = Inr p)"
proof -
  obtain db' where db': "db_putPeer sample_sqlite 5000 sample_peer False False sample_storage = Inr db'" "peersTable db' \<noteq> []"
    using sample_put by blast
  then have "(storage_step Some id (\<lambda>_ _ _. True))\<^sup>*\<^sup>* sample_storage db'"
    using storage_step.put_peer [OF sample_peer_wf(1) db'(1)] by blast
  from storage_wellformed [OF this] have "\<forall>r\<in>set (peersTable db'). \<exists>p. peer_of_row Some (pr_id r) (pr_origin r) r = Inr p"
    by (auto simp: sample_storage_def)
  with db'(2) show ?thesis by blast
qed

text \<open>C18: As long as SQLite reports no failure the store of values is a map from ids to values with the time they were
  stored: a value is returned for two hours, a put is refused exactly when the value is not valid or would
  replace a living mutable value by an immutable one, by one with a smaller sequence number, by one without the
  private key that the old one has, or against the expected sequence number; a put, an announce, a removal and an expiry change
  the map as the specification says, and a refused put changes nothing.\<close>

theorem storage_refines_map:
  assumes "healthy sql" "wf_storage nfc sha256 db" "wf_value v" "v_sequenceNumber v < 2 ^ 31"
  shows "db_getValue sql now i db = Inr (spec_get now i (vmap db))
    \<and> (if spec_accepts sha256 verify now v expectedSeq (vmap db)
       then \<exists>db'. db_putValue sha256 verify sql now v expectedSeq persistent ann db = Inr (db', spec_get now (value_getId sha256 v) (vmap db))
         \<and> vmap db' = spec_put sha256 now v persistent ann (vmap db) \<and> peersTable db' = peersTable db
       else \<exists>msg. db_putValue sha256 verify sql now v expectedSeq persistent ann db = Inl (InvalidArgument msg))
    \<and> (\<exists>db'. db_updateValueLastAnnounce sql now i db = Inr db' \<and> vmap db' = spec_announce now i (vmap db))
    \<and> (\<exists>db'. db_removeValue sql i db = Inr (db', vmap db i \<noteq> None) \<and> vmap db' = (vmap db)(i := None))
    \<and> (\<exists>db'. expire sql now db = (db', None) \<and> vmap db' = spec_expire now (vmap db))"
  using getValue_refines [OF assms(1,2)] putValue_refines [OF assms] announce_refines [OF assms(1)]
    remove_refines [OF assms(1,2)] expire_refines [OF assms(1,2)] by (intro conjI) blast+

lemma sample_value_wf [simp]: "wf_value sample_value" "v_sequenceNumber sample_value < 2 ^ 31"
  by (simp_all add: wf_value_def sample_value_def Value_default_def NONCE_BYTES_def SIGNATURE_BYTES_def)

theorem storage_refines_map_witness:
  "db_getValue sample_sqlite 9000000 (sample_id 1) sample_storage = Inr None
    \<and> (\<exists>db' :: Storage. db_removeValue sample_sqlite (sample_id 1) sample_storage = Inr (db', False))"
proof -
  have empty: "vmap sample_storage (sample_id 1) = None" by (simp add: vmap_def sample_storage_def)
  note refined = storage_refines_map [OF sample_healthy sample_storage_wf sample_value_wf,
      where now = 9000000 and i = "sample_id 1" and verify = "\<lambda>_ _ _. True" and expectedSeq = 0 and persistent = False and ann = False]
  have "db_getValue sample_sqlite 9000000 (sample_id 1) sample_storage = Inr None"
    using conjunct1 [OF refined] by (simp only: spec_get_def empty option.case)
  moreover have "\<exists>db' :: Storage. db_removeValue sample_sqlite (sample_id 1) sample_storage = Inr (db', vmap sample_storage (sample_id 1) \<noteq> None)"
    using conjunct1 [OF conjunct2 [OF conjunct2 [OF conjunct2 [OF refined]]]] by blast
  ultimately show ?thesis by (simp add: empty)
qed

text \<open>For two hours after a peer was announced every unlimited query for its id returns it, unchanged, whatever the order in
  which SQLite visits the rows; all the peers returned have that id, and a query with a limit returns no more
  than the limit.\<close>

lemma announced_peer_found:
  assumes "healthy sql" "wf_storage nfc sha256 db" "wf_peer nfc p" "plain_url nfc p" and nfc: "nfc_ok nfc"
    and "MAX_PEER_AGE \<le> now'" "now' < 2 ^ 63" "now \<le> now'" "now' - now \<le> MAX_PEER_AGE"
    and "length (peersTable db) < 2 ^ 30" "0 < limit"
  shows "\<exists>db' ps qs. db_putPeer sql now p persistent ann db = Inr db'
    \<and> db_getPeers nfc sql now' (p_publicKey p) 0 db' = Inr ps \<and> p \<in> set ps \<and> (\<forall>x\<in>set ps. p_publicKey x = p_publicKey p)
    \<and> db_getPeers nfc sql now' (p_publicKey p) limit db' = Inr qs \<and> int (length qs) \<le> limit"
proof -
  let ?i = "p_publicKey p" and ?r = "mkPeerRow now p persistent ann"
  let ?db = "db\<lparr>peersTable := upsert_peer ?r (peersTable db)\<rparr>"
  have put: "db_putPeer sql now p persistent ann db = Inr ?db" by (simp add: db_putPeer_def assms(1))
  have wf: "wf_storage nfc sha256 ?db" by (rule wf_put_peer [OF assms(2,3)])
  have "bind_int64 (now' - MAX_PEER_AGE) \<le> bind_int64 now"
    using age_compare [OF assms(6-8)] assms(9) by (simp add: bind_int64_def)
  then have row: "?r \<in> set (fresh_peers now' ?i ?db)"
    by (auto simp: fresh_peers_def mkPeerRow_def upsert_peer_def)
  have "length (fresh_peers now' ?i ?db) \<le> length (peersTable ?db)" by (simp add: fresh_peers_def)
  also have "\<dots> \<le> Suc (length (peersTable db))" by (simp add: upsert_peer_def)
  finally have len: "length (fresh_peers now' ?i ?db) \<le> nat 0x7fffffff" using assms(10) by simp
  note all = getPeers_rows [OF assms(1) wf nfc, where i = ?i and now = now']
  obtain ps rs where ps: "db_getPeers nfc sql now' ?i 0 ?db = Inr ps"
    "rs = take (nat 0x7fffffff) (peer_order sql (fresh_peers now' ?i ?db))"
    "list_all2 (\<lambda>r p. peer_of_row nfc ?i (pr_origin r) r = Inr p \<and> wf_peer nfc p \<and> peer_key r = (p_publicKey p, p_nodeId p, p_origin p)) rs ps"
    by (rule all [of 0]) simp
  obtain qs ss where qs: "db_getPeers nfc sql now' ?i limit ?db = Inr qs"
    "ss = take (nat limit) (peer_order sql (fresh_peers now' ?i ?db))"
    "list_all2 (\<lambda>r p. peer_of_row nfc ?i (pr_origin r) r = Inr p \<and> wf_peer nfc p \<and> peer_key r = (p_publicKey p, p_nodeId p, p_origin p)) ss qs"
    by (rule all [of limit]) (use assms(11) in simp)
  have m: "mset (peer_order sql (fresh_peers now' ?i ?db)) = mset (fresh_peers now' ?i ?db)" using assms(1) by simp
  then have "length (peer_order sql (fresh_peers now' ?i ?db)) \<le> nat 0x7fffffff" using len mset_eq_length [OF m] by simp
  then have rs: "set rs = set (fresh_peers now' ?i ?db)" using ps(2) mset_eq_setD [OF m] by simp
  have "peer_of_row nfc ?i (pr_origin ?r) ?r = Inr p"
    using peer_of_row_mk [OF assms(3,4), of "p_origin p" now persistent ann] assms(3) by (simp add: mkPeerRow_def wf_peer_def)
  then have "p \<in> set ps" using list_all2_members(1) [OF ps(3), of ?r] row rs by auto
  moreover have "p_publicKey x = ?i" if "x \<in> set ps" for x
  proof -
    from list_all2_members(2) [OF ps(3) that] obtain r where "r \<in> set rs" "peer_key r = (p_publicKey x, p_nodeId x, p_origin x)"
      by blast
    then show ?thesis using rs by (auto simp: fresh_peers_def peer_key_def)
  qed
  moreover have "int (length qs) \<le> limit" using list_all2_lengthD [OF qs(3)] qs(2) assms(11) by simp
  ultimately show ?thesis using put ps(1) qs(1) by blast
qed

section \<open>Messages at the DHT\<close>

text \<open>C19: Whatever well-formed message arrives, request or reply, solicited or not, the DHT handles it without undefined
  behaviour and stays consistent: the routing table keeps its invariant, the stored rows stay readable, every pending call keeps
  its timer, and the task queues stay consistent. A request must not ask for nodes of an address family whose DHT does not exist, the
  sequence number of a value must fit an \<^verbatim>\<open>int\<close>, and the URL of an announced peer must be text that \<^verbatim>\<open>utf8proc_NFC\<close> can normalise: each of these is
  undefined otherwise. The libraries are assumed to work as documented: normalising is idempotent, and SQLite returns rows of the table.
  (The cast of bootstrap nodes to bucket entries in \<^verbatim>\<open>KClosestNodes::fill\<close> is taken to give a pointer of which only the members of
  \<^verbatim>\<open>NodeInfo\<close> are read.)\<close>

theorem message_handled_safely:
  assumes "world_ok cfg w" "config_ok cfg" "libraries_ok (unf_nfc cfg) (sqlite cfg)"
    and "wf_id (mid msg)" "wf_addr (morigin msg)" "wf_request cfg w (body msg)"
  shows "\<exists>w' err. onMessage cfg now msg call w = (w', err) \<and> world_ok cfg w' \<and> err \<noteq> Some Undefined
    \<and> rt_inv (rtable (dht w')) \<and> wf_storage (unf_nfc cfg) (sha_256 cfg) (storage w') \<and> pending_ok (server w') \<and> tm_inv (taskMan w')"
  using onMessage_ok [OF assms, of now call]
  by (cases "onMessage cfg now msg call w") (auto simp: step_ok_def world_ok_def table_ok_def)

theorem message_handled_safely_witness:
  "\<exists>w' err. onMessage sample_config 9000000 (sample_message 3 3 PingRequest) None sample_world = (w', err) \<and> err \<noteq> Some Undefined"
  using message_handled_safely [of sample_config sample_world "sample_message 3 3 PingRequest" 9000000 None]
  by (auto simp: wf_request_def)

text \<open>C20: As long as the socket takes what is sent, a request that is handled without an exception gets exactly one answer, a response or an error message to its
  sender under its transaction id and of its method; only an announce from an address that cannot be reached gets none.\<close>

theorem request_answered_once:
  assumes "sends cfg w msg" "getType msg = REQUEST" "onRequest cfg now msg w = (w', None)"
    and "getMethod msg = ANNOUNCE_PEER \<longrightarrow> isBogon (morigin msg) = Some False"
  shows "\<exists>m. out w' = out w @ [Datagram m] \<and> txid m = txid msg \<and> remoteId m = mid msg \<and> remoteAddr m = morigin msg
    \<and> getType m \<noteq> REQUEST \<and> getMethod m = getMethod msg \<and> dht w' = dht w"
proof -
  from onRequest_answered [OF assms] obtain w1 b where b: "touched w w1" "w' = w1\<lparr>out := out w @ [Datagram (answer cfg w msg b)]\<rparr>"
    "body_type b \<noteq> REQUEST" "body_method b = getMethod msg" by (auto simp: answered_def)
  moreover have "dht w1 = dht w" using b(1) by (cases w; cases w1) (simp add: touched_def)
  ultimately show ?thesis by (intro exI [of _ "answer cfg w msg b"]) (simp add: answer_def mkMessage_def)
qed

theorem request_answered_once_witness:
  "\<exists>w' m. onRequest sample_config 9000000 (sample_message 3 3 PingRequest) sample_world = (w', None) \<and> out w' = [Datagram m] \<and> txid m = 7"
proof -
  let ?msg = "sample_message 3 3 PingRequest"
  have r: "onRequest sample_config 9000000 ?msg sample_world
      = (sample_world\<lparr>out := out sample_world @ [Datagram (answer sample_config sample_world ?msg PingResponse)]\<rparr>, None)"
    by (simp add: onRequest_def onPing_def reply_sent)
  have o: "out sample_world = []" by (simp add: sample_world_def)
  from request_answered_once [OF sample_sends _ r] show ?thesis unfolding r by (simp add: o)
qed

text \<open>C21: A message changes the store only in two ways: a store request that carries a token this node gave to its sender for the
  id of the value, and whose value is valid, puts that value; an announce with such a token for the id of the peer puts that peer. The
  signature of the peer is not among the conditions.\<close>

theorem store_guarded_by_token:
  assumes "storage (fst (onMessage cfg now msg call w)) \<noteq> storage w"
  shows "(\<exists>q v old. body msg = StoreRequest q \<and> getValue q = Inr v \<and> value_isValid (verify_sign cfg) v
      \<and> fst (verifyToken (sha_256 cfg) now (sv_token q) (mid msg) (morigin msg) (value_getId (sha_256 cfg) v) (tokenMan w))
      \<and> db_putValue (sha_256 cfg) (verify_sign cfg) (sqlite cfg) now v (expectedSequenceNumber q) False False (storage w)
        = Inr (storage (fst (onMessage cfg now msg call w)), old))
    \<or> (\<exists>q p. body msg = AnnounceRequest q \<and> getPeer (unf_nfc cfg) (mid msg) q = Inr p
      \<and> fst (verifyToken (sha_256 cfg) now (ap_token q) (mid msg) (morigin msg) (ap_peerId q) (tokenMan w))
      \<and> db_putPeer (sqlite cfg) now p False False (storage w) = Inr (storage (fst (onMessage cfg now msg call w))))"
proof -
  let ?s = "storage (fst (onMessage cfg now msg call w))"
  have s: "?s = storage (fst (onRequest cfg now msg w))" using onMessage_storage assms by metis
  show ?thesis
  proof (cases "body msg")
    case (StoreRequest q)
    then have "?s = storage (fst (onStoreValue cfg now msg q w))" using s by (simp add: onRequest_def)
    with onStoreValue_storage [of cfg now msg q w] assms StoreRequest show ?thesis by (intro disjI1) auto
  next
    case (AnnounceRequest q)
    then have "?s = storage (fst (onAnnouncePeer cfg now msg q w))" using s by (simp add: onRequest_def)
    with onAnnouncePeer_storage [of cfg now msg q w] assms AnnounceRequest show ?thesis by (intro disjI2) auto
  qed (use s assms in \<open>simp_all add: onRequest_def onPing_def lookup_storage\<close>)
qed

text \<open>The store request that the samples use: the token is the one the sample hash gives.\<close>

definition sample_store :: StoreValueRequest where
  "sample_store = mkStoreValueRequest sample_value 0"

lemma sample_store_simps:
  "getValue sample_store = Inr sample_value" "sv_token sample_store = 0" "expectedSequenceNumber sample_store = -1"
  "vf_sequenceNumber sample_store < 2 ^ 31"
  using getValue_setValue [of sample_value "default_store\<lparr>sv_token := 0\<rparr>"]
  by (simp_all add: sample_store_def mkStoreValueRequest_def setValue_def default_store_def sample_value_def Value_default_def
      isMutable_def isEncrypted_def wf_value_def NONCE_BYTES_def SIGNATURE_BYTES_def)

lemma sample_token: "fst (verifyToken (sha_256 sample_config) now 0 i a t tm)"
  by (simp add: verifyToken_def generateTokenAt_def token_of_digest_def sample_config_def Let_def)

lemma sample_stored:
  obtains w' db where "onRequest sample_config 9000000 (sample_message 3 3 (StoreRequest sample_store)) sample_world = (w', None)"
    "storage w' = db" "valores db \<noteq> []"
    "db_putValue (sha_256 sample_config) (verify_sign sample_config) (sqlite sample_config) 9000000 sample_value (-1) False False
      (storage sample_world) = Inr (db, None)"
proof -
  have s: "storage sample_world = sample_storage" "sqlite sample_config = sample_sqlite" by (simp_all add: sample_world_def sample_config_def)
  have "spec_accepts (sha_256 sample_config) (verify_sign sample_config) 9000000 sample_value (-1) (vmap sample_storage)"
    by (simp add: spec_accepts_def spec_get_def vmap_def sample_storage_def sample_value_def value_isValid_def sample_config_def
        Value_default_def)
  then obtain db where db: "db_putValue (sha_256 sample_config) (verify_sign sample_config) (sqlite sample_config) 9000000 sample_value (-1) False False
      (storage sample_world) = Inr (db, None)"
    "vmap db = spec_put (sha_256 sample_config) 9000000 sample_value False False (vmap sample_storage)"
    using putValue_refines [OF sample_healthy sample_storage_wf sample_value_wf, of "sha_256 sample_config" "verify_sign sample_config" 9000000 "-1" False False]
    by (auto simp: s spec_get_def vmap_def sample_storage_def)
  have "vmap db (value_getId (sha_256 sample_config) sample_value) \<noteq> None" by (simp add: db(2) spec_put_def Let_def)
  then have "valores db \<noteq> []" by (auto simp: vmap_def)
  moreover have valid: "value_isValid (verify_sign sample_config) sample_value"
    by (simp add: sample_value_def value_isValid_def sample_config_def Value_default_def)
  note stored = onStoreValue_stored [OF sample_sends sample_store_simps(1) _ valid, of 9000000 _ _ _ db None]
  obtain w' where "onStoreValue sample_config 9000000 (sample_message 3 3 (StoreRequest sample_store)) sample_store sample_world = (w', None)" "storage w' = db"
    by (rule stored [of 3 3 "StoreRequest sample_store"]) (use db(1) in \<open>simp_all add: sample_store_simps sample_token\<close>)
  ultimately show thesis using db(1) by (intro that) (simp_all add: onRequest_def)
qed

theorem store_guarded_by_token_witness:
  "\<exists>old. db_putValue (sha_256 sample_config) (verify_sign sample_config) (sqlite sample_config) 9000000 sample_value (-1) False False
     (storage sample_world) = Inr (storage (fst (onMessage sample_config 9000000 (sample_message 3 3 (StoreRequest sample_store)) None sample_world)), old)"
proof -
  let ?msg = "sample_message 3 3 (StoreRequest sample_store)"
  obtain w' db where w': "onRequest sample_config 9000000 ?msg sample_world = (w', None)" "storage w' = db" "valores db \<noteq> []"
    by (rule sample_stored)
  have ne: "\<not> id_eq MIN_ID (sample_id 3)" "\<not> sa_eq (sample_addr 9) (sample_addr 3)" by (simp_all add: sample_id_MIN)
  have "storage (fst (onMessage sample_config 9000000 ?msg None sample_world)) = db"
    using w'(1,2) ne by (simp add: onMessage_def sample_world_def sample_dht_def fst_proceed received_storage)
  moreover have "valores (storage sample_world) = []" by (simp add: sample_world_def sample_storage_def)
  ultimately have "storage (fst (onMessage sample_config 9000000 ?msg None sample_world)) \<noteq> storage sample_world" using w'(3) by auto
  from store_guarded_by_token [OF this] show ?thesis by (auto simp: sample_store_simps)
qed

text \<open>C22: What a node was asked to store it gives back: after a store request with a valid token for a valid value that the store accepts,
  a find-value request for its id within two hours, unless it asks for a greater sequence number, is answered, in one datagram, with that value.
  (SQLite reports no failure and the socket takes what is sent.)\<close>

theorem stored_value_found:
  assumes "world_ok cfg w" "healthy (sqlite cfg)" "sends cfg w msg" "body msg = StoreRequest q" "getValue q = Inr v"
    and "vf_sequenceNumber q < 2 ^ 31" "value_isValid (verify_sign cfg) v"
    and "fst (verifyToken (sha_256 cfg) now (sv_token q) (mid msg) (morigin msg) (value_getId (sha_256 cfg) v) (tokenMan w))"
    and "spec_accepts (sha_256 cfg) (verify_sign cfg) now v (expectedSequenceNumber q) (vmap (storage w))"
    and "body msg' = FindValueRequest q' seq" "lq_target q' = value_getId (sha_256 cfg) v" "seq < 0 \<or> seq \<le> v_sequenceNumber v"
    and "sends cfg w msg'" "MAX_VALUE_AGE \<le> now'" "now' < 2 ^ 63" "now \<le> now'" "now' - now \<le> MAX_VALUE_AGE"
  shows "\<exists>w1 w2 m r f. onRequest cfg now msg w = (w1, None) \<and> onRequest cfg now' msg' w1 = (w2, None)
    \<and> out w2 = out w1 @ [Datagram m] \<and> txid m = txid msg' \<and> remoteAddr m = morigin msg'
    \<and> body m = FindValueResponse r f \<and> getValue f = Inr v"
proof -
  note v = getValue_bound [OF assms(5,6)]
  have wf: "wf_storage (unf_nfc cfg) (sha_256 cfg) (storage w)" using assms(1) by (simp add: world_ok_def)
  obtain db where db: "db_putValue (sha_256 cfg) (verify_sign cfg) (sqlite cfg) now v (expectedSequenceNumber q) False False (storage w)
      = Inr (db, spec_get now (value_getId (sha_256 cfg) v) (vmap (storage w)))"
    using putValue_refines [OF assms(2) wf conjunct1 [OF v] conjunct2 [OF v], of "verify_sign cfg" now "expectedSequenceNumber q" False False]
      assms(9) by auto
  note get = get_after_put [OF assms(2) wf conjunct1 [OF v] conjunct2 [OF v] db assms(14-17)]
  obtain w1 where w1: "onStoreValue cfg now msg q w = (w1, None)" "storage w1 = db" "server w1 = server w"
    by (rule onStoreValue_stored [OF assms(3,5,8,7) db])
  have s: "sends cfg w1 msg'" using assms(13) w1(3) by (simp add: sends_def)
  have g: "db_getValue (sqlite cfg) now' (lq_target q') (storage w1) = Inr (Some v)" using get w1(2) assms(11) by simp
  obtain w2 tok where w2: "onFindValue cfg now' msg' q' seq w1 = (w2, None)"
    "out w2 = out w1 @ [Datagram (answer cfg w1 msg' (FindValueResponse (default_response\<lparr>ltoken := tok\<rparr>) (setValue v default_fields)))]"
    by (rule onFindValue_found [OF s g assms(12)])
  have "v_privateKey v = None"
    using assms(5) by (auto simp: getValue_def Value_of_def mk_mutable_def Value_default_def split: if_splits)
  then have "getValue (setValue v default_fields) = Inr v"
    using getValue_setValue [OF conjunct1 [OF v], of default_fields] by (simp add: default_fields_def)
  then show ?thesis
    using w1(1) w2 assms(4,10)
    by (intro exI [of _ w1] exI [of _ w2] exI [of _ "answer cfg w1 msg' (FindValueResponse (default_response\<lparr>ltoken := tok\<rparr>) (setValue v default_fields))"])
      (simp add: onRequest_def answer_def mkMessage_def)
qed

theorem stored_value_found_witness:
  "\<exists>w1 w2 m r f. onRequest sample_config 9000000 (sample_message 3 3 (StoreRequest sample_store)) sample_world = (w1, None)
    \<and> onRequest sample_config 9000001 (sample_message 4 4 (FindValueRequest (mkFindValueRequest (replicate 32 0)) (-1))) w1 = (w2, None)
    \<and> out w2 = out w1 @ [Datagram m] \<and> body m = FindValueResponse r f \<and> getValue f = Inr sample_value"
proof -
  have h: "healthy (sqlite sample_config)" by (simp add: sample_config_def)
  have acc: "spec_accepts (sha_256 sample_config) (verify_sign sample_config) 9000000 sample_value (expectedSequenceNumber sample_store) (vmap (storage sample_world))"
    by (simp add: spec_accepts_def spec_get_def vmap_def sample_world_def sample_storage_def sample_value_def value_isValid_def sample_config_def
        Value_default_def)
  have valid: "value_isValid (verify_sign sample_config) sample_value"
    by (simp add: sample_value_def value_isValid_def sample_config_def Value_default_def)
  have i: "value_getId (sha_256 sample_config) sample_value = replicate 32 0"
    by (simp add: value_getId_def calculateId_def sample_value_def sample_config_def Value_default_def)
  let ?find = "FindValueRequest (mkFindValueRequest (replicate 32 0)) (-1)"
  note found = stored_value_found [OF sample_world_ok(1) h sample_sends [of 3 3 "StoreRequest sample_store"] _ sample_store_simps(1,4) valid _ acc
      _ _ _ sample_sends [of 4 4 ?find], of "mkFindValueRequest (replicate 32 0)" "-1" 9000001]
  have "\<exists>w1 w2 m r f. onRequest sample_config 9000000 (sample_message 3 3 (StoreRequest sample_store)) sample_world = (w1, None)
    \<and> onRequest sample_config 9000001 (sample_message 4 4 ?find) w1 = (w2, None)
    \<and> out w2 = out w1 @ [Datagram m] \<and> txid m = txid (sample_message 4 4 ?find) \<and> remoteAddr m = morigin (sample_message 4 4 ?find)
    \<and> body m = FindValueResponse r f \<and> getValue f = Inr sample_value"
    by (rule found) (simp_all add: sample_store_simps(2) sample_token i mkFindValueRequest_def MAX_VALUE_AGE_def)
  then show ?thesis by blast
qed

text \<open>C23: A node that appears at the address of a node in the routing table under another id is not let into the table: the old entry is
  removed, no entry comes in, and the address is remembered under the new id.\<close>

theorem id_change_evicts:
  assumes "world_ok cfg w" "wf_id (mid msg)" "isBogon (morigin msg) = Some False"
    and "call = None \<or> (\<exists>c. call = Some c \<and> matchesAddress c = Some True \<and> matchesId c = Some True)"
    and "getEntry (rtable (dht w)) (mid msg) = Some None"
    and "known_find (morigin msg) (knownNodes (dht w)) = Some k" "\<not> id_eq k (mid msg)" "getEntry (rtable (dht w)) k = Some (Some e)"
  shows "\<exists>w'. received cfg now msg call w = (w', None) \<and> (\<forall>x\<in>set (rt_entries (rtable (dht w'))). nodeId x \<noteq> k)
    \<and> no_new (rtable (dht w)) (rtable (dht w')) \<and> known_find (morigin msg) (knownNodes (dht w')) = Some (mid msg)"
proof -
  have k: "wf_id k" by (rule known_find_wf [OF known_ids [OF assms(1)] assms(6)])
  have inv: "rt_inv (rtable (dht w))" using assms(1) by (simp add: world_ok_def table_ok_def)
  obtain rt1 where rt1: "rt_remove now k (rtable (dht w)) = Some rt1" "rt_inv rt1" "no_new (rtable (dht w)) rt1"
    using table_steps(3) [OF k] inv unfolding table_step_def by blast
  obtain b where b: "getBucket rt1 k = Some b" using getBucket_covers [OF rt1(2) k] by metis
  obtain rt2 t where rt2: "tryPingMaintenance now b [CheckAll] rt1 = (rt2, t)" by (cases "tryPingMaintenance now b [CheckAll] rt1")
  have same: "rt_entries rt2 = rt_entries rt1" by (rule tryPingMaintenance_entries [OF rt2])
  let ?w1 = "w\<lparr>dht := (dht w)\<lparr>rtable := rt2\<rparr>\<rparr>"
  let ?w2 = "case t of None \<Rightarrow> ?w1 | Some p \<Rightarrow> submit (PingRefresh p) [MaintenanceDone (bref b)] ?w1"
  have d: "dht ?w2 = (dht w)\<lparr>rtable := rt2\<rparr>" by (simp add: submit_def Let_def split: option.split)
  have "received cfg now msg call w = (on_known (known_set (morigin msg) (mid msg)) ?w2, None)"
    using assms(3-8) by (auto simp: received_def proceed_def on_table_def rt1(1) ping_bucket_def b rt2 Let_def split: option.split)
  moreover have "\<forall>x\<in>set (rt_entries rt2). nodeId x \<noteq> k" using rt_remove_gone [OF inv k rt1(1)] same by simp
  moreover have "no_new (rtable (dht w)) rt2" using rt1(3) same by (simp add: no_new_def)
  ultimately show ?thesis using known_find_set [OF assms(6)] by (simp add: on_known_def d)
qed

theorem id_change_evicts_witness:
  "\<exists>w'. received sample_config 9000000 (sample_message 3 1 PingRequest) None sample_world = (w', None)
    \<and> (\<forall>x\<in>set (rt_entries (rtable (dht w'))). nodeId x \<noteq> sample_id 1)"
proof -
  have "getBucket sample_table (sample_id c) = Some sample_bucket" for c
    by (rule getBucket_covers [OF sample_table_inv wf_sample(1), of c]) simp
  then have t: "getEntry sample_table (sample_id 3) = Some None" "getEntry sample_table (sample_id 1) = Some (Some (sample_entry 1 1))"
    by (simp_all add: getEntry_def bucket_get_def findAny_def del: One_nat_def)
  have kf: "known_find (sample_addr 1) (knownNodes (dht sample_world)) = Some (sample_id 1)"
    by (simp add: sample_world_def sample_dht_def known_find_def same_addr_def sa_cmp.lt_key)
  have r: "rtable (dht sample_world) = sample_table" by (simp add: sample_world_def sample_dht_def)
  show ?thesis
    using id_change_evicts [OF sample_world_ok(1), of "sample_message 3 1 PingRequest" None "sample_id 1" "sample_entry 1 1" 9000000]
    by (simp add: r t kf del: One_nat_def) blast
qed

text \<open>A node that runs a DHT for one address family only dereferences a null pointer when any other node
  asks it for the closest nodes of the other family: one datagram with a find-node request ends the process.\<close>

lemma missing_family_crashes:
  assumes "drunning (dht w)" "otherDht w = None" "body msg = FindNodeRequest q" "if dtype4 (dht w) then want6 q else want4 q"
    and "\<not> id_eq (dnode (dht w)) (mid msg)" "\<not> sa_eq (daddr (dht w)) (morigin msg)"
  shows "onMessage cfg now msg call w = (w, Some Undefined)"
  using missing_family_undefined [OF assms(2,4)] assms(1,3,5,6)
  by (simp add: onMessage_def onRequest_def onFindNode_def populated_def proceed_def)

section \<open>The DHT on its own\<close>

text \<open>C24: The periodic update of the DHT, a bootstrap and a new bootstrap node leave the node well formed and are always defined:
  the routing table keeps its invariant, calls keep their timers and tasks their queues.\<close>

theorem periodic_update_safe:
  assumes "world_ok cfg w" "config_ok cfg" "boot_ok w" "wf_id (nodeId ni)"
  shows "step_ok cfg w (update_dht cfg now rnd w) \<and> step_ok cfg w (dht_bootstrap cfg now rnd w)
    \<and> step_ok cfg w (bootstrap_node cfg now rnd ni w)"
  using update_dht_ok [OF assms(1-3)] dht_bootstrap_ok [OF assms(1-3)] bootstrap_node_ok [OF assms] by blast

theorem periodic_update_safe_witness:
  "snd (update_dht sample_config 9000000 (\<lambda>_. sample_id 7) sample_world) \<noteq> Some Undefined"
  using periodic_update_safe [OF sample_world_ok, of "\<lparr>nodeId = sample_id 5, sockaddr = sample_addr 5, version = 0\<rparr>" 9000000 "\<lambda>_. sample_id 7"]
  by (simp add: boot_ok_def sample_world_def sample_dht_def step_ok_def)

text \<open>C25: A bootstrap round that starts makes one call to every bootstrap node, in their order: the call is pending, its request for
  nodes is addressed to that node and was given to the socket. No other round starts while answers are collected. When the last of its calls has been
  answered, failed or timed out, the round ends: with the lookup of the own id, which starts from all the nodes that were
  returned and whose listener ends the bootstrap, or at once when there is no node to start from.\<close>

theorem bootstrap_fills_home_bucket:
  assumes "dht_bootstrap cfg now0 rnd w = (w1, None)" "w1 \<noteq> w"
    and "int (ended_events evs) + 1 = rlen (boot_round w1)" "ended st"
  shows "(\<exists>cs. asks cfg (bootstrapNodes (dht w)) cs w1 \<and> map call_ref cs = rcalls (boot_round w1))
    \<and> (\<forall>k. dht_bootstrap cfg now' rnd' (bootstrap_events cfg (take k evs) w1) = (bootstrap_events cfg (take k evs) w1, None))
    \<and> (let nodes = event_nodes (dtype4 (dht w1)) evs @ bootstrap_nodes_of (dtype4 (dht w1)) c;
           w2 = bootstrap_events cfg (evs @ [(now, c, st)]) w1
       in lastBootstrap (dht w2) = now
          \<and> (if getNumBucketEntries (rtable (dht w1)) = 0 \<and> nodes = [] then \<not> bootstrapping (dht w2)
             else bootstrapping (dht w2) \<and> (\<exists>t ctx. tasks (taskMan w2) (taskNames w1) = Some t \<and> listeners t = [BootstrapDone]
                  \<and> kind t = NodeLookup (addCandidates ctx (plain_nodes nodes) (mkLookupTask (dnode (dht w1)))) True False)))"
proof -
  have r: "bootstrapping (dht w1)" "rcount (boot_round w1) = 0" "rnodes (boot_round w1) = []"
    "\<exists>cs. asks cfg (bootstrapNodes (dht w)) cs w1 \<and> map call_ref cs = rcalls (boot_round w1)"
    using bootstrap_starts_round [OF assms(1)] assms(2) by auto
  let ?nodes = "event_nodes (dtype4 (dht w1)) evs @ bootstrap_nodes_of (dtype4 (dht w1)) c"
  obtain q where e: "bootstrap_events cfg (evs @ [(now, c, st)]) w1 =
      fillHomeBucket cfg now ?nodes (on_dht (\<lambda>d. d\<lparr>lastBootstrap := now\<rparr>) (w1\<lparr>boot_round := q\<rparr>))"
    using bootstrap_round_ends [OF r(2,3) assms(3,4)] by blast
  define x where "x = on_dht (\<lambda>d. d\<lparr>lastBootstrap := now\<rparr>) (w1\<lparr>boot_round := q\<rparr>)"
  have x: "taskNames x = taskNames w1" "bootstrapping (dht x)" "lastBootstrap (dht x) = now" "rtable (dht x) = rtable (dht w1)"
    "dnode (dht x) = dnode (dht w1)" using r(1) by (simp_all add: x_def on_dht_def)
  have s: "dht (submit k ls x) = dht x" "\<exists>t. tasks (taskMan (submit k ls x)) (taskNames x) = Some t \<and> listeners t = ls \<and> kind t = k" for k ls
    by (auto simp: submit_def Let_def add_task_def setState_def newTask_def)
  have b: "\<forall>k. dht_bootstrap cfg now' rnd' (bootstrap_events cfg (take k evs) w1) = (bootstrap_events cfg (take k evs) w1, None)"
  proof
    fix k
    have "ended_events (take k evs) \<le> ended_events evs"
      by (metis append_take_drop_id filter_append le_add1 length_append)
    then have "rcount (boot_round w1) + int (ended_events (take k evs)) < rlen (boot_round w1)" using r(2) assms(3) by simp
    from bootstrap_events_collect [OF this, of cfg] r(1)
    show "dht_bootstrap cfg now' rnd' (bootstrap_events cfg (take k evs) w1) = (bootstrap_events cfg (take k evs) w1, None)"
      by (simp add: dht_bootstrap_def Let_def)
  qed
  show ?thesis
  proof (cases "getNumBucketEntries (rtable (dht w1)) = 0 \<and> ?nodes = []")
    case True
    then show ?thesis using b r(4) x by (simp add: Let_def e x_def [symmetric] fillHomeBucket_def) (simp add: on_dht_def)
  next
    case False
    let ?k = "NodeLookup (addCandidates (ctx_of cfg now x) (plain_nodes ?nodes) (mkLookupTask (dnode (dht w1)))) True False"
    have "fillHomeBucket cfg now ?nodes x = submit ?k [BootstrapDone] x" using False x by (simp only: fillHomeBucket_def if_False)
    then have w2: "bootstrap_events cfg (evs @ [(now, c, st)]) w1 = submit ?k [BootstrapDone] x" by (simp only: e x_def)
    show ?thesis unfolding Let_def w2 using s [of ?k "[BootstrapDone]"] b r(4) x False by (simp only: if_False s(1)) blast
  qed
qed

definition sample_starter :: World where
  "sample_starter = on_dht (\<lambda>d. d\<lparr>bootstrapNodes := [\<lparr>nodeId = sample_id 5, sockaddr = sample_addr 5, version = 0\<rparr>]\<rparr>) sample_world"

lemma sample_bootstrap: "\<exists>w1. dht_bootstrap sample_config 9000000 (\<lambda>_. sample_id 7) sample_starter = (w1, None) \<and> w1 \<noteq> sample_starter"
proof -
  obtain rt where rt: "rt_onSend 9000000 (sample_id 5) sample_table = Some rt"
    using rt_update_total(3) [OF sample_table_inv, of "sample_id 5" 9000000] by auto
  let ?r = "dht_bootstrap sample_config 9000000 (\<lambda>_. sample_id 7) sample_starter"
  have "snd ?r = None" "bootstrapping (dht (fst ?r))"
    by (simp_all add: sample_starter_def on_dht_def sample_world_defs newTaskManager_def dht_bootstrap_def BOOTSTRAP_MIN_INTERVAL_def Let_def send_call_def serve_def
        sendCall_def alloc_txid_def mkRPCCall_def sendMessage_def and_then_def call_sent_def updateState_def sendData_def mkMessage_def
        sample_addr_def proceed_def onSend_def on_table_def rt)
  moreover have "\<not> bootstrapping (dht sample_starter)" by (simp add: sample_starter_def on_dht_def sample_world_def sample_dht_def)
  ultimately show ?thesis by (metis prod.collapse)
qed

theorem bootstrap_fills_home_bucket_witness:
  "\<exists>w1. dht_bootstrap sample_config 9000000 (\<lambda>_. sample_id 7) sample_starter = (w1, None)
     \<and> lastBootstrap (dht (bootstrap_events sample_config [(9010000, sample_call, TIMEOUT)] w1)) = 9010000"
proof -
  obtain w1 where w1: "dht_bootstrap sample_config 9000000 (\<lambda>_. sample_id 7) sample_starter = (w1, None)" "w1 \<noteq> sample_starter"
    using sample_bootstrap by blast
  have "rlen (boot_round w1) = 1" using bootstrap_starts_round [OF w1(1)] w1(2) by (auto simp: sample_starter_def on_dht_def)
  then show ?thesis
    using bootstrap_fills_home_bucket [OF w1, where evs = "[]" and st = TIMEOUT and c = sample_call and now = 9010000] w1(1) by (simp add: ended_def Let_def)
qed

text \<open>C26: When the lookup of a store has finished, its listener queues an announce nested in the lookup; the announce, once started, sends
  the value to every node of the closest set, in one request each, with the token that node gave out; and its listener
  reports exactly these nodes to the user.\<close>

theorem store_reaches_closest:
  assumes "world_ok cfg w" "tasks (taskMan w) i = Some t" "kind t = NodeLookup lt b wt" "taskState t = FINISHED"
    and "\<not> canceling (taskMan w)" "cs_inv (closestSet lt)" "cs_capacity (closestSet lt) \<le> MAX_CONCURRENT_TASK_REQUESTS"
    and "cs_getEntries (closestSet lt) \<noteq> []"
  shows "\<exists>w' a. run_listener cfg now rnd i (StoreLookupDone h v) w = (w', None) \<and> world_ok cfg w'
    \<and> tasks (taskMan w') (taskNames w) = Some a \<and> taskState a = QUEUED \<and> taskNames w \<in> set (queued (taskMan w'))
    \<and> listeners a = [StoreDone h (map node_of (cs_getEntries (closestSet lt)))]
    \<and> (\<forall>ctx. \<exists>r cs. start ctx (run_of a (taskMan w')) = Some r \<and> emitted r = map SubmitCall cs
         \<and> map (\<lambda>c. (targetId c, targetAddr c, body (request c))) cs =
           map (\<lambda>n. (nodeId n, sockaddr n, StoreRequest (mkStoreValueRequest v (ctoken n)))) (cs_getEntries (closestSet lt)))
    \<and> (\<forall>x j. run_listener cfg now rnd j (hd (listeners a)) x =
         (complete h (NodesResult (map node_of (cs_getEntries (closestSet lt)))) x, None))"
proof -
  let ?td = "cs_getEntries (closestSet lt)"
  have "lookup_of (kind t) = Some lt" using assms(3) by simp
  from announce_to_closest_ok [OF assms(1,2) this assms(5,4,8), of "\<lambda>td. ValueAnnounce td v" "StoreDone h" h] obtain w' where
    w': "run_listener cfg now rnd i (StoreLookupDone h v) w = (w', None)" "world_ok cfg w'"
      "announces (ValueAnnounce ?td v) (StoreDone h (map node_of ?td)) i w w'"
    by (auto simp: run_listener_def dest: step_okD)
  from w'(3) obtain a where a: "tasks (taskMan w') (taskNames w) = Some a" "kind a = ValueAnnounce ?td v"
    "listeners a = [StoreDone h (map node_of ?td)]" "taskState a = QUEUED" "lock a = 0" "inFlight a = []"
    "queued (taskMan w') = queued (taskMan w) @ [taskNames w]" by (auto simp: announces_def)
  have len: "length ?td \<le> MAX_CONCURRENT_TASK_REQUESTS" using assms(6,7) by (simp add: cs_getEntries_def cs_inv_def)
  have "\<exists>r cs. start ctx (run_of a (taskMan w')) = Some r \<and> emitted r = map SubmitCall cs
      \<and> map (\<lambda>c. (targetId c, targetAddr c, body (request c))) cs =
        map (\<lambda>n. (nodeId n, sockaddr n, StoreRequest (mkStoreValueRequest v (ctoken n)))) ?td" for ctx
    using announce_start [of "run_of a (taskMan w')" ?td v _ ctx] a(2,4-6) assms(8) len by (auto simp: run_of_def)
  moreover have "run_listener cfg now rnd j (StoreDone h ns) x = (complete h (NodesResult ns) x, None)" for j x ns
    by (simp add: run_listener_def)
  ultimately show ?thesis using w'(1,2) a by (intro exI [of _ w'] exI [of _ a]) auto
qed

definition sample_found :: LookupTask where
  "sample_found = (mkLookupTask (sample_id 1))\<lparr>closestSet :=
     (mkClosestSet (sample_id 1) 8)\<lparr>cs_closest := [(sample_id 2, mkCandidateNode \<lparr>nodeId = sample_id 2, sockaddr = sample_addr 2, version = 0\<rparr> None)]\<rparr>\<rparr>"

definition sample_finished :: World where
  "sample_finished = sample_world\<lparr>taskMan := (newTaskManager 0)\<lparr>tasks := [0 \<mapsto> (newTask 0 (NodeLookup sample_found False True))\<lparr>taskState := FINISHED\<rparr>]\<rparr>,
     taskNames := 1\<rparr>"

lemma sample_finished_ok: "world_ok sample_config sample_finished"
  using sample_world_ok(1) by (auto simp: world_ok_def sample_finished_def tm_inv_def newTaskManager_def sample_world_def split: if_splits)

theorem store_reaches_closest_witness:
  "\<exists>w'. run_listener sample_config 9000000 (\<lambda>_. sample_id 7) 0 (StoreLookupDone 5 sample_value) sample_finished = (w', None)
     \<and> 1 \<in> set (queued (taskMan w'))"
proof -
  have c: "cs_inv (closestSet sample_found)" "cs_capacity (closestSet sample_found) \<le> MAX_CONCURRENT_TASK_REQUESTS"
    "cs_getEntries (closestSet sample_found) \<noteq> []"
    by (simp_all add: sample_found_def mkLookupTask_def mkClosestSet_def cs_inv_def cs_getEntries_def MAX_CONCURRENT_TASK_REQUESTS_def mkCandidateNode_def
        NodeInfo_copy_def Let_def)
  have t: "tasks (taskMan sample_finished) 0 = Some ((newTask 0 (NodeLookup sample_found False True))\<lparr>taskState := FINISHED\<rparr>)"
    "\<not> canceling (taskMan sample_finished)" "taskNames sample_finished = 1"
    by (simp_all add: sample_finished_def newTaskManager_def)
  show ?thesis
    using store_reaches_closest [OF sample_finished_ok t(1) _ _ t(2) c, of False True 9000000 "\<lambda>_. sample_id 7" 5 sample_value] t(3)
    by (auto simp: newTask_def)
qed

text \<open>Whatever the tasks have asked for (calls, results for users, announces, cancelled tasks, entries to remove) is carried out in
  finitely many steps, which keep the node well formed, and afterwards nothing is left unless an exception stopped it.\<close>

lemma effects_carried_out:
  assumes "activity_ok cfg w" "config_ok cfg" "\<forall>n. wf_id (rnd n)"
  shows "\<exists>w' err. drain cfg now rnd w = Some (w', err) \<and> world_ok cfg w' \<and> err \<noteq> Some Undefined
    \<and> (err = None \<longrightarrow> activity_ok cfg w' \<and> trace (taskMan w') = [])"
  by (rule drain_returns [OF assms])

section \<open>The receive thread\<close>

text \<open>C27: A run of the scheduler ends, and executes the jobs whose timers are due at its start, in the order of their times and each once,
  although the jobs may add timers in the future and cancel jobs (those of \<open>K\<close>) while it goes on. Unless a job throws, no timer that is
  due is left, every due job that was not cancelled has been executed, and every periodic one of these has again a timer in the future with the same action and
  delay, but under a new job object: the object that its owner holds is empty, so that cancelling it later has no effect.\<close>

theorem scheduled_jobs_run:
  assumes "wf_sched s" "clock_ok clk s" "acts K exec"
  shows "\<exists>s' w' log e rs. sched_run clk n exec s w = Some (s', w', e) \<and> sched_run clk n (logged exec) s (w, []) = Some (s', (w', log), e)
    \<and> subseq rs (due_refs s) \<and> log = List.map_filter (action s) rs
    \<and> (e = None \<longrightarrow> wf_sched s' \<and> (\<forall>x\<in>set (timers s'). snow s < fst x)
         \<and> (\<forall>r\<in>set (due_refs s) - K. r \<in> set rs
              \<and> (\<forall>job. sjobs s r = Some job \<longrightarrow> 0 < fixedDelay job \<longrightarrow> rescheduled K s s' r job)))"
proof -
  from sched_run_outcome [OF assms, of n w "[]"] obtain s' w' log e rs where
    "sched_run clk n exec s w = Some (s', w', e)" "sched_run clk n (logged exec) s (w, []) = Some (s', (w', log), e)"
    "run_outcome K s rs s' log e" by auto
  then show ?thesis unfolding run_outcome_def by blast
qed

text \<open>Two jobs are due, the second is periodic; every job adds a timer.\<close>

definition sample_sched :: "nat Scheduler" where
  "sample_sched = syncTime 20 (fst (sched_add 5 (Some 1) 5 10 (fst (sched_add 5 (Some 2) 2 0 (newScheduler 0)))))"

definition sample_exec :: "nat \<Rightarrow> nat Scheduler \<Rightarrow> nat list \<Rightarrow> nat Scheduler \<times> nat list \<times> error option" where
  "sample_exec j s w = (if snow s < snow s + 1 then apply_op (AddJob (snow s) (Some (j + 10)) 1 0) s else s, w @ [j], None)"

theorem scheduled_jobs_run_witness:
  "\<exists>s' w' e. sched_run (\<lambda>_. 30) 0 sample_exec sample_sched [] = Some (s', w', e)
    \<and> (e = None \<longrightarrow> rescheduled {} sample_sched s' 1 \<lparr>job_do = Some 1, fixedDelay = 10\<rparr>)"
proof -
  have s: "wf_sched sample_sched" "clock_ok (\<lambda>_. 30) sample_sched" "due_refs sample_sched = [0, 1]"
    "sjobs sample_sched 1 = Some \<lparr>job_do = Some 1, fixedDelay = 10\<rparr>"
    by (simp_all add: sample_sched_def syncTime_def sched_add_def sched_add_job_def newScheduler_def Let_def wf_sched_def wf_timers_def
        clock_ok_def due_refs_def is_due_def List.map_filter_simps)
  have "acts {} sample_exec"
    unfolding acts_def
  proof (intro allI)
    fix f w and s :: "nat Scheduler"
    show "\<exists>ops. (\<forall>p\<in>set ops. op_ok {} (snow s) p) \<and> fst (sample_exec f s w) = fold apply_op ops s"
      by (intro exI [of _ "if snow s < snow s + 1 then [AddJob (snow s) (Some (f + 10)) 1 0] else []"]) (simp add: sample_exec_def)
  qed
  from scheduled_jobs_run [OF s(1,2) this, of 0 "[]"] s(3,4) show ?thesis by fastforce
qed

text \<open>C28: A store request without data, which any node can send without a token, ends the receive thread: building the value throws,
  nothing on the way catches the exception, the loop is left, the sockets are closed and no later packet is handled or sent.\<close>

theorem malformed_store_stops_server:
  assumes "carries t w msg" "drunning (dht w)" "\<not> id_eq (dnode (dht w)) (mid msg)" "\<not> sa_eq (daddr (dht w)) (morigin msg)"
    and "body msg = StoreRequest q" "vf_value q = []"
  shows "\<exists>w'. rx_loop cfg (t # ts) w = Some (w', False) \<and> \<not> hasSock4 (server w') \<and> \<not> hasSock6 (server w')
    \<and> (\<forall>env m. \<exists>e. snd (snd (sendData env m (server w'))) = Some (RuntimeError e))"
proof -
  from empty_value_throws [OF assms(6)] obtain e where e: "getValue q = Inl e" by blast
  have "onRequest cfg (turn_now t) msg (counted w msg) = (counted w msg, Some e)"
    by (simp add: onRequest_def assms(5) onStoreValue_def e)
  from throwing_request_stops [OF assms(1-4) this] obtain x where "rx_loop cfg (t # ts) w = Some (close_sockets x, False)" by blast
  moreover have "\<exists>e. snd (snd (sendData env m (server (close_sockets x)))) = Some (RuntimeError e)" for env m
    using closed_sockets_fail [of env m x] by auto
  ultimately show ?thesis by (auto simp: close_sockets_def)
qed

definition sample_turn :: Turn where
  "sample_turn = \<lparr>turn_now = 9000000, packet = Packet (sample_id 3) (sample_addr 3), sockets = \<lparr>can_create = \<lambda>_. True, bound = Some\<rparr>, addr4 = sample_addr 0, addr6 = Unspec, timers_due = [], decryption = \<lambda>_ b. Inr b,
     parser = \<lambda>_. Inr (sample_message 3 3 (StoreRequest default_store)), envs = \<lambda>_. sample_env, clock = \<lambda>_. 9000000,
     random_id = \<lambda>_. sample_id 7, random1 = 0, random2 = 0\<rparr>"

theorem malformed_store_stops_server_witness:
  "\<exists>w' :: World. rx_loop sample_config [sample_turn] sample_world = Some (w', False)"
proof -
  let ?msg = "sample_message 3 3 (StoreRequest default_store)"
  have l: "length (sample_id 3) = 32" by (simp add: sample_id_def)
  have c: "carries sample_turn sample_world ?msg"
    using l by (auto simp: carries_def sample_turn_def sample_message_def mkMessage_def sample_world_defs sample_addr_def)
  show ?thesis
    using malformed_store_stops_server [OF c, of default_store sample_config "[]"]
    by (auto simp: sample_world_def sample_dht_def default_store_def sample_id_MIN)
qed

text \<open>C29: A store request with a public key but without a nonce or a signature, which any node can send without a token, ends the receive thread as
  well, before the DHT sees it and whatever state the DHT is in: the arguments of the debug line of \<^verbatim>\<open>handlePacket\<close> print the message, printing it takes the value of
  the missing field, and the exception leaves the loop.\<close>

theorem unprintable_store_stops_server:
  assumes "carries t w msg" "body msg = StoreRequest q" "vf_publicKey q \<noteq> None" "vf_nonce q = None \<or> vf_signature q = None"
  shows "\<exists>w'. rx_loop cfg (t # ts) w = Some (w', False) \<and> \<not> hasSock4 (server w') \<and> \<not> hasSock6 (server w')
    \<and> (\<forall>env m. \<exists>e. snd (snd (sendData env m (server w'))) = Some (RuntimeError e))"
proof -
  have "\<not> printable (body msg)" using assms(2-4) by auto
  from unprintable_request_stops [OF assms(1) this] obtain x where "rx_loop cfg (t # ts) w = Some (close_sockets x, False)" by blast
  moreover have "\<exists>e. snd (snd (sendData env m (server (close_sockets x)))) = Some (RuntimeError e)" for env m
    using closed_sockets_fail [of env m x] by auto
  ultimately show ?thesis by (auto simp: close_sockets_def)
qed

definition sample_unprintable :: StoreValueRequest where
  "sample_unprintable = default_store\<lparr>vf_publicKey := Some (sample_id 1), vf_value := [1]\<rparr>"

theorem unprintable_store_stops_server_witness:
  "\<exists>w' :: World. rx_loop sample_config [sample_turn\<lparr>parser := \<lambda>_. Inr (sample_message 3 3 (StoreRequest sample_unprintable))\<rparr>] sample_world = Some (w', False)"
proof -
  let ?msg = "sample_message 3 3 (StoreRequest sample_unprintable)" and ?t = "sample_turn\<lparr>parser := \<lambda>_. Inr (sample_message 3 3 (StoreRequest sample_unprintable))\<rparr>"
  have l: "length (sample_id 3) = 32" by (simp add: sample_id_def)
  have c: "carries ?t sample_world ?msg"
    using l by (auto simp: carries_def sample_turn_def sample_message_def mkMessage_def sample_world_defs sample_addr_def)
  show ?thesis
    using unprintable_store_stops_server [OF c, of sample_unprintable sample_config "[]"]
    by (auto simp: sample_unprintable_def default_store_def)
qed

section \<open>The active proxy\<close>

text \<open>C30: The packets of the relay protocol survive the stream: however the bytes of a sequence of packets are cut into reads,
  the receiver returns from every read, cuts the stream into the packets that were sent, in their order and each once, with their types and payloads, and keeps nothing
  back. (Packets of the type \<^verbatim>\<open>ERROR\<close> are excluded: their flag is never recognised, see \<open>packet_value_valueOf\<close>.)\<close>

theorem relay_stream_reassembled:
  assumes "\<forall>(rnd, t, b, pad)\<in>set ms. (\<forall>n>0. rnd n < n) \<and> t \<noteq> ERROR \<and> PACKET_HEADER_BYTES + length b + length pad < 65536"
    and "concat cs = concat (map (\<lambda>(rnd, t, b, pad). relay_packet rnd t b pad) ms)"
  shows "\<exists>ps. feed f [] cs s = Some (case run_packets f ps s of Inl e \<Rightarrow> Inl e | Inr s1 \<Rightarrow> Inr ([], s1))
    \<and> list_all2 (\<lambda>(rnd, t, b, pad) (d, n). n = length d \<and> valueOf (d ! 2) = Inr t \<and> drop PACKET_HEADER_BYTES d = b @ pad) ms ps"
proof -
  let ?b = "\<lambda>(rnd, t, b, pad). relay_packet rnd t b pad"
  have m: "wf_packet (?b m) \<and> (case m of (rnd, t, b, pad) \<Rightarrow> valueOf (?b m ! 2) = Inr t \<and> drop PACKET_HEADER_BYTES (?b m) = b @ pad)" if "m \<in> set ms" for m
    using assms(1) that relay_packet_wf(1,3,4) packet_value_valueOf by (fastforce split: prod.splits)
  then have "list_all wf_packet (map ?b ms)" by (auto simp: list_all_iff)
  then have "feed f [] cs s = Some (case run_packets f (map whole (map ?b ms)) s of Inl e \<Rightarrow> Inl e | Inr s1 \<Rightarrow> Inr ([], s1))"
    by (rule feed_packets) (simp_all add: leftover_def assms(2))
  moreover have "list_all2 (\<lambda>(rnd, t, b, pad) (d, n). n = length d \<and> valueOf (d ! 2) = Inr t \<and> drop PACKET_HEADER_BYTES d = b @ pad) ms (map whole (map ?b ms))"
    using m by (auto simp: list_all2_map2 list_all2_conv_all_nth split: prod.splits) (metis (no_types, lifting) case_prod_conv nth_mem)+
  ultimately show ?thesis by blast
qed

theorem relay_stream_reassembled_witness:
  "\<exists>ps :: packet list. feed (\<lambda>pkt n. Inr (Suc n) :: error + nat) [] [[0], [3, 0x10, 0], [5, 0x40], [7, 8]] 0
      = Some (case run_packets (\<lambda>pkt n. Inr (Suc n)) ps 0 of Inl e \<Rightarrow> Inl e | Inr s1 \<Rightarrow> Inr ([], s1))
    \<and> length ps = 2"
proof -
  let ?ms = "[(\<lambda>_. 0, PING, [], []), (\<lambda>_. 0, DATA, [7, 8], [])] :: ((byte \<Rightarrow> byte) \<times> PacketType \<times> byte list \<times> byte list) list"
  have "concat [[0], [3, 0x10, 0], [5, 0x40], [7, 8]] = concat (map (\<lambda>(rnd, t, b, pad). relay_packet rnd t b pad) ?ms)"
    by (simp add: relay_packet_def htons_def packet_value_def random_byte_def PACKET_HEADER_BYTES_def)
  from relay_stream_reassembled [OF _ this, where f = "\<lambda>pkt n. Inr (Suc n) :: error + nat" and s = 0]
  obtain ps where ps: "feed (\<lambda>pkt n. Inr (Suc n) :: error + nat) [] [[0], [3, 0x10, 0], [5, 0x40], [7, 8]] 0
      = Some (case run_packets (\<lambda>pkt n. Inr (Suc n)) ps 0 of Inl e \<Rightarrow> Inl e | Inr s1 \<Rightarrow> Inr ([], s1))"
    "list_all2 (\<lambda>(rnd, t, b, pad) (d, n). n = length d \<and> valueOf (d ! 2) = Inr t \<and> drop PACKET_HEADER_BYTES d = b @ pad) ?ms ps"
    by (auto simp: PACKET_HEADER_BYTES_def)
  then show ?thesis using list_all2_lengthD [OF ps(2)] by (intro exI [of _ ps]) (simp del: feed.simps)
qed

text \<open>C31: In every run of the proxy, whatever libuv, the server and the clients do, there are no more connections
  than the configured limit, and the delay between attempts to reach the server is 0 or two seconds: it never grows, and its
  computation is always defined.\<close>

theorem proxy_connections_bounded:
  assumes "proxy_run (newActiveProxy limit keys sk now) p"
  shows "length (connections p) \<le> unat limit \<and> (reconnectDelay p = 0 \<or> reconnectDelay p = 2000) \<and> (\<exists>q. onOpenFailed p = Inr q)"
proof -
  have "proxy_bounds p" by (rule bounds.run_keeps [OF assms bounds_start])
  moreover have "maxConnections p = limit" by (rule limit.run_keeps [OF assms]) (simp add: newActiveProxy_def)
  ultimately show ?thesis using onOpenFailed_defined [of p] by (auto simp: proxy_bounds_def)
qed

theorem proxy_connections_bounded_witness:
  "requests serving_proxy = [(0, UpstreamConnect)] \<and> length (connections serving_proxy) \<le> unat (2 :: u32) \<and> (\<exists>q. onOpenFailed serving_proxy = Inr q)"
proof -
  have "proxy_run (newActiveProxy 2 ([1], [2]) None 0) serving_proxy" using careful_is_run [OF serving_careful] by (simp add: sample_proxy_def)
  from proxy_connections_bounded [OF this] show ?thesis using serving_run(2) by (simp add: serving_def)
qed

text \<open>C32: No connection object is used after it was freed: in a run in which libuv accepts the writes to the server and no upstream connect is cancelled
  because its connection was closed, no event touches a freed object. The reference count of every connection is the number of the things that refer to
  it (the list of connections, its open handles, its pending requests), and the listed connections and those of pending requests exist. (What libuv itself
  still does with the handle that \<^verbatim>\<open>connectServer\<close> closes without a callback after a failed connect is not tracked.)\<close>

theorem no_use_after_free:
  assumes "careful_run M (newActiveProxy limit keys sk now) p" "env_ok M e" "enabled ev p" "\<not> cancels_connect ev p"
  shows "handle_event e ev p \<noteq> Inl UseAfterFree
    \<and> (\<forall>c x. ap_heap p c = Some x \<longrightarrow> 0 < refCount x \<and> unat (refCount x) = references (c \<in> set (connections p)) 0 (reqs_of p c) x)
    \<and> (\<forall>c\<in>set (connections p) \<union> fst ` set (requests p). ap_heap p c \<noteq> None)"
proof -
  have M: "M < 2 ^ 31" using assms(2) by (simp add: env_ok_def)
  have s: "settled M p" by (rule careful_settled [OF assms(1) settled_start])
  have "ap_heap p c \<noteq> None" if "c \<in> set (connections p) \<union> fst ` set (requests p)" for c
  proof -
    have "good M (connections p) c 0 p" using s settled_good by blast
    moreover have "c \<in> set (connections p) \<or> reqs_of p c \<noteq> []" using that by (force simp: reqs_of_def filter_empty_conv)
    ultimately show ?thesis using good_alive [of M "connections p" c 0 p] by auto
  qed
  then show ?thesis using handle_event_ok [OF s assms(2-4)] settled_count [OF s _ M] by (auto simp: ok_def)
qed

theorem no_use_after_free_witness:
  "handle_event sample_proxy_env (Callback (0, UpstreamConnect) 0) serving_proxy \<noteq> Inl UseAfterFree \<and> ap_heap serving_proxy 0 \<noteq> None"
proof -
  have s: "careful_run 100 (newActiveProxy 2 ([1], [2]) None 0) serving_proxy" using serving_careful by (simp add: sample_proxy_def)
  have e: "enabled (Callback (0, UpstreamConnect) 0) serving_proxy" "\<not> cancels_connect (Callback (0, UpstreamConnect) 0) serving_proxy"
    "requests serving_proxy = [(0, UpstreamConnect)]"
    using serving_run(2) by (auto simp: serving_def connecting_def is_close_def cancels_connect_def split: option.splits)
  show ?thesis using no_use_after_free [OF s sample_proxy_env_ok e(1,2)] e(3) by simp
qed

text \<open>C33: A connect to the upstream that is cancelled because the server closed the connection ends in a use of freed memory: the callback of the
  connect brings the closed connection back to life, the answer it tries to send closes it again, which gives the reference of the list back a
  second time, so that the close callback of the upstream finds the object freed.\<close>

theorem cancelled_connect_use_after_free:
  assumes "connecting c p" "status < 0" "\<forall>n. uv e WriteRelay n < 0" "length (requests p) + 2 \<le> maxRequests e"
  shows "\<exists>p1 p2 p3. enabled (RelayData c None) p \<and> handle_event e (RelayData c None) p = Inr p1
    \<and> enabled (Callback (c, RelayClose) 0) p1 \<and> handle_event e (Callback (c, RelayClose) 0) p1 = Inr p2
    \<and> enabled (Callback (c, UpstreamConnect) status) p2 \<and> handle_event e (Callback (c, UpstreamConnect) status) p2 = Inr p3
    \<and> enabled (Callback (c, UpstreamClose) 0) p3 \<and> handle_event e (Callback (c, UpstreamClose) 0) p3 = Inl UseAfterFree"
proof -
  have r: "reqs_of p c = [UpstreamConnect]" "enabled (RelayData c None) p" using assms(1) by (auto simp: connecting_def split: option.splits)
  from connecting_close [OF assms(1), of e] obtain p1 x where p1: "relayRead e c None p = Inr p1" "ap_heap p1 c = Some x" "pc_state x = Closed" "refCount x = 3"
    "closeHandler x" "hdata (upstream x)" "hclosing (upstream x)" "requests p1 = requests p @ [(c, UpstreamClose), (c, RelayClose)]" by blast
  let ?p2 = "p1\<lparr>requests := remove1 (c, RelayClose) (requests p1), ap_heap := (ap_heap p1)(c \<mapsto> x\<lparr>relay := (relay x)\<lparr>hinit := False, hdata := False\<rparr>, refCount := 2\<rparr>)\<rparr>"
  have q: "reqs_of p1 c = [UpstreamConnect, UpstreamClose, RelayClose]" using r(1) p1(8) by (simp add: reqs_of_def)
  then have q2: "reqs_of ?p2 c = [UpstreamConnect, UpstreamClose]" using reqs_simps(2) [where p = p1 and c = c and r = RelayClose and i = c] by (simp add: reqs_of_def)
  have p2: "callback e (c, RelayClose) 0 p1 = Inr ?p2" by (rule after_relay_closed [OF p1(2,4)])
  have "length (requests ?p2) < maxRequests e" using assms(4) p1(8) by (simp add: length_remove1)
  then obtain p3 where p3: "callback e (c, UpstreamConnect) status ?p2 = Inr p3" "ap_heap p3 c = None"
    "requests p3 = remove1 (c, UpstreamConnect) (requests ?p2)"
    using after_cancelled [where p = ?p2 and c = c and e = e and status = status] p1 assms(2,3) by auto
  have q3: "reqs_of p3 c = [UpstreamClose]"
    using reqs_simps(2) [where p = ?p2 and c = c and r = UpstreamConnect and i = c] q2 p3(3) by (simp add: reqs_of_def)
  have en: "enabled (Callback (c, k) st) s" if "reqs_of s c = rs" "k \<in> set rs" "is_close k" "list_all (\<lambda>r. of_relay r = of_relay k \<longrightarrow> is_close r) rs" for k st s rs
    using that reqs_member [of c _ s] by (auto simp: list_all_iff)
  have "callback e (c, UpstreamClose) 0 p3 = Inl UseAfterFree"
    using p3(2) by (simp add: callback_def handleClosed_def on_conn_def with_conn_def next_step_def)
  moreover have "enabled (Callback (c, UpstreamConnect) status) ?p2"
    using q2 reqs_member [of c UpstreamConnect ?p2] assms(2) by (simp add: is_close_def)
  moreover have "enabled (Callback (c, RelayClose) 0) p1" "enabled (Callback (c, UpstreamClose) 0) p3"
    using en [OF q, of RelayClose] en [OF q3, of UpstreamClose] by (simp_all add: is_close_def)
  ultimately show ?thesis
    using r(2) p1(1) p2 p3(1) unfolding handle_event.simps by blast
qed

theorem cancelled_connect_use_after_free_witness:
  "proxy_run sample_proxy serving_proxy \<and> (\<exists>p1. handle_event broken_env (RelayData 0 None) serving_proxy = Inr p1)"
proof -
  have "connecting 0 serving_proxy" "requests serving_proxy = [(0, UpstreamConnect)]" using serving_run(2) by (simp_all add: serving_def)
  moreover have "\<forall>n. uv broken_env WriteRelay n < 0" "maxRequests broken_env = 100" by (simp_all add: broken_env_def sample_proxy_env_def)
  ultimately show ?thesis
    using cancelled_connect_use_after_free [where c = 0 and p = serving_proxy and e = broken_env and status = "- 125"] careful_is_run [OF serving_careful] by auto
qed

text \<open>C34: After an orderly end of a relayed connection the proxy cannot serve the next one: when the server asks to disconnect and both sides
  have confirmed, the connection is idle but its upstream handle, marked as closed before its shutdown, was never closed; the next connect
  request initialises a handle that is still in use.\<close>

theorem upstream_never_reopened:
  assumes "ap_heap p c = Some x" "pc_state x = Relaying" "\<not> upstreamClosed x" "hinit (upstream x)" "disconnectConfirms x = 0" "refCount x < 2 ^ 31"
    and "\<forall>k n. 0 \<le> uv e k n" "length (requests p) + 3 \<le> maxRequests e"
    and "flagged DISCONNECT d1" "flagged DISCONNECT_ACK d2" "flagged CONNECT d3" "names_client e p x d3"
  shows "\<exists>p1 p2 p3 y. processRelayPacket e c d1 p = Inr p1 \<and> (c, UpstreamShutdown) \<in> set (requests p1)
    \<and> callback e (c, UpstreamShutdown) 0 p1 = Inr p2 \<and> processRelayPacket e c d2 p2 = Inr p3
    \<and> ap_heap p3 c = Some y \<and> pc_state y = Idling \<and> hinit (upstream y) \<and> hclosing (upstream y) = hclosing (upstream x)
    \<and> processRelayPacket e c d3 p3 = Inl BadHandle"
proof -
  from disconnect_leaves_open [OF assms(1,2,3,5,6,9)] assms(7,8) obtain p1 y1 where p1: "processRelayPacket e c d1 p = Inr p1" "ap_heap p1 c = Some y1"
    "pc_state y1 = Disconnecting" "upstreamClosed y1" "disconnectConfirms y1 = 1" "upstream y1 = (upstream x)\<lparr>hreading := False\<rparr>" "refCount y1 = refCount x + 3"
    "ap_box p1 = ap_box p" "pc_nonce y1 = pc_nonce x" "(c, UpstreamShutdown) \<in> set (requests p1)" by blast
  have "refCount y1 - 1 \<noteq> 0"
  proof
    assume "refCount y1 - 1 = 0"
    then have "refCount x = - 2" unfolding p1(7) by (simp add: eq_neg_iff_add_eq_0 add.commute)
    then show False using assms(6) by simp
  qed
  note p2 = shutdown_leaves_open [OF p1(2,4) this, where e = e and status = 0]
  let ?y = "y1\<lparr>refCount := refCount y1 - 1\<rparr>"
  let ?p2 = "p1\<lparr>requests := remove1 (c, UpstreamShutdown) (requests p1), ap_heap := (ap_heap p1)(c \<mapsto> ?y)\<rparr>"
  have "ap_heap ?p2 c = Some ?y" "pc_state ?y = Disconnecting" "disconnectConfirms ?y = 1" using p1 by simp_all
  from confirmed_idle [OF this assms(10), of e] obtain p3 where p3: "processRelayPacket e c d2 ?p2 = Inr p3"
    "ap_heap p3 c = Some (?y\<lparr>disconnectConfirms := 0, pc_state := Idling\<rparr>)" "ap_box p3 = ap_box ?p2" by blast
  have "names_client e p3 (?y\<lparr>disconnectConfirms := 0, pc_state := Idling\<rparr>) d3" using assms(12) p1(8,9) p3(3) by (simp add: names_client_def)
  from reopen_fails [OF p3(2) _ _ assms(11) this] have "processRelayPacket e c d3 p3 = Inl BadHandle" using p1(6) assms(4) by simp
  moreover have "hinit (upstream y1)" "hclosing (upstream y1) = hclosing (upstream x)" using p1(6) assms(4) by simp_all
  ultimately show ?thesis using p1(1,10) p2 p3(1,2)
    by - (rule exI [of _ p1], rule exI [of _ ?p2], rule exI [of _ p3], simp)
qed

theorem upstream_never_reopened_witness:
  "\<exists>p3. processRelayPacket sample_proxy_env 0 (whole connect_packet) p3 = Inl BadHandle"
proof -
  obtain x where x: "ap_heap serving_proxy 0 = Some x" "pc_state x = Relaying" "\<not> upstreamClosed x" "hinit (upstream x)" "disconnectConfirms x = 0" "refCount x = 4"
    "requests serving_proxy = [(0, UpstreamConnect)]"
    using serving_run(2) by (auto simp: serving_def connecting_def split: option.splits)
  have e: "\<forall>k n. 0 \<le> uv sample_proxy_env k n" "length (requests serving_proxy) + 3 \<le> maxRequests sample_proxy_env" "refCount x < 2 ^ 31"
    using x(6,7) by (simp_all add: sample_proxy_env_def)
  have f: "flagged DISCONNECT ([0, 3, 0x30], 3)" "flagged DISCONNECT_ACK ([0, 3, 0xB0], 3)" "flagged CONNECT (whole connect_packet)"
    by (simp_all add: flagged_def sample_flags) (code_simp+)
  have "names_client sample_proxy_env serving_proxy x (whole connect_packet)"
    by (simp add: names_client_def sample_proxy_env_def CONNECT_REQ_SIZE_def PACKET_HEADER_BYTES_def MAC_BYTES_def sample_packets connect_decrypted)
  from upstream_never_reopened [OF x(1-5) e(3,1,2) f this] show ?thesis by blast
qed

text \<open>C35: Before it has authenticated itself, a server can stop the proxy for ever with three bytes: the loop over the packets of a read does not
  return when a packet has the size 0.\<close>

theorem empty_packet_hangs_proxy:
  assumes "ap_heap p c = Some x" "pc_state x = Initializing" "stickyBuffer x = []" "PACKET_HEADER_BYTES \<le> length d" "packetSize d = 0"
  shows "handle_event e (RelayData c (Some d)) p = Inl NeverReturns"
  using waiting_ignores [OF assms] by simp

theorem empty_packet_hangs_proxy_witness:
  "enabled (RelayData 0 (Some [0, 0, 0])) waiting_proxy \<and> handle_event sample_proxy_env (RelayData 0 (Some [0, 0, 0])) waiting_proxy = Inl NeverReturns"
proof -
  obtain x where x: "ap_heap waiting_proxy 0 = Some x" "pc_state x = Initializing" "stickyBuffer x = []"
    "relay x = \<lparr>hinit = True, hdata = True, hclosing = False, hreading = True\<rparr>"
    using waiting_run(2) by (auto simp: first_connection_def split: option.splits)
  have "PACKET_HEADER_BYTES \<le> length [0, 0, 0 :: byte]" "packetSize [0, 0, 0] = 0" by (simp_all add: PACKET_HEADER_BYTES_def packetSize_def)
  from empty_packet_hangs_proxy [OF x(1-3) this, of sample_proxy_env] show ?thesis using x by (simp add: relay_alloc_def MAX_CONTROL_PACKET_SIZE_def)
qed

section \<open>The node\<close>


definition sample_node_env :: NodeEnv where
  "sample_node_env = \<lparr>n_config = sample_config, n_now = 9000000, ipv4Address = True, ipv6Address = True, listeningPort = 39001, bootstrapNodesConf = [],
     serverCreated = Inr (), serverStarted = Inr (), databaseOpens = True, n_getNode = \<lambda>_ _. None\<rparr>"

lemma sample_init: "init sample_sqlite True sample_storage = (sample_storage, Inr STORAGE_EXPIRE_INTERVAL)"
  by (simp add: sample_sqlite_def sample_storage_def init_def getUserVersion_def effect_of_def SCHEMA_VERSION_def)

lemmas sample_starts = node_start_def initialNode_def setStatus_def start_dht_def isRunning_def running_dhts_def sample_node_env_def sample_config_def

definition sample_node :: Node where "sample_node = fst (node_start sample_node_env (initialNode (sample_id 9) sample_storage 0))"

lemma sample_node_simps [simp]:
  "isRunning sample_node" "n_open sample_node" "n_dht4 sample_node" "n_dht6 sample_node" "numDHTs sample_node = 2"
  "queryNames sample_node = 0" "running_dhts sample_node = 2" "n_storage sample_node = sample_storage"
  by (simp_all add: sample_node_def sample_starts sample_init)

lemma sample_id_not_min [simp]: "\<not> id_eq (sample_id 1) MIN_ID"
  by (simp add: id_eq_iff) (simp add: sample_id_def MIN_ID_def numeral_eq_Suc)


text \<open>C37: A lookup of a value that waits for all DHTs gives the future one of the values seen, the one in the local storage included, and none only if
  there is none; of mutable values it is one with the greatest sequence number. The value is then kept in the storage, if the storage accepts it.
  (The lookup is conservative, and as many DHTs answer as the node counts.)\<close>

theorem value_lookup_best:
  fixes n :: Node
  defines "h \<equiv> queryNames n"
  assumes n: "isRunning n" "n_open n" "int (length xs) = numDHTs n" "xs \<noteq> []" and i: "\<not> id_eq i MIN_ID"
    and lv: "db_getValue (sqlite (n_config e)) (n_now e) i (n_storage n) = Inr lv" "\<forall>v. lv = Some v \<longrightarrow> isMutable v"
    and asks: "node_findValue e CONSERVATIVE i n = (n1, err)"
  shows "err = None \<and> (\<exists>n2 q v. node_completes e h (map ValueResult xs) n1 = (n2, None) \<and> queries n2 h = Some q \<and> outcome q = Some (FoundValue v)
    \<and> (v = None \<longleftrightarrow> lv = None \<and> set xs \<subseteq> {None}) \<and> (\<forall>u. v = Some u \<longrightarrow> lv = Some u \<or> Some u \<in> set xs)
    \<and> ((\<forall>w. Some w \<in> set xs \<longrightarrow> isMutable w) \<longrightarrow>
        (\<forall>u w. v = Some u \<longrightarrow> lv = Some w \<or> Some w \<in> set xs \<longrightarrow> v_sequenceNumber w \<le> v_sequenceNumber u))
    \<and> (\<forall>u db b. v = Some u \<longrightarrow> db_putValue (sha_256 (n_config e)) (verify_sign (n_config e)) (sqlite (n_config e)) (n_now e) u (- 1) False False (n_storage n)
        = Inr (db, b) \<longrightarrow> n_storage n2 = db))"
proof -
  let ?v = "foldl better_value lv xs"
  note asked = findValue_asks [OF n(1) i _ n(2) lv(2,1) asks, folded h_def, simplified]
  let ?n2 = "(keep_value e ?v n1)\<lparr>queries := (queries n1)(h \<mapsto> \<lparr>gather = GatherValue CONSERVATIVE ?v, completion = numDHTs n1, outcome = Some (FoundValue ?v)\<rparr>)\<rparr>"
  have "node_completes e h (map ValueResult xs) n1 = (?n2, None)"
    using conservative.for_value.promise_kept [OF asked(5,3) n(4), of e] asked(2) n(3) by simp
  moreover have "n_storage ?n2 = db"
    if "?v = Some u" "db_putValue (sha_256 (n_config e)) (verify_sign (n_config e)) (sqlite (n_config e)) (n_now e) u (- 1) False False (n_storage n) = Inr (db, b)" for u db b
    using that asked(4) by (simp add: keep_value_def)
  moreover have "v_sequenceNumber w \<le> v_sequenceNumber u"
    if "?v = Some u" "lv = Some w \<or> Some w \<in> set xs" "\<forall>w. Some w \<in> set xs \<longrightarrow> isMutable w" for u w
    using foldl_better_best [OF that(1) _ that(2)] that(3) lv(2) by blast
  ultimately show ?thesis using asked(1) foldl_better_none [of lv xs] foldl_better_in [of lv xs] by (intro conjI exI [of _ ?n2]) auto
qed

theorem value_lookup_best_witness:
  "\<exists>n1 n2 q. node_findValue sample_node_env CONSERVATIVE (sample_id 1) sample_node = (n1, None)
    \<and> node_completes sample_node_env 0 (map ValueResult [Some (sample_value\<lparr>v_sequenceNumber := 3\<rparr>), Some sample_value]) n1 = (n2, None) \<and> queries n2 0 = Some q
    \<and> outcome q = Some (FoundValue (Some sample_value))"
proof -
  obtain n1 err where f: "node_findValue sample_node_env CONSERVATIVE (sample_id 1) sample_node = (n1, err)" by fastforce
  define xs where "xs = [Some (sample_value\<lparr>v_sequenceNumber := 3\<rparr>), Some sample_value]"
  have s: "v_sequenceNumber sample_value = 70000" "isMutable sample_value" "isMutable (sample_value\<lparr>v_sequenceNumber := 3\<rparr>)" by (simp_all add: sample_value_def isMutable_def)
  have l: "db_getValue (sqlite (n_config sample_node_env)) (n_now sample_node_env) (sample_id 1) (n_storage sample_node) = Inr None"
    by (simp add: sample_node_env_def sample_world_defs db_getValue_def)
  have x: "int (length xs) = 2" "xs \<noteq> []" "\<not> set xs \<subseteq> {None}" by (simp_all add: xs_def)
  from value_lookup_best [OF _ _ _ x(2) _ l _ f] x obtain n2 q v where "err = None"
    and *: "node_completes sample_node_env 0 (map ValueResult xs) n1 = (n2, None)" "queries n2 0 = Some q" "outcome q = Some (FoundValue v)"
      "v \<noteq> None" "\<forall>u. v = Some u \<longrightarrow> Some u \<in> set xs"
      "(\<forall>w. Some w \<in> set xs \<longrightarrow> isMutable w) \<longrightarrow> (\<forall>u w. v = Some u \<longrightarrow> Some w \<in> set xs \<longrightarrow> v_sequenceNumber w \<le> v_sequenceNumber u)"
    unfolding sample_node_simps by (simp only: simp_thms option.distinct option.inject sample_id_not_min sample_node_simps) blast
  have "v = Some sample_value" using *(4-6) s by (fastforce simp: xs_def)
  then show ?thesis using f * \<open>err = None\<close> unfolding xs_def by blast
qed

text \<open>C38: A lookup of peers that waits for all DHTs reports every peer exactly once that a DHT returned or that the query of the local storage, which is limited by
  the expected number, returned, as long as the database works: no two of the reported peers agree in peer id, node id and origin, none was made up, and each one known is among them.\<close>

theorem peer_lookup_without_duplicates:
  assumes n: "isRunning n" "n_open n" "int (length xs) = numDHTs n" "xs \<noteq> []" and i: "\<not> id_eq i MIN_ID"
    and db: "healthy (sqlite (n_config e))" "\<not> inTransaction (n_storage n)"
      "db_getPeers (unf_nfc (n_config e)) (sqlite (n_config e)) (n_now e) i expected (n_storage n) = Inr ps"
    and asks: "node_findPeer e expected CONSERVATIVE i n = (n1, err)"
  shows "err = None \<and> (\<exists>n2 q rs. node_completes e (queryNames n) (map PeersResult xs) n1 = (n2, None) \<and> queries n2 (queryNames n) = Some q
    \<and> outcome q = Some (FoundPeers rs) \<and> peers_distinct rs \<and> set rs \<subseteq> set (ps @ concat xs) \<and> (\<forall>p\<in>set (ps @ concat xs). peer_known p rs))"
proof -
  obtain ks rs where a: "add_peers ps ([], []) = (ks, rs)" by fastforce
  note asked = findPeer_asks [OF n(1) i _ n(2) asks db(3) a, simplified]
  from add_peers_spec [of "ps @ concat xs" "[]" "[]"] obtain new where new: "add_peers (ps @ concat xs) ([], []) = (new, new)"
    "set new \<subseteq> set (ps @ concat xs)" "\<forall>p\<in>set (ps @ concat xs). peer_known p new" "peers_distinct new" by (auto simp: peers_distinct_def)
  have "add_peers (concat xs) (ks, rs) = (new, new)" using new(1) a by (simp add: add_peers_append)
  moreover have "\<not> inTransaction (n_storage n1)" "0 + int (length xs) = numDHTs n1" using asked(2,4) db(2) n(3) by simp_all
  ultimately have "\<exists>n2 q. node_completes e (queryNames n) (map PeersResult xs) n1 = (n2, None) \<and> queries n2 (queryNames n) = Some q \<and> outcome q = Some (FoundPeers new)"
    using peers_gathered [OF db(1) asked(5,3) _ n(4)] by simp
  then show ?thesis using asked(1) new(2-4) by blast
qed

theorem peer_lookup_without_duplicates_witness:
  "\<exists>n1 n2 q rs. node_findPeer sample_node_env 5 CONSERVATIVE (sample_id 1) sample_node = (n1, None)
    \<and> node_completes sample_node_env 0 (map PeersResult [[sample_peer], [sample_peer]]) n1 = (n2, None)
    \<and> queries n2 0 = Some q \<and> outcome q = Some (FoundPeers rs) \<and> peers_distinct rs \<and> set rs \<subseteq> {sample_peer} \<and> peer_known sample_peer rs"
proof -
  obtain n1 err where f: "node_findPeer sample_node_env 5 CONSERVATIVE (sample_id 1) sample_node = (n1, err)" by fastforce
  have l: "db_getPeers (unf_nfc (n_config sample_node_env)) (sqlite (n_config sample_node_env)) (n_now sample_node_env) (sample_id 1) 5 (n_storage sample_node) = Inr []"
    by (simp add: sample_node_env_def sample_world_defs db_getPeers_def Let_def)
  have h: "healthy (sqlite (n_config sample_node_env))" "\<not> inTransaction (n_storage sample_node)"
    by (simp_all add: sample_node_env_def sample_config_def) (simp add: sample_storage_def)
  define xs where "xs = [[sample_peer], [sample_peer]]"
  have x: "int (length xs) = 2" "xs \<noteq> []" "set (concat xs) = {sample_peer}" "\<forall>rs. (\<forall>y\<in>set xs. \<forall>p\<in>set y. peer_known p rs) \<longleftrightarrow> peer_known sample_peer rs" by (simp_all add: xs_def)
  from peer_lookup_without_duplicates [OF _ _ _ x(2) _ h l f] x have "err = None \<and> (\<exists>n2 q rs. node_completes sample_node_env 0 (map PeersResult xs) n1 = (n2, None)
    \<and> queries n2 0 = Some q \<and> outcome q = Some (FoundPeers rs) \<and> peers_distinct rs \<and> set rs \<subseteq> {sample_peer} \<and> peer_known sample_peer rs)" by simp
  then show ?thesis using f unfolding xs_def by blast
qed



text \<open>C40: An optimistic lookup with two DHTs throws: the first node found gives the future its value, and the answer of the other DHT sets it again,
  which is an exception in the handler.\<close>

theorem optimistic_lookup_throws:
  assumes "isRunning n" "\<not> id_eq i MIN_ID" "numDHTs n = 2" "node_findNode e OPTIMISTIC i n = (n1, err)"
  shows "err = None \<and> (\<exists>n2 q. node_complete e (queryNames n) (NodeResult (Some x)) n1 = (n2, None) \<and> queries n2 (queryNames n) = Some q
    \<and> outcome q = Some (FoundNodes [x]) \<and> snd (node_complete e (queryNames n) (NodeResult r) n2) = Some already_satisfied)"
proof -
  note asked = findNode_asks [OF assms(1,2) _ assms(4), simplified]
  show ?thesis using asked(1,2,4) assms(3) by (simp add: node_complete_def set_value_def Let_def)
qed

theorem optimistic_lookup_throws_witness:
  "\<exists>n1 n2. node_findNode sample_node_env OPTIMISTIC (sample_id 1) sample_node = (n1, None)
    \<and> node_complete sample_node_env 0 (NodeResult (Some \<lparr>nodeId = sample_id 1, sockaddr = sample_addr 1, version = 0\<rparr>)) n1 = (n2, None)
    \<and> snd (node_complete sample_node_env 0 (NodeResult None) n2) = Some already_satisfied"
proof -
  obtain n1 err where f: "node_findNode sample_node_env OPTIMISTIC (sample_id 1) sample_node = (n1, err)" by fastforce
  from optimistic_lookup_throws [OF _ _ _ f] f show ?thesis by fastforce
qed

end
